(* ===== verification/Prelude.thy ===== *)
theory Prelude
  imports Main "HOL-Library.Word" "HOL-Library.Sublist"
begin

text \<open>
  Shared vocabulary of the development: Go strings and the functions of Go's \<^verbatim>\<open>strings\<close>
  package the sources use, Go maps as association lists and as partial functions, and the
  generic stack of \<^verbatim>\<open>core/pkg/filter/util/stack.go\<close>, with the lemmas on them that the
  component theories use as simplification rules.

  A Go string is a sequence of bytes. HOL's \<^typ>\<open>string\<close> is a list of 8-bit characters, so the
  two agree byte for byte: \<open>length\<close> is Go's \<^verbatim>\<open>len\<close>, and \<open>take\<close> and \<open>drop\<close> are
  Go's slicing on bytes.
\<close>

named_theorems go_string_simps "functions of Go's strings package in terms of list operations"
named_theorems stack_simps "the operations of the generic stack on stacks of known contents"

section \<open>Go strings\<close>

definition hasPrefix :: "string \<Rightarrow> string \<Rightarrow> bool" where
  "hasPrefix s p = (length p \<le> length s \<and> take (length p) s = p)"

definition hasSuffix :: "string \<Rightarrow> string \<Rightarrow> bool" where
  "hasSuffix s p = (length p \<le> length s \<and> drop (length s - length p) s = p)"

text \<open>\<^verbatim>\<open>strings.Contains\<close>: some suffix of the string starts with the pattern.\<close>

fun containsStr :: "string \<Rightarrow> string \<Rightarrow> bool" where
  "containsStr [] p = (p = [])"
| "containsStr (c # s) p = (hasPrefix (c # s) p \<or> containsStr s p)"

text \<open>
  \<^verbatim>\<open>strings.Index\<close> and \<^verbatim>\<open>strings.LastIndex\<close> of a one-byte pattern; \<open>None\<close> is Go's
  \<open>-1\<close>.
\<close>

fun indexByte :: "string \<Rightarrow> char \<Rightarrow> nat option" where
  "indexByte [] c = None"
| "indexByte (x # xs) c = (if x = c then Some 0 else map_option Suc (indexByte xs c))"

fun lastIndexByte :: "string \<Rightarrow> char \<Rightarrow> nat option" where
  "lastIndexByte [] c = None"
| "lastIndexByte (x # xs) c =
     (case lastIndexByte xs c of Some i \<Rightarrow> Some (Suc i) | None \<Rightarrow> if x = c then Some 0 else None)"

text \<open>The slice \<^verbatim>\<open>s[i:j]\<close> for \<open>i \<le> j \<le> len(s)\<close>.\<close>

definition substr :: "nat \<Rightarrow> nat \<Rightarrow> 'a list \<Rightarrow> 'a list" where
  "substr i j s = take (j - i) (drop i s)"

text \<open>\<^verbatim>\<open>strings.Repeat\<close>.\<close>

definition repeatStr :: "string \<Rightarrow> nat \<Rightarrow> string" where
  "repeatStr s n = concat (replicate n s)"

lemma hasPrefix_iff [go_string_simps]: "hasPrefix s p \<longleftrightarrow> (\<exists>t. s = p @ t)"
proof
  assume h: "hasPrefix s p"
  have "s = take (length p) s @ drop (length p) s" by simp
  with h show "\<exists>t. s = p @ t" unfolding hasPrefix_def by metis
qed (auto simp: hasPrefix_def)

lemma hasSuffix_iff [go_string_simps]: "hasSuffix s p \<longleftrightarrow> (\<exists>t. s = t @ p)"
proof
  assume h: "hasSuffix s p"
  have "s = take (length s - length p) s @ drop (length s - length p) s" by simp
  with h show "\<exists>t. s = t @ p" unfolding hasSuffix_def by metis
qed (auto simp: hasSuffix_def)

lemma containsStr_iff [go_string_simps]: "containsStr s p \<longleftrightarrow> (\<exists>t u. s = t @ p @ u)"
proof (induction s)
  case Nil
  then show ?case by auto
next
  case (Cons c s)
  have "(\<exists>t u. c # s = t @ p @ u) \<longleftrightarrow> (\<exists>u. c # s = p @ u) \<or> (\<exists>t u. s = t @ p @ u)"
    by (metis append_Cons append_Nil list.inject neq_Nil_conv)
  with Cons.IH show ?case by (simp add: hasPrefix_iff)
qed

lemma indexByte_append: "c \<notin> set s \<Longrightarrow> indexByte (s @ c # t) c = Some (length s)"
  by (induction s) auto

lemma indexByte_None_iff: "indexByte s c = None \<longleftrightarrow> c \<notin> set s"
  by (induction s) auto

lemma lastIndexByte_None_iff: "lastIndexByte s c = None \<longleftrightarrow> c \<notin> set s"
  by (induction s) (auto split: option.splits)

lemma lastIndexByte_append: "c \<notin> set t \<Longrightarrow> lastIndexByte (s @ c # t) c = Some (length s)"
proof (induction s)
  case Nil
  then have "lastIndexByte t c = None" using lastIndexByte_None_iff [of t c] by blast
  then show ?case by simp
qed simp

lemma substr_append [simp]: "substr 0 (length s) (s @ t) = s"
  by (simp add: substr_def)

lemma substr_middle: "substr (length s) (length s + length t) (s @ t @ u) = t"
  by (simp add: substr_def)

section \<open>Go maps\<close>

text \<open>
  A \<^verbatim>\<open>map[string]string\<close> whose iteration order cannot be observed is an association list;
  reading a missing key gives Go's zero value.
\<close>

type_synonym 'v gomap = "(string \<times> 'v) list"

definition mapHas :: "'v gomap \<Rightarrow> string \<Rightarrow> bool" where
  "mapHas m k = (map_of m k \<noteq> None)"

definition mapStr :: "string gomap \<Rightarrow> string \<Rightarrow> string" where
  "mapStr m k = (case map_of m k of Some v \<Rightarrow> v | None \<Rightarrow> [])"

lemma mapHas_iff: "mapHas m k \<longleftrightarrow> k \<in> fst ` set m"
  by (auto simp: mapHas_def map_of_eq_None_iff)

section \<open>The generic stack\<close>

text \<open>
  \<^verbatim>\<open>Stack[T]\<close>: a linked list of nodes and a length field. Popping or reading the top of an
  empty stack returns the zero value of the element type, an argument here.
\<close>

record 'a stack =
  stk_nodes :: "'a list"
  stk_length :: nat

definition NewStack :: "'a stack" where
  "NewStack = \<lparr>stk_nodes = [], stk_length = 0\<rparr>"

definition Push :: "'a \<Rightarrow> 'a stack \<Rightarrow> 'a stack" where
  "Push v s = \<lparr>stk_nodes = v # stk_nodes s, stk_length = stk_length s + 1\<rparr>"

definition Pop :: "'a \<Rightarrow> 'a stack \<Rightarrow> 'a \<times> 'a stack" where
  "Pop dflt s =
     (if stk_length s = 0 then (dflt, s)
      else (case stk_nodes s of
              n # previous \<Rightarrow> (n, \<lparr>stk_nodes = previous, stk_length = stk_length s - 1\<rparr>)
            | [] \<Rightarrow> (dflt, s)))"

definition Top :: "'a \<Rightarrow> 'a stack \<Rightarrow> 'a" where
  "Top dflt s = (if stk_length s = 0 then dflt else (case stk_nodes s of n # _ \<Rightarrow> n | [] \<Rightarrow> dflt))"

definition Length :: "'a stack \<Rightarrow> nat" where
  "Length s = stk_length s"

text \<open>
  \<^verbatim>\<open>Top().Add(m)\<close> mutates the group the top node points to: the node stays in place and its
  group is replaced.
\<close>

definition UpdateTop :: "('a \<Rightarrow> 'a) \<Rightarrow> 'a stack \<Rightarrow> 'a stack" where
  "UpdateTop f s = s\<lparr>stk_nodes := (case stk_nodes s of n # ns \<Rightarrow> f n # ns | [] \<Rightarrow> [])\<rparr>"

text \<open>A well-formed stack: the length field counts the nodes.\<close>

definition stk :: "'a list \<Rightarrow> 'a stack" where
  "stk xs = \<lparr>stk_nodes = xs, stk_length = length xs\<rparr>"

lemma stk_NewStack [stack_simps]: "NewStack = stk []"
  by (simp add: NewStack_def stk_def)

lemma stk_Push [stack_simps]: "Push v (stk xs) = stk (v # xs)"
  by (simp add: Push_def stk_def)

lemma stk_Pop [stack_simps]: "Pop d (stk (x # xs)) = (x, stk xs)"
  by (simp add: Pop_def stk_def)

lemma stk_Pop_empty [stack_simps]: "Pop d (stk []) = (d, stk [])"
  by (simp add: Pop_def stk_def)

lemma stk_Top [stack_simps]: "Top d (stk (x # xs)) = x"
  by (simp add: Top_def stk_def)

lemma stk_Length [stack_simps]: "Length (stk xs) = length xs"
  by (simp add: Length_def stk_def)

lemma stk_UpdateTop [stack_simps]: "UpdateTop f (stk (x # xs)) = stk (f x # xs)"
  by (simp add: UpdateTop_def stk_def)

end
