(* ===== verification/Filter_Ast.thy ===== *)
theory Filter_Ast
  imports Prelude
begin

text \<open>
  The abstract syntax of the filter language, \<^verbatim>\<open>core/pkg/filter/ast\<close>: fields
  (\<^verbatim>\<open>fields.go\<close>), operators (\<^verbatim>\<open>ops.go\<close>), identifiers (\<^verbatim>\<open>tree.go\<close>) and the tree walkers
  (\<^verbatim>\<open>walker.go\<close>). A nil interface value is the constructor \<open>NilNode\<close>; a nil
  \<^verbatim>\<open>*Field\<close> is \<open>None\<close>. A method call through a nil pointer panics in Go; such results
  are \<open>None\<close> of an option type here.
\<close>

unbundle bit_operations_syntax

section \<open>Fields\<close>

type_synonym fieldType = "64 word"
type_synonym fieldAttribute = "64 word"

definition FieldTypeDefault :: fieldType where "FieldTypeDefault = push_bit 0 1"
definition FieldTypeSlice :: fieldType where "FieldTypeSlice = push_bit 1 1"
definition FieldTypeMap :: fieldType where "FieldTypeMap = push_bit 2 1"
definition FieldTypeAlias :: fieldType where "FieldTypeAlias = push_bit 3 1"
definition FieldAttributeNilable :: fieldAttribute where "FieldAttributeNilable = push_bit (0 + 4) 1"

definition ftSet :: "fieldAttribute \<Rightarrow> fieldType \<Rightarrow> fieldType" where
  "ftSet attr ft = ft OR attr"

definition ftUnset :: "fieldAttribute \<Rightarrow> fieldType \<Rightarrow> fieldType" where
  "ftUnset attr ft = ft AND NOT attr"

definition ftIs :: "fieldType \<Rightarrow> fieldAttribute \<Rightarrow> bool" where
  "ftIs ft attr = (ft AND attr \<noteq> 0)"

definition ftIsDefault :: "fieldType \<Rightarrow> bool" where
  "ftIsDefault ft = (ft AND FieldTypeDefault \<noteq> 0)"

definition ftIsSlice :: "fieldType \<Rightarrow> bool" where
  "ftIsSlice ft = (ft AND FieldTypeSlice \<noteq> 0)"

definition ftIsMap :: "fieldType \<Rightarrow> bool" where
  "ftIsMap ft = (ft AND FieldTypeMap \<noteq> 0)"

definition ftIsAlias :: "fieldType \<Rightarrow> bool" where
  "ftIsAlias ft = (ft AND FieldTypeAlias \<noteq> 0)"

definition fieldTypeWithAttributes :: "fieldType \<Rightarrow> fieldAttribute list \<Rightarrow> fieldType" where
  "fieldTypeWithAttributes ft attrs = fold ftSet attrs ft"

record astField =
  fld_Name :: string
  fld_type :: fieldType

text \<open>\<^verbatim>\<open>(*Field).Equal\<close>: false as soon as one side is nil.\<close>

definition fieldEqual :: "astField option \<Rightarrow> astField option \<Rightarrow> bool" where
  "fieldEqual f other =
     (case (f, other) of
        (Some a, Some b) \<Rightarrow> fld_Name a = fld_Name b \<and> fld_type a = fld_type b
      | _ \<Rightarrow> False)"

definition isSlice :: "astField \<Rightarrow> bool" where "isSlice f = ftIsSlice (fld_type f)"
definition isMap :: "astField \<Rightarrow> bool" where "isMap f = ftIsMap (fld_type f)"
definition isAlias :: "astField \<Rightarrow> bool" where "isAlias f = ftIsAlias (fld_type f)"
definition isNilable :: "astField \<Rightarrow> bool" where "isNilable f = ftIs (fld_type f) FieldAttributeNilable"

definition NewField :: "string \<Rightarrow> fieldAttribute list \<Rightarrow> astField" where
  "NewField name attrs =
     \<lparr>fld_Name = name, fld_type = fieldTypeWithAttributes FieldTypeDefault attrs\<rparr>"

definition NewSliceField :: "string \<Rightarrow> fieldAttribute list \<Rightarrow> astField" where
  "NewSliceField name attrs =
     \<lparr>fld_Name = name, fld_type = fieldTypeWithAttributes FieldTypeSlice attrs\<rparr>"

definition NewMapField :: "string \<Rightarrow> fieldAttribute list \<Rightarrow> astField" where
  "NewMapField name attrs =
     \<lparr>fld_Name = name, fld_type = fieldTypeWithAttributes FieldTypeMap attrs\<rparr>"

definition NewAliasField :: "string \<Rightarrow> fieldAttribute list \<Rightarrow> astField" where
  "NewAliasField name attrs =
     \<lparr>fld_Name = name, fld_type = fieldTypeWithAttributes FieldTypeAlias attrs\<rparr>"

section \<open>Identifiers, operators and nodes\<close>

record ident =
  id_Field :: "astField option"
  id_Key :: string

definition identifierEqual :: "ident \<Rightarrow> ident \<Rightarrow> bool" where
  "identifierEqual i j = (fieldEqual (id_Field i) (id_Field j) \<and> id_Key i = id_Key j)"

definition identifierString :: "ident \<Rightarrow> string" where
  "identifierString i =
     (case id_Field i of
        None \<Rightarrow> ''<nil field>''
      | Some f \<Rightarrow> fld_Name f @ (if id_Key i \<noteq> [] then ''['' @ id_Key i @ '']'' else []))"

datatype filterOp =
    FilterOpEquals | FilterOpNotEquals
  | FilterOpContains | FilterOpNotContains
  | FilterOpContainsPrefix | FilterOpNotContainsPrefix
  | FilterOpContainsSuffix | FilterOpNotContainsSuffix
  | FilterOpVoid | FilterOpContradiction | FilterOpAnd | FilterOpOr | FilterOpNot

fun filterOpString :: "filterOp \<Rightarrow> string" where
  "filterOpString FilterOpEquals = ''equals''"
| "filterOpString FilterOpNotEquals = ''notequals''"
| "filterOpString FilterOpContains = ''contains''"
| "filterOpString FilterOpNotContains = ''notcontains''"
| "filterOpString FilterOpContainsPrefix = ''containsprefix''"
| "filterOpString FilterOpNotContainsPrefix = ''notcontainsprefix''"
| "filterOpString FilterOpContainsSuffix = ''containssuffix''"
| "filterOpString FilterOpNotContainsSuffix = ''notcontainssuffix''"
| "filterOpString FilterOpVoid = ''void''"
| "filterOpString FilterOpContradiction = ''contradiction''"
| "filterOpString FilterOpAnd = ''and''"
| "filterOpString FilterOpOr = ''or''"
| "filterOpString FilterOpNot = ''not''"

datatype filterNode =
    NilNode
  | VoidOp
  | ContradictionOp
  | AndOp (Operands: "filterNode list")
  | OrOp (Operands: "filterNode list")
  | NotOp filterNode
  | EqualOp ident string
  | ContainsOp ident string
  | ContainsPrefixOp ident string
  | ContainsSuffixOp ident string

text \<open>The method \<^verbatim>\<open>Op()\<close>; calling it on a nil interface panics.\<close>

fun nodeOp :: "filterNode \<Rightarrow> filterOp option" where
  "nodeOp NilNode = None"
| "nodeOp VoidOp = Some FilterOpVoid"
| "nodeOp ContradictionOp = Some FilterOpContradiction"
| "nodeOp (AndOp _) = Some FilterOpAnd"
| "nodeOp (OrOp _) = Some FilterOpOr"
| "nodeOp (NotOp _) = Some FilterOpNot"
| "nodeOp (EqualOp _ _) = Some FilterOpEquals"
| "nodeOp (ContainsOp _ _) = Some FilterOpContains"
| "nodeOp (ContainsPrefixOp _ _) = Some FilterOpContainsPrefix"
| "nodeOp (ContainsSuffixOp _ _) = Some FilterOpContainsSuffix"

text \<open>
  \<^verbatim>\<open>FilterGroup.Add\<close>: appends to an And or an Or, replaces the operand of a Not. The other
  nodes do not implement the interface.
\<close>

fun nodeAdd :: "filterNode \<Rightarrow> filterNode \<Rightarrow> filterNode" where
  "nodeAdd (AndOp ns) n = AndOp (ns @ [n])"
| "nodeAdd (OrOp ns) n = OrOp (ns @ [n])"
| "nodeAdd (NotOp _) n = NotOp n"
| "nodeAdd g n = g"

definition astNot :: "filterNode \<Rightarrow> filterNode" where
  "astNot fn = NotOp fn"

definition isVoid :: "filterNode \<Rightarrow> bool" where
  "isVoid fn = (fn = VoidOp)"

text \<open>The operators \<^verbatim>\<open>PreOrderTraversal\<close> treats as groups, and the comparison leaves.\<close>

fun isGroup :: "filterNode \<Rightarrow> bool" where
  "isGroup (AndOp _) = True"
| "isGroup (OrOp _) = True"
| "isGroup (NotOp _) = True"
| "isGroup _ = False"

fun leafParts :: "filterNode \<Rightarrow> (filterOp \<times> ident \<times> string) option" where
  "leafParts (EqualOp i v) = Some (FilterOpEquals, i, v)"
| "leafParts (ContainsOp i v) = Some (FilterOpContains, i, v)"
| "leafParts (ContainsPrefixOp i v) = Some (FilterOpContainsPrefix, i, v)"
| "leafParts (ContainsSuffixOp i v) = Some (FilterOpContainsSuffix, i, v)"
| "leafParts _ = None"

end
