(* ===== verification/Filter_Walker.thy ===== *)
theory Filter_Walker
  imports Filter_Ast
begin

text \<open>
  The tree walkers of \<^verbatim>\<open>core/pkg/filter/ast/walker.go\<close>. A Go callback with captured
  variables is a function that threads the captured state. Three walkers of the code base
  (\<^verbatim>\<open>ast.Clone\<close>, the match compiler and the text compiler) share one scheme: a stack of open
  groups driven by \<^verbatim>\<open>PreOrderTraversal\<close>. The locale \<open>group_walk\<close> states what their
  callbacks have in common and proves once that such a walk computes a structural fold over
  the tree; each walker interprets it.
\<close>

section \<open>Traversal\<close>

datatype traversalState = TraversalStateNone | TraversalStateEnter | TraversalStateExit

fun PreOrderTraversal ::
  "filterNode \<Rightarrow> (filterNode \<Rightarrow> traversalState \<Rightarrow> 's \<Rightarrow> 's) \<Rightarrow> 's \<Rightarrow> 's" where
  "PreOrderTraversal NilNode f s = s"
| "PreOrderTraversal (NotOp n) f s =
     f (NotOp n) TraversalStateExit
       (PreOrderTraversal n f (f (NotOp n) TraversalStateEnter s))"
| "PreOrderTraversal (AndOp ns) f s =
     f (AndOp ns) TraversalStateExit
       (fold (\<lambda>o'. PreOrderTraversal o' f) ns (f (AndOp ns) TraversalStateEnter s))"
| "PreOrderTraversal (OrOp ns) f s =
     f (OrOp ns) TraversalStateExit
       (fold (\<lambda>o'. PreOrderTraversal o' f) ns (f (OrOp ns) TraversalStateEnter s))"
| "PreOrderTraversal node f s = f node TraversalStateNone s"

text \<open>\<^verbatim>\<open>TransformLeaves\<close>, with the state the transformer closure captures threaded through.\<close>

fun TransformLeaves ::
  "filterNode \<Rightarrow> (filterNode \<Rightarrow> 's \<Rightarrow> filterNode \<times> 's) \<Rightarrow> 's \<Rightarrow> filterNode \<times> 's"
and TransformOperands ::
  "filterNode list \<Rightarrow> (filterNode \<Rightarrow> 's \<Rightarrow> filterNode \<times> 's) \<Rightarrow> 's \<Rightarrow> filterNode list \<times> 's" where
  "TransformLeaves NilNode t s = (NilNode, s)"
| "TransformLeaves (NotOp n) t s =
     (let (n', s') = TransformLeaves n t s in (NotOp n', s'))"
| "TransformLeaves (AndOp ns) t s =
     (let (ns', s') = TransformOperands ns t s in (AndOp ns', s'))"
| "TransformLeaves (OrOp ns) t s =
     (let (ns', s') = TransformOperands ns t s in (OrOp ns', s'))"
| "TransformLeaves node t s = t node s"
| "TransformOperands [] t s = ([], s)"
| "TransformOperands (n # ns) t s =
     (let (n', s') = TransformLeaves n t s; (ns', s'') = TransformOperands ns t s'
      in (n' # ns', s''))"

section \<open>Printing\<close>

text \<open>
  The case mappings \<^verbatim>\<open>titleCaser.String\<close> and \<^verbatim>\<open>lowerCaser.String\<close> belong to
  \<^verbatim>\<open>golang.org/x/text/cases\<close> and are arguments of the printers.
\<close>

definition indent :: "int \<Rightarrow> string" where
  "indent depth = (if depth \<le> 0 then [] else repeatStr ''  '' (nat depth))"

definition nodeOpString :: "filterNode \<Rightarrow> string" where
  "nodeOpString node = (case nodeOp node of Some op \<Rightarrow> filterOpString op | None \<Rightarrow> [])"

definition OpStringFor ::
  "(string \<Rightarrow> string) \<Rightarrow> filterNode \<Rightarrow> traversalState \<Rightarrow> int \<Rightarrow> string" where
  "OpStringFor title node ts depth =
     (if ts = TraversalStateExit then indent depth @ ''}\<newline>''
      else if ts = TraversalStateEnter
      then indent depth @ title (nodeOpString node) @ '' {\<newline>''
      else indent depth @ title (nodeOpString node) @ '' { '' @
        (case node of
           VoidOp \<Rightarrow> ''Empty }\<newline>''
         | EqualOp l r \<Rightarrow> ''Left: '' @ identifierString l @ '', Right: '' @ r @ '' }\<newline>''
         | ContainsOp l r \<Rightarrow> ''Left: '' @ identifierString l @ '', Right: '' @ r @ '' }\<newline>''
         | ContainsPrefixOp l r \<Rightarrow>
             ''Left: '' @ identifierString l @ '', Right: '' @ r @ '' }\<newline>''
         | ContainsSuffixOp l r \<Rightarrow>
             ''Left: '' @ identifierString l @ '', Right: '' @ r @ '' }\<newline>''
         | _ \<Rightarrow> ''}\<newline>''))"

text \<open>The callback of \<^verbatim>\<open>ToPreOrderString\<close> captures the builder and the indentation.\<close>

definition printNode ::
  "(string \<Rightarrow> string) \<Rightarrow> filterNode \<Rightarrow> traversalState \<Rightarrow> string \<times> int \<Rightarrow> string \<times> int" where
  "printNode title n action = (\<lambda>(sb, ind).
     (if action = TraversalStateEnter then (sb @ OpStringFor title n action ind, ind + 1)
      else if action = TraversalStateExit
      then (sb @ OpStringFor title n action (ind - 1), ind - 1)
      else (sb @ OpStringFor title n action ind, ind)))"

definition ToPreOrderString :: "(string \<Rightarrow> string) \<Rightarrow> filterNode \<Rightarrow> string" where
  "ToPreOrderString title node = fst (PreOrderTraversal node (printNode title) ([], 0))"

definition condense :: "(string \<Rightarrow> string) \<Rightarrow> string \<Rightarrow> string" where
  "condense lower s = (let lc = lower s in if length lc > 2 then take 2 lc else lc)"

text \<open>\<^verbatim>\<open>condenseIdent\<close> reads the field's name through the pointer: \<open>None\<close> is the nil panic.\<close>

definition condenseIdent :: "(string \<Rightarrow> string) \<Rightarrow> ident \<Rightarrow> string option" where
  "condenseIdent lower i =
     (case id_Field i of
        None \<Rightarrow> None
      | Some f \<Rightarrow> Some (condense lower (fld_Name f) @
                        (if id_Key i \<noteq> [] then ''['' @ id_Key i @ '']'' else [])))"

definition ShortOpStringFor ::
  "(string \<Rightarrow> string) \<Rightarrow> filterNode \<Rightarrow> traversalState \<Rightarrow> string option" where
  "ShortOpStringFor lower node ts =
     (if ts = TraversalStateExit then Some '')''
      else if ts = TraversalStateEnter then Some (lower (nodeOpString node) @ ''('')
      else map_option (\<lambda>rest. lower (nodeOpString node) @ ''('' @ rest)
        (case node of
           VoidOp \<Rightarrow> Some '')''
         | EqualOp l r \<Rightarrow> map_option (\<lambda>c. c @ '','' @ r @ '')'') (condenseIdent lower l)
         | ContainsOp l r \<Rightarrow> map_option (\<lambda>c. c @ '','' @ r @ '')'') (condenseIdent lower l)
         | ContainsPrefixOp l r \<Rightarrow> map_option (\<lambda>c. c @ '','' @ r @ '')'') (condenseIdent lower l)
         | ContainsSuffixOp l r \<Rightarrow> map_option (\<lambda>c. c @ '','' @ r @ '')'') (condenseIdent lower l)
         | _ \<Rightarrow> Some '')''))"

definition printShortNode ::
  "(string \<Rightarrow> string) \<Rightarrow> filterNode \<Rightarrow> traversalState \<Rightarrow> string option \<Rightarrow> string option" where
  "printShortNode lower n action sb =
     (case sb of
        None \<Rightarrow> None
      | Some s \<Rightarrow> map_option (\<lambda>t. s @ t) (ShortOpStringFor lower n action))"

definition ToPreOrderShortString :: "(string \<Rightarrow> string) \<Rightarrow> filterNode \<Rightarrow> string option" where
  "ToPreOrderShortString lower node = PreOrderTraversal node (printShortNode lower) (Some [])"

section \<open>Clone\<close>

text \<open>The variables the callback of \<^verbatim>\<open>Clone\<close> captures.\<close>

record cloneState =
  cl_result :: filterNode
  cl_currentOps :: "filterNode stack"

definition emptyField :: astField where
  "emptyField = \<lparr>fld_Name = [], fld_type = 0\<rparr>"

definition cloneIdent :: "ident \<Rightarrow> ident" where
  "cloneIdent i =
     \<lparr>id_Field = Some (case id_Field i of Some f \<Rightarrow> f | None \<Rightarrow> emptyField), id_Key = id_Key i\<rparr>"

definition clonePut :: "filterNode \<Rightarrow> cloneState \<Rightarrow> cloneState" where
  "clonePut sm st =
     (if Length (cl_currentOps st) = 0 then st\<lparr>cl_result := sm\<rparr>
      else st\<lparr>cl_currentOps := UpdateTop (\<lambda>g. nodeAdd g sm) (cl_currentOps st)\<rparr>)"

definition cloneGroup :: "filterNode \<Rightarrow> traversalState \<Rightarrow> cloneState \<Rightarrow> cloneState" where
  "cloneGroup fresh state st =
     (if state = TraversalStateEnter
      then st\<lparr>cl_currentOps := Push fresh (cl_currentOps st)\<rparr>
      else if state = TraversalStateExit
      then (if Length (cl_currentOps st) > 1
            then (let (current, rest) = Pop NilNode (cl_currentOps st)
                  in st\<lparr>cl_currentOps := UpdateTop (\<lambda>g. nodeAdd g current) rest\<rparr>)
            else (let (current, rest) = Pop NilNode (cl_currentOps st)
                  in st\<lparr>cl_result := current, cl_currentOps := rest\<rparr>))
      else st)"

fun cloneHandle :: "filterNode \<Rightarrow> traversalState \<Rightarrow> cloneState \<Rightarrow> cloneState" where
  "cloneHandle (AndOp _) state st = cloneGroup (AndOp []) state st"
| "cloneHandle (OrOp _) state st = cloneGroup (OrOp []) state st"
| "cloneHandle (NotOp _) state st = cloneGroup (NotOp NilNode) state st"
| "cloneHandle ContradictionOp state st = clonePut ContradictionOp st"
| "cloneHandle (EqualOp l r) state st = clonePut (EqualOp (cloneIdent l) r) st"
| "cloneHandle (ContainsOp l r) state st = clonePut (ContainsOp (cloneIdent l) r) st"
| "cloneHandle (ContainsPrefixOp l r) state st = clonePut (ContainsPrefixOp (cloneIdent l) r) st"
| "cloneHandle (ContainsSuffixOp l r) state st = clonePut (ContainsSuffixOp (cloneIdent l) r) st"
| "cloneHandle VoidOp state st = st"
| "cloneHandle NilNode state st = st"

definition Clone :: "filterNode \<Rightarrow> filterNode" where
  "Clone root = cl_result (PreOrderTraversal root cloneHandle
     \<lparr>cl_result = VoidOp, cl_currentOps = NewStack\<rparr>)"

section \<open>Fields\<close>

text \<open>
  The callback of \<^verbatim>\<open>Fields\<close> collects the fields of the comparison leaves into a set; the
  function returns them sorted by name. Go iterates a map here, so fields of equal name come in
  an unspecified order; the model orders those by first occurrence.
\<close>

definition fieldsHandle :: "filterNode \<Rightarrow> traversalState \<Rightarrow> astField list \<Rightarrow> astField list" where
  "fieldsHandle fn state fs =
     (case leafParts fn of
        Some (_, l, _) \<Rightarrow>
          (case id_Field l of
             Some f \<Rightarrow> (if f \<in> set fs then fs else fs @ [f])
           | None \<Rightarrow> fs)
      | None \<Rightarrow> fs)"

text \<open>Go compares strings by their bytes.\<close>

fun strLess :: "string \<Rightarrow> string \<Rightarrow> bool" where
  "strLess [] [] = False"
| "strLess [] (_ # _) = True"
| "strLess (_ # _) [] = False"
| "strLess (a # as) (b # bs) =
     ((of_char a :: nat) < of_char b \<or> (a = b \<and> strLess as bs))"

fun insertByName :: "astField \<Rightarrow> astField list \<Rightarrow> astField list" where
  "insertByName f [] = [f]"
| "insertByName f (g # gs) =
     (if strLess (fld_Name g) (fld_Name f) then g # insertByName f gs else f # g # gs)"

definition Fields :: "filterNode \<Rightarrow> astField list" where
  "Fields root = foldr insertByName (PreOrderTraversal root fieldsHandle []) []"

section \<open>Walks with a stack of groups\<close>

text \<open>The leaves a traversal visits, in order.\<close>

fun leaves :: "filterNode \<Rightarrow> filterNode list" where
  "leaves NilNode = []"
| "leaves (NotOp n) = leaves n"
| "leaves (AndOp ns) = concat (map leaves ns)"
| "leaves (OrOp ns) = concat (map leaves ns)"
| "leaves n = [n]"

definition addOpt :: "('g \<Rightarrow> 'm \<Rightarrow> 'g) \<Rightarrow> 'm option \<Rightarrow> 'g \<Rightarrow> 'g" where
  "addOpt add m g = (case m of None \<Rightarrow> g | Some x \<Rightarrow> add g x)"

text \<open>
  The structural meaning of a walk: a group is built fresh, receives the results of its
  operands in order and is closed; an operand without a result leaves the group as it is.
\<close>

fun groupFold ::
  "(filterNode \<Rightarrow> 'g) \<Rightarrow> ('g \<Rightarrow> 'm \<Rightarrow> 'g) \<Rightarrow> ('g \<Rightarrow> 'm) \<Rightarrow> (filterNode \<Rightarrow> 'm option) \<Rightarrow>
    filterNode \<Rightarrow> 'm option" where
  "groupFold fresh add close leaf NilNode = None"
| "groupFold fresh add close leaf (NotOp n) =
     Some (close (addOpt add (groupFold fresh add close leaf n) (fresh (NotOp n))))"
| "groupFold fresh add close leaf (AndOp ns) =
     Some (close (fold (\<lambda>o'. addOpt add (groupFold fresh add close leaf o')) ns (fresh (AndOp ns))))"
| "groupFold fresh add close leaf (OrOp ns) =
     Some (close (fold (\<lambda>o'. addOpt add (groupFold fresh add close leaf o')) ns (fresh (OrOp ns))))"
| "groupFold fresh add close leaf n = leaf n"

lemma addOpt_simps [simp]:
  "addOpt add None g = g"
  "addOpt add (Some m) g = add g m"
  by (simp_all add: addOpt_def)

text \<open>
  The contract of a callback over states \<open>mkst e r gs\<close>: \<open>gs\<close> are the open groups, \<open>r\<close>
  the result variable and \<open>e\<close> whatever else the callback captures.
\<close>

locale group_walk =
  fixes handle :: "filterNode \<Rightarrow> traversalState \<Rightarrow> 's \<Rightarrow> 's"
    and mkst :: "'e \<Rightarrow> 'm option \<Rightarrow> 'g list \<Rightarrow> 's"
    and fresh :: "filterNode \<Rightarrow> 'g"
    and add :: "'g \<Rightarrow> 'm \<Rightarrow> 'g"
    and close :: "'g \<Rightarrow> 'm"
    and leaf :: "filterNode \<Rightarrow> 'm option"
    and note' :: "filterNode \<Rightarrow> 'e \<Rightarrow> 'e"
    and ok :: "filterNode \<Rightarrow> bool"
  assumes enter: "isGroup n \<Longrightarrow> handle n TraversalStateEnter (mkst e r gs) = mkst e r (fresh n # gs)"
    and exit_nested: "isGroup n \<Longrightarrow>
      handle n TraversalStateExit (mkst e r (g # g' # gs)) = mkst e r (add g' (close g) # gs)"
    and exit_root: "isGroup n \<Longrightarrow>
      handle n TraversalStateExit (mkst e r [g]) = mkst e (Some (close g)) []"
    and leaf_skip: "\<not> isGroup n \<Longrightarrow> n \<noteq> NilNode \<Longrightarrow> ok n \<Longrightarrow> leaf n = None \<Longrightarrow>
      handle n TraversalStateNone (mkst e r gs) = mkst (note' n e) r gs"
    and leaf_nested: "\<not> isGroup n \<Longrightarrow> n \<noteq> NilNode \<Longrightarrow> ok n \<Longrightarrow> leaf n = Some m \<Longrightarrow>
      handle n TraversalStateNone (mkst e r (g # gs)) = mkst (note' n e) r (add g m # gs)"
    and leaf_root: "\<not> isGroup n \<Longrightarrow> n \<noteq> NilNode \<Longrightarrow> ok n \<Longrightarrow> leaf n = Some m \<Longrightarrow>
      handle n TraversalStateNone (mkst e r []) = mkst (note' n e) (Some m) []"
begin

abbreviation gfold :: "filterNode \<Rightarrow> 'm option" where
  "gfold \<equiv> groupFold fresh add close leaf"

lemma leaf_step_nested:
  assumes "\<not> isGroup n" and "n \<noteq> NilNode" and "ok n"
  shows "handle n TraversalStateNone (mkst e r (g # gs)) =
    mkst (note' n e) r (addOpt add (leaf n) g # gs)"
  using assms leaf_skip leaf_nested by (cases "leaf n") auto

lemma leaf_step_root:
  assumes "\<not> isGroup n" and "n \<noteq> NilNode" and "ok n"
  shows "handle n TraversalStateNone (mkst e r []) =
    mkst (note' n e) (case leaf n of None \<Rightarrow> r | Some m \<Rightarrow> Some m) []"
  using assms leaf_skip leaf_root by (cases "leaf n") auto

text \<open>A list of operands under an open group.\<close>

lemma walk_operands:
  assumes "\<And>n e g. n \<in> set ns \<Longrightarrow>
      PreOrderTraversal n handle (mkst e r (g # gs)) =
        mkst (fold note' (leaves n) e) r (addOpt add (gfold n) g # gs)"
  shows "fold (\<lambda>n. PreOrderTraversal n handle) ns (mkst e r (g # gs)) =
    mkst (fold note' (concat (map leaves ns)) e) r (fold (\<lambda>n. addOpt add (gfold n)) ns g # gs)"
  using assms by (induction ns arbitrary: e g) (simp_all add: fold_append)

lemma walk_nested:
  assumes "\<forall>l \<in> set (leaves n). ok l"
  shows "PreOrderTraversal n handle (mkst e r (g # gs)) =
    mkst (fold note' (leaves n) e) r (addOpt add (gfold n) g # gs)"
  using assms
proof (induction n arbitrary: e g gs)
  case (AndOp ns)
  have "fold (\<lambda>n. PreOrderTraversal n handle) ns (mkst e r (fresh (AndOp ns) # g # gs)) =
    mkst (fold note' (concat (map leaves ns)) e) r
      (fold (\<lambda>n. addOpt add (gfold n)) ns (fresh (AndOp ns)) # g # gs)"
    by (rule walk_operands) (use AndOp in auto)
  then show ?case by (simp add: enter exit_nested)
next
  case (OrOp ns)
  have "fold (\<lambda>n. PreOrderTraversal n handle) ns (mkst e r (fresh (OrOp ns) # g # gs)) =
    mkst (fold note' (concat (map leaves ns)) e) r
      (fold (\<lambda>n. addOpt add (gfold n)) ns (fresh (OrOp ns)) # g # gs)"
    by (rule walk_operands) (use OrOp in auto)
  then show ?case by (simp add: enter exit_nested)
next
  case (NotOp n)
  then show ?case by (simp add: enter exit_nested)
qed (simp_all add: leaf_step_nested)

lemma walk_root:
  assumes "\<forall>l \<in> set (leaves n). ok l"
  shows "PreOrderTraversal n handle (mkst e r []) =
    mkst (fold note' (leaves n) e) (case gfold n of None \<Rightarrow> r | Some m \<Rightarrow> Some m) []"
proof (cases n)
  case (AndOp ns)
  have "fold (\<lambda>n. PreOrderTraversal n handle) ns (mkst e r [fresh (AndOp ns)]) =
    mkst (fold note' (concat (map leaves ns)) e) r
      [fold (\<lambda>n. addOpt add (gfold n)) ns (fresh (AndOp ns))]"
    by (rule walk_operands, rule walk_nested) (use AndOp assms in auto)
  with AndOp show ?thesis by (simp add: enter exit_root)
next
  case (OrOp ns)
  have "fold (\<lambda>n. PreOrderTraversal n handle) ns (mkst e r [fresh (OrOp ns)]) =
    mkst (fold note' (concat (map leaves ns)) e) r
      [fold (\<lambda>n. addOpt add (gfold n)) ns (fresh (OrOp ns))]"
    by (rule walk_operands, rule walk_nested) (use OrOp assms in auto)
  with OrOp show ?thesis by (simp add: enter exit_root)
next
  case (NotOp n')
  with assms show ?thesis by (simp add: enter exit_root walk_nested)
qed (use assms in \<open>simp_all add: leaf_step_root\<close>)

end

section \<open>Clone copies the tree\<close>

definition cloneSt :: "unit \<Rightarrow> filterNode option \<Rightarrow> filterNode list \<Rightarrow> cloneState" where
  "cloneSt e r gs =
     \<lparr>cl_result = (case r of Some n \<Rightarrow> n | None \<Rightarrow> VoidOp), cl_currentOps = stk gs\<rparr>"

fun cloneFresh :: "filterNode \<Rightarrow> filterNode" where
  "cloneFresh (AndOp _) = AndOp []"
| "cloneFresh (OrOp _) = OrOp []"
| "cloneFresh _ = NotOp NilNode"

fun cloneLeaf :: "filterNode \<Rightarrow> filterNode option" where
  "cloneLeaf ContradictionOp = Some ContradictionOp"
| "cloneLeaf (EqualOp l r) = Some (EqualOp (cloneIdent l) r)"
| "cloneLeaf (ContainsOp l r) = Some (ContainsOp (cloneIdent l) r)"
| "cloneLeaf (ContainsPrefixOp l r) = Some (ContainsPrefixOp (cloneIdent l) r)"
| "cloneLeaf (ContainsSuffixOp l r) = Some (ContainsSuffixOp (cloneIdent l) r)"
| "cloneLeaf _ = None"

interpretation clone: group_walk cloneHandle cloneSt cloneFresh nodeAdd "\<lambda>g. g" cloneLeaf
  "\<lambda>_ e. e" "\<lambda>_. True"
proof unfold_locales
  fix n e r gs
  assume "isGroup n"
  then show "cloneHandle n TraversalStateEnter (cloneSt e r gs) = cloneSt e r (cloneFresh n # gs)"
    by (cases n) (simp_all add: cloneGroup_def cloneSt_def stack_simps)
next
  fix n e r g g' gs
  assume "isGroup n"
  then show "cloneHandle n TraversalStateExit (cloneSt e r (g # g' # gs)) =
    cloneSt e r (nodeAdd g' g # gs)"
    by (cases n) (simp_all add: cloneGroup_def cloneSt_def stack_simps)
next
  fix n e r g
  assume "isGroup n"
  then show "cloneHandle n TraversalStateExit (cloneSt e r [g]) = cloneSt e (Some g) []"
    by (cases n) (simp_all add: cloneGroup_def cloneSt_def stack_simps)
next
  fix n e r gs
  assume "\<not> isGroup n" and "cloneLeaf n = None"
  then show "cloneHandle n TraversalStateNone (cloneSt e r gs) = cloneSt e r gs"
    by (cases n) simp_all
next
  fix n m e r g gs
  assume "\<not> isGroup n" and "cloneLeaf n = Some m"
  then show "cloneHandle n TraversalStateNone (cloneSt e r (g # gs)) = cloneSt e r (nodeAdd g m # gs)"
    by (cases n) (auto simp add: clonePut_def cloneSt_def stack_simps)
next
  fix n m e r
  assume "\<not> isGroup n" and "cloneLeaf n = Some m"
  then show "cloneHandle n TraversalStateNone (cloneSt e r []) = cloneSt e (Some m) []"
    by (cases n) (auto simp add: clonePut_def cloneSt_def stack_simps)
qed

lemma Clone_groupFold:
  "Clone n = (case groupFold cloneFresh nodeAdd (\<lambda>g. g) cloneLeaf n of
     Some m \<Rightarrow> m | None \<Rightarrow> VoidOp)"
proof -
  have "\<lparr>cl_result = VoidOp, cl_currentOps = NewStack\<rparr> = cloneSt () None []"
    by (simp add: cloneSt_def stack_simps)
  then have "Clone n = cl_result (cloneSt () (groupFold cloneFresh nodeAdd (\<lambda>g. g) cloneLeaf n) [])"
    unfolding Clone_def using clone.walk_root [of n "()" None]
    by (simp add: option.case_eq_if)
  then show ?thesis by (simp add: cloneSt_def)
qed

text \<open>
  Trees on which \<^verbatim>\<open>Clone\<close> is exact: every leaf below the root is a contradiction or a
  comparison on a field that is present. The parser only builds such trees.
\<close>

fun solid :: "filterNode \<Rightarrow> bool" where
  "solid NilNode = False"
| "solid VoidOp = False"
| "solid ContradictionOp = True"
| "solid (AndOp ns) = (\<forall>n \<in> set ns. solid n)"
| "solid (OrOp ns) = (\<forall>n \<in> set ns. solid n)"
| "solid (NotOp n) = solid n"
| "solid (EqualOp l r) = (id_Field l \<noteq> None)"
| "solid (ContainsOp l r) = (id_Field l \<noteq> None)"
| "solid (ContainsPrefixOp l r) = (id_Field l \<noteq> None)"
| "solid (ContainsSuffixOp l r) = (id_Field l \<noteq> None)"

lemma cloneIdent_id: "id_Field l \<noteq> None \<Longrightarrow> cloneIdent l = l"
  by (cases l) (auto simp: cloneIdent_def)

lemma fold_nodeAdd:
  "fold (\<lambda>n g. nodeAdd g n) ns (AndOp ms) = AndOp (ms @ ns)"
  "fold (\<lambda>n g. nodeAdd g n) ns (OrOp ms) = OrOp (ms @ ns)"
  by (induction ns arbitrary: ms) simp_all

lemma fold_addOpt_Some:
  assumes "\<And>n. n \<in> set ns \<Longrightarrow> h n = Some n"
  shows "fold (\<lambda>n. addOpt add (h n)) ns g = fold (\<lambda>n g. add g n) ns g"
  using assms by (induction ns arbitrary: g) simp_all

lemma clone_fold_solid: "solid n \<Longrightarrow> groupFold cloneFresh nodeAdd (\<lambda>g. g) cloneLeaf n = Some n"
proof (induction n)
  case (AndOp ns)
  then show ?case by (simp add: fold_addOpt_Some fold_nodeAdd)
next
  case (OrOp ns)
  then show ?case by (simp add: fold_addOpt_Some fold_nodeAdd)
qed (simp_all add: cloneIdent_id)

lemma Clone_solid: "solid n \<Longrightarrow> Clone n = n"
  by (simp add: Clone_groupFold clone_fold_solid)

end
