(* ===== verification/Filter_Lexer.thy ===== *)
theory Filter_Lexer
  imports Filter_Ast
begin

text \<open>
  The lexer of the filter language, \<^verbatim>\<open>core/pkg/filter/ast/lexer.go\<close>, on bytes and runes as
  the code has it: positions are byte offsets into the source, and characters are decoded by
  Go's \<^verbatim>\<open>utf8.DecodeRuneInString\<close>, modelled in full. \<^verbatim>\<open>unicode.IsLetter\<close> and
  \<^verbatim>\<open>unicode.IsDigit\<close> are written out on the ASCII range; above it their tables are the
  argument \<open>uni\<close> of the scanner.
\<close>

section \<open>Decoding runes\<close>

definition runeError :: nat where "runeError = 0xFFFD"

text \<open>
  The tables \<^verbatim>\<open>first\<close> and \<^verbatim>\<open>acceptRanges\<close> of \<^verbatim>\<open>unicode/utf8\<close>: for a leading byte, the
  length of the sequence it starts and the range of its second byte.
\<close>

definition utf8First :: "nat \<Rightarrow> (nat \<times> nat \<times> nat) option" where
  "utf8First b =
     (if b < 0xC2 then None
      else if b \<le> 0xDF then Some (2, 0x80, 0xBF)
      else if b = 0xE0 then Some (3, 0xA0, 0xBF)
      else if b = 0xED then Some (3, 0x80, 0x9F)
      else if b \<le> 0xEF then Some (3, 0x80, 0xBF)
      else if b = 0xF0 then Some (4, 0x90, 0xBF)
      else if b \<le> 0xF3 then Some (4, 0x80, 0xBF)
      else if b = 0xF4 then Some (4, 0x80, 0x8F)
      else None)"

definition contByte :: "nat \<Rightarrow> bool" where
  "contByte b = (0x80 \<le> b \<and> b \<le> 0xBF)"

definition decodeTail :: "nat \<Rightarrow> nat \<Rightarrow> nat \<Rightarrow> nat \<Rightarrow> nat list \<Rightarrow> nat \<times> nat" where
  "decodeTail b0 sz lo hi bs =
     (if length bs + 1 < sz then (runeError, 1)
      else if bs ! 0 < lo \<or> hi < bs ! 0 then (runeError, 1)
      else if sz \<le> 2 then ((b0 mod 32) * 64 + bs ! 0 mod 64, 2)
      else if \<not> contByte (bs ! 1) then (runeError, 1)
      else if sz \<le> 3
      then ((b0 mod 16) * 4096 + (bs ! 0 mod 64) * 64 + bs ! 1 mod 64, 3)
      else if \<not> contByte (bs ! 2) then (runeError, 1)
      else ((b0 mod 8) * 262144 + (bs ! 0 mod 64) * 4096 + (bs ! 1 mod 64) * 64 + bs ! 2 mod 64, 4))"

definition decodeRune :: "string \<Rightarrow> nat \<times> nat" where
  "decodeRune s =
     (case s of
        [] \<Rightarrow> (runeError, 0)
      | c0 # cs \<Rightarrow>
          (let b0 = of_char c0
           in if b0 < 0x80 then (b0, 1)
              else (case utf8First b0 of
                      None \<Rightarrow> (runeError, 1)
                    | Some (sz, lo, hi) \<Rightarrow> decodeTail b0 sz lo hi (map of_char cs))))"

section \<open>Tokens and the scanner\<close>

datatype tokenKind =
    colon | comma | plus' | or'
  | bangColon | tildeColon | bangTildeColon | startTildeColon | bangStartTildeColon
  | tildeEndColon | bangTildeEndColon
  | parenOpen | parenClose
  | str'
  | filterField | mapField | keyedAccess | identifier'
  | eof

text \<open>The \<^verbatim>\<open>String\<close> method of a token kind, as error messages show it.\<close>

fun tokenKindString :: "tokenKind \<Rightarrow> string" where
  "tokenKindString colon = ''colon''"
| "tokenKindString comma = ''comma''"
| "tokenKindString plus' = ''plus''"
| "tokenKindString or' = ''or''"
| "tokenKindString bangColon = ''bangColon''"
| "tokenKindString tildeColon = ''tildeColon''"
| "tokenKindString bangTildeColon = ''bangTildeColon''"
| "tokenKindString startTildeColon = ''startTildeColon''"
| "tokenKindString bangStartTildeColon = ''bangStartTildeColon''"
| "tokenKindString tildeEndColon = ''tildeEndColon''"
| "tokenKindString bangTildeEndColon = ''bangTildeEndColon''"
| "tokenKindString parenOpen = ''parenOpen''"
| "tokenKindString parenClose = ''parenClose''"
| "tokenKindString str' = ''str''"
| "tokenKindString filterField = ''filterField1''"
| "tokenKindString mapField = ''filterField2''"
| "tokenKindString keyedAccess = ''keyedAccess''"
| "tokenKindString identifier' = ''identifier''"
| "tokenKindString eof = ''eof''"

record token =
  tk_kind :: tokenKind
  tk_s :: string

definition tokenString :: "token \<Rightarrow> string" where
  "tokenString t = tokenKindString (tk_kind t) @ '':'' @ tk_s t"

text \<open>The errors the scanner records, with the positions their messages carry.\<close>

datatype lexError =
    UnexpectedAt nat char
  | InvalidUTF8 nat
  | UnexpectedUnicode nat nat
  | UnexpectedCharacter nat nat
  | UnterminatedString nat
  | UnterminatedAccess nat

record scanner =
  sc_source :: string
  sc_tokens :: "token list"
  sc_errors :: "lexError list"
  sc_fields :: "string \<rightharpoonup> astField"
  sc_mapFields :: "string \<rightharpoonup> astField"
  lexemeStartByte :: nat
  nextByte :: nat

definition scAtEnd :: "scanner \<Rightarrow> bool" where
  "scAtEnd s = (nextByte s \<ge> length (sc_source s))"

definition scAdvance :: "scanner \<Rightarrow> nat \<times> scanner" where
  "scAdvance s =
     (if scAtEnd s then (0, s)
      else (let (r, size) = decodeRune (drop (nextByte s) (sc_source s))
            in (r, s\<lparr>nextByte := nextByte s + size\<rparr>)))"

definition scMatch :: "char \<Rightarrow> scanner \<Rightarrow> bool \<times> scanner" where
  "scMatch expected s =
     (if scAtEnd s then (False, s)
      else (let (r, size) = decodeRune (drop (nextByte s) (sc_source s))
            in if r \<noteq> of_char expected then (False, s)
               else (True, s\<lparr>nextByte := nextByte s + size\<rparr>)))"

definition scPeek :: "scanner \<Rightarrow> nat" where
  "scPeek s = (if scAtEnd s then 0 else fst (decodeRune (drop (nextByte s) (sc_source s))))"

definition addToken :: "tokenKind \<Rightarrow> scanner \<Rightarrow> scanner" where
  "addToken kind s =
     (let lexeme = substr (lexemeStartByte s) (nextByte s) (sc_source s);
          lexeme' = (if kind = str' \<or> kind = keyedAccess
                     then substr 1 (length lexeme - 1) lexeme else lexeme)
      in s\<lparr>sc_tokens := sc_tokens s @ [\<lparr>tk_kind = kind, tk_s = lexeme'\<rparr>]\<rparr>)"

definition addError :: "lexError \<Rightarrow> scanner \<Rightarrow> scanner" where
  "addError e s = s\<lparr>sc_errors := sc_errors s @ [e]\<rparr>"

text \<open>\<^verbatim>\<open>s.errors = append(s.errors, fmt.Errorf("Position %d: Unexpected '...'", s.nextByte-1))\<close>\<close>

definition unexpected :: "char \<Rightarrow> scanner \<Rightarrow> scanner" where
  "unexpected c s = addError (UnexpectedAt (nextByte s - 1) c) s"

definition isAsciiIdentifierChar :: "nat \<Rightarrow> bool" where
  "isAsciiIdentifierChar r =
     ((of_char (CHR ''a'') \<le> r \<and> r \<le> of_char (CHR ''z'')) \<or>
      (of_char (CHR ''A'') \<le> r \<and> r \<le> of_char (CHR ''Z'')) \<or>
      (of_char (CHR ''0'') \<le> r \<and> r \<le> of_char (CHR ''9'')) \<or>
      r = of_char (CHR ''-'') \<or> r = of_char (CHR ''_''))"

definition isIdentifierChar :: "(nat \<Rightarrow> bool) \<Rightarrow> nat \<Rightarrow> bool" where
  "isIdentifierChar uni r = (if r < 0x80 then isAsciiIdentifierChar r else uni r)"

section \<open>Progress of the decoder\<close>

lemma utf8First_Some:
  "utf8First b = Some (sz, lo, hi) \<Longrightarrow> 2 \<le> sz \<and> sz \<le> 4 \<and> 0x80 \<le> lo \<and> hi \<le> 0xBF"
  by (auto simp: utf8First_def split: if_splits)

text \<open>
  A byte outside the ASCII range never decodes to an ASCII rune, and the bytes of a sequence
  after the first are outside the range as well: an ASCII delimiter can neither be made up nor
  be swallowed by the decoder.
\<close>

lemma mod_offset: "q * n \<le> c \<Longrightarrow> c < q * n + n \<Longrightarrow> c mod n = c - q * (n :: nat)"
proof -
  assume "q * n \<le> c" and "c < q * n + n"
  then have "c div n = q" by (intro div_nat_eqI) (auto simp: algebra_simps)
  then show ?thesis using minus_div_mult_eq_mod [of c n] by simp
qed

lemma utf8_two: "0xC2 \<le> b \<Longrightarrow> b \<le> (0xDF :: nat) \<Longrightarrow> 0x80 \<le> (b mod 32) * 64 + c"
proof -
  assume "0xC2 \<le> b" and "b \<le> 0xDF"
  then have "2 \<le> b mod 32" using mod_offset [of 6 32 b] by simp
  then show ?thesis by linarith
qed

lemma utf8_three:
  "0xE0 \<le> b \<Longrightarrow> b \<le> (0xEF :: nat) \<Longrightarrow> b = 0xE0 \<longrightarrow> 0xA0 \<le> c \<and> c \<le> 0xBF \<Longrightarrow>
    0x80 \<le> (b mod 16) * 4096 + (c mod 64) * 64 + d"
proof (cases "b = 0xE0")
  case True
  assume "b = 0xE0 \<longrightarrow> 0xA0 \<le> c \<and> c \<le> 0xBF"
  with True have "0xA0 \<le> c" and "c \<le> 0xBF" by auto
  then have "32 \<le> c mod 64" using mod_offset [of 2 64 c] by simp
  then show ?thesis by linarith
next
  case False
  assume "0xE0 \<le> b" and "b \<le> 0xEF"
  with False have "1 \<le> b mod 16" using mod_offset [of 14 16 b] by simp
  then show ?thesis by linarith
qed

lemma utf8_four:
  "0xF0 \<le> b \<Longrightarrow> b \<le> (0xF4 :: nat) \<Longrightarrow> b = 0xF0 \<longrightarrow> 0x90 \<le> c \<and> c \<le> 0xBF \<Longrightarrow>
    0x80 \<le> (b mod 8) * 262144 + (c mod 64) * 4096 + d + e"
proof (cases "b = 0xF0")
  case True
  assume "b = 0xF0 \<longrightarrow> 0x90 \<le> c \<and> c \<le> 0xBF"
  with True have "0x90 \<le> c" and "c \<le> 0xBF" by auto
  then have "16 \<le> c mod 64" using mod_offset [of 2 64 c] by simp
  then show ?thesis by linarith
next
  case False
  assume "0xF0 \<le> b" and "b \<le> 0xF4"
  with False have "1 \<le> b mod 8" using mod_offset [of 30 8 b] by simp
  then show ?thesis by linarith
qed

lemma utf8First_sizes:
  "utf8First b = Some (sz, lo, hi) \<Longrightarrow>
     (sz = 2 \<and> 0xC2 \<le> b \<and> b \<le> 0xDF) \<or>
     (sz = 3 \<and> 0xE0 \<le> b \<and> b \<le> 0xEF \<and> (b = 0xE0 \<longrightarrow> lo = 0xA0 \<and> hi = 0xBF)) \<or>
     (sz = 4 \<and> 0xF0 \<le> b \<and> b \<le> 0xF4 \<and> (b = 0xF0 \<longrightarrow> lo = 0x90 \<and> hi = 0xBF))"
  by (auto simp: utf8First_def split: if_splits)

lemma decodeTail_cases:
  assumes "utf8First b = Some (sz, lo, hi)"
  shows "decodeTail b sz lo hi bs = (runeError, 1) \<or>
    (\<exists>r. decodeTail b sz lo hi bs = (r, sz) \<and> 0x80 \<le> r \<and> sz \<le> length bs + 1 \<and>
      (\<forall>i. Suc i < sz \<longrightarrow> 0x80 \<le> bs ! i))"
proof (cases "decodeTail b sz lo hi bs = (runeError, 1)")
  case False
  then have len: "sz \<le> length bs + 1" and b0: "lo \<le> bs ! 0" "bs ! 0 \<le> hi"
    and b1: "2 < sz \<Longrightarrow> contByte (bs ! 1)"
    unfolding decodeTail_def by (meson not_le not_less)+
  have b2: "3 < sz \<Longrightarrow> contByte (bs ! 2)"
    using False by (auto simp: decodeTail_def split: if_splits)
  note lo = utf8First_Some [OF assms]
  consider (two) "sz = 2" "0xC2 \<le> b" "b \<le> 0xDF"
    | (three) "sz = 3" "0xE0 \<le> b" "b \<le> 0xEF" "b = 0xE0 \<longrightarrow> lo = 0xA0 \<and> hi = 0xBF"
    | (four) "sz = 4" "0xF0 \<le> b" "b \<le> 0xF4" "b = 0xF0 \<longrightarrow> lo = 0x90 \<and> hi = 0xBF"
    using utf8First_sizes [OF assms] by blast
  then show ?thesis
  proof cases
    case two
    from two b0 lo have "\<forall>i. Suc i < sz \<longrightarrow> 0x80 \<le> bs ! i" by auto
    with two len b0 utf8_two [of b "bs ! 0 mod 64"] show ?thesis by (simp add: decodeTail_def)
  next
    case three
    have c: "0x80 \<le> bs ! 0" "0x80 \<le> bs ! 1"
      using three(1) b0 b1 lo by (simp_all add: contByte_def)
    have rest: "\<forall>i. Suc i < sz \<longrightarrow> 0x80 \<le> bs ! i"
    proof (intro allI impI)
      fix i assume "Suc i < sz"
      with three(1) have "i = 0 \<or> i = 1" by linarith
      with c show "0x80 \<le> bs ! i" by blast
    qed
    from three b0 have "b = 0xE0 \<longrightarrow> 0xA0 \<le> bs ! 0 \<and> bs ! 0 \<le> 0xBF" by auto
    with three rest len b0 b1 utf8_three [of b "bs ! 0" "bs ! 1 mod 64"] show ?thesis
      by (simp add: decodeTail_def)
  next
    case four
    have c: "0x80 \<le> bs ! 0" "0x80 \<le> bs ! 1" "0x80 \<le> bs ! 2"
      using four(1) b0 b1 b2 lo by (simp_all add: contByte_def)
    have rest: "\<forall>i. Suc i < sz \<longrightarrow> 0x80 \<le> bs ! i"
    proof (intro allI impI)
      fix i assume "Suc i < sz"
      with four(1) have "i = 0 \<or> i = 1 \<or> i = 2" by linarith
      with c show "0x80 \<le> bs ! i" by blast
    qed
    from four b0 have "b = 0xF0 \<longrightarrow> 0x90 \<le> bs ! 0 \<and> bs ! 0 \<le> 0xBF" by auto
    with four rest len b0 b1 b2 utf8_four [of b "bs ! 0" "bs ! 1 mod 64 * 64" "bs ! 2 mod 64"]
    show ?thesis by (simp add: decodeTail_def)
  qed
qed simp

lemma decodeRune_ascii: "(of_char c :: nat) < 0x80 \<Longrightarrow> decodeRune (c # s) = (of_char c, 1)"
  by (simp add: decodeRune_def)

lemma decodeRune_cases:
  assumes "\<not> (of_char c :: nat) < 0x80"
  shows "\<exists>r sz. decodeRune (c # s) = (r, sz) \<and> 0x80 \<le> r \<and> 1 \<le> sz \<and> sz \<le> length s + 1 \<and>
    (\<forall>i. Suc i < sz \<longrightarrow> 0x80 \<le> (of_char (s ! i) :: nat))"
proof (cases "utf8First (of_char c)")
  case None
  with assms show ?thesis by (simp add: decodeRune_def runeError_def)
next
  case (Some v)
  then obtain sz lo hi where u: "utf8First (of_char c) = Some (sz, lo, hi)" by (cases v) auto
  have d: "decodeRune (c # s) = decodeTail (of_char c) sz lo hi (map of_char s)"
    using assms u by (simp add: decodeRune_def)
  from decodeTail_cases [OF u, of "map of_char s"] show ?thesis
  proof
    assume "decodeTail (of_char c) sz lo hi (map of_char s) = (runeError, 1)"
    with d show ?thesis by (simp add: runeError_def)
  next
    assume "\<exists>r. decodeTail (of_char c) sz lo hi (map of_char s) = (r, sz) \<and> 0x80 \<le> r \<and>
      sz \<le> length (map of_char s :: nat list) + 1 \<and>
      (\<forall>i. Suc i < sz \<longrightarrow> 0x80 \<le> (map of_char s :: nat list) ! i)"
    then obtain r where r: "decodeTail (of_char c) sz lo hi (map of_char s) = (r, sz)" "0x80 \<le> r"
      "sz \<le> length s + 1" "\<forall>i. Suc i < sz \<longrightarrow> 0x80 \<le> (map of_char s :: nat list) ! i" by auto
    have "0x80 \<le> (of_char (s ! i) :: nat)" if "Suc i < sz" for i
      using that r(3,4) by (metis Suc_less_eq Suc_eq_plus1 less_le_trans nth_map)
    with d r utf8First_Some [OF u] show ?thesis by auto
  qed
qed

lemma decodeRune_not_ascii: "0x80 \<le> (of_char c :: nat) \<Longrightarrow> 0x80 \<le> fst (decodeRune (c # s))"
  using decodeRune_cases [of c s] by auto

lemma decodeRune_rest_not_ascii:
  assumes "b \<in> set (take (snd (decodeRune (c # s)) - 1) s)"
  shows "0x80 \<le> (of_char b :: nat)"
proof (cases "(of_char c :: nat) < 0x80")
  case True
  with assms show ?thesis by (simp add: decodeRune_ascii)
next
  case False
  with decodeRune_cases [of c s] assms show ?thesis by (auto simp: in_set_conv_nth)
qed

lemma decodeRune_size: "s \<noteq> [] \<Longrightarrow> 1 \<le> snd (decodeRune s) \<and> snd (decodeRune s) \<le> length s"
proof (cases s)
  case (Cons c t)
  then show ?thesis
    using decodeRune_cases [of c t] decodeRune_ascii [of c t] by (cases "(of_char c :: nat) < 0x80") auto
qed simp

lemma scAdvance_nextByte:
  assumes "\<not> scAtEnd s"
  shows "nextByte s < nextByte (snd (scAdvance s))"
    and "nextByte (snd (scAdvance s)) \<le> length (sc_source s)"
proof -
  have ne: "drop (nextByte s) (sc_source s) \<noteq> []" using assms by (simp add: scAtEnd_def)
  from decodeRune_size [OF ne]
  show "nextByte s < nextByte (snd (scAdvance s))"
    and "nextByte (snd (scAdvance s)) \<le> length (sc_source s)"
    using assms by (auto simp: scAdvance_def scAtEnd_def split_def Let_def)
qed

lemma scAdvance_frame [simp]:
  "sc_source (snd (scAdvance s)) = sc_source s"
  "sc_tokens (snd (scAdvance s)) = sc_tokens s"
  "sc_errors (snd (scAdvance s)) = sc_errors s"
  "sc_fields (snd (scAdvance s)) = sc_fields s"
  "sc_mapFields (snd (scAdvance s)) = sc_mapFields s"
  "lexemeStartByte (snd (scAdvance s)) = lexemeStartByte s"
  by (simp_all add: scAdvance_def split_def Let_def)

section \<open>The scanner's loops\<close>

text \<open>\<^verbatim>\<open>for s.peek() != q && !s.atEnd() { s.advance() }\<close>\<close>

function scanUntil :: "char \<Rightarrow> scanner \<Rightarrow> scanner" where
  "scanUntil q s =
     (if scPeek s \<noteq> of_char q \<and> \<not> scAtEnd s then scanUntil q (snd (scAdvance s)) else s)"
  by pat_completeness auto
termination
proof (relation "measure (\<lambda>(q, s). length (sc_source s) - nextByte s)", goal_cases)
  case (2 q s)
  then show ?case using scAdvance_nextByte [of s] by (simp add: scAtEnd_def)
qed simp

text \<open>\<^verbatim>\<open>for isIdentifierChar(s.peek()) { s.advance() }\<close>\<close>

lemma isIdentifierChar_0: "\<not> isIdentifierChar uni 0"
  by (simp add: isIdentifierChar_def isAsciiIdentifierChar_def)

function scanIdent :: "(nat \<Rightarrow> bool) \<Rightarrow> scanner \<Rightarrow> scanner" where
  "scanIdent uni s =
     (if isIdentifierChar uni (scPeek s) then scanIdent uni (snd (scAdvance s)) else s)"
  by pat_completeness auto
termination
proof (relation "measure (\<lambda>(uni, s). length (sc_source s) - nextByte s)", goal_cases)
  case (2 uni s)
  then have "\<not> scAtEnd s" using isIdentifierChar_0 by (auto simp: scPeek_def)
  then show ?case using scAdvance_nextByte [of s] by (simp add: scAtEnd_def)
qed simp

declare scanUntil.simps [simp del] scanIdent.simps [simp del]

definition scanString :: "scanner \<Rightarrow> scanner" where
  "scanString s =
     (let s1 = scanUntil (CHR 0x22) s
      in if scAtEnd s1 then addError (UnterminatedString (lexemeStartByte s1)) s1
         else addToken str' (snd (scAdvance s1)))"

definition scanKeyedAccess :: "scanner \<Rightarrow> scanner" where
  "scanKeyedAccess s =
     (let s1 = scanUntil (CHR '']'') s
      in if scAtEnd s1 then addError (UnterminatedAccess (lexemeStartByte s1)) s1
         else addToken keyedAccess (snd (scAdvance s1)))"

definition scanIdentifier :: "(nat \<Rightarrow> bool) \<Rightarrow> scanner \<Rightarrow> scanner" where
  "scanIdentifier uni s =
     (let s1 = scanIdent uni s;
          tokenText = substr (lexemeStartByte s1) (nextByte s1) (sc_source s1)
      in if sc_fields s1 tokenText \<noteq> None then addToken filterField s1
         else if sc_mapFields s1 tokenText \<noteq> None then addToken mapField s1
         else addToken identifier' s1)"

text \<open>\<^verbatim>\<open>if s.match(c) { yes } else { no }\<close>\<close>

definition ifMatch :: "char \<Rightarrow> (scanner \<Rightarrow> scanner) \<Rightarrow> (scanner \<Rightarrow> scanner) \<Rightarrow> scanner \<Rightarrow> scanner" where
  "ifMatch c yes no s = (let (b, s') = scMatch c s in if b then yes s' else no s')"

text \<open>The branch of \<^verbatim>\<open>scanToken\<close> for a leading \<^verbatim>\<open>!\<close>.\<close>

definition scanBang :: "scanner \<Rightarrow> scanner" where
  "scanBang =
     ifMatch (CHR '':'') (addToken bangColon)
      (ifMatch (CHR ''~'')
        (ifMatch (CHR '':'') (addToken bangTildeColon)
          (ifMatch (CHR ''>'')
            (ifMatch (CHR '':'') (addToken bangTildeEndColon) (unexpected (CHR ''>'')))
            (unexpected (CHR ''~''))))
        (ifMatch (CHR ''<'')
          (ifMatch (CHR ''~'')
            (ifMatch (CHR '':'') (addToken bangStartTildeColon) (unexpected (CHR ''~'')))
            (unexpected (CHR ''<'')))
          (unexpected (CHR ''!''))))"

definition scanToken :: "(nat \<Rightarrow> bool) \<Rightarrow> scanner \<Rightarrow> scanner" where
  "scanToken uni s0 =
     (let (c, s) = scAdvance s0
      in if c = of_char (CHR '':'') then addToken colon s
         else if c = of_char (CHR '','') then addToken comma s
         else if c = of_char (CHR ''+'') then addToken plus' s
         else if c = of_char (CHR ''|'') then addToken or' s
         else if c = of_char (CHR ''!'') then scanBang s
         else if c = of_char (CHR ''('') then addToken parenOpen s
         else if c = of_char (CHR '')'') then addToken parenClose s
         else if c = of_char (CHR ''<'')
         then ifMatch (CHR ''~'')
               (ifMatch (CHR '':'') (addToken startTildeColon) (unexpected (CHR ''~'')))
               (unexpected (CHR ''<'')) s
         else if c = of_char (CHR ''~'')
         then ifMatch (CHR '':'') (addToken tildeColon)
               (ifMatch (CHR ''>'')
                 (ifMatch (CHR '':'') (addToken tildeEndColon) (unexpected (CHR ''>'')))
                 (unexpected (CHR ''~''))) s
         else if c = 0x22 then scanString s
         else if c = of_char (CHR ''['') then scanKeyedAccess s
         else if c = 0x20 \<or> c = 0x09 \<or> c = 0x0A \<or> c = 0x0D then s
         else if c = runeError then addError (InvalidUTF8 (nextByte s - 1)) s
         else if isIdentifierChar uni c then scanIdentifier uni s
         else if c > 127 then addError (UnexpectedUnicode c (nextByte s - 1)) s
         else addError (UnexpectedCharacter c (nextByte s - 1)) s)"

section \<open>Progress of the scanner\<close>

text \<open>
  What every scanner operation keeps: the source and the field tables are not written, the read
  position never moves back and stays inside the source.
\<close>

definition scFrame :: "scanner \<Rightarrow> scanner \<Rightarrow> bool" where
  "scFrame s s' \<longleftrightarrow>
     sc_source s' = sc_source s \<and> sc_fields s' = sc_fields s \<and> sc_mapFields s' = sc_mapFields s \<and>
     lexemeStartByte s' = lexemeStartByte s \<and> nextByte s \<le> nextByte s' \<and>
     (nextByte s \<le> length (sc_source s) \<longrightarrow> nextByte s' \<le> length (sc_source s))"

lemma scFrame_refl: "scFrame s s"
  by (simp add: scFrame_def)

lemma scFrame_trans: "scFrame s t \<Longrightarrow> scFrame t u \<Longrightarrow> scFrame s u"
  by (auto simp: scFrame_def)

lemma scFrame_advance: "scFrame s (snd (scAdvance s))"
proof (cases "scAtEnd s")
  case True
  then show ?thesis by (simp add: scFrame_def scAdvance_def)
next
  case False
  from scAdvance_nextByte [OF this] show ?thesis by (simp add: scFrame_def)
qed

lemma scMatch_advance: "fst (scMatch c s) \<Longrightarrow> snd (scMatch c s) = snd (scAdvance s)"
  by (auto simp: scMatch_def scAdvance_def split_def Let_def split: if_splits)

lemma scMatch_fail: "\<not> fst (scMatch c s) \<Longrightarrow> snd (scMatch c s) = s"
  by (auto simp: scMatch_def split_def Let_def split: if_splits)

text \<open>
  A relation between scanner states that is kept by moving forward, by recording an error and
  by emitting a token is kept by a whole \<^verbatim>\<open>scanToken\<close>. The three tokens with a side condition
  are emitted in one place only: field names after a table lookup, and the end of input by the
  main loop.
\<close>

locale scan_rel =
  fixes R :: "scanner \<Rightarrow> scanner \<Rightarrow> bool"
  assumes R_refl: "R s s"
    and R_trans: "R s t \<Longrightarrow> R t u \<Longrightarrow> R s u"
    and R_advance: "R s (snd (scAdvance s))"
    and R_error: "R s (addError e s)"
    and R_token: "k \<noteq> filterField \<Longrightarrow> k \<noteq> mapField \<Longrightarrow> k \<noteq> eof \<Longrightarrow> R s (addToken k s)"
    and R_filterField: "sc_fields s (substr (lexemeStartByte s) (nextByte s) (sc_source s)) \<noteq> None \<Longrightarrow>
      R s (addToken filterField s)"
    and R_mapField: "sc_mapFields s (substr (lexemeStartByte s) (nextByte s) (sc_source s)) \<noteq> None \<Longrightarrow>
      R s (addToken mapField s)"
begin

lemma R_unexpected: "R s (unexpected c s)"
  by (simp add: unexpected_def R_error)

lemma R_ifMatch:
  assumes "\<And>t. R t (yes t)" and "\<And>t. R t (no t)"
  shows "R s (ifMatch c yes no s)"
proof -
  obtain b t where m: "scMatch c s = (b, t)" by fastforce
  with scMatch_advance [of c s] scMatch_fail [of c s] have "R s t"
    by (cases b) (auto simp: R_refl R_advance)
  with m assms show ?thesis by (auto simp: ifMatch_def intro: R_trans)
qed

lemma R_scanUntil: "R s (scanUntil q s)"
proof (induction q s rule: scanUntil.induct)
  case (1 q s)
  then show ?case
    using R_advance [of s] R_refl [of s] by (subst scanUntil.simps) (auto intro: R_trans)
qed

lemma R_scanIdent: "R s (scanIdent uni s)"
proof (induction uni s rule: scanIdent.induct)
  case (1 uni s)
  then show ?case
    using R_advance [of s] R_refl [of s] by (subst scanIdent.simps) (auto intro: R_trans)
qed

lemma R_advance_token:
  "k \<noteq> filterField \<Longrightarrow> k \<noteq> mapField \<Longrightarrow> k \<noteq> eof \<Longrightarrow> R s (addToken k (snd (scAdvance s)))"
  by (rule R_trans [OF R_advance R_token])

lemma R_scanString: "R s (scanString s)"
  unfolding scanString_def Let_def
  by (rule R_trans [OF R_scanUntil [of s "CHR 0x22"]]) (simp add: R_error R_advance_token)

lemma R_scanKeyedAccess: "R s (scanKeyedAccess s)"
  unfolding scanKeyedAccess_def Let_def
  by (rule R_trans [OF R_scanUntil [of s "CHR '']''"]]) (simp add: R_error R_advance_token)

lemma R_scanIdentifier: "R s (scanIdentifier uni s)"
  unfolding scanIdentifier_def Let_def
  by (rule R_trans [OF R_scanIdent [of s uni]]) (simp add: R_filterField R_mapField R_token)

lemma R_scanBang: "R s (scanBang s)"
  unfolding scanBang_def by (intro R_ifMatch R_unexpected R_token) simp_all

lemma R_scanToken: "R (snd (scAdvance s)) (scanToken uni s)"
  unfolding scanToken_def Let_def split_def
  by (simp add: R_refl R_error R_token R_unexpected R_ifMatch R_scanString R_scanKeyedAccess
      R_scanIdentifier R_scanBang)

lemma R_scanToken_start: "R s (scanToken uni s)"
  using R_advance R_scanToken by (rule R_trans)

end

interpretation frame: scan_rel scFrame
proof unfold_locales
  fix s t u
  show "scFrame s s" by (rule scFrame_refl)
  show "scFrame s t \<Longrightarrow> scFrame t u \<Longrightarrow> scFrame s u" by (rule scFrame_trans)
  show "scFrame s (snd (scAdvance s))" by (rule scFrame_advance)
qed (simp_all add: scFrame_def addToken_def addError_def Let_def)

lemma scanToken_progress: "\<not> scAtEnd s \<Longrightarrow> nextByte s < nextByte (scanToken uni s)"
  using frame.R_scanToken [of s uni] scAdvance_nextByte [of s] by (simp add: scFrame_def)

section \<open>The main loop\<close>

function scanLoop :: "(nat \<Rightarrow> bool) \<Rightarrow> scanner \<Rightarrow> scanner" where
  "scanLoop uni s =
     (if \<not> scAtEnd s then scanLoop uni (scanToken uni (s\<lparr>lexemeStartByte := nextByte s\<rparr>)) else s)"
  by pat_completeness auto
termination
proof (relation "measure (\<lambda>(uni, s). length (sc_source s) - nextByte s)", goal_cases)
  case (2 uni s)
  let ?s = "s\<lparr>lexemeStartByte := nextByte s\<rparr>"
  from 2 have "\<not> scAtEnd ?s" by (simp add: scAtEnd_def)
  then have "nextByte s < nextByte (scanToken uni ?s)"
    using scanToken_progress [of ?s uni] by simp
  with 2 frame.R_scanToken_start [of ?s uni] show ?case
    by (auto simp: scFrame_def scAtEnd_def)
qed simp

declare scanLoop.simps [simp del]

definition scanTokens :: "(nat \<Rightarrow> bool) \<Rightarrow> scanner \<Rightarrow> scanner" where
  "scanTokens uni s =
     (let s' = scanLoop uni s
      in s'\<lparr>sc_tokens := sc_tokens s' @ [\<lparr>tk_kind = eof, tk_s = []\<rparr>]\<rparr>)"

text \<open>
  \<^verbatim>\<open>lex\<close>: the tokens and the recorded errors. The Go function returns an error value built
  from the errors if there are any, and nil otherwise.
\<close>

definition lex' ::
  "(nat \<Rightarrow> bool) \<Rightarrow> string \<Rightarrow> (string \<rightharpoonup> astField) \<Rightarrow> (string \<rightharpoonup> astField) \<Rightarrow> token list \<times> lexError list" where
  "lex' uni raw fieldTable mapTable =
     (let s = scanTokens uni
        \<lparr>sc_source = raw, sc_tokens = [], sc_errors = [], sc_fields = fieldTable,
         sc_mapFields = mapTable, lexemeStartByte = 0, nextByte = 0\<rparr>
      in (sc_tokens s, sc_errors s))"

section \<open>What the tokens say\<close>

text \<open>
  The tokens of a scanner: a field token names an entry of the table it was looked up in, and
  no token but the one the main loop appends marks the end of the input.
\<close>

definition tokenOk :: "(string \<rightharpoonup> astField) \<Rightarrow> (string \<rightharpoonup> astField) \<Rightarrow> token \<Rightarrow> bool" where
  "tokenOk fs ms t \<longleftrightarrow> tk_kind t \<noteq> eof \<and>
     (tk_kind t = filterField \<longrightarrow> fs (tk_s t) \<noteq> None) \<and> (tk_kind t = mapField \<longrightarrow> ms (tk_s t) \<noteq> None)"

definition tokensKept :: "scanner \<Rightarrow> scanner \<Rightarrow> bool" where
  "tokensKept s s' \<longleftrightarrow>
     sc_fields s' = sc_fields s \<and> sc_mapFields s' = sc_mapFields s \<and>
     (\<exists>ts. sc_tokens s' = sc_tokens s @ ts \<and> list_all (tokenOk (sc_fields s) (sc_mapFields s)) ts)"

lemma tokensKept_trans: "tokensKept s t \<Longrightarrow> tokensKept t u \<Longrightarrow> tokensKept s u"
  by (auto simp: tokensKept_def)

interpretation tokens: scan_rel tokensKept
proof unfold_locales
  fix s t u
  show "tokensKept s s" by (simp add: tokensKept_def)
  show "tokensKept s t \<Longrightarrow> tokensKept t u \<Longrightarrow> tokensKept s u" by (rule tokensKept_trans)
  show "tokensKept s (snd (scAdvance s))" by (simp add: tokensKept_def)
  show "tokensKept s (addError e s)" for e by (simp add: tokensKept_def addError_def)
qed (auto simp: tokensKept_def tokenOk_def addToken_def Let_def)

lemma tokensKept_scanLoop: "tokensKept s (scanLoop uni s)"
proof (induction uni s rule: scanLoop.induct)
  case (1 uni s)
  let ?s = "s\<lparr>lexemeStartByte := nextByte s\<rparr>"
  have "tokensKept s ?s" by (simp add: tokensKept_def)
  then have step: "tokensKept s (scanToken uni ?s)"
    using tokens.R_scanToken_start by (rule tokensKept_trans)
  show ?case
  proof (cases "scAtEnd s")
    case True
    then show ?thesis by (subst scanLoop.simps) (simp add: tokens.R_refl)
  next
    case False
    from tokensKept_trans [OF step "1.IH" [OF False]] False show ?thesis
      by (subst scanLoop.simps) simp
  qed
qed

text \<open>The shape of every token list \<^verbatim>\<open>lex\<close> returns.\<close>

lemma lex_shape:
  "\<exists>ts. fst (lex' uni raw fs ms) = ts @ [\<lparr>tk_kind = eof, tk_s = []\<rparr>] \<and> list_all (tokenOk fs ms) ts"
proof -
  let ?s = "\<lparr>sc_source = raw, sc_tokens = [], sc_errors = [], sc_fields = fs,
    sc_mapFields = ms, lexemeStartByte = 0, nextByte = 0\<rparr>"
  from tokensKept_scanLoop [of ?s uni] show ?thesis
    by (auto simp: lex'_def scanTokens_def Let_def tokensKept_def)
qed

end
