(* ===== verification/Filter_Transform.thy ===== *)
theory Filter_Transform
  imports Filter_Walker Filter_Lexer
begin

text \<open>
  The compiler passes of \<^verbatim>\<open>core/pkg/filter/transform\<close> and the tree builders of
  \<^verbatim>\<open>core/pkg/filter/ops/ops.go\<close>. A pass mutates the leaves of the (cloned) tree it is given
  while walking it; here it returns the changed tree. A pass returns an error value, or panics
  on a nil field, which is \<open>None\<close>.
\<close>

section \<open>Passes\<close>

datatype passError =
    NilAliasMapping
  | UnknownAliasField string
  | UnsupportedAliasOp filterOp
  | AliasConversion passError
  | AliasPassTransform passError
  | CompilerPassFailed nat passError

type_synonym pass = "filterNode \<Rightarrow> (passError + filterNode) option"

text \<open>Running the passes in order; the first error stops.\<close>

fun execPasses :: "nat \<Rightarrow> pass list \<Rightarrow> filterNode \<Rightarrow> (passError + filterNode) option" where
  "execPasses i [] f = Some (Inr f)"
| "execPasses i (pass # passes) f =
     (case pass f of
        None \<Rightarrow> None
      | Some (Inl err) \<Rightarrow> Some (Inl (CompilerPassFailed i err))
      | Some (Inr f') \<Rightarrow> execPasses (Suc i) passes f')"

definition ApplyAll :: "filterNode \<Rightarrow> pass list \<Rightarrow> (passError + filterNode) option" where
  "ApplyAll root passes =
     (if length passes = 0 then Some (Inr root) else execPasses 0 passes (Clone root))"

text \<open>
  A traversal whose callback mutates the comparison leaves it meets; \<open>None\<close> from the callback
  is a panic and ends the walk.
\<close>

fun mutateLeaves :: "(filterNode \<Rightarrow> filterNode option) \<Rightarrow> filterNode \<Rightarrow> filterNode option"
and mutateOperands :: "(filterNode \<Rightarrow> filterNode option) \<Rightarrow> filterNode list \<Rightarrow> filterNode list option" where
  "mutateLeaves g NilNode = Some NilNode"
| "mutateLeaves g (NotOp n) = map_option NotOp (mutateLeaves g n)"
| "mutateLeaves g (AndOp ns) = map_option AndOp (mutateOperands g ns)"
| "mutateLeaves g (OrOp ns) = map_option OrOp (mutateOperands g ns)"
| "mutateLeaves g n = g n"
| "mutateOperands g [] = Some []"
| "mutateOperands g (n # ns) =
     (case mutateLeaves g n of
        None \<Rightarrow> None
      | Some n' \<Rightarrow> (case mutateOperands g ns of None \<Rightarrow> None | Some ns' \<Rightarrow> Some (n' # ns')))"

subsection \<open>Prometheus key sanitizing\<close>

text \<open>The characters outside the class of \<^verbatim>\<open>[^a-zA-Z0-9_]\<close>.\<close>

definition promKeyRune :: "nat \<Rightarrow> bool" where
  "promKeyRune r =
     ((of_char (CHR ''a'') \<le> r \<and> r \<le> of_char (CHR ''z'')) \<or>
      (of_char (CHR ''A'') \<le> r \<and> r \<le> of_char (CHR ''Z'')) \<or>
      (of_char (CHR ''0'') \<le> r \<and> r \<le> of_char (CHR ''9'')) \<or> r = of_char (CHR ''_''))"

text \<open>
  \<^verbatim>\<open>ReplaceAllString\<close> works on runes: every rune of the class, an invalid byte included, is
  replaced by one underscore.
\<close>

function sanitizeKey :: "string \<Rightarrow> string" where
  "sanitizeKey s =
     (if s = [] then []
      else (let (r, size) = decodeRune s
            in (if promKeyRune r then take size s else ''_'') @ sanitizeKey (drop size s)))"
  by pat_completeness auto
termination
proof (relation "measure length", goal_cases)
  case (2 s x r size)
  then show ?case using decodeRune_size [of s] by (cases "decodeRune s") auto
qed simp

declare sanitizeKey.simps [simp del]

definition sanitize :: "ident \<Rightarrow> ident" where
  "sanitize left = (if id_Key left \<noteq> [] then left\<lparr>id_Key := sanitizeKey (id_Key left)\<rparr> else left)"

text \<open>A contains-style comparison on a map without key holds the key in its value.\<close>

definition sanitizeContains :: "(ident \<Rightarrow> string \<Rightarrow> filterNode) \<Rightarrow> ident \<Rightarrow> string \<Rightarrow> filterNode option" where
  "sanitizeContains mk left right =
     (case id_Field left of
        None \<Rightarrow> None
      | Some f \<Rightarrow>
          Some (if isMap f \<and> id_Key left = [] then mk left (sanitizeKey right)
                else mk (sanitize left) right))"

fun promKeySanitizeLeaf :: "filterNode \<Rightarrow> filterNode option" where
  "promKeySanitizeLeaf (EqualOp l r) = Some (EqualOp (sanitize l) r)"
| "promKeySanitizeLeaf (ContainsOp l r) = sanitizeContains ContainsOp l r"
| "promKeySanitizeLeaf (ContainsPrefixOp l r) = sanitizeContains ContainsPrefixOp l r"
| "promKeySanitizeLeaf (ContainsSuffixOp l r) = sanitizeContains ContainsSuffixOp l r"
| "promKeySanitizeLeaf n = Some n"

definition promKeySanitizePass :: pass where
  "promKeySanitizePass f = map_option Inr (mutateLeaves promKeySanitizeLeaf f)"

subsection \<open>Unallocated replacement\<close>

definition unallocatedSuffix :: string where
  "unallocatedSuffix = ''__unallocated__''"

definition replaceUnallocated :: "string \<Rightarrow> string" where
  "replaceUnallocated s = (if s = unallocatedSuffix then [] else s)"

fun unallocLeaf :: "filterNode \<Rightarrow> filterNode option" where
  "unallocLeaf (EqualOp l r) = Some (EqualOp l (replaceUnallocated r))"
| "unallocLeaf (ContainsOp l r) = Some (ContainsOp l (replaceUnallocated r))"
| "unallocLeaf (ContainsPrefixOp l r) = Some (ContainsPrefixOp l (replaceUnallocated r))"
| "unallocLeaf (ContainsSuffixOp l r) = Some (ContainsSuffixOp l (replaceUnallocated r))"
| "unallocLeaf n = Some n"

definition unallocReplacePass :: pass where
  "unallocReplacePass f = map_option Inr (mutateLeaves unallocLeaf f)"

section \<open>Building trees\<close>

text \<open>\<^verbatim>\<open>KeyedFieldType\<close>: field, key and type packed into one string with separators.\<close>

definition kftField :: "string \<Rightarrow> string" where
  "kftField k = (case indexByte k (CHR ''$'') of None \<Rightarrow> [] | Some idx \<Rightarrow> substr 0 idx k)"

definition kftKey :: "string \<Rightarrow> string" where
  "kftKey k =
     (case indexByte k (CHR ''$'') of
        None \<Rightarrow> []
      | Some idx \<Rightarrow>
          (case lastIndexByte k (CHR ''$'') of
             None \<Rightarrow> []
           | Some lastIndex \<Rightarrow> substr (idx + 1) lastIndex k))"

definition kftType :: "string \<Rightarrow> string" where
  "kftType k =
     (case lastIndexByte k (CHR ''$'') of
        None \<Rightarrow> [] | Some lastIndex \<Rightarrow> substr (lastIndex + 1) (length k) k)"

text \<open>
  The argument of the builders: a value of a field type, given by the name \<^verbatim>\<open>TypeOf\<close> returns
  for its type and its string, or a packed keyed field.
\<close>

datatype fieldRef = PlainField string string | KeyedField string

definition WithKey :: "string \<Rightarrow> string \<Rightarrow> string \<Rightarrow> fieldRef" where
  "WithKey typ fld key = KeyedField (fld @ ''$'' @ key @ ''$'' @ typ)"

text \<open>The registry \<^verbatim>\<open>defaultFieldByType\<close> from type names to lookup functions.\<close>

type_synonym fieldRegistry = "string \<rightharpoonup> (string \<Rightarrow> astField option)"

definition RegisterDefaultFieldLookup ::
  "string \<Rightarrow> (string \<Rightarrow> astField option) \<Rightarrow> fieldRegistry \<Rightarrow> fieldRegistry" where
  "RegisterDefaultFieldLookup typ lookup reg = reg(typ \<mapsto> lookup)"

definition asField :: "fieldRegistry \<Rightarrow> string \<Rightarrow> string \<Rightarrow> astField option" where
  "asField reg typ fld = (case reg typ of None \<Rightarrow> None | Some lookup \<Rightarrow> lookup fld)"

definition asFieldWithType :: "fieldRegistry \<Rightarrow> string \<Rightarrow> string \<Rightarrow> astField option" where
  "asFieldWithType reg fld typ = (case reg typ of None \<Rightarrow> None | Some lookup \<Rightarrow> lookup fld)"

definition toFieldAndKey :: "fieldRegistry \<Rightarrow> fieldRef \<Rightarrow> astField option \<times> string" where
  "toFieldAndKey reg fr =
     (case fr of
        KeyedField k \<Rightarrow> (asFieldWithType reg (kftField k) (kftType k), kftKey k)
      | PlainField typ fld \<Rightarrow> (asField reg typ fld, []))"

definition opsIdentifier :: "fieldRegistry \<Rightarrow> fieldRef \<Rightarrow> ident" where
  "opsIdentifier reg fr =
     (let (f, key) = toFieldAndKey reg fr in \<lparr>id_Field = f, id_Key = key\<rparr>)"

definition opsAnd :: "filterNode \<Rightarrow> filterNode \<Rightarrow> filterNode list \<Rightarrow> filterNode" where
  "opsAnd node nxt others = AndOp ([node, nxt] @ others)"

definition opsOr :: "filterNode \<Rightarrow> filterNode \<Rightarrow> filterNode list \<Rightarrow> filterNode" where
  "opsOr node nxt others = OrOp ([node, nxt] @ others)"

definition opsNot :: "filterNode \<Rightarrow> filterNode" where
  "opsNot node = NotOp node"

definition opsEq :: "fieldRegistry \<Rightarrow> fieldRef \<Rightarrow> string \<Rightarrow> filterNode" where
  "opsEq reg fld v = EqualOp (opsIdentifier reg fld) v"

definition opsNotEq :: "fieldRegistry \<Rightarrow> fieldRef \<Rightarrow> string \<Rightarrow> filterNode" where
  "opsNotEq reg fld v = opsNot (opsEq reg fld v)"

definition opsContains :: "fieldRegistry \<Rightarrow> fieldRef \<Rightarrow> string \<Rightarrow> filterNode" where
  "opsContains reg fld v = ContainsOp (opsIdentifier reg fld) v"

definition opsNotContains :: "fieldRegistry \<Rightarrow> fieldRef \<Rightarrow> string \<Rightarrow> filterNode" where
  "opsNotContains reg fld v = opsNot (opsContains reg fld v)"

definition opsContainsPrefix :: "fieldRegistry \<Rightarrow> fieldRef \<Rightarrow> string \<Rightarrow> filterNode" where
  "opsContainsPrefix reg fld v = ContainsPrefixOp (opsIdentifier reg fld) v"

definition opsNotContainsPrefix :: "fieldRegistry \<Rightarrow> fieldRef \<Rightarrow> string \<Rightarrow> filterNode" where
  "opsNotContainsPrefix reg fld v = opsNot (opsContainsPrefix reg fld v)"

definition opsContainsSuffix :: "fieldRegistry \<Rightarrow> fieldRef \<Rightarrow> string \<Rightarrow> filterNode" where
  "opsContainsSuffix reg fld v = ContainsSuffixOp (opsIdentifier reg fld) v"

definition opsNotContainsSuffix :: "fieldRegistry \<Rightarrow> fieldRef \<Rightarrow> string \<Rightarrow> filterNode" where
  "opsNotContainsSuffix reg fld v = opsNot (opsContainsSuffix reg fld v)"

section \<open>Packed keys unpack\<close>

text \<open>
  The key may hold separators itself: the field ends at the first one and the type starts
  after the last one.
\<close>

lemma kft_unpack:
  assumes "CHR ''$'' \<notin> set fld" and "CHR ''$'' \<notin> set typ"
  shows "kftField (fld @ ''$'' @ key @ ''$'' @ typ) = fld"
    and "kftKey (fld @ ''$'' @ key @ ''$'' @ typ) = key"
    and "kftType (fld @ ''$'' @ key @ ''$'' @ typ) = typ"
proof -
  let ?k = "fld @ CHR ''$'' # key @ CHR ''$'' # typ"
  have i: "indexByte ?k (CHR ''$'') = Some (length fld)"
    using assms(1) by (rule indexByte_append)
  have l: "lastIndexByte ?k (CHR ''$'') = Some (length fld + 1 + length key)"
    using lastIndexByte_append [OF assms(2), of "fld @ CHR ''$'' # key"] by simp
  show "kftField (fld @ ''$'' @ key @ ''$'' @ typ) = fld"
    using i by (simp add: kftField_def substr_def)
  show "kftKey (fld @ ''$'' @ key @ ''$'' @ typ) = key"
    using i l by (simp add: kftKey_def substr_def)
  show "kftType (fld @ ''$'' @ key @ ''$'' @ typ) = typ"
    using l by (simp add: kftType_def substr_def)
qed

lemma opsIdentifier_WithKey:
  assumes "CHR ''$'' \<notin> set fld" and "CHR ''$'' \<notin> set typ"
  shows "opsIdentifier reg (WithKey typ fld key) =
    \<lparr>id_Field = asField reg typ fld, id_Key = key\<rparr>"
  using kft_unpack [OF assms, of key]
  by (simp add: opsIdentifier_def WithKey_def toFieldAndKey_def asField_def asFieldWithType_def)

section \<open>Sanitizing\<close>

lemma sanitizeKey_Nil [simp]: "sanitizeKey [] = []"
  by (subst sanitizeKey.simps) simp

lemma promKeyRune_ascii: "promKeyRune r \<Longrightarrow> r < 0x80"
  by (auto simp: promKeyRune_def)

lemma sanitizeKey_keep: "promKeyRune (of_char c) \<Longrightarrow> sanitizeKey (c # s) = c # sanitizeKey s"
  by (subst sanitizeKey.simps) (simp add: decodeRune_ascii promKeyRune_ascii)

lemma sanitizeKey_replace:
  assumes "\<not> promKeyRune (fst (decodeRune (c # s)))"
  shows "sanitizeKey (c # s) = CHR ''_'' # sanitizeKey (drop (snd (decodeRune (c # s))) (c # s))"
  using assms by (subst sanitizeKey.simps) (simp add: split_def)

lemma promKeyRune_head:
  "promKeyRune (fst (decodeRune (c # s))) \<Longrightarrow> promKeyRune (of_char c)"
proof -
  assume p: "promKeyRune (fst (decodeRune (c # s)))"
  then have "(of_char c :: nat) < 0x80"
    using promKeyRune_ascii [OF p] decodeRune_not_ascii [of c s] by linarith
  with p show ?thesis by (simp add: decodeRune_ascii)
qed

lemma sanitizeKey_chars: "\<forall>c \<in> set (sanitizeKey s). promKeyRune (of_char c)"
proof (induction s rule: sanitizeKey.induct)
  case (1 s)
  show ?case
  proof (cases s)
    case Nil
    then show ?thesis by simp
  next
    case (Cons c t)
    obtain r size where d: "decodeRune (c # t) = (r, size)" by fastforce
    from 1 Cons d have IH: "\<forall>x \<in> set (sanitizeKey (drop size (c # t))). promKeyRune (of_char x)"
      by simp
    show ?thesis
    proof (cases "promKeyRune r")
      case True
      with d have "promKeyRune (of_char c)" using promKeyRune_head [of c t] by simp
      moreover from this have "size = 1" using d promKeyRune_ascii decodeRune_ascii [of c t] by auto
      ultimately show ?thesis using IH Cons by (simp add: sanitizeKey_keep)
    next
      case False
      with d have "sanitizeKey (c # t) = CHR ''_'' # sanitizeKey (drop size (c # t))"
        using sanitizeKey_replace [of c t] by simp
      with IH Cons show ?thesis by (auto simp: promKeyRune_def)
    qed
  qed
qed

lemma sanitizeKey_id: "\<forall>c \<in> set s. promKeyRune (of_char c) \<Longrightarrow> sanitizeKey s = s"
  by (induction s) (simp_all add: sanitizeKey_keep)

lemma sanitizeKey_idem: "sanitizeKey (sanitizeKey s) = sanitizeKey s"
  by (rule sanitizeKey_id [OF sanitizeKey_chars])

section \<open>Passes on solid trees\<close>

lemma filterNode_list_induct [case_names Nil Void Contra And Or Not Eq Con Pre Suf Empty Cons]:
  assumes "P NilNode" and "P VoidOp" and "P ContradictionOp"
    and "\<And>ns. Q ns \<Longrightarrow> P (AndOp ns)" and "\<And>ns. Q ns \<Longrightarrow> P (OrOp ns)" and "\<And>n. P n \<Longrightarrow> P (NotOp n)"
    and "\<And>l r. P (EqualOp l r)" and "\<And>l r. P (ContainsOp l r)"
    and "\<And>l r. P (ContainsPrefixOp l r)" and "\<And>l r. P (ContainsSuffixOp l r)"
    and "Q []" and "\<And>n ns. P n \<Longrightarrow> Q ns \<Longrightarrow> Q (n # ns)"
  shows "P n" and "Q ns"
proof -
  have lists: "\<forall>n \<in> set ms. P n \<Longrightarrow> Q ms" for ms by (induction ms) (simp_all add: assms(11,12))
  show P: "P n" for n by (induction n) (simp_all add: assms(1-10) lists)
  show "Q ns" by (rule lists) (simp add: P)
qed

text \<open>A leaf rewriting that succeeds and keeps solid leaves solid does so on whole trees.\<close>

lemma mutateLeaves_solid:
  assumes "\<And>l. \<not> isGroup l \<Longrightarrow> solid l \<Longrightarrow> \<exists>l'. g l = Some l' \<and> solid l'"
  shows "solid n \<Longrightarrow> \<exists>n'. mutateLeaves g n = Some n' \<and> solid n'"
    and "\<forall>n \<in> set ns. solid n \<Longrightarrow>
      \<exists>ns'. mutateOperands g ns = Some ns' \<and> length ns' = length ns \<and> (\<forall>n \<in> set ns'. solid n)"
proof (induction n and ns rule: filterNode_list_induct)
  case (Cons n ns)
  then show ?case by fastforce
qed (use assms in \<open>auto\<close>)

lemma promKeySanitizeLeaf_solid:
  "\<not> isGroup l \<Longrightarrow> solid l \<Longrightarrow> \<exists>l'. promKeySanitizeLeaf l = Some l' \<and> solid l'"
  by (cases l) (auto simp: sanitizeContains_def sanitize_def)

lemma unallocLeaf_solid: "\<not> isGroup l \<Longrightarrow> solid l \<Longrightarrow> \<exists>l'. unallocLeaf l = Some l' \<and> solid l'"
  by (cases l) auto

end
