(* ===== verification/Filter_Text.thy ===== *)
theory Filter_Text
  imports Filter_Transform
begin

text \<open>
  The text compiler of \<^verbatim>\<open>core/pkg/filter/text/textcompiler.go\<close>, which turns a filter tree back
  into query text: the text operations it builds, their \<^verbatim>\<open>Add\<close>, \<^verbatim>\<open>Close\<close> and \<^verbatim>\<open>String\<close>
  methods, and \<^verbatim>\<open>Compile\<close>. Each text operation is referenced by one group only, so the mutation
  of a comparison inside its group is a replacement in the group's list.
\<close>

section \<open>Text operations\<close>

datatype textOp =
    NoOp
  | GroupOp string "textOp list"
  | ComparisonOp string ident string "string list"
  | TextNot "textOp option"

definition newComparisonOp :: "string \<Rightarrow> ident \<Rightarrow> string \<Rightarrow> textOp" where
  "newComparisonOp symbol left right = ComparisonOp symbol left right []"

text \<open>
  The loop of \<^verbatim>\<open>GroupOp.Add\<close>: the first comparison of the group with the same symbol and
  identifier that does not hold the value yet receives it; \<open>None\<close> if there is none.
\<close>

fun mergeComparison :: "string \<Rightarrow> ident \<Rightarrow> string \<Rightarrow> textOp list \<Rightarrow> textOp list option" where
  "mergeComparison symb left r [] = None"
| "mergeComparison symb left r (op # ops) =
     (case op of
        ComparisonOp csym cleft cright cother \<Rightarrow>
          if csym \<noteq> symb \<or> \<not> identifierEqual cleft left \<or> cright = r
          then map_option ((#) op) (mergeComparison symb left r ops)
          else if r \<in> set cother then map_option ((#) op) (mergeComparison symb left r ops)
          else Some (ComparisonOp csym cleft cright (cother @ [r]) # ops)
      | _ \<Rightarrow> map_option ((#) op) (mergeComparison symb left r ops))"

fun groupAdd :: "textOp list \<Rightarrow> textOp \<Rightarrow> textOp list" where
  "groupAdd ops (ComparisonOp symb left r other) =
     (case mergeComparison symb left r ops of
        Some ops' \<Rightarrow> ops'
      | None \<Rightarrow> ops @ [ComparisonOp symb left r other])"
| "groupAdd ops m = ops @ [m]"

text \<open>\<^verbatim>\<open>TextGroupOp.Add\<close> and \<^verbatim>\<open>Close\<close>, of groups and of negations.\<close>

fun textAdd :: "textOp \<Rightarrow> textOp \<Rightarrow> textOp" where
  "textAdd (GroupOp symb ops) m = GroupOp symb (groupAdd ops m)"
| "textAdd (TextNot _) m = TextNot (Some m)"
| "textAdd g m = g"

fun textClose :: "textOp \<Rightarrow> textOp" where
  "textClose (GroupOp symb ops) = (if length ops = 1 then hd ops else GroupOp symb ops)"
| "textClose (TextNot (Some (ComparisonOp symb left r other))) = ComparisonOp (''!'' @ symb) left r other"
| "textClose g = g"

definition writeOp :: "string \<Rightarrow> ident \<Rightarrow> string \<Rightarrow> string list \<Rightarrow> string" where
  "writeOp op left right additional =
     identifierString left @ op @ [CHR 0x22] @ right @ [CHR 0x22] @
     concat (map (\<lambda>other. '','' @ [CHR 0x22] @ other @ [CHR 0x22]) additional)"

text \<open>\<^verbatim>\<open>writeGroupOp\<close>, on the strings of the operands.\<close>

definition writeGroupOp :: "string \<Rightarrow> string list \<Rightarrow> string" where
  "writeGroupOp op operands =
     (case operands of
        [] \<Rightarrow> []
      | [s] \<Rightarrow> s
      | s # ss \<Rightarrow> ''('' @ s @ concat (map (\<lambda>f. ('' '' @ op @ '' '') @ f) ss) @ '')'')"

fun textString :: "textOp \<Rightarrow> string" where
  "textString NoOp = []"
| "textString (GroupOp symb ops) = writeGroupOp symb (map textString ops)"
| "textString (ComparisonOp symb left r other) = writeOp symb left r other"
| "textString (TextNot None) = []"
| "textString (TextNot (Some (GroupOp symb ops))) =
     ''!'' @ writeGroupOp [] [writeGroupOp symb (map textString ops)]"
| "textString (TextNot (Some (ComparisonOp symb left r other))) = writeOp (''!'' @ symb) left r other"
| "textString (TextNot (Some NoOp)) = []"
| "textString (TextNot (Some (TextNot _))) = []"

section \<open>The compiler\<close>

record textState =
  tx_isContradictionOp :: bool
  tx_result :: "textOp option"
  tx_currentOps :: "textOp stack"

definition textGroup :: "textOp \<Rightarrow> traversalState \<Rightarrow> textState \<Rightarrow> textState" where
  "textGroup fresh state st =
     (if state = TraversalStateEnter
      then st\<lparr>tx_currentOps := Push fresh (tx_currentOps st)\<rparr>
      else if state = TraversalStateExit
      then (if Length (tx_currentOps st) > 1
            then (let (top, rest) = Pop NoOp (tx_currentOps st); current = textClose top
                  in st\<lparr>tx_currentOps := UpdateTop (\<lambda>g. textAdd g current) rest\<rparr>)
            else (let (top, rest) = Pop NoOp (tx_currentOps st)
                  in st\<lparr>tx_result := Some (textClose top), tx_currentOps := rest\<rparr>))
      else st)"

definition textPut :: "textOp \<Rightarrow> textState \<Rightarrow> textState" where
  "textPut op st =
     (if Length (tx_currentOps st) = 0 then st\<lparr>tx_result := Some op\<rparr>
      else st\<lparr>tx_currentOps := UpdateTop (\<lambda>g. textAdd g op) (tx_currentOps st)\<rparr>)"

fun textHandle :: "filterNode \<Rightarrow> traversalState \<Rightarrow> textState \<Rightarrow> textState" where
  "textHandle (AndOp _) state st = textGroup (GroupOp ''+'' []) state st"
| "textHandle (OrOp _) state st = textGroup (GroupOp ''|'' []) state st"
| "textHandle (NotOp _) state st = textGroup (TextNot None) state st"
| "textHandle ContradictionOp state st = textPut NoOp (st\<lparr>tx_isContradictionOp := True\<rparr>)"
| "textHandle (EqualOp l r) state st = textPut (newComparisonOp '':'' l r) st"
| "textHandle (ContainsOp l r) state st = textPut (newComparisonOp ''~:'' l r) st"
| "textHandle (ContainsPrefixOp l r) state st = textPut (newComparisonOp ''<~:'' l r) st"
| "textHandle (ContainsSuffixOp l r) state st = textPut (newComparisonOp ''~>:'' l r) st"
| "textHandle VoidOp state st = st"
| "textHandle NilNode state st = st"

text \<open>
  The tail of \<^verbatim>\<open>Compile\<close>: the parentheses of a root group are trimmed with
  \<^verbatim>\<open>strResult[1 : len(strResult)-1]\<close>, which panics when the group printed nothing.
\<close>

definition textFinish :: "textState \<Rightarrow> string option" where
  "textFinish st =
     (if tx_isContradictionOp st then Some ''[all-fail]''
      else (case tx_result st of
              None \<Rightarrow> Some []
            | Some result \<Rightarrow>
                (let strResult = textString result
                 in case result of
                      GroupOp symb _ \<Rightarrow>
                        if symb = ''|'' \<or> symb = ''+''
                        then (if length strResult < 2 then None
                              else Some (substr 1 (length strResult - 1) strResult))
                        else Some strResult
                    | _ \<Rightarrow> Some strResult)))"

definition textCompile :: "pass list \<Rightarrow> filterNode \<Rightarrow> (passError + string) option" where
  "textCompile passes f =
     (case ApplyAll f passes of
        None \<Rightarrow> None
      | Some (Inl err) \<Rightarrow> Some (Inl err)
      | Some (Inr f') \<Rightarrow>
          if f' = VoidOp then Some (Inr [])
          else map_option Inr (textFinish (PreOrderTraversal f' textHandle
                 \<lparr>tx_isContradictionOp = False, tx_result = None, tx_currentOps = NewStack\<rparr>)))"

section \<open>The walk builds the text operation bottom up\<close>

fun textFresh :: "filterNode \<Rightarrow> textOp" where
  "textFresh (AndOp _) = GroupOp ''+'' []"
| "textFresh (OrOp _) = GroupOp ''|'' []"
| "textFresh _ = TextNot None"

fun textLeaf :: "filterNode \<Rightarrow> textOp option" where
  "textLeaf ContradictionOp = Some NoOp"
| "textLeaf (EqualOp l r) = Some (newComparisonOp '':'' l r)"
| "textLeaf (ContainsOp l r) = Some (newComparisonOp ''~:'' l r)"
| "textLeaf (ContainsPrefixOp l r) = Some (newComparisonOp ''<~:'' l r)"
| "textLeaf (ContainsSuffixOp l r) = Some (newComparisonOp ''~>:'' l r)"
| "textLeaf _ = None"

definition textSt :: "bool \<Rightarrow> textOp option \<Rightarrow> textOp list \<Rightarrow> textState" where
  "textSt e r gs = \<lparr>tx_isContradictionOp = e, tx_result = r, tx_currentOps = stk gs\<rparr>"

lemma textLeaf_cases:
  assumes "\<not> isGroup n" and "n \<noteq> NilNode"
  shows "n = VoidOp \<and> textLeaf n = None \<or>
    (\<exists>m. textLeaf n = Some m \<and> (\<forall>state e r gs. textHandle n state (textSt e r gs) =
      textPut m (textSt (n = ContradictionOp \<or> e) r gs)))"
  using assms by (cases n) (auto simp: textSt_def)

interpretation textw: group_walk textHandle textSt textFresh textAdd textClose textLeaf
  "\<lambda>n e. n = ContradictionOp \<or> e" "\<lambda>_. True"
proof unfold_locales
  fix n e r gs
  assume "isGroup n"
  then show "textHandle n TraversalStateEnter (textSt e r gs) = textSt e r (textFresh n # gs)"
    by (cases n) (simp_all add: textGroup_def textSt_def stack_simps)
next
  fix n e r g g' gs
  assume "isGroup n"
  then show "textHandle n TraversalStateExit (textSt e r (g # g' # gs)) =
    textSt e r (textAdd g' (textClose g) # gs)"
    by (cases n) (simp_all add: textGroup_def textSt_def stack_simps)
next
  fix n e r g
  assume "isGroup n"
  then show "textHandle n TraversalStateExit (textSt e r [g]) = textSt e (Some (textClose g)) []"
    by (cases n) (simp_all add: textGroup_def textSt_def stack_simps)
next
  fix n e r gs
  assume "\<not> isGroup n" "n \<noteq> NilNode" and "textLeaf n = None"
  with textLeaf_cases [of n]
  show "textHandle n TraversalStateNone (textSt e r gs) = textSt (n = ContradictionOp \<or> e) r gs" by auto
next
  fix n m e r g gs
  assume "\<not> isGroup n" "n \<noteq> NilNode" and "textLeaf n = Some m"
  with textLeaf_cases [of n]
  show "textHandle n TraversalStateNone (textSt e r (g # gs)) =
    textSt (n = ContradictionOp \<or> e) r (textAdd g m # gs)"
    by (auto simp: textPut_def textSt_def stack_simps)
next
  fix n m e r
  assume "\<not> isGroup n" "n \<noteq> NilNode" and "textLeaf n = Some m"
  with textLeaf_cases [of n]
  show "textHandle n TraversalStateNone (textSt e r []) = textSt (n = ContradictionOp \<or> e) (Some m) []"
    by (auto simp: textPut_def textSt_def stack_simps)
qed

abbreviation textFold :: "filterNode \<Rightarrow> textOp option" where
  "textFold \<equiv> groupFold textFresh textAdd textClose textLeaf"

lemma fold_contradiction: "fold (\<lambda>n e. n = ContradictionOp \<or> e) ls e \<longleftrightarrow> e \<or> ContradictionOp \<in> set ls"
  by (induction ls arbitrary: e) auto

text \<open>The state the callback leaves: a flag for contradictions and the folded operation.\<close>

lemma text_walk:
  "PreOrderTraversal n textHandle
     \<lparr>tx_isContradictionOp = False, tx_result = None, tx_currentOps = NewStack\<rparr> =
   textSt (ContradictionOp \<in> set (leaves n)) (textFold n) []"
proof -
  have "\<lparr>tx_isContradictionOp = False, tx_result = None, tx_currentOps = NewStack\<rparr> =
    textSt False None []"
    by (simp add: textSt_def stack_simps)
  then show ?thesis
    using textw.walk_root [of n False None]
    by (cases "textFold n") (simp_all add: fold_contradiction)
qed

end
