(* ===== verification/Filter_Query.thy ===== *)
theory Filter_Query
  imports Filter_Text Filter_Lexer
begin

text \<open>
  The concrete syntax of filters as a data type, \<open>query\<close>: comparisons with one or more values,
  and groups. \<open>qNode\<close> is the tree a query denotes, \<open>textOf\<close> the text operation and
  \<open>qTokens\<close> the tokens it is written with. The theory shows that the text compiler, run on
  the tree of a well-formed query, writes that query.
\<close>

section \<open>Queries\<close>

datatype query =
    QCmp (negated: bool) (cmpOp: filterOp) (cmpIdent: ident) (cmpValues: "string list")
  | QGroup (conj': bool) (members: "query list")

definition mkLeaf :: "filterOp \<Rightarrow> ident \<Rightarrow> string \<Rightarrow> filterNode" where
  "mkLeaf op i v =
     (case op of
        FilterOpEquals \<Rightarrow> EqualOp i v
      | FilterOpContains \<Rightarrow> ContainsOp i v
      | FilterOpContainsPrefix \<Rightarrow> ContainsPrefixOp i v
      | _ \<Rightarrow> ContainsSuffixOp i v)"

definition qLeaf :: "bool \<Rightarrow> filterOp \<Rightarrow> ident \<Rightarrow> string \<Rightarrow> filterNode" where
  "qLeaf neg op i v = (if neg then NotOp (mkLeaf op i v) else mkLeaf op i v)"

fun qNode :: "query \<Rightarrow> filterNode" where
  "qNode (QCmp neg op i vs) =
     (if length vs = 1 then qLeaf neg op i (hd vs)
      else if neg then AndOp (map (qLeaf neg op i) vs) else OrOp (map (qLeaf neg op i) vs))"
| "qNode (QGroup c qs) = (if c then AndOp (map qNode qs) else OrOp (map qNode qs))"

definition opSymbol :: "filterOp \<Rightarrow> string" where
  "opSymbol op =
     (case op of
        FilterOpEquals \<Rightarrow> '':''
      | FilterOpContains \<Rightarrow> ''~:''
      | FilterOpContainsPrefix \<Rightarrow> ''<~:''
      | _ \<Rightarrow> ''~>:'')"

definition cmpSymbol :: "bool \<Rightarrow> filterOp \<Rightarrow> string" where
  "cmpSymbol neg op = (if neg then ''!'' @ opSymbol op else opSymbol op)"

definition groupSymbol :: "bool \<Rightarrow> string" where
  "groupSymbol c = (if c then ''+'' else ''|'')"

fun textOf :: "query \<Rightarrow> textOp" where
  "textOf (QCmp neg op i vs) = ComparisonOp (cmpSymbol neg op) i (hd vs) (tl vs)"
| "textOf (QGroup c qs) = GroupOp (groupSymbol c) (map textOf qs)"

text \<open>
  Well-formed queries over the field tables \<open>fs\<close> and \<open>ms\<close>. Two comparisons with the same
  operator on the same identifier do not stand side by side in a group: the text compiler would
  merge them into one comparison with several values.
\<close>

definition baseOps :: "filterOp list" where
  "baseOps = [FilterOpEquals, FilterOpContains, FilterOpContainsPrefix, FilterOpContainsSuffix]"

definition identOk :: "(string \<rightharpoonup> astField) \<Rightarrow> (string \<rightharpoonup> astField) \<Rightarrow> ident \<Rightarrow> bool" where
  "identOk fs ms i =
     (case id_Field i of
        None \<Rightarrow> False
      | Some f \<Rightarrow>
          fld_Name f \<noteq> [] \<and> list_all (\<lambda>c. isAsciiIdentifierChar (of_char c)) (fld_Name f) \<and>
          (fs (fld_Name f) = Some f \<and> id_Key i = [] \<or>
           fs (fld_Name f) = None \<and> ms (fld_Name f) = Some f) \<and>
          CHR '']'' \<notin> set (id_Key i))"

definition cmpKey :: "query \<Rightarrow> (bool \<times> filterOp \<times> ident) option" where
  "cmpKey q = (case q of QCmp neg op i _ \<Rightarrow> Some (neg, op, i) | QGroup _ _ \<Rightarrow> None)"

fun wfQuery :: "(string \<rightharpoonup> astField) \<Rightarrow> (string \<rightharpoonup> astField) \<Rightarrow> query \<Rightarrow> bool" where
  "wfQuery fs ms (QCmp neg op i vs) \<longleftrightarrow>
     op \<in> set baseOps \<and> identOk fs ms i \<and> vs \<noteq> [] \<and> distinct vs \<and>
     list_all (\<lambda>v. CHR 0x22 \<notin> set v) vs \<and>
     (op = FilterOpEquals \<longrightarrow>
        (case id_Field i of None \<Rightarrow> False | Some f \<Rightarrow> \<not> (isSlice f \<or> isMap f \<and> id_Key i = [])))"
| "wfQuery fs ms (QGroup c qs) \<longleftrightarrow>
     2 \<le> length qs \<and> list_all (wfQuery fs ms) qs \<and>
     distinct (filter (\<lambda>k. k \<noteq> None) (map cmpKey qs))"

section \<open>Compiling the tree of a query\<close>

lemma identifierEqual_iff: "identifierEqual i j \<longleftrightarrow> id_Field i \<noteq> None \<and> i = j"
proof -
  have "id_Field i = Some a \<and> id_Field j = Some b \<Longrightarrow>
    identifierEqual i j \<longleftrightarrow> i = j" for a b
    by (cases i; cases j; cases a; cases b) (auto simp: identifierEqual_def fieldEqual_def)
  then show ?thesis
    by (cases "id_Field i"; cases "id_Field j") (auto simp: identifierEqual_def fieldEqual_def)
qed

lemma identOk_field: "identOk fs ms i \<Longrightarrow> id_Field i \<noteq> None"
  by (auto simp: identOk_def split: option.splits)

lemma cmpSymbol_inj:
  "op \<in> set baseOps \<Longrightarrow> op' \<in> set baseOps \<Longrightarrow> cmpSymbol neg op = cmpSymbol neg' op' \<longleftrightarrow> neg = neg' \<and> op = op'"
  by (auto simp: baseOps_def cmpSymbol_def opSymbol_def)

lemma qLeaf_fold:
  assumes "op \<in> set baseOps"
  shows "textFold (qLeaf neg op i v) = Some (ComparisonOp (cmpSymbol neg op) i v [])"
  using assms
  by (auto simp: baseOps_def qLeaf_def mkLeaf_def cmpSymbol_def opSymbol_def newComparisonOp_def)

text \<open>Comparisons of the same symbol and identifier merge into one.\<close>

lemma fold_merge:
  assumes "id_Field i \<noteq> None" and "distinct (r # other @ ws)"
    and "\<And>w. textFold (leaf w) = Some (ComparisonOp s i w [])"
  shows "fold (\<lambda>n. addOpt textAdd (textFold n)) (map leaf ws) (GroupOp g [ComparisonOp s i r other]) =
    GroupOp g [ComparisonOp s i r (other @ ws)]"
  using assms(2)
proof (induction ws arbitrary: other)
  case (Cons w ws)
  then have "w \<noteq> r" "w \<notin> set other" by auto
  with Cons.IH [of "other @ [w]"] Cons.prems assms(1,3) show ?case
    by (auto simp: identifierEqual_iff)
qed simp

lemma qCmp_fold:
  assumes "wfQuery fs ms (QCmp neg op i vs)"
  shows "textFold (qNode (QCmp neg op i vs)) = Some (textOf (QCmp neg op i vs))"
proof -
  from assms have op: "op \<in> set baseOps" and i: "id_Field i \<noteq> None" and vs: "vs \<noteq> []" "distinct vs"
    using identOk_field [of fs ms i] by auto
  obtain v ws where v: "vs = v # ws" using vs(1) by (cases vs) auto
  show ?thesis
  proof (cases "ws = []")
    case True
    with v op show ?thesis by (simp add: qLeaf_fold)
  next
    case False
    have "fold (\<lambda>n. addOpt textAdd (textFold n)) (map (qLeaf neg op i) ws)
        (GroupOp g [ComparisonOp (cmpSymbol neg op) i v []]) =
      GroupOp g [ComparisonOp (cmpSymbol neg op) i v ws]" for g
      using fold_merge [OF i, of v "[]" ws "qLeaf neg op i"] vs v qLeaf_fold [OF op] by simp
    with False v op show ?thesis by (cases neg) (simp_all add: qLeaf_fold)
  qed
qed

lemma mergeComparison_None:
  assumes "\<And>neg op j vs. QCmp neg op j vs \<in> set qs \<Longrightarrow> cmpSymbol neg op \<noteq> s \<or> j \<noteq> i"
  shows "mergeComparison s i r (map textOf qs) = None"
  using assms
proof (induction qs)
  case (Cons q qs)
  then have IH: "mergeComparison s i r (map textOf qs) = None" by auto
  with Cons.prems show ?case by (cases q) (fastforce simp: identifierEqual_iff)+
qed simp

lemma fold_members:
  assumes "\<forall>q \<in> set (ps @ qs). wfQuery fs ms q"
    and "distinct (filter (\<lambda>k. k \<noteq> None) (map cmpKey (ps @ qs)))"
    and "\<forall>q \<in> set qs. textFold (qNode q) = Some (textOf q)"
  shows "fold (\<lambda>n. addOpt textAdd (textFold n)) (map qNode qs) (GroupOp g (map textOf ps)) =
    GroupOp g (map textOf (ps @ qs))"
  using assms
proof (induction qs arbitrary: ps)
  case (Cons q qs)
  have "groupAdd (map textOf ps) (textOf q) = map textOf (ps @ [q])"
  proof (cases q)
    case (QCmp neg op i vs)
    have "cmpSymbol neg' op' \<noteq> cmpSymbol neg op \<or> j \<noteq> i" if "QCmp neg' op' j ws \<in> set ps" for neg' op' j ws
    proof -
      from that have "Some (neg', op', j) \<in> set (filter (\<lambda>k. k \<noteq> None) (map cmpKey ps))"
        by (force simp: cmpKey_def)
      with Cons.prems(2) QCmp have "(neg', op', j) \<noteq> (neg, op, i)" by (auto simp: cmpKey_def)
      moreover have "op' \<in> set baseOps" "op \<in> set baseOps" using bspec [OF Cons.prems(1), of "QCmp neg' op' j ws"] bspec [OF Cons.prems(1), of q] that QCmp
        by auto
      ultimately show ?thesis by (auto simp: cmpSymbol_inj)
    qed
    then have "mergeComparison (cmpSymbol neg op) i (hd vs) (map textOf ps) = None"
      by (rule mergeComparison_None)
    with QCmp show ?thesis by simp
  qed simp
  moreover have "fold (\<lambda>n. addOpt textAdd (textFold n)) (map qNode qs) (GroupOp g (map textOf (ps @ [q]))) =
    GroupOp g (map textOf ((ps @ [q]) @ qs))"
    by (rule Cons.IH) (use Cons.prems in auto)
  ultimately show ?case using Cons.prems(3) by simp
qed simp

lemma query_fold: "wfQuery fs ms q \<Longrightarrow> textFold (qNode q) = Some (textOf q)"
proof (induction q)
  case (QCmp neg op i vs)
  then show ?case by (rule qCmp_fold)
next
  case (QGroup c qs)
  then have "\<forall>q \<in> set qs. textFold (qNode q) = Some (textOf q)"
    by (simp add: list_all_iff)
  with QGroup.prems fold_members [of "[]" qs fs ms "groupSymbol c"]
  have "fold (\<lambda>n. addOpt textAdd (textFold n)) (map qNode qs) (GroupOp (groupSymbol c) []) =
    GroupOp (groupSymbol c) (map textOf qs)" by (simp add: list_all_iff)
  with QGroup.prems show ?case by (auto simp: groupSymbol_def)
qed

end
