(* ===== verification/Filter_Query_Lex.thy ===== *)
theory Filter_Query_Lex
  imports Filter_Query
begin

text \<open>
  Lexing the text of a query gives the tokens of the query. The relation \<open>reads\<close> says that
  the scanner turns a piece of the source into given tokens wherever the piece stands; pieces
  compose.
\<close>

section \<open>The tokens of a query\<close>

definition opKind :: "bool \<Rightarrow> filterOp \<Rightarrow> tokenKind" where
  "opKind neg op =
     (case op of
        FilterOpEquals \<Rightarrow> if neg then bangColon else colon
      | FilterOpContains \<Rightarrow> if neg then bangTildeColon else tildeColon
      | FilterOpContainsPrefix \<Rightarrow> if neg then bangStartTildeColon else startTildeColon
      | _ \<Rightarrow> if neg then bangTildeEndColon else tildeEndColon)"

definition groupKind :: "bool \<Rightarrow> tokenKind" where
  "groupKind c = (if c then plus' else or')"

abbreviation tok :: "tokenKind \<Rightarrow> string \<Rightarrow> token" where
  "tok k s \<equiv> \<lparr>tk_kind = k, tk_s = s\<rparr>"

definition identTokens :: "(string \<rightharpoonup> astField) \<Rightarrow> ident \<Rightarrow> token list" where
  "identTokens fs i =
     (let name = (case id_Field i of Some f \<Rightarrow> fld_Name f | None \<Rightarrow> [])
      in tok (if fs name \<noteq> None then filterField else mapField) name #
         (if id_Key i \<noteq> [] then [tok keyedAccess (id_Key i)] else []))"

definition valueTokens :: "string list \<Rightarrow> token list" where
  "valueTokens vs = concat (map (\<lambda>v. [tok comma '','', tok str' v]) vs)"

definition cmpTokens :: "(string \<rightharpoonup> astField) \<Rightarrow> bool \<Rightarrow> filterOp \<Rightarrow> ident \<Rightarrow> string list \<Rightarrow> token list" where
  "cmpTokens fs neg op i vs =
     identTokens fs i @ tok (opKind neg op) (cmpSymbol neg op) # tok str' (hd vs) # valueTokens (tl vs)"

definition memberTokens :: "bool \<Rightarrow> token list list \<Rightarrow> token list" where
  "memberTokens c tss = hd tss @ concat (map (\<lambda>ts. tok (groupKind c) (groupSymbol c) # ts) (tl tss))"

fun qTokens :: "(string \<rightharpoonup> astField) \<Rightarrow> query \<Rightarrow> token list" where
  "qTokens fs (QCmp neg op i vs) = cmpTokens fs neg op i vs"
| "qTokens fs (QGroup c qs) =
     tok parenOpen ''('' # memberTokens c (map (qTokens fs) qs) @ [tok parenClose '')'']"

section \<open>Scanning a piece of the source\<close>

definition scAt ::
  "(string \<rightharpoonup> astField) \<Rightarrow> (string \<rightharpoonup> astField) \<Rightarrow> string \<Rightarrow> token list \<Rightarrow> nat \<Rightarrow> nat \<Rightarrow> scanner" where
  "scAt fs ms src ts start nxt =
     \<lparr>sc_source = src, sc_tokens = ts, sc_errors = [], sc_fields = fs, sc_mapFields = ms,
      lexemeStartByte = start, nextByte = nxt\<rparr>"

definition reads ::
  "(nat \<Rightarrow> bool) \<Rightarrow> (string \<rightharpoonup> astField) \<Rightarrow> (string \<rightharpoonup> astField) \<Rightarrow> string \<Rightarrow> token list \<Rightarrow> string \<Rightarrow> bool" where
  "reads uni fs ms piece ts rest \<longleftrightarrow>
     (\<forall>pre toks start. \<exists>start'.
        scanLoop uni (scAt fs ms (pre @ piece @ rest) toks start (length pre)) =
        scanLoop uni (scAt fs ms (pre @ piece @ rest) (toks @ ts) start' (length pre + length piece)))"

lemma reads_append:
  assumes "reads uni fs ms p1 t1 (p2 @ rest)" and "reads uni fs ms p2 t2 rest"
  shows "reads uni fs ms (p1 @ p2) (t1 @ t2) rest"
  unfolding reads_def
proof (intro allI)
  fix pre toks start
  from assms(1) obtain s1 where
    1: "scanLoop uni (scAt fs ms (pre @ p1 @ p2 @ rest) toks start (length pre)) =
      scanLoop uni (scAt fs ms (pre @ p1 @ p2 @ rest) (toks @ t1) s1 (length pre + length p1))"
    unfolding reads_def by blast
  from assms(2) [unfolded reads_def, rule_format, of "pre @ p1" "toks @ t1" s1] obtain s2 where
    2: "scanLoop uni (scAt fs ms (pre @ p1 @ p2 @ rest) (toks @ t1) s1 (length pre + length p1)) =
      scanLoop uni (scAt fs ms (pre @ p1 @ p2 @ rest) (toks @ t1 @ t2) s2
        (length pre + length p1 + length p2))"
    by auto
  from 1 2 show "\<exists>s. scanLoop uni (scAt fs ms (pre @ (p1 @ p2) @ rest) toks start (length pre)) =
    scanLoop uni (scAt fs ms (pre @ (p1 @ p2) @ rest) (toks @ t1 @ t2) s (length pre + length (p1 @ p2)))"
    by (auto simp: add.assoc)
qed

lemma reads_Nil: "reads uni fs ms [] [] rest"
  by (auto simp: reads_def)

lemma reads_token:
  assumes "piece \<noteq> []"
    and "\<And>pre toks. scanToken uni (scAt fs ms (pre @ piece @ rest) toks (length pre) (length pre)) =
      scAt fs ms (pre @ piece @ rest) (toks @ ts) (length pre) (length pre + length piece)"
  shows "reads uni fs ms piece ts rest"
  unfolding reads_def
proof (intro allI exI)
  fix pre toks start
  have "\<not> scAtEnd (scAt fs ms (pre @ piece @ rest) toks start (length pre))"
    using assms(1) by (simp add: scAtEnd_def scAt_def)
  then show "scanLoop uni (scAt fs ms (pre @ piece @ rest) toks start (length pre)) =
    scanLoop uni (scAt fs ms (pre @ piece @ rest) (toks @ ts) (length pre) (length pre + length piece))"
    using assms(2) [of pre toks] by (subst scanLoop.simps) (simp add: scAt_def)
qed

section \<open>Single steps\<close>

text \<open>The scanner in front of an ASCII character.\<close>

lemma ahead_ascii:
  assumes "drop (nextByte s) (sc_source s) = c # r" and "(of_char c :: nat) < 0x80"
  shows "scAdvance s = (of_char c, s\<lparr>nextByte := Suc (nextByte s)\<rparr>)"
    and "scMatch d s = (if c = d then (True, s\<lparr>nextByte := Suc (nextByte s)\<rparr>) else (False, s))"
    and "scPeek s = of_char c" and "\<not> scAtEnd s"
proof -
  from assms(1) show e: "\<not> scAtEnd s" by (auto simp: scAtEnd_def)
  have "(of_char c = (of_char d :: nat)) = (c = d)" by simp
  with e assms decodeRune_ascii [OF assms(2), of r]
  show "scAdvance s = (of_char c, s\<lparr>nextByte := Suc (nextByte s)\<rparr>)"
    and "scMatch d s = (if c = d then (True, s\<lparr>nextByte := Suc (nextByte s)\<rparr>) else (False, s))"
    and "scPeek s = of_char c"
    by (auto simp: scAdvance_def scMatch_def scPeek_def)
qed

lemma addToken_at:
  assumes "k \<noteq> str'" and "k \<noteq> keyedAccess"
  shows "addToken k (scAt fs ms (pre @ t @ u) toks (length pre) (length pre + length t)) =
    scAt fs ms (pre @ t @ u) (toks @ [tok k t]) (length pre) (length pre + length t)"
  using assms by (simp add: addToken_def scAt_def substr_middle)

lemma scAt_sel [simp]:
  "sc_source (scAt fs ms src ts start nxt) = src"
  "nextByte (scAt fs ms src ts start nxt) = nxt"
  "lexemeStartByte (scAt fs ms src ts start nxt) = start"
  "sc_fields (scAt fs ms src ts start nxt) = fs"
  "sc_mapFields (scAt fs ms src ts start nxt) = ms"
  "(scAt fs ms src ts start nxt)\<lparr>nextByte := n\<rparr> = scAt fs ms src ts start n"
  by (simp_all add: scAt_def)

lemma adv_at:
  assumes "(of_char c :: nat) < 0x80"
  shows "scAdvance (scAt fs ms (pre @ t @ c # u) toks start (length pre + length t)) =
      (of_char c, scAt fs ms (pre @ t @ c # u) toks start (length pre + length (t @ [c])))"
    and "scMatch d (scAt fs ms (pre @ t @ c # u) toks start (length pre + length t)) =
      (if c = d then (True, scAt fs ms (pre @ t @ c # u) toks start (length pre + length (t @ [c])))
       else (False, scAt fs ms (pre @ t @ c # u) toks start (length pre + length t)))"
  using ahead_ascii [OF _ assms, of "scAt fs ms (pre @ t @ c # u) toks start (length pre + length t)" u]
  by auto

lemmas adv_first = adv_at [where t = "[]", simplified]
lemmas adv_second = adv_at [where t = "[x]" for x, simplified]
lemmas adv_third = adv_at [where t = "[x, y]" for x y, simplified]
lemmas adv_fourth = adv_at [where t = "[x, y, z]" for x y z, simplified]

lemmas addToken_short =
  addToken_at [where t = "[w]" for w, simplified]
  addToken_at [where t = "[w, x]" for w x, simplified]
  addToken_at [where t = "[w, x, y]" for w x y, simplified]
  addToken_at [where t = "[w, x, y, z]" for w x y z, simplified]

lemmas scan_simps = scanToken_def scanBang_def ifMatch_def adv_first adv_second adv_third adv_fourth
  addToken_short

lemma reads_char:
  assumes "(c, k) \<in> {(CHR '':'', colon), (CHR '','', comma), (CHR ''+'', plus'), (CHR ''|'', or'),
    (CHR ''('', parenOpen), (CHR '')'', parenClose)}"
  shows "reads uni fs ms [c] [tok k [c]] rest"
  using assms by (intro reads_token) (auto simp: scan_simps)

lemma reads_blank: "reads uni fs ms '' '' [] rest"
  by (rule reads_token) (simp_all add: scan_simps)

lemma reads_symbol:
  assumes "op \<in> set baseOps"
  shows "reads uni fs ms (cmpSymbol neg op) [tok (opKind neg op) (cmpSymbol neg op)] rest"
  using assms
  by (intro reads_token) (auto simp: baseOps_def cmpSymbol_def opSymbol_def opKind_def scan_simps)

section \<open>Delimited text and identifiers\<close>

text \<open>
  The loop up to a delimiter stops exactly there, whatever bytes stand before it: a multi-byte
  rune never extends over an ASCII byte.
\<close>

lemma decodeRune_stops:
  assumes "q \<notin> set (c # v)" and "(of_char q :: nat) < 0x80"
  shows "fst (decodeRune (c # v @ q # r)) \<noteq> of_char q"
    and "1 \<le> snd (decodeRune (c # v @ q # r))"
    and "snd (decodeRune (c # v @ q # r)) \<le> length (c # v)"
proof -
  show "fst (decodeRune (c # v @ q # r)) \<noteq> of_char q"
  proof (cases "(of_char c :: nat) < 0x80")
    case True
    with assms(1) show ?thesis by (auto simp: decodeRune_ascii)
  next
    case False
    with decodeRune_not_ascii [of c "v @ q # r"] assms(2) show ?thesis by linarith
  qed
  let ?n = "snd (decodeRune (c # v @ q # r))"
  show "1 \<le> ?n" using decodeRune_size [of "c # v @ q # r"] by simp
  show "?n \<le> length (c # v)"
  proof (rule ccontr)
    assume "\<not> ?n \<le> length (c # v)"
    then have "q \<in> set (take (?n - 1) (v @ q # r))" by (auto simp: take_Cons')
    from decodeRune_rest_not_ascii [OF this] assms(2) show False by simp
  qed
qed

lemma scanUntil_at:
  assumes "drop (nextByte s) (sc_source s) = v @ q # r" and "q \<notin> set v" and "(of_char q :: nat) < 0x80"
  shows "scanUntil q s = s\<lparr>nextByte := nextByte s + length v\<rparr>"
  using assms(1,2)
proof (induction "length v" arbitrary: v s rule: less_induct)
  case less
  show ?case
  proof (cases v)
    case Nil
    with less.prems ahead_ascii(3) [of s q r] assms(3) show ?thesis
      by (subst scanUntil.simps) simp
  next
    case (Cons c v')
    let ?n = "snd (decodeRune (c # v' @ q # r))"
    have st: "fst (decodeRune (c # v' @ q # r)) \<noteq> of_char q" "1 \<le> ?n" "?n \<le> length v"
      using decodeRune_stops [of q c v' r] less.prems Cons assms(3) by auto
    have e: "\<not> scAtEnd s" using less.prems(1) Cons by (auto simp: scAtEnd_def)
    let ?s = "s\<lparr>nextByte := nextByte s + ?n\<rparr>"
    have adv: "snd (scAdvance s) = ?s" and peek: "scPeek s \<noteq> of_char q"
      using e less.prems(1) Cons st(1) by (simp_all add: scAdvance_def scPeek_def split_def Let_def)
    have "drop (nextByte ?s) (sc_source ?s) = drop ?n (drop (nextByte s) (sc_source s))"
      by (simp add: add.commute)
    also have "\<dots> = drop ?n v @ q # r" using less.prems(1) st(3) by simp
    finally have d: "drop (nextByte ?s) (sc_source ?s) = drop ?n v @ q # r" .
    have "q \<notin> set (drop ?n v)" using less.prems(2) by (metis in_set_dropD)
    with less.hyps [OF _ d] st(2,3) Cons
    have "scanUntil q ?s = ?s\<lparr>nextByte := nextByte ?s + length (drop ?n v)\<rparr>" by simp
    with adv peek e st(3) show ?thesis by (subst scanUntil.simps) simp
  qed
qed

lemma scanUntil_scAt:
  assumes "q \<notin> set v" and "(of_char q :: nat) < 0x80"
  shows "scanUntil q (scAt fs ms (pre @ d # v @ q # r) toks start (Suc (length pre))) =
    scAt fs ms (pre @ d # v @ q # r) toks start (length pre + length (d # v))"
  using scanUntil_at [OF _ assms, of "scAt fs ms (pre @ d # v @ q # r) toks start (Suc (length pre))" r]
  by simp

text \<open>The token of a delimited text holds the text between the delimiters.\<close>

lemma addToken_delimited:
  assumes "k = str' \<or> k = keyedAccess"
  shows "addToken k (scAt fs ms (pre @ d # v @ q # u) toks (length pre) (length pre + length (d # v @ [q]))) =
    scAt fs ms (pre @ d # v @ q # u) (toks @ [tok k v]) (length pre) (length pre + length (d # v @ [q]))"
proof -
  have "substr (length pre) (length pre + length (d # v @ [q])) (pre @ (d # v @ [q]) @ u) = d # v @ [q]"
    by (rule substr_middle)
  then show ?thesis using assms by (auto simp: addToken_def scAt_def substr_def)
qed

lemma not_atEnd_at: "\<not> scAtEnd (scAt fs ms (pre @ d # v @ q # r) toks start (length pre + length (d # v)))"
  by (simp add: scAtEnd_def)

lemma advance_delimiter:
  assumes "(of_char q :: nat) < 0x80"
  shows "snd (scAdvance (scAt fs ms (pre @ d # v @ q # r) toks start (length pre + length (d # v)))) =
    scAt fs ms (pre @ d # v @ q # r) toks start (length pre + length (d # v @ [q]))"
  using adv_at(1) [OF assms, of fs ms pre "d # v" r toks start] by simp

lemma reads_string:
  assumes "CHR 0x22 \<notin> set v"
  shows "reads uni fs ms ([CHR 0x22] @ v @ [CHR 0x22]) [tok str' v] rest"
proof (rule reads_token)
  fix pre toks
  have "scanString (scAt fs ms (pre @ CHR 0x22 # v @ CHR 0x22 # rest) toks (length pre) (Suc (length pre))) =
    scAt fs ms (pre @ CHR 0x22 # v @ CHR 0x22 # rest) (toks @ [tok str' v]) (length pre)
      (length pre + length (CHR 0x22 # v @ [CHR 0x22]))"
    using scanUntil_scAt [of "CHR 0x22" v] assms not_atEnd_at advance_delimiter [of "CHR 0x22"] addToken_delimited
    by (simp add: scanString_def Let_def del: length_append list.size)
  then show "scanToken uni (scAt fs ms (pre @ ([CHR 0x22] @ v @ [CHR 0x22]) @ rest) toks (length pre) (length pre)) =
    scAt fs ms (pre @ ([CHR 0x22] @ v @ [CHR 0x22]) @ rest) (toks @ [tok str' v]) (length pre)
      (length pre + length ([CHR 0x22] @ v @ [CHR 0x22]))"
    by (simp add: scanToken_def adv_first)
qed simp

lemma reads_keyedAccess:
  assumes "CHR '']'' \<notin> set v"
  shows "reads uni fs ms (''['' @ v @ '']'') [tok keyedAccess v] rest"
proof (rule reads_token)
  fix pre toks
  have "scanKeyedAccess (scAt fs ms (pre @ CHR ''['' # v @ CHR '']'' # rest) toks (length pre) (Suc (length pre))) =
    scAt fs ms (pre @ CHR ''['' # v @ CHR '']'' # rest) (toks @ [tok keyedAccess v]) (length pre)
      (length pre + length (CHR ''['' # v @ '']''))"
    using scanUntil_scAt [of "CHR '']''" v] assms not_atEnd_at advance_delimiter [of "CHR '']''"] addToken_delimited
    by (simp add: scanKeyedAccess_def Let_def del: length_append list.size)
  then show "scanToken uni (scAt fs ms (pre @ (''['' @ v @ '']'') @ rest) toks (length pre) (length pre)) =
    scAt fs ms (pre @ (''['' @ v @ '']'') @ rest) (toks @ [tok keyedAccess v]) (length pre)
      (length pre + length (''['' @ v @ '']''))"
    by (simp add: scanToken_def adv_first)
qed simp

text \<open>An identifier is read up to the first character that cannot be part of one.\<close>

definition identEnd :: "string \<Rightarrow> bool" where
  "identEnd rest =
     (case rest of [] \<Rightarrow> True | c # _ \<Rightarrow> (of_char c :: nat) < 0x80 \<and> \<not> isAsciiIdentifierChar (of_char c))"

lemma isAsciiIdentifierChar_ascii: "isAsciiIdentifierChar r \<Longrightarrow> r < 0x80"
  by (auto simp: isAsciiIdentifierChar_def)

lemma scanIdent_at:
  assumes "drop (nextByte s) (sc_source s) = w @ rest"
    and "list_all (\<lambda>c. isAsciiIdentifierChar (of_char c)) w" and "identEnd rest"
  shows "scanIdent uni s = s\<lparr>nextByte := nextByte s + length w\<rparr>"
  using assms(1,2)
proof (induction w arbitrary: s)
  case Nil
  have "\<not> isIdentifierChar uni (scPeek s)"
  proof (cases rest)
    case Nil
    with Nil.prems show ?thesis using isIdentifierChar_0 by (simp add: scPeek_def scAtEnd_def)
  next
    case (Cons c r)
    with Nil.prems assms(3) ahead_ascii(3) [of s c r] show ?thesis
      by (simp add: identEnd_def isIdentifierChar_def)
  qed
  then show ?case by (subst scanIdent.simps) simp
next
  case (Cons c w)
  then have c: "isAsciiIdentifierChar (of_char c)" "(of_char c :: nat) < 0x80"
    by (auto dest: isAsciiIdentifierChar_ascii)
  let ?s = "s\<lparr>nextByte := Suc (nextByte s)\<rparr>"
  have "drop (nextByte ?s) (sc_source ?s) = w @ rest"
    using Cons.prems(1) by (simp add: drop_Suc drop_tl)
  then have "scanIdent uni ?s = ?s\<lparr>nextByte := nextByte ?s + length w\<rparr>"
    using Cons.IH [of ?s] Cons.prems(2) by simp
  with c Cons.prems ahead_ascii(1,3) [of s c "w @ rest"] show ?case
    by (subst scanIdent.simps) (simp add: isIdentifierChar_def)
qed

text \<open>An identifier character starts no other token.\<close>

lemma identChar_plain:
  assumes "isAsciiIdentifierChar (of_char c)"
  shows "c \<notin> set '':,+|!()<~[ '' \<and> of_char c \<noteq> (0x22 :: nat) \<and> of_char c \<noteq> (9 :: nat) \<and>
    of_char c \<noteq> (10 :: nat) \<and> of_char c \<noteq> (13 :: nat) \<and> of_char c \<noteq> runeError"
proof -
  have "c \<notin> set '':,+|!()<~[ ''" using assms by (auto simp: isAsciiIdentifierChar_def)
  with assms show ?thesis by (auto simp: isAsciiIdentifierChar_def runeError_def)
qed

lemma scanToken_identChar:
  assumes "isAsciiIdentifierChar (of_char c)" and "drop (nextByte s) (sc_source s) = c # r"
  shows "scanToken uni s = scanIdentifier uni (s\<lparr>nextByte := Suc (nextByte s)\<rparr>)"
proof -
  have a: "(of_char c :: nat) < 0x80" using assms(1) by (rule isAsciiIdentifierChar_ascii)
  have ne: "of_char c \<noteq> (of_char d :: nat)" if "d \<in> set '':,+|!()<~[ ''" for d
    using identChar_plain [OF assms(1)] that by auto
  have "(of_char c :: nat) \<noteq> 0x20" using ne [of "CHR '' ''"] by simp
  with ahead_ascii(1) [OF assms(2) a] identChar_plain [OF assms(1)] assms(1) a ne [of "CHR '':''"]
    ne [of "CHR '',''"] ne [of "CHR ''+''"] ne [of "CHR ''|''"] ne [of "CHR ''!''"] ne [of "CHR ''(''"]
    ne [of "CHR '')''"] ne [of "CHR ''<''"] ne [of "CHR ''~''"] ne [of "CHR ''[''"]
  show ?thesis by (simp add: scanToken_def isIdentifierChar_def)
qed

lemma reads_identifier:
  assumes "name \<noteq> []" and "list_all (\<lambda>c. isAsciiIdentifierChar (of_char c)) name" and "identEnd rest"
    and "fs name \<noteq> None \<or> ms name \<noteq> None"
  shows "reads uni fs ms name [tok (if fs name \<noteq> None then filterField else mapField) name] rest"
proof (rule reads_token [OF assms(1)])
  fix pre toks
  obtain c w where n: "name = c # w" using assms(1) by (cases name) auto
  let ?s = "scAt fs ms (pre @ name @ rest) toks (length pre) (length pre)"
  have "drop (nextByte (?s\<lparr>nextByte := Suc (nextByte ?s)\<rparr>)) (sc_source (?s\<lparr>nextByte := Suc (nextByte ?s)\<rparr>)) = w @ rest"
    by (simp add: n)
  from scanIdent_at [OF this _ assms(3), of uni]
  have "scanIdent uni (scAt fs ms (pre @ name @ rest) toks (length pre) (Suc (length pre))) =
    scAt fs ms (pre @ name @ rest) toks (length pre) (length pre + length name)"
    using assms(2) n by simp
  moreover have "scanToken uni ?s = scanIdentifier uni (scAt fs ms (pre @ name @ rest) toks (length pre) (Suc (length pre)))"
    using scanToken_identChar [of c ?s "w @ rest" uni] assms(2) n by simp
  moreover have "substr (length pre) (length pre + length name) (pre @ name @ rest) = name"
    by (rule substr_middle)
  ultimately show "scanToken uni ?s = scAt fs ms (pre @ name @ rest)
      (toks @ [tok (if fs name \<noteq> None then filterField else mapField) name]) (length pre) (length pre + length name)"
    using assms(4) by (auto simp: scanIdentifier_def Let_def addToken_at)
qed

section \<open>The text of a query\<close>

lemma reads_values:
  "list_all (\<lambda>v. CHR 0x22 \<notin> set v) vs \<Longrightarrow>
   reads uni fs ms (concat (map (\<lambda>other. '','' @ [CHR 0x22] @ other @ [CHR 0x22]) vs)) (valueTokens vs) rest"
proof (induction vs)
  case Nil
  then show ?case by (simp add: valueTokens_def reads_Nil)
next
  case (Cons v vs)
  let ?tail = "concat (map (\<lambda>other. '','' @ [CHR 0x22] @ other @ [CHR 0x22]) vs)"
  from Cons have v: "reads uni fs ms ([CHR 0x22] @ v @ [CHR 0x22]) [tok str' v] (?tail @ rest)"
    by (intro reads_string) simp
  have c: "reads uni fs ms '','' [tok comma '',''] (([CHR 0x22] @ v @ [CHR 0x22]) @ ?tail @ rest)"
    by (rule reads_char) simp
  from reads_append [OF reads_append [OF c v]] Cons.IH Cons.prems show ?case
    by (simp add: valueTokens_def)
qed

lemma cmpSymbol_end: "op \<in> set baseOps \<Longrightarrow> identEnd (cmpSymbol neg op @ rest)"
  by (auto simp: baseOps_def cmpSymbol_def opSymbol_def identEnd_def isAsciiIdentifierChar_def)

lemma reads_ident:
  assumes "identOk fs ms i" and "identEnd rest"
  shows "reads uni fs ms (identifierString i) (identTokens fs i) rest"
proof -
  from assms(1) obtain f where f: "id_Field i = Some f" by (auto simp: identOk_def split: option.splits)
  let ?n = "fld_Name f"
  from assms(1) f have n: "?n \<noteq> []" "list_all (\<lambda>c. isAsciiIdentifierChar (of_char c)) ?n"
    "fs ?n \<noteq> None \<or> ms ?n \<noteq> None" "CHR '']'' \<notin> set (id_Key i)" by (auto simp: identOk_def)
  show ?thesis
  proof (cases "id_Key i = []")
    case True
    with reads_identifier [of ?n rest fs ms uni] n assms(2) f show ?thesis
      by (simp add: identifierString_def identTokens_def Let_def)
  next
    case False
    have "identEnd ((''['' @ id_Key i @ '']'') @ rest)"
      by (simp add: identEnd_def isAsciiIdentifierChar_def)
    with reads_identifier [of ?n "(''['' @ id_Key i @ '']'') @ rest" fs ms uni] n
    have "reads uni fs ms ?n [tok (if fs ?n \<noteq> None then filterField else mapField) ?n]
      ((''['' @ id_Key i @ '']'') @ rest)" by blast
    from reads_append [OF this reads_keyedAccess [OF n(4)]] False f show ?thesis by (simp add: identifierString_def identTokens_def Let_def)
  qed
qed

lemma reads_cmp:
  assumes "wfQuery fs ms (QCmp neg op i vs)"
  shows "reads uni fs ms (writeOp (cmpSymbol neg op) i (hd vs) (tl vs)) (cmpTokens fs neg op i vs) rest"
proof -
  from assms have op: "op \<in> set baseOps" and i: "identOk fs ms i"
    and v: "CHR 0x22 \<notin> set (hd vs)" "list_all (\<lambda>v. CHR 0x22 \<notin> set v) (tl vs)"
    by (cases vs; auto)+
  let ?tail = "concat (map (\<lambda>other. '','' @ [CHR 0x22] @ other @ [CHR 0x22]) (tl vs))"
  have "reads uni fs ms (([CHR 0x22] @ hd vs @ [CHR 0x22]) @ ?tail) ([tok str' (hd vs)] @ valueTokens (tl vs)) rest"
    by (rule reads_append [OF reads_string [OF v(1)] reads_values [OF v(2)]])
  from reads_append [OF reads_symbol [OF op] this, of neg]
  have "reads uni fs ms (cmpSymbol neg op @ ([CHR 0x22] @ hd vs @ [CHR 0x22]) @ ?tail)
    ([tok (opKind neg op) (cmpSymbol neg op)] @ [tok str' (hd vs)] @ valueTokens (tl vs)) rest" .
  moreover have "identEnd ((cmpSymbol neg op @ ([CHR 0x22] @ hd vs @ [CHR 0x22]) @ ?tail) @ rest)"
    using cmpSymbol_end [OF op] by simp
  ultimately show ?thesis
    using reads_append [OF reads_ident [OF i]] by (simp add: writeOp_def cmpTokens_def)
qed

text \<open>The operands of a group, joined by its symbol.\<close>

lemma reads_members:
  assumes "\<And>q rest. q \<in> set qs \<Longrightarrow> reads uni fs ms (f q) (g q) rest"
  shows "reads uni fs ms (concat (map (\<lambda>q. ('' '' @ groupSymbol c @ '' '') @ f q) qs))
    (concat (map (\<lambda>q. tok (groupKind c) (groupSymbol c) # g q) qs)) rest"
  using assms
proof (induction qs)
  case Nil
  then show ?case by (simp add: reads_Nil)
next
  case (Cons q qs)
  have k: "reads uni fs ms (groupSymbol c) [tok (groupKind c) (groupSymbol c)] r" for r
    unfolding groupSymbol_def groupKind_def by (cases c) (simp_all add: reads_char)
  have "reads uni fs ms (('' '' @ groupSymbol c @ '' '') @ f q) ([] @ [tok (groupKind c) (groupSymbol c)] @ [] @ g q) r" for r
    using reads_append [OF reads_append [OF reads_blank reads_append [OF k reads_blank]] Cons.prems [of q]]
    by simp
  from reads_append [OF this Cons.IH] Cons.prems show ?case by simp
qed

definition groupBody :: "bool \<Rightarrow> string list \<Rightarrow> string" where
  "groupBody c ss = hd ss @ concat (map (\<lambda>f. ('' '' @ groupSymbol c @ '' '') @ f) (tl ss))"

lemma append_delimited: "(@) (x # s @ [y]) = (\<lambda>f. x # s @ y # f)"
  by auto

lemma writeGroupOp_body:
  "2 \<le> length ss \<Longrightarrow> writeGroupOp (groupSymbol c) ss = ''('' @ groupBody c ss @ '')''"
  by (cases ss; cases "tl ss") (auto simp: writeGroupOp_def groupBody_def append_delimited)

lemma reads_body:
  assumes "qs \<noteq> []" and "\<And>q rest. q \<in> set qs \<Longrightarrow> reads uni fs ms (f q) (g q) rest"
  shows "reads uni fs ms (groupBody c (map f qs)) (memberTokens c (map g qs)) rest"
proof -
  obtain q qs' where "qs = q # qs'" using assms(1) by (cases qs) auto
  with reads_append [OF assms(2) reads_members [of qs' uni fs ms f g c]] assms(2) show ?thesis
    by (simp add: memberTokens_def groupBody_def o_def)
qed

lemma reads_query: "wfQuery fs ms q \<Longrightarrow> reads uni fs ms (textString (textOf q)) (qTokens fs q) rest"
proof (induction q arbitrary: rest)
  case (QCmp neg op i vs)
  then show ?case using reads_cmp [of fs ms neg op i vs] by simp
next
  case (QGroup c qs rest)
  then have IH: "\<And>q rest. q \<in> set qs \<Longrightarrow> reads uni fs ms (textString (textOf q)) (qTokens fs q) rest"
    by (simp add: list_all_iff)
  from QGroup.prems have len: "2 \<le> length qs" "qs \<noteq> []" by auto
  have o: "reads uni fs ms ''('' [tok parenOpen ''(''] r" for r by (rule reads_char) simp
  have c: "reads uni fs ms '')'' [tok parenClose '')''] r" for r by (rule reads_char) simp
  have "reads uni fs ms (''('' @ groupBody c (map (\<lambda>q. textString (textOf q)) qs) @ '')'')
    ([tok parenOpen ''(''] @ memberTokens c (map (qTokens fs) qs) @ [tok parenClose '')'']) rest"
    by (intro reads_append o c reads_body [OF len(2)] IH)
  with writeGroupOp_body [of "map (\<lambda>q. textString (textOf q)) qs" c] len(1) show ?case
    by (simp add: o_def)
qed

section \<open>The text the compiler writes\<close>

definition queryText :: "query \<Rightarrow> string" where
  "queryText q =
     (case q of
        QCmp _ _ _ _ \<Rightarrow> textString (textOf q)
      | QGroup c qs \<Rightarrow> groupBody c (map (\<lambda>q. textString (textOf q)) qs))"

definition rootTokens :: "(string \<rightharpoonup> astField) \<Rightarrow> query \<Rightarrow> token list" where
  "rootTokens fs q =
     (case q of
        QCmp _ _ _ _ \<Rightarrow> qTokens fs q
      | QGroup c qs \<Rightarrow> memberTokens c (map (qTokens fs) qs))"

lemma reads_root:
  assumes "wfQuery fs ms q"
  shows "reads uni fs ms (queryText q) (rootTokens fs q) rest"
proof (cases q)
  case (QCmp neg op i vs)
  with reads_query [OF assms] show ?thesis by (simp add: queryText_def rootTokens_def)
next
  case (QGroup c qs)
  with assms have "qs \<noteq> []" "\<And>q. q \<in> set qs \<Longrightarrow> wfQuery fs ms q" by (auto simp: list_all_iff)
  with QGroup reads_body [of qs uni fs ms "\<lambda>q. textString (textOf q)" "qTokens fs" c rest] reads_query
  show ?thesis by (simp add: queryText_def rootTokens_def)
qed

lemma lex_reads:
  assumes "reads uni fs ms raw ts []"
  shows "lex' uni raw fs ms = (ts @ [tok eof []], [])"
proof -
  from assms [unfolded reads_def, rule_format, of "[]" "[]" 0]
  obtain st where "scanLoop uni (scAt fs ms raw [] 0 0) = scanLoop uni (scAt fs ms raw ts st (length raw))" by auto
  moreover have "scAtEnd (scAt fs ms raw ts st (length raw))" by (simp add: scAtEnd_def)
  ultimately have "scanLoop uni (scAt fs ms raw [] 0 0) = scAt fs ms raw ts st (length raw)"
    using scanLoop.simps by metis
  then show ?thesis by (simp add: lex'_def scanTokens_def scAt_def Let_def)
qed

lemma lex_query:
  assumes "wfQuery fs ms q"
  shows "lex' uni (queryText q) fs ms = (rootTokens fs q @ [tok eof []], [])"
  by (rule lex_reads [OF reads_root [OF assms]])

lemma lex_two:
  assumes "wfQuery fs ms q1" and "wfQuery fs ms q2"
  shows "lex' uni (queryText q1 @ '' '' @ queryText q2) fs ms = ((rootTokens fs q1 @ [] @ rootTokens fs q2) @ [tok eof []], [])"
  by (rule lex_reads) (intro reads_append reads_root assms reads_blank)

text \<open>A tree without contradictions: what the text compiler returns is the root operation.\<close>

lemma query_leaves: "wfQuery fs ms q \<Longrightarrow> ContradictionOp \<notin> set (leaves (qNode q)) \<and> qNode q \<noteq> VoidOp"
proof (induction q)
  case (QCmp neg op i vs)
  then show ?case by (auto simp: baseOps_def qLeaf_def mkLeaf_def)
next
  case (QGroup c qs)
  then show ?case by (auto simp: list_all_iff)
qed

lemma textCompile_query:
  assumes "wfQuery fs ms q"
  shows "textCompile [] (qNode q) = Some (Inr (queryText q))"
proof -
  have c: "textCompile [] (qNode q) = map_option Inr (textFinish (textSt False (Some (textOf q)) []))"
    using query_leaves [OF assms] query_fold [OF assms]
    by (simp add: textCompile_def ApplyAll_def text_walk)
  show ?thesis
  proof (cases q)
    case (QCmp neg op i vs)
    with c show ?thesis by (simp add: textFinish_def textSt_def queryText_def)
  next
    case (QGroup cj qs)
    with assms have "2 \<le> length (map (\<lambda>q. textString (textOf q)) qs)" by simp
    from writeGroupOp_body [OF this, of cj]
    have "textString (textOf q) = ''('' @ queryText q @ '')''"
      by (simp add: QGroup queryText_def o_def)
    with c QGroup show ?thesis
      by (auto simp: textFinish_def textSt_def groupSymbol_def substr_def Let_def)
  qed
qed

end
