(* ===== verification/Filter_Parser.thy ===== *)
theory Filter_Parser
  imports Filter_Walker Filter_Lexer "HOL-Library.Monad_Syntax"
begin

text \<open>
  The recursive-descent parser of \<^verbatim>\<open>core/pkg/filter/ast/parser.go\<close>. The parser state is the
  token slice and the index of the current token, passed explicitly. Reading a token outside the
  slice panics in Go; every parser method returns an option, and \<open>None\<close> is that panic.
  The two mutually dependent parts of \<^verbatim>\<open>filter\<close> (the operand and the loop over a group's
  operators) take a fuel argument, and running out of it is \<open>None\<close> as well, so a theorem that
  a call returns \<open>Some\<close> says that it terminates and that no index is out of range.

  Errors are values of the type \<open>parseError\<close>. The error accumulator of \<^verbatim>\<open>go-multierror\<close> is
  the list of the errors appended to it; appending another accumulator appends its errors one by
  one, and \<^verbatim>\<open>ErrorOrNil\<close> is nil exactly when nothing was appended.
\<close>

section \<open>Parser state and token handling\<close>

text \<open>The messages given to \<^verbatim>\<open>parseError\<close>.\<close>

datatype parseMessage =
    ExpectKeyMappedField | ExpectFilterField | ExpectKnownField | ExpectFilterOp
  | UnhandledOpToken | ExpectString

datatype parseError =
    PErr token parseMessage
  | WrappedParseError parseError
  | FailedToParseOp filterOp
  | CloseWithoutOpen
  | OpenWithoutClose
  | FoundExpected tokenKind tokenKind

record parser =
  ps_tokens :: "token list"
  ps_current :: nat
  ps_fields :: "string \<rightharpoonup> astField"
  ps_mapFields :: "string \<rightharpoonup> astField"

definition psPeek :: "parser \<Rightarrow> token option" where
  "psPeek p =
     (if ps_current p < length (ps_tokens p) then Some (ps_tokens p ! ps_current p) else None)"

definition psAtEnd :: "parser \<Rightarrow> bool option" where
  "psAtEnd p = do { t \<leftarrow> psPeek p; Some (tk_kind t = eof) }"

definition psPrevious :: "parser \<Rightarrow> token option" where
  "psPrevious p =
     (if 0 < ps_current p \<and> ps_current p - 1 < length (ps_tokens p)
      then Some (ps_tokens p ! (ps_current p - 1)) else None)"

definition psAdvance :: "parser \<Rightarrow> (token \<times> parser) option" where
  "psAdvance p = do {
     e \<leftarrow> psAtEnd p;
     let p' = (if e then p else p\<lparr>ps_current := ps_current p + 1\<rparr>);
     t \<leftarrow> psPrevious p';
     Some (t, p') }"

definition psCheck :: "tokenKind \<Rightarrow> parser \<Rightarrow> bool option" where
  "psCheck tk p = do {
     e \<leftarrow> psAtEnd p;
     if e then Some False else do { t \<leftarrow> psPeek p; Some (tk_kind t = tk) } }"

fun psMatch :: "tokenKind list \<Rightarrow> parser \<Rightarrow> (bool \<times> parser) option" where
  "psMatch [] p = Some (False, p)"
| "psMatch (k # ks) p = do {
     b \<leftarrow> psCheck k p;
     if b then do { (_, p') \<leftarrow> psAdvance p; Some (True, p') } else psMatch ks p }"

declare psMatch.simps [simp del]

definition psConsume :: "tokenKind \<Rightarrow> parseMessage \<Rightarrow> parser \<Rightarrow> ((parseError + token) \<times> parser) option" where
  "psConsume tk message p = do {
     b \<leftarrow> psCheck tk p;
     if b then do { (t, p') \<leftarrow> psAdvance p; Some (Inr t, p') }
     else do { t \<leftarrow> psPeek p; Some (Inl (PErr t message), p) } }"

lemma psAdvance_running:
  assumes "psPeek p = Some t" and "tk_kind t \<noteq> eof"
  shows "psAdvance p = Some (t, p\<lparr>ps_current := ps_current p + 1\<rparr>)"
  using assms by (auto simp: psAdvance_def psAtEnd_def psPrevious_def psPeek_def split: if_splits)

function psSynchronize :: "tokenKind list \<Rightarrow> parser \<Rightarrow> parser option" where
  "psSynchronize toks p =
     (if toks = [] then Some p
      else (case psPeek p of
              None \<Rightarrow> None
            | Some t \<Rightarrow>
                if tk_kind t = eof then Some p
                else if tk_kind t \<in> set toks then Some p
                else (case psAdvance p of None \<Rightarrow> None | Some (_, p') \<Rightarrow> psSynchronize toks p')))"
  by pat_completeness auto
termination
proof (relation "measure (\<lambda>(toks, p). length (ps_tokens p) - ps_current p)", goal_cases)
  case (2 toks p t _ p')
  then show ?case by (auto simp: psAdvance_running psPeek_def split: if_splits)
qed simp

declare psSynchronize.simps [simp del]

section \<open>Comparisons\<close>

definition filterKey :: "parser \<Rightarrow> ((parseError + astField \<times> string) \<times> parser) option" where
  "filterKey p = do {
     (b, p1) \<leftarrow> psMatch [mapField] p;
     if b then do {
       t \<leftarrow> psPrevious p1;
       case ps_mapFields p1 (tk_s t) of
         None \<Rightarrow> Some (Inl (PErr t ExpectKeyMappedField), p1)
       | Some mappedField \<Rightarrow> do {
           (k, p2) \<leftarrow> psMatch [keyedAccess] p1;
           if k then do { t2 \<leftarrow> psPrevious p2; Some (Inr (mappedField, tk_s t2), p2) }
           else Some (Inr (mappedField, []), p2) } }
     else do {
       (r, p2) \<leftarrow> psConsume filterField ExpectFilterField p1;
       case r of
         Inl err \<Rightarrow> Some (Inl err, p2)
       | Inr _ \<Rightarrow> do {
           t \<leftarrow> psPrevious p2;
           case ps_fields p2 (tk_s t) of
             None \<Rightarrow> Some (Inl (PErr t ExpectKnownField), p2)
           | Some mappedField \<Rightarrow> Some (Inr (mappedField, []), p2) } } }"

definition filterOpKinds :: "tokenKind list" where
  "filterOpKinds = [colon, bangColon, tildeColon, bangTildeColon, startTildeColon,
     bangStartTildeColon, tildeEndColon, bangTildeEndColon]"

definition filterOp' :: "parser \<Rightarrow> ((parseError + token) \<times> parser) option" where
  "filterOp' p = do {
     (b, p1) \<leftarrow> psMatch filterOpKinds p;
     if b then do { t \<leftarrow> psPrevious p1; Some (Inr t, p1) }
     else do { t \<leftarrow> psPeek p1;
               Some (Inl (PErr t ExpectFilterOp), p1) } }"

text \<open>The loop of \<^verbatim>\<open>filterValues\<close>: one more string for every comma.\<close>

function filterValuesLoop :: "string list \<Rightarrow> parser \<Rightarrow> ((parseError + string list) \<times> parser) option" where
  "filterValuesLoop vals p =
     (case psMatch [comma] p of
        None \<Rightarrow> None
      | Some (b, p1) \<Rightarrow>
          if \<not> b then Some (Inr vals, p1)
          else (case psConsume str' ExpectString p1 of
                  None \<Rightarrow> None
                | Some (Inl err, p2) \<Rightarrow> Some (Inl err, p2)
                | Some (Inr _, p2) \<Rightarrow>
                    (case psPrevious p2 of
                       None \<Rightarrow> None
                     | Some t \<Rightarrow> filterValuesLoop (vals @ [tk_s t]) p2)))"
  by pat_completeness auto
termination
proof (relation "measure (\<lambda>(vals, p). length (ps_tokens p) - ps_current p)", goal_cases)
  case (2 vals p b p1 r x p2 t)
  then show ?case
    by (auto simp: psMatch.simps psConsume_def psCheck_def psAtEnd_def psAdvance_running psPeek_def bind_eq_Some_conv
        split: if_splits)
qed simp

declare filterValuesLoop.simps [simp del]

definition filterValues :: "parser \<Rightarrow> ((parseError + string list) \<times> parser) option" where
  "filterValues p = do {
     (r, p1) \<leftarrow> psConsume str' ExpectString p;
     case r of
       Inl err \<Rightarrow> Some (Inl err, p1)
     | Inr _ \<Rightarrow> do { t \<leftarrow> psPrevious p1; filterValuesLoop [tk_s t] p1 } }"

definition toFilterNode :: "astField \<Rightarrow> string \<Rightarrow> filterOp \<Rightarrow> string \<Rightarrow> parseError + filterNode" where
  "toFilterNode fld key op value =
     (let left = \<lparr>id_Field = Some fld, id_Key = key\<rparr>
      in case op of
           FilterOpEquals \<Rightarrow> Inr (EqualOp left value)
         | FilterOpNotEquals \<Rightarrow> Inr (NotOp (EqualOp left value))
         | FilterOpContains \<Rightarrow> Inr (ContainsOp left value)
         | FilterOpNotContains \<Rightarrow> Inr (NotOp (ContainsOp left value))
         | FilterOpContainsPrefix \<Rightarrow> Inr (ContainsPrefixOp left value)
         | FilterOpNotContainsPrefix \<Rightarrow> Inr (NotOp (ContainsPrefixOp left value))
         | FilterOpContainsSuffix \<Rightarrow> Inr (ContainsSuffixOp left value)
         | FilterOpNotContainsSuffix \<Rightarrow> Inr (NotOp (ContainsSuffixOp left value))
         | _ \<Rightarrow> Inl (FailedToParseOp op))"

text \<open>The loop \<^verbatim>\<open>for _, v := range values\<close> that collects the operands of the base filter.\<close>

fun toFilterNodes :: "astField \<Rightarrow> string \<Rightarrow> filterOp \<Rightarrow> string list \<Rightarrow> parseError + filterNode list" where
  "toFilterNodes fld key op [] = Inr []"
| "toFilterNodes fld key op (v # vs) =
     (case toFilterNode fld key op v of
        Inl err \<Rightarrow> Inl (WrappedParseError err)
      | Inr node \<Rightarrow>
          (case toFilterNodes fld key op vs of Inl err \<Rightarrow> Inl err | Inr nodes \<Rightarrow> Inr (node # nodes)))"

definition selectOp :: "astField \<Rightarrow> string \<Rightarrow> tokenKind \<Rightarrow> filterOp option" where
  "selectOp fld key kind =
     (case kind of
        colon \<Rightarrow>
          Some (if isSlice fld \<or> (isMap fld \<and> key = []) then FilterOpContains else FilterOpEquals)
      | bangColon \<Rightarrow>
          Some (if isSlice fld \<or> (isMap fld \<and> key = []) then FilterOpNotContains else FilterOpNotEquals)
      | tildeColon \<Rightarrow> Some FilterOpContains
      | bangTildeColon \<Rightarrow> Some FilterOpNotContains
      | startTildeColon \<Rightarrow> Some FilterOpContainsPrefix
      | bangStartTildeColon \<Rightarrow> Some FilterOpNotContainsPrefix
      | tildeEndColon \<Rightarrow> Some FilterOpContainsSuffix
      | bangTildeEndColon \<Rightarrow> Some FilterOpNotContainsSuffix
      | _ \<Rightarrow> None)"

text \<open>Several values: a negated operator joins them with AND, any other with OR.\<close>

definition combineValues ::
  "astField \<Rightarrow> string \<Rightarrow> tokenKind \<Rightarrow> filterOp \<Rightarrow> string list \<Rightarrow> parseError + filterNode" where
  "combineValues fld key kind op values =
     (if length values = 1
      then (case toFilterNode fld key op (hd values) of
              Inl err \<Rightarrow> Inl (WrappedParseError err) | Inr node \<Rightarrow> Inr node)
      else (case toFilterNodes fld key op values of
              Inl err \<Rightarrow> Inl err
            | Inr nodes \<Rightarrow>
                Inr (if kind \<in> {bangColon, bangTildeColon, bangStartTildeColon, bangTildeEndColon}
                     then AndOp nodes else OrOp nodes)))"

definition comparison :: "parser \<Rightarrow> ((parseError + filterNode) \<times> parser) option" where
  "comparison p = do {
     (rk, p1) \<leftarrow> filterKey p;
     case rk of
       Inl err \<Rightarrow> Some (Inl err, p1)
     | Inr (fld, key) \<Rightarrow> do {
         (ro, p2) \<leftarrow> filterOp' p1;
         case ro of
           Inl err \<Rightarrow> Some (Inl err, p2)
         | Inr opToken \<Rightarrow>
             (case selectOp fld key (tk_kind opToken) of
                None \<Rightarrow> Some (Inl (PErr opToken UnhandledOpToken), p2)
              | Some op \<Rightarrow> do {
                  (rv, p3) \<leftarrow> filterValues p2;
                  case rv of
                    Inl err \<Rightarrow> Some (Inl err, p3)
                  | Inr values \<Rightarrow>
                      Some (combineValues fld key (tk_kind opToken) op values, p3) }) } }"

section \<open>Filters\<close>

definition syncKinds :: "tokenKind list" where
  "syncKinds = [plus', or', parenClose]"

text \<open>
  The result of \<^verbatim>\<open>filter\<close>: the node and the errors collected; Go's error is nil exactly when
  the list is empty. Parsing one operand, after \<^verbatim>\<open>p.match(parenOpen)\<close> or else as a comparison,
  is the same code at the head of \<^verbatim>\<open>filter\<close> and in its loop; its result here is the operand, if
  it was parsed, and the errors to append.
\<close>

fun filter' :: "nat \<Rightarrow> nat \<Rightarrow> parser \<Rightarrow> ((filterNode \<times> parseError list) \<times> parser) option"
and filterOperand :: "nat \<Rightarrow> nat \<Rightarrow> parser \<Rightarrow> ((filterNode option \<times> parseError list) \<times> parser) option"
and filterLoop :: "nat \<Rightarrow> nat \<Rightarrow> tokenKind \<Rightarrow> filterNode \<Rightarrow> parseError list \<Rightarrow> parser \<Rightarrow>
  ((filterNode \<times> parseError list) \<times> parser) option" where
  "filter' 0 depth p = None"
| "filter' (Suc fuel) depth p = do {
     t \<leftarrow> psPeek p;
     if depth = 0 \<and> tk_kind t = eof then Some ((VoidOp, []), p)
     else do {
       ((topOpt, errs), p1) \<leftarrow> filterOperand fuel depth p;
       let top = (case topOpt of Some n \<Rightarrow> n | None \<Rightarrow> NilNode);
       (closed, p2) \<leftarrow> psMatch [parenClose] p1;
       if closed then Some ((top, errs @ (if depth = 0 then [CloseWithoutOpen] else [])), p2)
       else do {
         t2 \<leftarrow> psPeek p2;
         if tk_kind t2 = plus' then filterLoop fuel depth plus' (nodeAdd (AndOp []) top) errs p2
         else if tk_kind t2 = or' then filterLoop fuel depth or' (nodeAdd (OrOp []) top) errs p2
         else Some ((top, errs @ (if depth > 0 then [OpenWithoutClose] else [])), p2) } } }"
| "filterOperand 0 depth p = None"
| "filterOperand (Suc fuel) depth p = do {
     (open', p1) \<leftarrow> psMatch [parenOpen] p;
     if open' then do {
       ((node, errs), p2) \<leftarrow> filter' fuel (depth + 1) p1;
       if errs \<noteq> [] then Some ((None, errs), p2) else Some ((Some node, []), p2) }
     else do {
       (r, p2) \<leftarrow> comparison p1;
       case r of
         Inl err \<Rightarrow> do { p3 \<leftarrow> psSynchronize syncKinds p2; Some ((None, [err]), p3) }
       | Inr node \<Rightarrow> Some ((Some node, []), p2) } }"
| "filterLoop 0 depth selectedOp f errs p = None"
| "filterLoop (Suc fuel) depth selectedOp f errs p = do {
     (more, p1) \<leftarrow> psMatch [selectedOp] p;
     if \<not> more then Some ((f, errs @ (if depth > 0 then [OpenWithoutClose] else [])), p1)
     else do {
       ((operand, operandErrs), p2) \<leftarrow> filterOperand fuel depth p1;
       let f' = (case operand of Some n \<Rightarrow> nodeAdd f n | None \<Rightarrow> f);
       let errs' = errs @ operandErrs;
       (closed, p3) \<leftarrow> psMatch [parenClose] p2;
       if closed then Some ((f', errs' @ (if depth = 0 then [CloseWithoutOpen] else [])), p3)
       else do {
         t \<leftarrow> psPeek p3;
         if tk_kind t \<noteq> eof \<and> tk_kind t \<noteq> selectedOp
         then do {
           (_, p4) \<leftarrow> psAdvance p3;
           p5 \<leftarrow> psSynchronize syncKinds p4;
           (closed', p6) \<leftarrow> psMatch [parenClose] p5;
           if closed' then Some ((f', errs' @ [FoundExpected (tk_kind t) selectedOp]), p6)
           else filterLoop fuel depth selectedOp f' (errs' @ [FoundExpected (tk_kind t) selectedOp]) p6 }
         else filterLoop fuel depth selectedOp f' errs' p3 } } }"

section \<open>The parser interface\<close>

text \<open>\<^verbatim>\<open>fieldsToMaps\<close>: a later field of the same name and kind replaces an earlier one.\<close>

definition fieldsToMaps :: "astField list \<Rightarrow> (string \<rightharpoonup> astField) \<times> (string \<rightharpoonup> astField)" where
  "fieldsToMaps fs =
     fold (\<lambda>f (fields', mapFields').
             if isMap f then (fields', mapFields'(fld_Name f \<mapsto> f))
             else (fields'(fld_Name f \<mapsto> f), mapFields'))
       fs (Map.empty, Map.empty)"

record filterParser =
  dfp_fields :: "string \<rightharpoonup> astField"
  dfp_mapFields :: "string \<rightharpoonup> astField"

definition NewFilterParser :: "astField list \<Rightarrow> filterParser" where
  "NewFilterParser fs =
     (let (f, m) = fieldsToMaps fs in \<lparr>dfp_fields = f, dfp_mapFields = m\<rparr>)"

datatype filterError = LexingFilter "lexError list" | ParsingFilter "parseError list"

definition parseFuel :: "token list \<Rightarrow> nat" where
  "parseFuel toks = 3 * length toks + 3"

definition Parse :: "(nat \<Rightarrow> bool) \<Rightarrow> filterParser \<Rightarrow> string \<Rightarrow> (filterError + filterNode) option" where
  "Parse uni dfp raw = (
     let (toks, lexErrs) = lex' uni raw (dfp_fields dfp) (dfp_mapFields dfp)
     in if lexErrs \<noteq> [] then Some (Inl (LexingFilter lexErrs))
        else do {
          ((node, errs), _) \<leftarrow> filter' (parseFuel toks) 0
            \<lparr>ps_tokens = toks, ps_current = 0, ps_fields = dfp_fields dfp,
             ps_mapFields = dfp_mapFields dfp\<rparr>;
          Some (if errs \<noteq> [] then Inl (ParsingFilter errs) else Inr node) })"

end
