(* ===== verification/Filter_Parser_Correct.thy ===== *)
theory Filter_Parser_Correct
  imports Filter_Parser
begin

text \<open>
  Total correctness of the parser: on any token slice that ends in its only end-of-input token
  every parser method returns, moves forward only and leaves the slice as it was; the fuel of
  \<open>Parse\<close> is enough; and a parse without errors yields a tree of the shape \<open>parsed\<close>.
  The reasoning is a small Hoare logic on option results, \<open>returns x P\<close>.
\<close>

section \<open>Results that are returned\<close>

definition returns :: "'a option \<Rightarrow> ('a \<Rightarrow> bool) \<Rightarrow> bool" where
  "returns x P \<longleftrightarrow> (\<exists>v. x = Some v \<and> P v)"

lemma returns_Some [simp]: "returns (Some v) P \<longleftrightarrow> P v"
  by (simp add: returns_def)

lemma returns_bind: "returns x P \<Longrightarrow> (\<And>v. P v \<Longrightarrow> returns (f v) Q) \<Longrightarrow> returns (Option.bind x f) Q"
  by (auto simp: returns_def)

lemma returns_mono: "returns x P \<Longrightarrow> (\<And>v. P v \<Longrightarrow> Q v) \<Longrightarrow> returns x Q"
  by (auto simp: returns_def)

lemma returnsE: "returns x P \<Longrightarrow> (\<And>v. x = Some v \<Longrightarrow> P v \<Longrightarrow> thesis) \<Longrightarrow> thesis"
  by (auto simp: returns_def)

section \<open>The parser's invariant\<close>

definition wfPs :: "parser \<Rightarrow> bool" where
  "wfPs p \<longleftrightarrow> ps_current p < length (ps_tokens p) \<and>
     (\<forall>i < length (ps_tokens p). tk_kind (ps_tokens p ! i) = eof \<longleftrightarrow> Suc i = length (ps_tokens p))"

text \<open>\<open>later p p'\<close>: the parser has moved from \<open>p\<close> to \<open>p'\<close>.\<close>

definition later :: "parser \<Rightarrow> parser \<Rightarrow> bool" where
  "later p p' \<longleftrightarrow> ps_tokens p' = ps_tokens p \<and> ps_fields p' = ps_fields p \<and>
     ps_mapFields p' = ps_mapFields p \<and> ps_current p \<le> ps_current p' \<and> wfPs p'"

definition rem :: "parser \<Rightarrow> nat" where
  "rem p = length (ps_tokens p) - ps_current p"

abbreviation next' :: "parser \<Rightarrow> parser" where
  "next' p \<equiv> p\<lparr>ps_current := Suc (ps_current p)\<rparr>"

lemma later_refl: "wfPs p \<Longrightarrow> later p p"
  by (simp add: later_def)

lemma later_trans [trans]: "later p q \<Longrightarrow> later q r \<Longrightarrow> later p r"
  by (auto simp: later_def)

lemma later_wfp: "later p q \<Longrightarrow> wfPs q"
  by (simp add: later_def)

lemma later_rem: "later p q \<Longrightarrow> rem q \<le> rem p"
  by (auto simp: later_def rem_def)

lemma later_tables: "later p q \<Longrightarrow> ps_fields q = ps_fields p \<and> ps_mapFields q = ps_mapFields p"
  by (simp add: later_def)

lemma rem_pos: "wfPs p \<Longrightarrow> 0 < rem p"
  by (simp add: wfPs_def rem_def)

lemma later_next:
  assumes "wfPs p" and "tk_kind (ps_tokens p ! ps_current p) \<noteq> eof"
  shows "later p (next' p)"
proof -
  from assms have "Suc (ps_current p) \<noteq> length (ps_tokens p)" by (auto simp: wfPs_def)
  with assms(1) show ?thesis by (auto simp: later_def wfPs_def)
qed

lemma rem_next: "wfPs p \<Longrightarrow> rem (next' p) < rem p"
  by (auto simp: wfPs_def rem_def)

lemma psPeek_wfp: "wfPs p \<Longrightarrow> psPeek p = Some (ps_tokens p ! ps_current p)"
  by (simp add: psPeek_def wfPs_def)

lemma psPrevious_next: "wfPs p \<Longrightarrow> psPrevious (next' p) = Some (ps_tokens p ! ps_current p)"
  by (simp add: psPrevious_def wfPs_def)

lemma psCheck_wfp:
  "wfPs p \<Longrightarrow> psCheck k p = Some (tk_kind (ps_tokens p ! ps_current p) = k \<and> k \<noteq> eof)"
  by (auto simp: psCheck_def psAtEnd_def psPeek_wfp)

lemma psAdvance_wfp:
  "wfPs p \<Longrightarrow> tk_kind (ps_tokens p ! ps_current p) \<noteq> eof \<Longrightarrow>
     psAdvance p = Some (ps_tokens p ! ps_current p, next' p)"
  by (simp add: psAdvance_running psPeek_wfp)

lemma psMatch_wfp:
  "wfPs p \<Longrightarrow> psMatch ks p =
     (let t = ps_tokens p ! ps_current p
      in if tk_kind t \<in> set ks \<and> tk_kind t \<noteq> eof then Some (True, next' p) else Some (False, p))"
  by (induction ks) (auto simp: psMatch.simps psCheck_wfp psAdvance_wfp Let_def)

text \<open>What a match says: a token of one of the kinds was consumed, or nothing was.\<close>

lemma psMatch_returns:
  assumes "wfPs p"
  shows "returns (psMatch ks p) (\<lambda>(b, p'). later p p' \<and>
    (b \<longrightarrow> rem p' < rem p \<and> (\<exists>t. psPrevious p' = Some t \<and> tk_kind t \<in> set ks \<and> tk_kind t \<noteq> eof \<and>
        t = ps_tokens p ! ps_current p)) \<and>
    (\<not> b \<longrightarrow> p' = p \<and> (tk_kind (ps_tokens p ! ps_current p) \<in> set ks \<longrightarrow>
        tk_kind (ps_tokens p ! ps_current p) = eof)))"
  using assms
  by (auto simp: psMatch_wfp Let_def later_next later_refl rem_next psPrevious_next)

lemma psConsume_returns:
  assumes "wfPs p" and "k \<noteq> eof"
  shows "returns (psConsume k msg p) (\<lambda>(r, p'). later p p' \<and>
    (case r of Inr t \<Rightarrow> rem p' < rem p \<and> psPrevious p' = Some t \<and> tk_kind t = k | Inl _ \<Rightarrow> True))"
  using assms
  by (auto simp: psConsume_def psCheck_wfp psAdvance_wfp psPeek_wfp later_next later_refl rem_next
      psPrevious_next)

lemma psSynchronize_returns:
  assumes "wfPs p"
  shows "returns (psSynchronize toks p) (later p)"
  using assms
proof (induction toks p rule: psSynchronize.induct)
  case (1 toks p)
  let ?t = "ps_tokens p ! ps_current p"
  show ?case
  proof (cases "toks = [] \<or> tk_kind ?t = eof \<or> tk_kind ?t \<in> set toks")
    case True
    with "1.prems" show ?thesis
      by (subst psSynchronize.simps) (auto simp: psPeek_wfp later_refl)
  next
    case False
    with "1.prems" have nxt: "later p (next' p)" by (simp add: later_next)
    have "returns (psSynchronize toks (next' p)) (later (next' p))"
      using "1.IH" [of ?t "(?t, next' p)" ?t "next' p"] False "1.prems" later_wfp [OF nxt]
      by (simp add: psPeek_wfp psAdvance_wfp)
    then have "returns (psSynchronize toks (next' p)) (later p)"
      by (rule returns_mono) (rule later_trans [OF nxt])
    with False "1.prems" show ?thesis
      by (subst psSynchronize.simps) (simp add: psPeek_wfp psAdvance_wfp)
  qed
qed

section \<open>The shape of parsed trees\<close>

text \<open>
  A comparison leaf: its field comes from one of the tables, a key only from the table of
  key-mapped fields, and equality is used on neither slices nor maps without key.
\<close>

definition leafOk :: "(string \<rightharpoonup> astField) \<Rightarrow> (string \<rightharpoonup> astField) \<Rightarrow> filterNode \<Rightarrow> bool" where
  "leafOk fs ms n =
     (case leafParts n of
        None \<Rightarrow> False
      | Some (op, i, _) \<Rightarrow>
          (case id_Field i of
             None \<Rightarrow> False
           | Some f \<Rightarrow>
               ((f \<in> ran fs \<and> id_Key i = []) \<or> f \<in> ran ms) \<and>
               (op = FilterOpEquals \<longrightarrow> \<not> (isSlice f \<or> (isMap f \<and> id_Key i = [])))))"

fun parsed :: "(string \<rightharpoonup> astField) \<Rightarrow> (string \<rightharpoonup> astField) \<Rightarrow> filterNode \<Rightarrow> bool" where
  "parsed fs ms (AndOp ns) = (2 \<le> length ns \<and> (\<forall>n \<in> set ns. parsed fs ms n))"
| "parsed fs ms (OrOp ns) = (2 \<le> length ns \<and> (\<forall>n \<in> set ns. parsed fs ms n))"
| "parsed fs ms (NotOp n) = leafOk fs ms n"
| "parsed fs ms n = leafOk fs ms n"

lemma leafOk_parsed: "leafOk fs ms n \<Longrightarrow> parsed fs ms n"
  by (cases n) (simp_all add: leafOk_def)

lemma parsed_solid: "parsed fs ms n \<Longrightarrow> solid n"
proof (induction n)
  case (NotOp n)
  then show ?case by (cases n) (auto simp: leafOk_def split: option.splits)
qed (auto simp: leafOk_def split: option.splits)

section \<open>Comparisons return\<close>

abbreviation keyOk :: "parser \<Rightarrow> astField \<times> string \<Rightarrow> bool" where
  "keyOk p fk \<equiv> (fst fk \<in> ran (ps_fields p) \<and> snd fk = []) \<or> fst fk \<in> ran (ps_mapFields p)"

lemma filterKey_returns:
  assumes wf: "wfPs p"
  shows "returns (filterKey p) (\<lambda>(r, p'). later p p' \<and>
    (case r of Inr fk \<Rightarrow> keyOk p fk | Inl _ \<Rightarrow> True))"
  unfolding filterKey_def
proof (rule returns_bind [OF psMatch_returns [OF wf]], clarify, goal_cases)
  case (1 b p1)
  show ?case
  proof (cases b)
    case True
    with 1 obtain t where t: "psPrevious p1 = Some t" by auto
    show ?thesis
    proof (cases "ps_mapFields p1 (tk_s t)")
      case None
      with True t 1 show ?thesis by simp
    next
      case (Some f)
      with 1 have f: "f \<in> ran (ps_mapFields p)" by (auto simp: later_def ran_def)
      have "returns (psMatch [keyedAccess] p1 \<bind> (\<lambda>(k, p2).
          if k then psPrevious p2 \<bind> (\<lambda>t2. Some (Inr (f, tk_s t2), p2))
          else Some (Inr (f, []), p2)))
        (\<lambda>(r, p'). later p p' \<and> (case r of Inr fk \<Rightarrow> keyOk p fk | Inl _ \<Rightarrow> True))"
        by (rule returns_bind [OF psMatch_returns [OF later_wfp]])
          (use 1 f in \<open>auto intro: later_trans\<close>)
      with True t Some show ?thesis by simp
    qed
  next
    case False
    with 1 wf have p1: "p1 = p" by simp
    have "returns (psConsume filterField ExpectFilterField p \<bind> (\<lambda>(r, p2).
        case r of Inl err \<Rightarrow> Some (Inl err, p2)
        | Inr _ \<Rightarrow> psPrevious p2 \<bind> (\<lambda>t.
            case ps_fields p2 (tk_s t) of None \<Rightarrow> Some (Inl (PErr t ExpectKnownField), p2)
            | Some f \<Rightarrow> Some (Inr (f, []), p2))))
      (\<lambda>(r, p'). later p p' \<and> (case r of Inr fk \<Rightarrow> keyOk p fk | Inl _ \<Rightarrow> True))"
      by (rule returns_bind [OF psConsume_returns [OF wf]])
        (auto simp: later_def ran_def split: sum.splits option.splits)
    with False p1 show ?thesis by simp
  qed
qed

lemma filterOp_returns:
  assumes "wfPs p"
  shows "returns (filterOp' p) (\<lambda>(r, p'). later p p' \<and>
    (case r of Inr t \<Rightarrow> tk_kind t \<in> set filterOpKinds | Inl _ \<Rightarrow> True))"
  unfolding filterOp'_def
  by (rule returns_bind [OF psMatch_returns [OF assms]]) (use assms in \<open>auto simp: psPeek_wfp\<close>)

lemma filterValuesLoop_returns:
  assumes "wfPs p"
  shows "returns (filterValuesLoop vals p) (\<lambda>(r, p'). later p p' \<and>
    (case r of Inr vs \<Rightarrow> \<exists>ws. vs = vals @ ws | Inl _ \<Rightarrow> True))"
  using assms
proof (induction vals p rule: filterValuesLoop.induct)
  case (1 vals p)
  from psMatch_returns [OF "1.prems", of "[comma]"] obtain b p1 where
    m: "psMatch [comma] p = Some (b, p1)" and l1: "later p p1"
    by (auto simp: returns_def)
  show ?case
  proof (cases b)
    case False
    with m l1 show ?thesis by (subst filterValuesLoop.simps) simp
  next
    case True
    from psConsume_returns [OF later_wfp [OF l1], of str' ExpectString] obtain r p2 where
      c: "psConsume str' ExpectString p1 = Some (r, p2)" and l2: "later p1 p2"
      and r: "case r of Inr t \<Rightarrow> rem p2 < rem p1 \<and> psPrevious p2 = Some t \<and> tk_kind t = str' | Inl _ \<Rightarrow> True"
      by (rule returnsE) auto
    show ?thesis
    proof (cases r)
      case (Inl err)
      with m True c later_trans [OF l1 l2] show ?thesis
        by (subst filterValuesLoop.simps) simp
    next
      case (Inr t)
      with r have t: "psPrevious p2 = Some t" by simp
      have "returns (filterValuesLoop (vals @ [tk_s t]) p2) (\<lambda>(r, p'). later p2 p' \<and>
          (case r of Inr vs \<Rightarrow> \<exists>ws. vs = (vals @ [tk_s t]) @ ws | Inl _ \<Rightarrow> True))"
        using "1.IH" m True c Inr t later_wfp [OF l2] by fastforce
      then have "returns (filterValuesLoop (vals @ [tk_s t]) p2) (\<lambda>(r, p'). later p p' \<and>
          (case r of Inr vs \<Rightarrow> \<exists>ws. vs = vals @ ws | Inl _ \<Rightarrow> True))"
        by (rule returns_mono)
          (auto split: sum.splits intro: later_trans [OF later_trans [OF l1 l2]])
      with m True c Inr t show ?thesis by (subst filterValuesLoop.simps) simp
    qed
  qed
qed

lemma filterValues_returns:
  assumes "wfPs p"
  shows "returns (filterValues p) (\<lambda>(r, p'). later p p' \<and>
    (case r of Inr vs \<Rightarrow> vs \<noteq> [] | Inl _ \<Rightarrow> True))"
  unfolding filterValues_def
proof (rule returns_bind [OF psConsume_returns [OF assms]], simp, clarify, goal_cases)
  case (1 r p1)
  show ?case
  proof (cases r)
    case (Inl err)
    with 1 show ?thesis by simp
  next
    case (Inr t)
    from 1 have "wfPs p1" by (simp add: later_wfp)
    from filterValuesLoop_returns [OF this, of "[tk_s t]"]
    have "returns (filterValuesLoop [tk_s t] p1) (\<lambda>(r, p'). later p p' \<and>
        (case r of Inr vs \<Rightarrow> vs \<noteq> [] | Inl _ \<Rightarrow> True))"
      by (rule returns_mono) (use 1 in \<open>auto split: sum.splits intro: later_trans\<close>)
    with Inr 1 show ?thesis by simp
  qed
qed

section \<open>Values become leaves\<close>

lemma selectOp_filterOpKinds: "k \<in> set filterOpKinds \<Longrightarrow> \<exists>op. selectOp f key k = Some op"
  by (auto simp: filterOpKinds_def selectOp_def)

lemma toFilterNode_ok:
  assumes "selectOp f key k = Some op" and "(f \<in> ran fs \<and> key = []) \<or> f \<in> ran ms"
  shows "\<exists>n. toFilterNode f key op v = Inr n \<and> parsed fs ms n"
  using assms
  by (cases k) (auto simp: selectOp_def toFilterNode_def leafOk_def Let_def split: if_splits)

lemma toFilterNodes_ok:
  assumes "selectOp f key k = Some op" and "(f \<in> ran fs \<and> key = []) \<or> f \<in> ran ms"
  shows "\<exists>ns. toFilterNodes f key op vs = Inr ns \<and> length ns = length vs \<and> (\<forall>n \<in> set ns. parsed fs ms n)"
proof (induction vs)
  case (Cons v vs)
  from toFilterNode_ok [OF assms, of v] Cons.IH show ?case by fastforce
qed simp

lemma combineValues_ok:
  assumes "selectOp f key k = Some op" and "(f \<in> ran fs \<and> key = []) \<or> f \<in> ran ms" and "vs \<noteq> []"
  shows "\<exists>n. combineValues f key k op vs = Inr n \<and> parsed fs ms n"
proof (cases "length vs = 1")
  case True
  with toFilterNode_ok [OF assms(1,2), of "hd vs"] show ?thesis
    by (auto simp: combineValues_def)
next
  case False
  with assms(3) have "2 \<le> length vs" by (cases vs) (auto simp: Suc_le_eq)
  with False toFilterNodes_ok [OF assms(1,2), of vs] show ?thesis
    by (auto simp: combineValues_def)
qed

abbreviation nodeOk :: "parser \<Rightarrow> filterNode \<Rightarrow> bool" where
  "nodeOk p n \<equiv> parsed (ps_fields p) (ps_mapFields p) n"

lemma comparison_returns:
  assumes wf: "wfPs p"
  shows "returns (comparison p) (\<lambda>(r, p'). later p p' \<and>
    (case r of Inr n \<Rightarrow> nodeOk p n | Inl _ \<Rightarrow> True))"
  unfolding comparison_def
proof (rule returns_bind [OF filterKey_returns [OF wf]], clarify, goal_cases)
  case (1 rk p1)
  show ?case
  proof (cases rk)
    case (Inl err)
    with 1 show ?thesis by simp
  next
    case (Inr fk)
    obtain f key where fk: "fk = (f, key)" by fastforce
    from filterOp_returns [OF later_wfp [OF 1(1)]] obtain ro p2 where
      o: "filterOp' p1 = Some (ro, p2)" and l2: "later p1 p2"
      and ro: "case ro of Inr t \<Rightarrow> tk_kind t \<in> set filterOpKinds | Inl _ \<Rightarrow> True"
      by (rule returnsE) auto
    show ?thesis
    proof (cases ro)
      case (Inl err)
      with Inr fk o later_trans [OF 1(1) l2] show ?thesis by simp
    next
      case ro': (Inr t)
      with ro selectOp_filterOpKinds obtain op where op: "selectOp f key (tk_kind t) = Some op"
        by fastforce
      from filterValues_returns [OF later_wfp [OF l2]] obtain rv p3 where
        v: "filterValues p2 = Some (rv, p3)" and l3: "later p2 p3"
        and rv: "case rv of Inr vs \<Rightarrow> vs \<noteq> [] | Inl _ \<Rightarrow> True"
        by (rule returnsE) auto
      from later_trans [OF later_trans [OF 1(1) l2] l3] have l: "later p p3" .
      from 1 Inr fk have key: "keyOk p (f, key)" by simp
      show ?thesis
      proof (cases rv)
        case (Inl err)
        with Inr fk o ro' op v l show ?thesis by simp
      next
        case rv': (Inr vs)
        with rv combineValues_ok [OF op, of "ps_fields p" "ps_mapFields p" vs] key obtain n where
          "combineValues f key (tk_kind t) op vs = Inr n" and "nodeOk p n" by auto
        with Inr fk o ro' op v rv' l show ?thesis by simp
      qed
    qed
  qed
qed

section \<open>Filters return\<close>

text \<open>What the three parts of \<^verbatim>\<open>filter\<close> promise, given enough fuel.\<close>

abbreviation filterPost :: "nat \<Rightarrow> parser \<Rightarrow> (filterNode \<times> parseError list) \<times> parser \<Rightarrow> bool" where
  "filterPost depth p r \<equiv> (case r of ((n, errs), p') \<Rightarrow> later p p' \<and>
     (errs = [] \<longrightarrow> nodeOk p n \<or> (depth = 0 \<and> n = VoidOp)))"

abbreviation operandPost :: "parser \<Rightarrow> (filterNode option \<times> parseError list) \<times> parser \<Rightarrow> bool" where
  "operandPost p r \<equiv> (case r of ((n, errs), p') \<Rightarrow> later p p' \<and>
     (case n of Some n' \<Rightarrow> errs = [] \<and> nodeOk p n' | None \<Rightarrow> errs \<noteq> []))"

abbreviation loopPost ::
  "nat \<Rightarrow> filterNode list \<Rightarrow> parseError list \<Rightarrow> parser \<Rightarrow> (filterNode \<times> parseError list) \<times> parser \<Rightarrow> bool" where
  "loopPost k ns errs p r \<equiv> (case r of ((n, errs'), p') \<Rightarrow> later p p' \<and>
     (errs' = [] \<longrightarrow> errs = [] \<and> (\<exists>ms. (n = AndOp (ns @ ms) \<or> n = OrOp (ns @ ms)) \<and> k \<le> length ms \<and>
        (\<forall>m \<in> set ms. nodeOk p m))))"

lemma nodeOk_later: "later p q \<Longrightarrow> nodeOk q n \<longleftrightarrow> nodeOk p n"
  by (simp add: later_def)

lemma operand_step:
  assumes wf: "wfPs p" and fuel: "3 * rem p + 1 \<le> fuel"
    and IH: "\<And>q. wfPs q \<Longrightarrow> 3 * rem q + 3 \<le> fuel \<Longrightarrow> returns (filter' fuel (depth + 1) q) (filterPost (depth + 1) q)"
  shows "returns (filterOperand (Suc fuel) depth p) (operandPost p)"
proof -
  from psMatch_returns [OF wf, of "[parenOpen]"] obtain b p1 where
    m: "psMatch [parenOpen] p = Some (b, p1)" and l1: "later p p1" and b: "b \<Longrightarrow> rem p1 < rem p"
    by (rule returnsE) auto
  show ?thesis
  proof (cases b)
    case True
    from b [OF True] fuel have "3 * rem p1 + 3 \<le> fuel" by linarith
    from IH [OF later_wfp [OF l1] this] obtain n errs p2 where
      f: "filter' fuel (depth + 1) p1 = Some ((n, errs), p2)" and l2: "later p1 p2"
      and ok: "errs = [] \<Longrightarrow> nodeOk p1 n"
      by (rule returnsE) auto
    with m True later_trans [OF l1 l2] nodeOk_later [OF l1] show ?thesis by auto
  next
    case False
    from comparison_returns [OF later_wfp [OF l1]] obtain r p2 where
      c: "comparison p1 = Some (r, p2)" and l2: "later p1 p2"
      and r: "case r of Inr n \<Rightarrow> nodeOk p1 n | Inl _ \<Rightarrow> True"
      by (rule returnsE) auto
    from psSynchronize_returns [OF later_wfp [OF l2], of syncKinds] obtain p3 where
      s: "psSynchronize syncKinds p2 = Some p3" and l3: "later p2 p3" by (rule returnsE)
    from later_trans [OF l1 l2] have l12: "later p p2" .
    show ?thesis
      using m False c r s l12 later_trans [OF l12 l3] nodeOk_later [OF l1] by (cases r) auto
  qed
qed

lemma filter_step:
  assumes wf: "wfPs p" and fuel: "3 * rem p + 2 \<le> fuel"
    and operand: "returns (filterOperand fuel depth p) (operandPost p)"
    and loop: "\<And>k f ns errs q. f = AndOp ns \<or> f = OrOp ns \<Longrightarrow> wfPs q \<Longrightarrow> 3 * rem q + 1 \<le> fuel \<Longrightarrow> k \<noteq> eof \<Longrightarrow>
      returns (filterLoop fuel depth k f errs q)
        (loopPost (if tk_kind (ps_tokens q ! ps_current q) = k then 1 else 0) ns errs q)"
  shows "returns (filter' (Suc fuel) depth p) (filterPost depth p)"
proof -
  have peek: "psPeek p = Some (ps_tokens p ! ps_current p)" by (rule psPeek_wfp [OF wf])
  show ?thesis
  proof (cases "depth = 0 \<and> tk_kind (ps_tokens p ! ps_current p) = eof")
    case True
    with peek wf show ?thesis by (simp add: later_refl)
  next
    case False
    from operand obtain topOpt errs p1 where
      f: "filterOperand fuel depth p = Some ((topOpt, errs), p1)" and l1: "later p p1"
      and top: "case topOpt of Some n' \<Rightarrow> errs = [] \<and> nodeOk p n' | None \<Rightarrow> errs \<noteq> []"
      by (rule returnsE) auto
    define topn where "topn = (case topOpt of Some n \<Rightarrow> n | None \<Rightarrow> NilNode)"
    have topn: "errs = [] \<Longrightarrow> nodeOk p topn" using top by (auto simp: topn_def split: option.splits)
    from psMatch_returns [OF later_wfp [OF l1], of "[parenClose]"] obtain c p2 where
      m: "psMatch [parenClose] p1 = Some (c, p2)" and l12: "later p1 p2"
      by (rule returnsE) auto
    from later_trans [OF l1 l12] have l2: "later p p2" .
    have peek2: "psPeek p2 = Some (ps_tokens p2 ! ps_current p2)" by (rule psPeek_wfp [OF later_wfp [OF l2]])
    let ?k = "tk_kind (ps_tokens p2 ! ps_current p2)"
    from later_rem [OF l2] fuel have fuel2: "3 * rem p2 + 1 \<le> fuel" by linarith
    show ?thesis
    proof (cases "c \<or> (?k \<noteq> plus' \<and> ?k \<noteq> or')")
      case True
      with peek False f m peek2 l2 topn show ?thesis
        by (auto simp: topn_def [symmetric] Let_def)
    next
      case op: False
      let ?g = "if ?k = plus' then AndOp [topn] else OrOp [topn]"
      have "returns (filterLoop fuel depth ?k ?g errs p2) (loopPost 1 [topn] errs p2)"
        using loop [of ?g "[topn]" p2 ?k errs] later_wfp [OF l2] fuel2 op by auto
      then have "returns (filterLoop fuel depth ?k ?g errs p2) (filterPost depth p)"
        by (rule returns_mono)
          (use l2 topn in \<open>fastforce simp: Suc_le_eq nodeOk_later [OF l2] intro: later_trans\<close>)
      with peek False f m peek2 op show ?thesis
        by (auto simp: topn_def [symmetric] Let_def)
    qed
  qed
qed

lemma loop_step:
  assumes wf: "wfPs p" and fuel: "3 * rem p \<le> fuel" and group: "f = AndOp ns \<or> f = OrOp ns" and k: "k \<noteq> eof"
    and operand: "\<And>q. wfPs q \<Longrightarrow> 3 * rem q + 2 \<le> fuel \<Longrightarrow> returns (filterOperand fuel depth q) (operandPost q)"
    and loop: "\<And>f ns errs q. f = AndOp ns \<or> f = OrOp ns \<Longrightarrow> wfPs q \<Longrightarrow> 3 * rem q + 1 \<le> fuel \<Longrightarrow>
      returns (filterLoop fuel depth k f errs q) (loopPost 0 ns errs q)"
  shows "returns (filterLoop (Suc fuel) depth k f errs p)
    (loopPost (if tk_kind (ps_tokens p ! ps_current p) = k then 1 else 0) ns errs p)"
proof -
  from psMatch_returns [OF wf, of "[k]"] obtain more p1 where
    m: "psMatch [k] p = Some (more, p1)" and l1: "later p p1" and r1: "more \<Longrightarrow> rem p1 < rem p"
    and nomore: "\<not> more \<Longrightarrow> tk_kind (ps_tokens p ! ps_current p) \<noteq> k"
    using k by (auto simp: returns_def)
  show ?thesis
  proof (cases more)
    case False
    with m l1 group nomore show ?thesis by auto
  next
    case True
    from r1 [OF True] fuel have fuel1: "3 * rem p1 + 2 \<le> fuel" by linarith
    from operand [OF later_wfp [OF l1] fuel1] obtain opnd oerrs p2 where
      f: "filterOperand fuel depth p1 = Some ((opnd, oerrs), p2)" and l12: "later p1 p2"
      and opnd: "case opnd of Some n' \<Rightarrow> oerrs = [] \<and> nodeOk p1 n' | None \<Rightarrow> oerrs \<noteq> []"
      by (rule returnsE) auto
    define ms where "ms = (case opnd of Some n \<Rightarrow> [n] | None \<Rightarrow> [])"
    define f' where "f' = (case opnd of Some n \<Rightarrow> nodeAdd f n | None \<Rightarrow> f)"
    from group have group': "f' = AndOp (ns @ ms) \<or> f' = OrOp (ns @ ms)"
      by (auto simp: f'_def ms_def split: option.splits)
    from opnd l1 have ms: "oerrs = [] \<Longrightarrow> length ms = 1 \<and> (\<forall>m \<in> set ms. nodeOk p m)"
      by (auto simp: ms_def nodeOk_later split: option.splits)
    from later_trans [OF l1 l12] have l2: "later p p2" .
    from psMatch_returns [OF later_wfp [OF l2], of "[parenClose]"] obtain c p3 where
      m3: "psMatch [parenClose] p2 = Some (c, p3)" and l23: "later p2 p3"
      by (rule returnsE) auto
    from later_trans [OF l2 l23] have l3: "later p p3" .
    from later_rem [OF later_trans [OF l12 l23]] fuel1 have fuel3: "3 * rem p3 + 1 \<le> fuel" by linarith
    have peek3: "psPeek p3 = Some (ps_tokens p3 ! ps_current p3)" by (rule psPeek_wfp [OF later_wfp [OF l3]])
    have step: "returns (filterLoop fuel depth k f' es q) (loopPost 1 ns errs p)"
      if "later p q" and "3 * rem q + 1 \<le> fuel" and "es = [] \<Longrightarrow> errs = [] \<and> oerrs = []" for q es
      by (rule returns_mono [OF loop [OF group' later_wfp [OF that(1)] that(2)]])
        (use that ms in \<open>fastforce simp: nodeOk_later [OF that(1)] intro: later_trans\<close>)
    let ?t = "ps_tokens p3 ! ps_current p3"
    have "returns (filterLoop (Suc fuel) depth k f errs p) (loopPost 1 ns errs p)"
    proof (cases "c \<or> tk_kind ?t = eof \<or> tk_kind ?t = k")
      case True
      then show ?thesis
        using m \<open>more\<close> f m3 peek3 l3 group' ms step [OF l3 fuel3]
        by (auto simp: f'_def [symmetric] Let_def)
    next
      case False
      from False have n3: "later p3 (next' p3)" by (simp add: later_next later_wfp [OF l3])
      from psSynchronize_returns [OF later_wfp [OF n3], of syncKinds] obtain p5 where
        s: "psSynchronize syncKinds (next' p3) = Some p5" and l5: "later (next' p3) p5" by (rule returnsE)
      from psMatch_returns [OF later_wfp [OF l5], of "[parenClose]"] obtain c' p6 where
        m6: "psMatch [parenClose] p5 = Some (c', p6)" and l56: "later p5 p6" by (rule returnsE) auto
      from later_trans [OF n3 later_trans [OF l5 l56]] have l36: "later p3 p6" .
      from later_rem [OF l36] fuel3 have fuel6: "3 * rem p6 + 1 \<le> fuel" by linarith
      show ?thesis
        using m \<open>more\<close> f m3 peek3 False psAdvance_wfp [OF later_wfp [OF l3]] s m6
          later_trans [OF l3 l36] step [OF later_trans [OF l3 l36] fuel6]
        by (auto simp: f'_def [symmetric] Let_def)
    qed
    then show ?thesis by (rule returns_mono) auto
  qed
qed

lemma filter_parts_return:
  "(\<forall>depth p. wfPs p \<longrightarrow> 3 * rem p + 3 \<le> fuel \<longrightarrow> returns (filter' fuel depth p) (filterPost depth p)) \<and>
   (\<forall>depth p. wfPs p \<longrightarrow> 3 * rem p + 2 \<le> fuel \<longrightarrow> returns (filterOperand fuel depth p) (operandPost p)) \<and>
   (\<forall>depth k f ns errs p. f = AndOp ns \<or> f = OrOp ns \<longrightarrow> wfPs p \<longrightarrow> 3 * rem p + 1 \<le> fuel \<longrightarrow> k \<noteq> eof \<longrightarrow>
      returns (filterLoop fuel depth k f errs p)
        (loopPost (if tk_kind (ps_tokens p ! ps_current p) = k then 1 else 0) ns errs p))"
  (is "?F fuel \<and> ?O fuel \<and> ?L fuel")
proof (induction fuel)
  case 0
  then show ?case by simp
next
  case (Suc fuel)
  then have F: "?F fuel" and O: "?O fuel" and L: "?L fuel" by blast+
  have "?F (Suc fuel)"
  proof (intro allI impI)
    fix depth p
    assume wf: "wfPs p" and fuel: "3 * rem p + 3 \<le> Suc fuel"
    show "returns (filter' (Suc fuel) depth p) (filterPost depth p)"
    proof (rule filter_step [OF wf])
      show "3 * rem p + 2 \<le> fuel" using fuel by simp
      then show "returns (filterOperand fuel depth p) (operandPost p)"
        by (intro O [rule_format] wf)
    qed (rule L [rule_format])
  qed
  moreover have "?O (Suc fuel)"
  proof (intro allI impI)
    fix depth p
    assume wf: "wfPs p" and fuel: "3 * rem p + 2 \<le> Suc fuel"
    show "returns (filterOperand (Suc fuel) depth p) (operandPost p)"
      by (rule operand_step [OF wf _ F [rule_format]]) (use fuel in simp)
  qed
  moreover have "?L (Suc fuel)"
  proof (intro allI impI)
    fix depth k f ns errs p
    assume *: "f = AndOp ns \<or> f = OrOp ns" "wfPs p" "3 * rem p + 1 \<le> Suc fuel" "k \<noteq> eof"
    show "returns (filterLoop (Suc fuel) depth k f errs p)
        (loopPost (if tk_kind (ps_tokens p ! ps_current p) = k then 1 else 0) ns errs p)"
    proof (rule loop_step [OF *(2) _ *(1,4) O [rule_format]])
      fix g ns' errs' q
      assume g: "g = AndOp ns' \<or> g = OrOp ns'" "wfPs q" "3 * rem q + 1 \<le> fuel"
      show "returns (filterLoop fuel depth k g errs' q) (loopPost 0 ns' errs' q)"
        by (rule returns_mono [OF L [rule_format, OF g *(4)]]) auto
    qed (use *(3) in simp)
  qed
  ultimately show ?case by blast
qed

text \<open>The parser state a lexed token slice starts in.\<close>

lemma lex_wfPs:
  "wfPs \<lparr>ps_tokens = fst (lex' uni raw fs ms), ps_current = 0, ps_fields = f, ps_mapFields = m\<rparr>"
proof -
  obtain ts where ts: "fst (lex' uni raw fs ms) = ts @ [\<lparr>tk_kind = eof, tk_s = []\<rparr>]"
    "list_all (tokenOk fs ms) ts" using lex_shape by blast
  then have "\<forall>i < length ts. tk_kind (ts ! i) \<noteq> eof"
    by (auto simp: list_all_length tokenOk_def)
  with ts(1) show ?thesis by (auto simp: wfPs_def nth_append less_Suc_eq)
qed

lemma Parse_returns:
  "returns (Parse uni dfp raw) (\<lambda>r. case r of
     Inl _ \<Rightarrow> True | Inr n \<Rightarrow> n = VoidOp \<or> parsed (dfp_fields dfp) (dfp_mapFields dfp) n)"
proof -
  obtain toks errs where l: "lex' uni raw (dfp_fields dfp) (dfp_mapFields dfp) = (toks, errs)" by fastforce
  let ?p = "\<lparr>ps_tokens = toks, ps_current = 0, ps_fields = dfp_fields dfp, ps_mapFields = dfp_mapFields dfp\<rparr>"
  have wf: "wfPs ?p" using lex_wfPs [of uni raw "dfp_fields dfp" "dfp_mapFields dfp"] l by simp
  have "3 * rem ?p + 3 \<le> parseFuel toks" by (simp add: rem_def parseFuel_def)
  with filter_parts_return wf have "returns (filter' (parseFuel toks) 0 ?p) (filterPost 0 ?p)" by blast
  then show ?thesis by (rule returnsE) (auto simp: Parse_def l Let_def)
qed

end
