(* ===== verification/Filter_Roundtrip.thy ===== *)
theory Filter_Roundtrip
  imports Filter_Query_Lex Filter_Parser_Correct
begin

text \<open>
  Parsing the text of a query gives the tree of the query. Together with the text compiler this
  is the round trip from trees to text and back. The parser's methods are followed on the list
  of tokens that are left, \<open>ptoks\<close>; that they return at all is \<open>Parse_returns\<close>.
\<close>

section \<open>The tokens that are left\<close>

definition ptoks :: "parser \<Rightarrow> token list" where
  "ptoks p = drop (ps_current p) (ps_tokens p)"

definition moved :: "parser \<Rightarrow> parser \<Rightarrow> token list \<Rightarrow> bool" where
  "moved p p' ts \<longleftrightarrow> ps_fields p' = ps_fields p \<and> ps_mapFields p' = ps_mapFields p \<and> ptoks p' = ts"

lemma moved_trans: "moved p q ts \<Longrightarrow> moved q r us \<Longrightarrow> moved p r us"
  by (simp add: moved_def)

lemma moved_refl: "ptoks p = ts \<Longrightarrow> moved p p ts"
  by (simp add: moved_def)

lemma ptoks_Cons:
  assumes "ptoks p = t # ts"
  shows "psPeek p = Some t" and "moved p (next' p) ts" and "psPrevious (next' p) = Some t"
proof -
  from assms have n: "ps_current p < length (ps_tokens p)" by (auto simp: ptoks_def not_le [symmetric])
  with assms have t: "ps_tokens p ! ps_current p = t" by (metis nth_via_drop ptoks_def)
  with n show "psPeek p = Some t" and "psPrevious (next' p) = Some t"
    by (simp_all add: psPeek_def psPrevious_def)
  show "moved p (next' p) ts"
    using assms n by (simp add: moved_def ptoks_def drop_Suc drop_tl)
qed

lemma psMatch_ptoks:
  assumes "ptoks p = t # ts"
  shows "psMatch ks p =
    Some (if tk_kind t \<in> set ks \<and> tk_kind t \<noteq> eof then (True, next' p) else (False, p))"
  using ptoks_Cons [OF assms] psAdvance_running [of p t]
  by (induction ks) (auto simp: psMatch.simps psCheck_def psAtEnd_def)

lemma psConsume_ptoks:
  assumes "ptoks p = t # ts" and "tk_kind t = k" and "k \<noteq> eof"
  shows "psConsume k msg p = Some (Inr t, next' p)"
  using ptoks_Cons [OF assms(1)] psAdvance_running [of p t] assms(2,3)
  by (auto simp: psConsume_def psCheck_def psAtEnd_def)

section \<open>Comparisons\<close>

lemma filterKey_query:
  assumes i: "identOk (ps_fields p) (ps_mapFields p) i"
    and toks: "ptoks p = identTokens (ps_fields p) i @ t # rest" and t: "tk_kind t \<noteq> keyedAccess"
  shows "\<exists>p'. filterKey p = Some (Inr (the (id_Field i), id_Key i), p') \<and> moved p p' (t # rest)"
proof -
  from i obtain f where f: "id_Field i = Some f" by (auto simp: identOk_def split: option.splits)
  let ?n = "fld_Name f"
  show ?thesis
  proof (cases "ps_fields p ?n = None")
    case False
    with i f have key: "id_Key i = []" and lookup: "ps_fields p ?n = Some f" by (auto simp: identOk_def)
    with toks f have "ptoks p = tok filterField ?n # t # rest" by (simp add: identTokens_def)
    from psMatch_ptoks [OF this] psConsume_ptoks [OF this] ptoks_Cons [OF this] key lookup f
    show ?thesis by (auto simp: filterKey_def)
  next
    case True
    with i f have lookup: "ps_mapFields p ?n = Some f" by (auto simp: identOk_def)
    from toks f True have toks: "ptoks p = tok mapField ?n #
        (if id_Key i \<noteq> [] then [tok keyedAccess (id_Key i)] else []) @ t # rest"
      by (simp add: identTokens_def)
    note p = psMatch_ptoks [OF toks] ptoks_Cons [OF toks]
    from p(3) have q: "ptoks (next' p) = (if id_Key i \<noteq> [] then [tok keyedAccess (id_Key i)] else []) @ t # rest"
      by (simp add: moved_def)
    show ?thesis
    proof (cases "id_Key i = []")
      case True
      with q have "ptoks (next' p) = t # rest" by simp
      from psMatch_ptoks [OF this] p lookup t True f show ?thesis by (auto simp: filterKey_def)
    next
      case False
      with q have "ptoks (next' p) = tok keyedAccess (id_Key i) # t # rest" by simp
      from psMatch_ptoks [OF this] ptoks_Cons [OF this] p lookup f moved_trans [OF p(3)] show ?thesis
        by (auto simp: filterKey_def)
    qed
  qed
qed

lemma opKind_ops: "op \<in> set baseOps \<Longrightarrow> opKind neg op \<in> set filterOpKinds"
  by (auto simp: baseOps_def opKind_def filterOpKinds_def)

lemma filterOp_query:
  assumes "op \<in> set baseOps" and "ptoks p = tok (opKind neg op) s # ts"
  shows "filterOp' p = Some (Inr (tok (opKind neg op) s), next' p)"
proof -
  have "opKind neg op \<noteq> eof" using assms(1) by (auto simp: baseOps_def opKind_def)
  with psMatch_ptoks [OF assms(2)] ptoks_Cons [OF assms(2)] opKind_ops [OF assms(1)] show ?thesis
    by (simp add: filterOp'_def)
qed

lemma filterValuesLoop_query:
  assumes "ptoks p = valueTokens vs @ t # rest" and "tk_kind t \<noteq> comma"
  shows "\<exists>p'. filterValuesLoop vals p = Some (Inr (vals @ vs), p') \<and> moved p p' (t # rest)"
  using assms(1)
proof (induction vs arbitrary: vals p)
  case Nil
  then have "ptoks p = t # rest" by (simp add: valueTokens_def)
  from psMatch_ptoks [OF this, of "[comma]"] assms(2) this show ?case
    by (subst filterValuesLoop.simps) (simp add: moved_refl)
next
  case (Cons v vs)
  then have 1: "ptoks p = tok comma '','' # tok str' v # valueTokens vs @ t # rest"
    by (simp add: valueTokens_def)
  then have m1: "moved p (next' p) (tok str' v # valueTokens vs @ t # rest)" by (rule ptoks_Cons)
  then have 2: "ptoks (next' p) = tok str' v # valueTokens vs @ t # rest" by (simp add: moved_def)
  then have m2: "moved (next' p) (next' (next' p)) (valueTokens vs @ t # rest)" by (rule ptoks_Cons)
  then have "ptoks (next' (next' p)) = valueTokens vs @ t # rest" by (simp add: moved_def)
  from Cons.IH [OF this, of "vals @ [v]"] obtain p' where
    "filterValuesLoop (vals @ [v]) (next' (next' p)) = Some (Inr (vals @ v # vs), p')"
    and "moved (next' (next' p)) p' (t # rest)" by auto
  moreover from this(2) have "moved p p' (t # rest)" using m1 m2 by (blast intro: moved_trans)
  ultimately show ?case
    using psMatch_ptoks [OF 1, of "[comma]"] psConsume_ptoks [OF 2, of str'] ptoks_Cons(3) [OF 2]
    by (subst filterValuesLoop.simps) simp
qed

lemma filterValues_query:
  assumes "ptoks p = tok str' v # valueTokens vs @ t # rest" and "tk_kind t \<noteq> comma"
  shows "\<exists>p'. filterValues p = Some (Inr (v # vs), p') \<and> moved p p' (t # rest)"
proof -
  have m: "moved p (next' p) (valueTokens vs @ t # rest)" using assms(1) by (rule ptoks_Cons)
  then have "ptoks (next' p) = valueTokens vs @ t # rest" by (simp add: moved_def)
  from filterValuesLoop_query [OF this assms(2), of "[v]"] psConsume_ptoks [OF assms(1)]
    ptoks_Cons(3) [OF assms(1)] moved_trans [OF m] show ?thesis
    by (auto simp: filterValues_def)
qed

text \<open>The operator the parser selects, and the nodes it builds from the values.\<close>

definition signedOp :: "bool \<Rightarrow> filterOp \<Rightarrow> filterOp" where
  "signedOp neg op =
     (case op of
        FilterOpEquals \<Rightarrow> if neg then FilterOpNotEquals else FilterOpEquals
      | FilterOpContains \<Rightarrow> if neg then FilterOpNotContains else FilterOpContains
      | FilterOpContainsPrefix \<Rightarrow> if neg then FilterOpNotContainsPrefix else FilterOpContainsPrefix
      | _ \<Rightarrow> if neg then FilterOpNotContainsSuffix else FilterOpContainsSuffix)"

lemma selectOp_query:
  assumes "wfQuery fs ms (QCmp neg op i vs)"
  shows "selectOp (the (id_Field i)) (id_Key i) (opKind neg op) = Some (signedOp neg op)"
  using assms
  by (auto simp: baseOps_def selectOp_def opKind_def signedOp_def split: option.splits)

lemma toFilterNode_query:
  assumes "op \<in> set baseOps" and "id_Field i = Some f"
  shows "toFilterNode f (id_Key i) (signedOp neg op) v = Inr (qLeaf neg op i v)"
  using assms by (auto simp: baseOps_def toFilterNode_def signedOp_def qLeaf_def mkLeaf_def Let_def)

lemma combineValues_query:
  assumes "op \<in> set baseOps" and "id_Field i = Some f"
  shows "combineValues f (id_Key i) (opKind neg op) (signedOp neg op) vs = Inr (qNode (QCmp neg op i vs))"
proof -
  have nodes: "toFilterNodes f (id_Key i) (signedOp neg op) ws = Inr (map (qLeaf neg op i) ws)" for ws
    using toFilterNode_query [OF assms] by (induction ws) simp_all
  have kind: "opKind neg op \<in> {bangColon, bangTildeColon, bangStartTildeColon, bangTildeEndColon} \<longleftrightarrow> neg"
    using assms(1) by (auto simp: baseOps_def opKind_def)
  show ?thesis
    using kind nodes [of vs] toFilterNode_query [OF assms, of neg "hd vs"] by (auto simp: combineValues_def)
qed

lemma comparison_query:
  assumes wf: "wfQuery (ps_fields p) (ps_mapFields p) (QCmp neg op i vs)"
    and toks: "ptoks p = cmpTokens (ps_fields p) neg op i vs @ t # rest" and t: "tk_kind t \<noteq> comma"
  shows "\<exists>p'. comparison p = Some (Inr (qNode (QCmp neg op i vs)), p') \<and> moved p p' (t # rest)"
proof -
  from wf have op: "op \<in> set baseOps" and i: "identOk (ps_fields p) (ps_mapFields p) i" and vs: "vs = hd vs # tl vs"
    by auto
  obtain f where f: "id_Field i = Some f" using identOk_field [OF i] by auto
  let ?o = "tok (opKind neg op) (cmpSymbol neg op)"
  have ok: "tk_kind ?o \<noteq> keyedAccess" using op by (auto simp: baseOps_def opKind_def)
  from toks have "ptoks p = identTokens (ps_fields p) i @ ?o # tok str' (hd vs) # valueTokens (tl vs) @ t # rest"
    by (simp add: cmpTokens_def)
  from filterKey_query [OF i this ok] obtain p1 where k: "filterKey p = Some (Inr (f, id_Key i), p1)"
    and m1: "moved p p1 (?o # tok str' (hd vs) # valueTokens (tl vs) @ t # rest)" by (auto simp: f)
  then have 1: "ptoks p1 = ?o # tok str' (hd vs) # valueTokens (tl vs) @ t # rest" by (simp add: moved_def)
  then have m2: "moved p1 (next' p1) (tok str' (hd vs) # valueTokens (tl vs) @ t # rest)" by (rule ptoks_Cons)
  then have "ptoks (next' p1) = tok str' (hd vs) # valueTokens (tl vs) @ t # rest" by (simp add: moved_def)
  from filterValues_query [OF this t] obtain p3 where v: "filterValues (next' p1) = Some (Inr vs, p3)"
    and m3: "moved (next' p1) p3 (t # rest)" using vs by auto
  from moved_trans [OF moved_trans [OF m1 m2] m3] have "moved p p3 (t # rest)" .
  then show ?thesis
    using k filterOp_query [OF op 1] selectOp_query [OF wf] combineValues_query [OF op f] v
    by (simp add: comparison_def f del: qNode.simps)
qed

section \<open>Groups\<close>

text \<open>
  What parsing an operand does, if it returns: the tree of the query, no errors, and the tokens
  of the query consumed.
\<close>

definition parsesOperand :: "(string \<rightharpoonup> astField) \<Rightarrow> (string \<rightharpoonup> astField) \<Rightarrow> query \<Rightarrow> bool" where
  "parsesOperand fs ms q \<longleftrightarrow>
     (\<forall>fuel depth p r t rest.
        filterOperand fuel depth p = Some r \<longrightarrow> ps_fields p = fs \<longrightarrow> ps_mapFields p = ms \<longrightarrow>
        ptoks p = qTokens fs q @ t # rest \<longrightarrow> tk_kind t \<noteq> comma \<longrightarrow>
        (\<exists>p'. r = ((Some (qNode q), []), p') \<and> moved p p' (t # rest)))"

lemma parsesOperandD:
  assumes "parsesOperand (ps_fields p) (ps_mapFields p) q" and "filterOperand fuel depth p = Some r"
    and "ptoks p = qTokens (ps_fields p) q @ t # rest" and "tk_kind t \<noteq> comma"
  obtains p' where "r = ((Some (qNode q), []), p')" and "moved p p' (t # rest)"
  using assms unfolding parsesOperand_def by blast

abbreviation groupTail :: "(string \<rightharpoonup> astField) \<Rightarrow> bool \<Rightarrow> query list \<Rightarrow> token list" where
  "groupTail fs c qs \<equiv> concat (map (\<lambda>q. tok (groupKind c) (groupSymbol c) # qTokens fs q) qs)"

text \<open>A group inside parentheses ends at its closing parenthesis, the outermost one at the end.\<close>

definition groupEnd :: "nat \<Rightarrow> token \<Rightarrow> bool" where
  "groupEnd depth t \<longleftrightarrow> (if depth > 0 then tk_kind t = parenClose else tk_kind t = eof)"

abbreviation afterGroup :: "nat \<Rightarrow> token \<Rightarrow> token list \<Rightarrow> token list" where
  "afterGroup depth t rest \<equiv> (if depth > 0 then rest else t # rest)"

lemma groupKind_simps [simp]: "groupKind c \<noteq> comma" "groupKind c \<noteq> parenClose" "groupKind c \<noteq> eof"
  by (simp_all add: groupKind_def)

lemma loop_query:
  assumes "\<forall>q \<in> set qs. parsesOperand (ps_fields p) (ps_mapFields p) q"
    and "ptoks p = groupTail (ps_fields p) c qs @ t # rest"
    and "groupEnd depth t" and "qs \<noteq> [] \<or> depth = 0"
    and "filterLoop fuel depth (groupKind c) g [] p = Some r"
  shows "\<exists>p'. r = ((fold (\<lambda>n g. nodeAdd g n) (map qNode qs) g, []), p') \<and>
    moved p p' (afterGroup depth t rest)"
  using assms
proof (induction qs arbitrary: fuel g p)
  case Nil
  then obtain fl where fuel: "fuel = Suc fl" by (cases fuel) auto
  from Nil have "depth = 0" "ptoks p = t # rest" by auto
  with Nil fuel psMatch_ptoks [of p t rest "[groupKind c]"] show ?case
    by (auto simp: groupEnd_def groupKind_def moved_refl split: if_splits)
next
  case (Cons q qs)
  from Cons.prems(5) obtain fl where fuel: "fuel = Suc fl" by (cases fuel) auto
  let ?k = "tok (groupKind c) (groupSymbol c)"
  have 1: "ptoks p = ?k # qTokens (ps_fields p) q @ groupTail (ps_fields p) c qs @ t # rest"
    using Cons.prems(2) by simp
  note p1 = psMatch_ptoks [OF 1, of "[groupKind c]"] ptoks_Cons(2) [OF 1]
  obtain u us where u: "groupTail (ps_fields p) c qs @ t # rest = u # us"
    and uk: "qs = [] \<and> u = t \<and> us = rest \<or> qs \<noteq> [] \<and> tk_kind u = groupKind c"
    by (cases qs) auto
  have uc: "tk_kind u \<noteq> comma" using uk Cons.prems(3) by (auto simp: groupEnd_def split: if_splits)
  from p1(2) have tabs: "ps_fields (next' p) = ps_fields p" "ps_mapFields (next' p) = ps_mapFields p"
    and toks1: "ptoks (next' p) = qTokens (ps_fields (next' p)) q @ u # us"
    using u by (simp_all add: moved_def)
  from Cons.prems(5) fuel p1(1) obtain ro where ro: "filterOperand fl depth (next' p) = Some ro"
    by (cases "filterOperand fl depth (next' p)") auto
  from Cons.prems(1) have "parsesOperand (ps_fields (next' p)) (ps_mapFields (next' p)) q" by (simp add: tabs)
  from parsesOperandD [OF this ro toks1 uc] obtain p2 where r2: "ro = ((Some (qNode q), []), p2)"
    and m2: "moved (next' p) p2 (u # us)" by blast
  from moved_trans [OF p1(2) m2] have m: "moved p p2 (u # us)" .
  then have 2: "ptoks p2 = u # us" and tabs2: "ps_fields p2 = ps_fields p" "ps_mapFields p2 = ps_mapFields p"
    by (simp_all add: moved_def)
  note p2 = psMatch_ptoks [OF 2, of "[parenClose]"] ptoks_Cons [OF 2]
  show ?case
  proof (cases "qs = [] \<and> depth > 0")
    case True
    with uk Cons.prems(3) have "tk_kind u = parenClose" "us = rest" by (auto simp: groupEnd_def)
    with Cons.prems(5) fuel p1(1) ro r2 p2 True moved_trans [OF m p2(3)] show ?thesis by auto
  next
    case False
    with uk Cons.prems(3) have "tk_kind u \<noteq> parenClose" "tk_kind u = eof \<or> tk_kind u = groupKind c"
      by (auto simp: groupEnd_def)
    with Cons.prems(5) fuel p1(1) ro r2 p2
    have loop: "filterLoop fl depth (groupKind c) (nodeAdd g (qNode q)) [] p2 = Some r" by auto
    have "\<exists>p'. r = ((fold (\<lambda>n g. nodeAdd g n) (map qNode qs) (nodeAdd g (qNode q)), []), p') \<and>
        moved p2 p' (afterGroup depth t rest)"
      by (rule Cons.IH [OF _ _ Cons.prems(3) _ loop]) (use Cons.prems(1) 2 u tabs2 False in auto)
    with moved_trans [OF m] show ?thesis by auto
  qed
qed

text \<open>The members of a group, up to its end.\<close>

lemma filter_query:
  assumes qs: "2 \<le> length qs" "\<forall>q \<in> set qs. parsesOperand (ps_fields p) (ps_mapFields p) q"
    and toks: "ptoks p = memberTokens c (map (qTokens (ps_fields p)) qs) @ t # rest"
    and t: "groupEnd depth t" and r: "filter' fuel depth p = Some r"
    and start: "tk_kind (hd (ptoks p)) \<noteq> eof"
  shows "\<exists>p'. r = ((qNode (QGroup c qs), []), p') \<and> moved p p' (afterGroup depth t rest)"
proof -
  obtain q q' qs' where q: "qs = q # q' # qs'" using qs(1) by (cases qs; cases "tl qs") auto
  let ?tail = "groupTail (ps_fields p) c (q' # qs')"
  obtain u us where u: "?tail @ t # rest = u # us" "tk_kind u = groupKind c" by auto
  have 0: "ptoks p = qTokens (ps_fields p) q @ u # us"
    using toks q u(1) by (auto simp: memberTokens_def o_def)
  from r obtain fl where fuel: "fuel = Suc fl" by (cases fuel) auto
  have ne: "ptoks p \<noteq> []" using 0 by simp
  then obtain v vs where v: "ptoks p = v # vs" by (cases "ptoks p") auto
  with start have veof: "tk_kind v \<noteq> eof" by simp
  from r fuel ptoks_Cons(1) [OF v] veof obtain ro where ro: "filterOperand fl depth p = Some ro"
    by (cases "filterOperand fl depth p") auto
  from qs(2) q have "parsesOperand (ps_fields p) (ps_mapFields p) q" by simp
  from parsesOperandD [OF this ro 0] u(2) obtain p1 where r1: "ro = ((Some (qNode q), []), p1)"
    and m1: "moved p p1 (u # us)" by auto
  then have 1: "ptoks p1 = u # us" and tabs: "ps_fields p1 = ps_fields p" "ps_mapFields p1 = ps_mapFields p"
    by (simp_all add: moved_def)
  have "filterLoop fl depth (groupKind c) (nodeAdd (if c then AndOp [] else OrOp []) (qNode q)) [] p1 = Some r"
    using r fuel ptoks_Cons(1) [OF v] veof ro r1 psMatch_ptoks [OF 1, of "[parenClose]"] ptoks_Cons(1) [OF 1] u(2)
    by (cases c) (auto simp: groupKind_def)
  from loop_query [OF _ _ t _ this, of "q' # qs'" rest] qs(2) q 1 u(1) tabs
  obtain p' where p': "r = ((fold (\<lambda>n g. nodeAdd g n) (map qNode (q' # qs'))
      (nodeAdd (if c then AndOp [] else OrOp []) (qNode q)), []), p')"
    and m2: "moved p1 p' (afterGroup depth t rest)" by auto
  have "fold (\<lambda>n g. nodeAdd g n) (map qNode (q' # qs')) (nodeAdd (if c then AndOp [] else OrOp []) (qNode q)) =
    qNode (QGroup c qs)"
    using fold_nodeAdd [of "map qNode (q' # qs')" "[qNode q]"] q by (cases c) simp_all
  with p' moved_trans [OF m1 m2] show ?thesis by auto
qed

text \<open>The text of a query starts with a token that is not the end.\<close>

lemma wfQuery_hd: "wfQuery fs ms (QGroup c qs) \<Longrightarrow> wfQuery fs ms (hd qs)"
  by (cases qs) simp_all

lemma qTokens_start: "wfQuery fs ms q \<Longrightarrow> \<exists>t ts. qTokens fs q = t # ts \<and> tk_kind t \<noteq> eof \<and>
    (tk_kind t = parenOpen \<longleftrightarrow> (\<exists>c qs. q = QGroup c qs))"
  by (cases q) (auto simp: cmpTokens_def identTokens_def Let_def)

lemma members_start:
  assumes "qs \<noteq> []" and "wfQuery fs ms (hd qs)"
  shows "tk_kind (hd (memberTokens c (map (qTokens fs) qs) @ ts)) \<noteq> eof"
proof -
  obtain t us where "qTokens fs (hd qs) = t # us" "tk_kind t \<noteq> eof"
    using qTokens_start [OF assms(2)] by blast
  with assms(1) show ?thesis by (simp add: memberTokens_def hd_map)
qed

lemma operand_query: "wfQuery fs ms q \<Longrightarrow> parsesOperand fs ms q"
proof (induction q)
  case (QCmp neg op i vs)
  show ?case
    unfolding parsesOperand_def
  proof (intro allI impI)
    fix fuel depth p r t rest
    assume r: "filterOperand fuel depth p = Some r" and tabs: "ps_fields p = fs" "ps_mapFields p = ms"
      and toks: "ptoks p = qTokens fs (QCmp neg op i vs) @ t # rest" and t: "tk_kind t \<noteq> comma"
    from r obtain fl where fuel: "fuel = Suc fl" by (cases fuel) auto
    obtain v us where v: "ptoks p = v # us" "tk_kind v \<noteq> parenOpen"
      using qTokens_start [OF QCmp] toks by auto
    from comparison_query [of p neg op i vs t rest] QCmp tabs toks t obtain p' where
      "comparison p = Some (Inr (qNode (QCmp neg op i vs)), p')" and "moved p p' (t # rest)" by auto
    with r fuel psMatch_ptoks [OF v(1), of "[parenOpen]"] v(2)
    show "\<exists>p'. r = ((Some (qNode (QCmp neg op i vs)), []), p') \<and> moved p p' (t # rest)"
      by (auto simp del: qNode.simps)
  qed
next
  case (QGroup c qs)
  then have ops: "\<forall>q \<in> set qs. parsesOperand fs ms q" and len: "2 \<le> length qs" "qs \<noteq> []"
    and hd: "wfQuery fs ms (hd qs)"
    using wfQuery_hd [OF QGroup.prems] by (auto simp: list_all_iff)
  show ?case
    unfolding parsesOperand_def
  proof (intro allI impI)
    fix fuel depth p r t rest
    assume r: "filterOperand fuel depth p = Some r" and tabs: "ps_fields p = fs" "ps_mapFields p = ms"
      and toks: "ptoks p = qTokens fs (QGroup c qs) @ t # rest" and t: "tk_kind t \<noteq> comma"
    from r obtain fl where fuel: "fuel = Suc fl" by (cases fuel) auto
    have 0: "ptoks p = tok parenOpen ''('' # memberTokens c (map (qTokens fs) qs) @ tok parenClose '')'' # t # rest"
      using toks by simp
    note p = psMatch_ptoks [OF 0, of "[parenOpen]"] ptoks_Cons(2) [OF 0]
    from r fuel p(1) obtain rf where rf: "filter' fl (depth + 1) (next' p) = Some rf"
      by (cases "filter' fl (depth + 1) (next' p)") auto
    have "\<exists>p'. rf = ((qNode (QGroup c qs), []), p') \<and>
        moved (next' p) p' (afterGroup (depth + 1) (tok parenClose '')'') (t # rest))"
      by (rule filter_query [OF len(1) _ _ _ rf])
        (use p(2) tabs ops members_start [OF len(2) hd] in \<open>simp_all add: moved_def groupEnd_def\<close>)
    with r fuel p moved_trans [OF p(2)] rf
    show "\<exists>p'. r = ((Some (qNode (QGroup c qs)), []), p') \<and> moved p p' (t # rest)"
      by (auto simp del: qNode.simps)
  qed
qed

section \<open>Round trip\<close>

lemma root_comparison:
  assumes wf: "wfQuery (ps_fields p) (ps_mapFields p) (QCmp neg op i vs)"
    and toks: "ptoks p = qTokens (ps_fields p) (QCmp neg op i vs) @ t # rest"
    and t: "tk_kind t \<notin> {comma, parenClose, plus', or'}"
    and r: "filter' fuel 0 p = Some r"
  shows "fst r = (qNode (QCmp neg op i vs), [])"
proof -
  let ?q = "QCmp neg op i vs"
  from r obtain fl where fuel: "fuel = Suc fl" by (cases fuel) auto
  obtain v us where v: "ptoks p = v # us" "tk_kind v \<noteq> eof" using qTokens_start [OF wf] toks by auto
  from r fuel ptoks_Cons(1) [OF v(1)] v(2) obtain ro where ro: "filterOperand fl 0 p = Some ro"
    by (cases "filterOperand fl 0 p") auto
  from parsesOperandD [OF operand_query [OF wf] ro toks] t obtain p1 where
    r1: "ro = ((Some (qNode ?q), []), p1)" and m1: "moved p p1 (t # rest)" by auto
  then have 1: "ptoks p1 = t # rest" by (simp add: moved_def)
  from r fuel ptoks_Cons(1) [OF v(1)] v(2) ro r1 psMatch_ptoks [OF 1, of "[parenClose]"] ptoks_Cons(1) [OF 1] t
  show ?thesis by (auto simp del: qNode.simps)
qed

lemma root_query:
  assumes wf: "wfQuery (ps_fields p) (ps_mapFields p) q"
    and toks: "ptoks p = rootTokens (ps_fields p) q @ [tok eof []]"
    and r: "filter' fuel 0 p = Some r"
  shows "fst r = (qNode q, [])"
proof (cases q)
  case (QGroup c qs)
  with wf have "2 \<le> length qs" "qs \<noteq> []" "\<forall>q \<in> set qs. parsesOperand (ps_fields p) (ps_mapFields p) q"
    "wfQuery (ps_fields p) (ps_mapFields p) (hd qs)"
    using wfQuery_hd [of "ps_fields p" "ps_mapFields p" c qs] by (auto simp: list_all_iff operand_query)
  with filter_query [of qs p c "tok eof []" "[]" 0 fuel r] toks r QGroup members_start
  show ?thesis by (fastforce simp: rootTokens_def groupEnd_def)
next
  case (QCmp neg op i vs)
  show ?thesis
    unfolding QCmp
    by (rule root_comparison [OF _ _ _ r, where t = "tok eof []" and rest = "[]"])
      (use wf toks QCmp in \<open>simp_all add: rootTokens_def\<close>)
qed

text \<open>A token list that lexing returned is parsed from its start.\<close>

lemma Parse_lexed:
  assumes l: "lex' uni raw (dfp_fields dfp) (dfp_mapFields dfp) = (toks, [])"
    and top: "\<And>fuel r. filter' fuel 0 \<lparr>ps_tokens = toks, ps_current = 0, ps_fields = dfp_fields dfp,
      ps_mapFields = dfp_mapFields dfp\<rparr> = Some r \<Longrightarrow> fst r = (n, [])"
  shows "Parse uni dfp raw = Some (Inr n)"
proof -
  let ?p = "\<lparr>ps_tokens = toks, ps_current = 0, ps_fields = dfp_fields dfp, ps_mapFields = dfp_mapFields dfp\<rparr>"
  from Parse_returns [of uni dfp raw] obtain r where r: "filter' (parseFuel toks) 0 ?p = Some r"
    by (cases "filter' (parseFuel toks) 0 ?p") (auto simp: returns_def Parse_def l Let_def)
  with top [OF r] l show ?thesis by (cases r) (simp add: Parse_def)
qed

lemma Parse_query:
  assumes "wfQuery (dfp_fields dfp) (dfp_mapFields dfp) q"
  shows "Parse uni dfp (queryText q) = Some (Inr (qNode q))"
  by (rule Parse_lexed [OF lex_query [OF assms]])
    (erule root_query [rotated 2], use assms in \<open>simp_all add: ptoks_def\<close>)

text \<open>
  What follows a complete comparison at the outermost level without a group operator is not
  read.
\<close>

lemma Parse_trailing:
  assumes "wfQuery (dfp_fields dfp) (dfp_mapFields dfp) (QCmp neg op i vs)"
    and "wfQuery (dfp_fields dfp) (dfp_mapFields dfp) (QCmp neg' op' i' vs')"
  shows "Parse uni dfp (queryText (QCmp neg op i vs) @ '' '' @ queryText (QCmp neg' op' i' vs')) =
    Some (Inr (qNode (QCmp neg op i vs)))"
proof (rule Parse_lexed [OF lex_two [OF assms]])
  fix fuel r
  let ?fs = "dfp_fields dfp"
  let ?p = "\<lparr>ps_tokens = (rootTokens ?fs (QCmp neg op i vs) @ [] @ rootTokens ?fs (QCmp neg' op' i' vs')) @ [tok eof []],
    ps_current = 0, ps_fields = ?fs, ps_mapFields = dfp_mapFields dfp\<rparr>"
  assume r: "filter' fuel 0 ?p = Some r"
  obtain t ts where "qTokens ?fs (QCmp neg' op' i' vs') = t # ts" "tk_kind t \<notin> {comma, parenClose, plus', or'}"
    using assms(2) by (auto simp: cmpTokens_def identTokens_def Let_def)
  then show "fst r = (qNode (QCmp neg op i vs), [])"
    by (intro root_comparison [OF _ _ _ r, where t = t and rest = "ts @ [tok eof []]"])
      (use assms in \<open>simp_all add: rootTokens_def ptoks_def\<close>)
qed

end
