(* ===== verification/Filter_Fields.thy ===== *)
theory Filter_Fields
  imports Filter_Parser Filter_Transform
begin

text \<open>
  The filterable fields of each kind of data: the names of \<^verbatim>\<open>core/pkg/filter/fieldstrings\<close>, and
  for every package under \<^verbatim>\<open>core/pkg/filter\<close> that defines a field type, the table its parser
  recognises, the lookup by name its \<^verbatim>\<open>init\<close> function fills and its parser. The field types are
  string types converted from the shared names, so a field constant is its name here. The last
  section is the registry of lookups that \<^verbatim>\<open>core/pkg/filter/ops\<close> keeps by type name.
\<close>

named_theorems field_simps "names and tables of the filterable fields"

section \<open>Field names\<close>

definition FieldUID :: string where [field_simps]: "FieldUID = ''uid''"
definition FieldClusterID :: string where [field_simps]: "FieldClusterID = ''cluster''"
definition FieldNode :: string where [field_simps]: "FieldNode = ''node''"
definition FieldNamespace :: string where [field_simps]: "FieldNamespace = ''namespace''"
definition FieldControllerKind :: string where [field_simps]: "FieldControllerKind = ''controllerKind''"
definition FieldControllerName :: string where [field_simps]: "FieldControllerName = ''controllerName''"
definition FieldPod :: string where [field_simps]: "FieldPod = ''pod''"
definition FieldContainer :: string where [field_simps]: "FieldContainer = ''container''"
definition FieldProvider :: string where [field_simps]: "FieldProvider = ''provider''"
definition FieldServices :: string where [field_simps]: "FieldServices = ''services''"
definition FieldLabel :: string where [field_simps]: "FieldLabel = ''label''"
definition FieldAnnotation :: string where [field_simps]: "FieldAnnotation = ''annotation''"
definition FieldNodeLabel :: string where [field_simps]: "FieldNodeLabel = ''nodeLabel''"
definition FieldNamespaceLabel :: string where [field_simps]: "FieldNamespaceLabel = ''namespaceLabel''"
definition FieldResourceQuota :: string where [field_simps]: "FieldResourceQuota = ''resourcequota''"
definition FieldName :: string where [field_simps]: "FieldName = ''name''"
definition FieldAssetType :: string where [field_simps]: "FieldAssetType = ''assetType''"
definition FieldCategory :: string where [field_simps]: "FieldCategory = ''category''"
definition FieldProject :: string where [field_simps]: "FieldProject = ''project''"
definition FieldProviderID :: string where [field_simps]: "FieldProviderID = ''providerID''"
definition FieldAccount :: string where [field_simps]: "FieldAccount = ''account''"
definition FieldService :: string where [field_simps]: "FieldService = ''service''"
definition FieldNodeType :: string where [field_simps]: "FieldNodeType = ''nodeType''"
definition FieldInvoiceEntityID :: string where [field_simps]: "FieldInvoiceEntityID = ''invoiceEntityID''"
definition FieldInvoiceEntityName :: string where [field_simps]: "FieldInvoiceEntityName = ''invoiceEntityName''"
definition FieldAccountID :: string where [field_simps]: "FieldAccountID = ''accountID''"
definition FieldAccountName :: string where [field_simps]: "FieldAccountName = ''accountName''"
definition FieldRegionID :: string where [field_simps]: "FieldRegionID = ''regionID''"
definition FieldAvailabilityZone :: string where [field_simps]: "FieldAvailabilityZone = ''availabilityZone''"
definition FieldVersion :: string where [field_simps]: "FieldVersion = ''version''"
definition FieldRegion :: string where [field_simps]: "FieldRegion = ''region''"
definition AliasDepartment :: string where [field_simps]: "AliasDepartment = ''department''"
definition AliasEnvironment :: string where [field_simps]: "AliasEnvironment = ''environment''"
definition AliasOwner :: string where [field_simps]: "AliasOwner = ''owner''"
definition AliasProduct :: string where [field_simps]: "AliasProduct = ''product''"
definition AliasTeam :: string where [field_simps]: "AliasTeam = ''team''"
definition FieldEndPoint :: string where [field_simps]: "FieldEndPoint = ''endPoint''"

section \<open>Tables and lookups\<close>

text \<open>
  The loop of the \<^verbatim>\<open>init\<close> functions, filling \<^verbatim>\<open>fieldMap\<close> with copies of the table's entries;
  \<^verbatim>\<open>DefaultFieldByName\<close> reads it.
\<close>

definition initFieldMap :: "astField list \<Rightarrow> string \<rightharpoonup> astField" where
  "initFieldMap fs = fold (\<lambda>f m. m(fld_Name f \<mapsto> f)) fs Map.empty"

definition allocationFilterFields :: "astField list" where [field_simps]:
  "allocationFilterFields =
     [NewField FieldClusterID [],
      NewField FieldNode [],
      NewField FieldNamespace [],
      NewField FieldControllerName [FieldAttributeNilable],
      NewField FieldControllerKind [FieldAttributeNilable],
      NewField FieldContainer [],
      NewField FieldPod [],
      NewField FieldProvider [],
      NewField FieldAccount [],
      NewAliasField AliasDepartment [],
      NewAliasField AliasEnvironment [],
      NewAliasField AliasOwner [],
      NewAliasField AliasProduct [],
      NewAliasField AliasTeam [],
      NewSliceField FieldServices [],
      NewMapField FieldLabel [],
      NewMapField FieldAnnotation [],
      NewMapField FieldNodeLabel [],
      NewMapField FieldNamespaceLabel []]"

definition allocationFieldByName :: "string \<Rightarrow> astField option" where
  "allocationFieldByName fld = initFieldMap allocationFilterFields fld"

definition NewAllocationFilterParser :: filterParser where
  "NewAllocationFilterParser = NewFilterParser allocationFilterFields"

definition assetFilterFields :: "astField list" where [field_simps]:
  "assetFilterFields =
     [NewField FieldAssetType [],
      NewField FieldName [],
      NewField FieldCategory [],
      NewField FieldClusterID [],
      NewField FieldProject [],
      NewField FieldProvider [],
      NewField FieldProviderID [],
      NewField FieldAccount [],
      NewField FieldService [],
      NewMapField FieldLabel [],
      NewAliasField AliasDepartment [],
      NewAliasField AliasEnvironment [],
      NewAliasField AliasProduct [],
      NewAliasField AliasOwner [],
      NewAliasField AliasTeam []]"

definition assetFieldByName :: "string \<Rightarrow> astField option" where
  "assetFieldByName fld = initFieldMap assetFilterFields fld"

definition NewAssetFilterParser :: filterParser where
  "NewAssetFilterParser = NewFilterParser assetFilterFields"

definition cloudCostFilterFields :: "astField list" where [field_simps]:
  "cloudCostFilterFields =
     [NewField FieldInvoiceEntityID [],
      NewField FieldInvoiceEntityName [],
      NewField FieldAccountID [],
      NewField FieldAccountName [],
      NewField FieldRegionID [],
      NewField FieldAvailabilityZone [],
      NewField FieldProvider [],
      NewField FieldProviderID [],
      NewField FieldCategory [],
      NewField FieldService [],
      NewMapField FieldLabel []]"

definition cloudCostFieldByName :: "string \<Rightarrow> astField option" where
  "cloudCostFieldByName fld = initFieldMap cloudCostFilterFields fld"

definition NewCloudCostFilterParser :: filterParser where
  "NewCloudCostFilterParser = NewFilterParser cloudCostFilterFields"

definition clusterStatusFilterFields :: "astField list" where [field_simps]:
  "clusterStatusFilterFields =
     [NewField FieldClusterID [],
      NewField FieldAccount [],
      NewField FieldAccountID [],
      NewField FieldProvider []]"

definition clusterStatusFieldByName :: "string \<Rightarrow> astField option" where
  "clusterStatusFieldByName fld = initFieldMap clusterStatusFilterFields fld"

definition NewClusterStatusFilterParser :: filterParser where
  "NewClusterStatusFilterParser = NewFilterParser clusterStatusFilterFields"

definition diagnosticsFilterFields :: "astField list" where [field_simps]:
  "diagnosticsFilterFields =
     [NewField FieldClusterID []]"

definition diagnosticsFieldByName :: "string \<Rightarrow> astField option" where
  "diagnosticsFieldByName fld = initFieldMap diagnosticsFilterFields fld"

definition NewDiagnosticsFilterParser :: filterParser where
  "NewDiagnosticsFilterParser = NewFilterParser diagnosticsFilterFields"

definition diagnosticsSummaryFilterFields :: "astField list" where [field_simps]:
  "diagnosticsSummaryFilterFields =
     [NewField FieldClusterID [],
      NewField FieldProvider [],
      NewField FieldRegion [],
      NewField FieldVersion []]"

definition diagnosticsSummaryFieldByName :: "string \<Rightarrow> astField option" where
  "diagnosticsSummaryFieldByName fld = initFieldMap diagnosticsSummaryFilterFields fld"

definition NewDiagnosticsSummaryFilterParser :: filterParser where
  "NewDiagnosticsSummaryFilterParser = NewFilterParser diagnosticsSummaryFilterFields"

definition k8sObjectFilterFields :: "astField list" where [field_simps]:
  "k8sObjectFilterFields =
     [NewField FieldNamespace [],
      NewField FieldControllerName [FieldAttributeNilable],
      NewField FieldControllerKind [FieldAttributeNilable],
      NewField FieldPod [],
      NewMapField FieldLabel [],
      NewMapField FieldAnnotation []]"

definition k8sObjectFieldByName :: "string \<Rightarrow> astField option" where
  "k8sObjectFieldByName fld = initFieldMap k8sObjectFilterFields fld"

definition NewK8sObjectFilterParser :: filterParser where
  "NewK8sObjectFilterParser = NewFilterParser k8sObjectFilterFields"

definition networkInsightFilterFields :: "astField list" where [field_simps]:
  "networkInsightFilterFields =
     [NewField FieldClusterID [],
      NewField FieldNamespace [],
      NewField FieldPod [],
      NewField FieldAccount []]"

definition networkInsightFieldByName :: "string \<Rightarrow> astField option" where
  "networkInsightFieldByName fld = initFieldMap networkInsightFilterFields fld"

definition NewNetworkInsightFilterParser :: filterParser where
  "NewNetworkInsightFilterParser = NewFilterParser networkInsightFilterFields"

definition networkInsightDetailFilterFields :: "astField list" where [field_simps]:
  "networkInsightDetailFilterFields =
     [NewField FieldEndPoint []]"

definition networkInsightDetailFieldByName :: "string \<Rightarrow> astField option" where
  "networkInsightDetailFieldByName fld = initFieldMap networkInsightDetailFilterFields fld"

definition NewNetworkInsightDetailFilterParser :: filterParser where
  "NewNetworkInsightDetailFilterParser = NewFilterParser networkInsightDetailFilterFields"

definition nodeFilterFields :: "astField list" where [field_simps]:
  "nodeFilterFields =
     [NewField FieldName [],
      NewField FieldNodeType [],
      NewField FieldClusterID [],
      NewField FieldProvider [],
      NewField FieldProviderID [],
      NewMapField FieldLabel []]"

definition nodeFieldByName :: "string \<Rightarrow> astField option" where
  "nodeFieldByName fld = initFieldMap nodeFilterFields fld"

definition NewNodeFilterParser :: filterParser where
  "NewNodeFilterParser = NewFilterParser nodeFilterFields"

definition resourceQuotaFilterFields :: "astField list" where [field_simps]:
  "resourceQuotaFilterFields =
     [NewField FieldClusterID [],
      NewField FieldResourceQuota [],
      NewField FieldNamespace [],
      NewMapField FieldNamespaceLabel [],
      NewField FieldUID []]"

definition resourceQuotaFieldByName :: "string \<Rightarrow> astField option" where
  "resourceQuotaFieldByName fld = initFieldMap resourceQuotaFilterFields fld"

definition NewResourceQuotaFilterParser :: filterParser where
  "NewResourceQuotaFilterParser = NewFilterParser resourceQuotaFilterFields"

section \<open>The registry of lookups\<close>

text \<open>\<^verbatim>\<open>typeutil.TypeOf\<close> names a defined type by its package path and its name.\<close>

definition fieldTypeName :: "string \<Rightarrow> string \<Rightarrow> string" where
  "fieldTypeName pkg name = ''github.com/opencost/opencost/core/pkg/filter/'' @ pkg @ ''/'' @ name"

definition AllocationFieldType :: string where
  "AllocationFieldType = fieldTypeName ''allocation'' ''AllocationField''"

text \<open>
  The four lookups the registry is created with, and those the \<^verbatim>\<open>init\<close> functions of the other
  packages register.
\<close>

definition initialFieldByType :: fieldRegistry where
  "initialFieldByType =
     [AllocationFieldType \<mapsto> allocationFieldByName,
      fieldTypeName ''asset'' ''AssetField'' \<mapsto> assetFieldByName,
      fieldTypeName ''cloudcost'' ''CloudCostField'' \<mapsto> cloudCostFieldByName,
      fieldTypeName ''k8sobject'' ''K8sObjectField'' \<mapsto> k8sObjectFieldByName]"

definition defaultFieldByType :: fieldRegistry where
  "defaultFieldByType =
     (RegisterDefaultFieldLookup (fieldTypeName ''resourcequota'' ''ResourceQuotaField'') resourceQuotaFieldByName \<circ>
      RegisterDefaultFieldLookup (fieldTypeName ''networkinsight'' ''NetworkInsightDetailField'') networkInsightDetailFieldByName \<circ>
      RegisterDefaultFieldLookup (fieldTypeName ''networkinsight'' ''NetworkInsightField'') networkInsightFieldByName \<circ>
      RegisterDefaultFieldLookup (fieldTypeName ''diagnostics'' ''DiagnosticsSummaryField'') diagnosticsSummaryFieldByName \<circ>
      RegisterDefaultFieldLookup (fieldTypeName ''diagnostics'' ''DiagnosticsField'') diagnosticsFieldByName \<circ>
      RegisterDefaultFieldLookup (fieldTypeName ''clusterstatus'' ''ClusterStatusField'') clusterStatusFieldByName)
     initialFieldByType"

section \<open>Lookup finds what the table holds\<close>

lemma initFieldMap_map_of: "initFieldMap fs = map_of (rev (map (\<lambda>f. (fld_Name f, f)) fs))"
proof -
  have "fold (\<lambda>f m. m(fld_Name f \<mapsto> f)) fs m = m ++ map_of (rev (map (\<lambda>f. (fld_Name f, f)) fs))" for m
    by (induction fs arbitrary: m) simp_all
  then show ?thesis by (simp add: initFieldMap_def)
qed

text \<open>In a table with distinct names the lookup of an entry's name returns the entry.\<close>

lemma initFieldMap_distinct:
  assumes "distinct (map fld_Name fs)" and "f \<in> set fs"
  shows "initFieldMap fs (fld_Name f) = Some f"
proof -
  have "distinct (map fst (rev (map (\<lambda>f. (fld_Name f, f)) fs)))"
    using assms(1) by (simp add: rev_map [symmetric] o_def)
  moreover have "(fld_Name f, f) \<in> set (rev (map (\<lambda>f. (fld_Name f, f)) fs))" using assms(2) by force
  ultimately show ?thesis unfolding initFieldMap_map_of by (rule map_of_is_SomeI)
qed

lemma initFieldMap_Some:
  assumes "initFieldMap fs n = Some f"
  shows "f \<in> set fs \<and> fld_Name f = n"
  using map_of_SomeD [OF assms [unfolded initFieldMap_map_of]] by auto

end
