(* ===== verification/Alloc_Props.thy ===== *)
theory Alloc_Props
  imports Filter_Transform
begin

text \<open>
  The properties of an allocation (\<^verbatim>\<open>core/pkg/opencost/allocationprops.go\<close>) and the label
  configuration (\<^verbatim>\<open>config.go\<close>). A Go map that may be nil is an option; reading a nil map finds
  nothing, as reading an empty one.
\<close>

section \<open>Records\<close>

record allocationProperties =
  pr_Cluster :: string
  pr_Node :: string
  pr_Container :: string
  pr_Controller :: string
  pr_ControllerKind :: string
  pr_Namespace :: string
  pr_Pod :: string
  pr_Services :: "string list"
  pr_ProviderID :: string
  pr_Labels :: "string gomap option"
  pr_Annotations :: "string gomap option"
  pr_NamespaceLabels :: "string gomap option"
  pr_NamespaceAnnotations :: "string gomap option"
  pr_AggregatedMetadata :: bool

text \<open>The entries of a map that may be nil.\<close>

definition entries :: "'v gomap option \<Rightarrow> 'v gomap" where
  "entries m = (case m of None \<Rightarrow> [] | Some es \<Rightarrow> es)"

lemma entries_simps [simp]: "entries None = []" "entries (Some es) = es"
  by (simp_all add: entries_def)

record labelConfig =
  lc_DepartmentLabel :: string
  lc_EnvironmentLabel :: string
  lc_OwnerLabel :: string
  lc_ProductLabel :: string
  lc_TeamLabel :: string
  lc_ClusterExternalLabel :: string
  lc_NamespaceExternalLabel :: string
  lc_ControllerExternalLabel :: string
  lc_DaemonsetExternalLabel :: string
  lc_DeploymentExternalLabel :: string
  lc_StatefulsetExternalLabel :: string
  lc_ServiceExternalLabel :: string
  lc_PodExternalLabel :: string
  lc_DepartmentExternalLabel :: string
  lc_EnvironmentExternalLabel :: string
  lc_OwnerExternalLabel :: string
  lc_ProductExternalLabel :: string
  lc_TeamExternalLabel :: string

definition NewLabelConfig :: labelConfig where
  "NewLabelConfig =
     \<lparr>lc_DepartmentLabel = ''department'',
      lc_EnvironmentLabel = ''env'',
      lc_OwnerLabel = ''owner'',
      lc_ProductLabel = ''app'',
      lc_TeamLabel = ''team'',
      lc_ClusterExternalLabel = ''kubernetes_cluster'',
      lc_NamespaceExternalLabel = ''kubernetes_namespace'',
      lc_ControllerExternalLabel = ''kubernetes_controller'',
      lc_DaemonsetExternalLabel = ''kubernetes_daemonset'',
      lc_DeploymentExternalLabel = ''kubernetes_deployment'',
      lc_StatefulsetExternalLabel = ''kubernetes_statefulset'',
      lc_ServiceExternalLabel = ''kubernetes_service'',
      lc_PodExternalLabel = ''kubernetes_pod'',
      lc_DepartmentExternalLabel = ''kubernetes_label_department'',
      lc_EnvironmentExternalLabel = ''kubernetes_label_env'',
      lc_OwnerExternalLabel = ''kubernetes_label_owner'',
      lc_ProductExternalLabel = ''kubernetes_label_app'',
      lc_TeamExternalLabel = ''kubernetes_label_team''\<rparr>"

end
