(* ===== verification/Go_Time.thy ===== *)
theory Go_Time
  imports Prelude
begin

text \<open>
  The part of Go's package \<^verbatim>\<open>time\<close> the program uses: instants in a zone with a fixed offset,
  durations as 64-bit counts of nanoseconds, the Gregorian calendar, truncation. An instant is
  the number of nanoseconds since the first of January of the year 1, 00:00 UTC, which is also
  what \<^verbatim>\<open>Truncate\<close> counts from. Monotonic clock readings and zones with daylight saving are left
  out: the program builds its times in UTC and in fixed zones.
\<close>

section \<open>Durations\<close>

text \<open>A signed 64-bit result: what remains of an integer after wrapping around.\<close>

definition wrap64 :: "int \<Rightarrow> int" where
  "wrap64 x = (x + 2 ^ 63) mod 2 ^ 64 - 2 ^ 63"

definition minInt64 :: int where "minInt64 = - (2 ^ 63)"
definition maxInt64 :: int where "maxInt64 = 2 ^ 63 - 1"

type_synonym duration = int

definition Second :: duration where "Second = 1000000000"
definition Minute :: duration where "Minute = 60 * Second"
definition Hour :: duration where "Hour = 60 * Minute"
definition Day :: duration where "Day = 24 * Hour"
definition Week :: duration where "Week = 7 * Day"

lemmas durations = Second_def Minute_def Hour_def Day_def Week_def

lemma wrap64_id: "minInt64 \<le> x \<Longrightarrow> x \<le> maxInt64 \<Longrightarrow> wrap64 x = x"
  by (simp add: wrap64_def minInt64_def maxInt64_def)

lemma wrap64_range: "minInt64 \<le> wrap64 x \<and> wrap64 x \<le> maxInt64"
  by (simp add: wrap64_def minInt64_def maxInt64_def)

section \<open>Instants\<close>

record gotime =
  tm_ns :: int
  tm_off :: int

definition zeroTime :: gotime where
  "zeroTime = \<lparr>tm_ns = 0, tm_off = 0\<rparr>"

definition timeAdd :: "gotime \<Rightarrow> duration \<Rightarrow> gotime" where
  "timeAdd t d = t\<lparr>tm_ns := tm_ns t + d\<rparr>"

text \<open>\<^verbatim>\<open>Sub\<close> saturates instead of wrapping around.\<close>

definition timeSub :: "gotime \<Rightarrow> gotime \<Rightarrow> duration" where
  "timeSub t u = max minInt64 (min maxInt64 (tm_ns t - tm_ns u))"

definition timeBefore :: "gotime \<Rightarrow> gotime \<Rightarrow> bool" where
  "timeBefore t u = (tm_ns t < tm_ns u)"

definition timeAfter :: "gotime \<Rightarrow> gotime \<Rightarrow> bool" where
  "timeAfter t u = (tm_ns t > tm_ns u)"

definition timeEqual :: "gotime \<Rightarrow> gotime \<Rightarrow> bool" where
  "timeEqual t u = (tm_ns t = tm_ns u)"

definition timeUTC :: "gotime \<Rightarrow> gotime" where
  "timeUTC t = t\<lparr>tm_off := 0\<rparr>"

definition timeIn :: "gotime \<Rightarrow> int \<Rightarrow> gotime" where
  "timeIn t off = t\<lparr>tm_off := off\<rparr>"

text \<open>\<^verbatim>\<open>time.Unix(sec, 0)\<close>: the internal count of seconds is a 64-bit number.\<close>

definition unixToInternal :: int where
  "unixToInternal = 62135596800"

definition timeUnix :: "int \<Rightarrow> gotime" where
  "timeUnix sec = \<lparr>tm_ns = wrap64 (sec + unixToInternal) * Second, tm_off = 0\<rparr>"

definition timeTruncate :: "gotime \<Rightarrow> duration \<Rightarrow> gotime" where
  "timeTruncate t d = (if d \<le> 0 then t else t\<lparr>tm_ns := tm_ns t - tm_ns t mod d\<rparr>)"

lemmas time_order = timeBefore_def timeAfter_def timeEqual_def

section \<open>The calendar\<close>

definition isLeap :: "int \<Rightarrow> bool" where
  "isLeap y \<longleftrightarrow> y mod 4 = 0 \<and> (y mod 100 \<noteq> 0 \<or> y mod 400 = 0)"

text \<open>Days from the first of January of the year 1 to the first of January of \<open>y\<close>.\<close>

definition daysBeforeYear :: "int \<Rightarrow> int" where
  "daysBeforeYear y = (let p = y - 1 in 365 * p + p div 4 - p div 100 + p div 400)"

text \<open>Days of the year before the first of month \<open>m\<close>, \<open>1\<close> to \<open>12\<close>; of month \<open>13\<close>, all of them.\<close>

definition daysBefore :: "bool \<Rightarrow> int \<Rightarrow> int" where
  "daysBefore leap m =
     (if m \<le> 1 then 0 else if m = 2 then 31
      else (if m = 3 then 59 else if m = 4 then 90 else if m = 5 then 120 else if m = 6 then 151
            else if m = 7 then 181 else if m = 8 then 212 else if m = 9 then 243 else if m = 10 then 273
            else if m = 11 then 304 else if m = 12 then 334 else 365) + (if leap then 1 else 0))"

definition yearOfDay :: "int \<Rightarrow> int" where
  "yearOfDay d =
     (let n400 = d div 146097; r400 = d mod 146097;
          n100 = min 3 (r400 div 36524); r100 = r400 - 36524 * n100;
          n4 = r100 div 1461; r4 = r100 mod 1461;
          n1 = min 3 (r4 div 365)
      in 400 * n400 + 100 * n100 + 4 * n4 + n1 + 1)"

text \<open>The month of a day of the year, counted from \<open>0\<close>.\<close>

definition monthOfYearDay :: "bool \<Rightarrow> int \<Rightarrow> int" where
  "monthOfYearDay leap yd = int (length (filter (\<lambda>m. daysBefore leap m \<le> yd) [1..12]))"

definition localNs :: "gotime \<Rightarrow> int" where
  "localNs t = tm_ns t + tm_off t * Second"

definition localDay :: "gotime \<Rightarrow> int" where
  "localDay t = localNs t div Day"

definition timeYear :: "gotime \<Rightarrow> int" where
  "timeYear t = yearOfDay (localDay t)"

definition timeMonth :: "gotime \<Rightarrow> int" where
  "timeMonth t = (let y = timeYear t in monthOfYearDay (isLeap y) (localDay t - daysBeforeYear y))"

definition timeDay :: "gotime \<Rightarrow> int" where
  "timeDay t =
     (let y = timeYear t in localDay t - daysBeforeYear y - daysBefore (isLeap y) (timeMonth t) + 1)"

definition timeHour :: "gotime \<Rightarrow> int" where
  "timeHour t = localNs t mod Day div Hour"

definition timeMinute :: "gotime \<Rightarrow> int" where
  "timeMinute t = localNs t mod Hour div Minute"

definition timeSecond :: "gotime \<Rightarrow> int" where
  "timeSecond t = localNs t mod Minute div Second"

text \<open>The first of January of the year 1 was a Monday; Sunday is \<open>0\<close>.\<close>

definition timeWeekday :: "gotime \<Rightarrow> int" where
  "timeWeekday t = (localDay t + 1) mod 7"

text \<open>\<^verbatim>\<open>time.Date\<close> normalises months outside a year; days and hours just add up.\<close>

definition dayNumber :: "int \<Rightarrow> int \<Rightarrow> int \<Rightarrow> int" where
  "dayNumber y m d =
     (let y' = y + (m - 1) div 12; m' = (m - 1) mod 12 + 1
      in daysBeforeYear y' + daysBefore (isLeap y') m' + d - 1)"

definition timeDate :: "int \<Rightarrow> int \<Rightarrow> int \<Rightarrow> int \<Rightarrow> int \<Rightarrow> int \<Rightarrow> int \<Rightarrow> gotime" where
  "timeDate y m d hh mm ss off =
     \<lparr>tm_ns = dayNumber y m d * Day + hh * Hour + mm * Minute + ss * Second - off * Second, tm_off = off\<rparr>"

section \<open>Facts of the calendar\<close>

lemma div_pred:
  fixes y n :: int
  assumes "0 < n"
  shows "y div n = (y - 1) div n + (if y mod n = 0 then 1 else 0)"
proof (cases "y mod n = 0")
  case True
  then have "y - 1 = n * (y div n - 1) + (n - 1)" using mult_div_mod_eq [of n y] by (simp add: algebra_simps)
  from int_div_pos_eq [OF this] assms True show ?thesis by simp
next
  case False
  then have "y - 1 = n * (y div n) + (y mod n - 1)" by simp
  moreover have "0 \<le> y mod n - 1" "y mod n - 1 < n" using False assms pos_mod_sign [of n y] pos_mod_bound [of n y] by linarith+
  ultimately show ?thesis using int_div_pos_eq [of "y - 1" n "y div n" "y mod n - 1"] False by simp
qed

lemma mod_400: "(y :: int) mod 400 = 0 \<Longrightarrow> y mod 100 = 0"
  using mod_mod_cancel [of 100 "400 :: int" y] by simp

lemma mod_100: "(y :: int) mod 100 = 0 \<Longrightarrow> y mod 4 = 0"
  using mod_mod_cancel [of 4 "100 :: int" y] by simp

lemma daysBeforeYear_step: "daysBeforeYear (y + 1) = daysBeforeYear y + 365 + (if isLeap y then 1 else 0)"
proof -
  define f g P where "f = (\<lambda>n. (y - 1) div n)" and "g = (\<lambda>n. y div n)" and "P = (\<lambda>n. y mod n = 0)"
  have "g 4 = f 4 + (if P 4 then 1 else 0)" "g 100 = f 100 + (if P 100 then 1 else 0)"
    "g 400 = f 400 + (if P 400 then 1 else 0)"
    unfolding f_def g_def P_def by (rule div_pred; simp)+
  moreover have "daysBeforeYear y = 365 * (y - 1) + f 4 - f 100 + f 400"
    by (simp only: daysBeforeYear_def f_def Let_def)
  moreover have "daysBeforeYear (y + 1) = 365 * y + g 4 - g 100 + g 400"
    by (simp only: daysBeforeYear_def g_def Let_def add_diff_cancel_right')
  moreover have "isLeap y \<longleftrightarrow> P 4 \<and> (\<not> P 100 \<or> P 400)" by (simp only: isLeap_def P_def)
  moreover have "P 400 \<longrightarrow> P 100" "P 100 \<longrightarrow> P 4" using mod_400 [of y] mod_100 [of y] by (simp_all add: P_def)
  ultimately show ?thesis by (cases "P 4"; cases "P 100"; cases "P 400") simp_all
qed

lemma year_parts:
  fixes a b c e :: int
  assumes "0 \<le> b" "b \<le> 3" "0 \<le> c" "c \<le> 24" "0 \<le> e" "e \<le> 3"
  defines "p \<equiv> 400 * a + 100 * b + 4 * c + e"
  shows "p div 4 = 100 * a + 25 * b + c" "p div 100 = 4 * a + b" "p div 400 = a"
    "p mod 4 = e" "p mod 100 = 4 * c + e" "p mod 400 = 100 * b + 4 * c + e"
proof -
  have 4: "p = 4 * (100 * a + 25 * b + c) + e" "p = 100 * (4 * a + b) + (4 * c + e)"
    "p = 400 * a + (100 * b + 4 * c + e)" by (simp_all add: p_def)
  from int_div_pos_eq [OF 4(1)] int_mod_pos_eq [OF 4(1)] assms
  show "p div 4 = 100 * a + 25 * b + c" "p mod 4 = e" by auto
  from int_div_pos_eq [OF 4(2)] int_mod_pos_eq [OF 4(2)] assms
  show "p div 100 = 4 * a + b" "p mod 100 = 4 * c + e" by auto
  from int_div_pos_eq [OF 4(3)] int_mod_pos_eq [OF 4(3)] assms
  show "p div 400 = a" "p mod 400 = 100 * b + 4 * c + e" by auto
qed

lemma daysBeforeYear_parts:
  assumes "0 \<le> b" "b \<le> 3" "0 \<le> c" "c \<le> 24" "0 \<le> e" "e \<le> 3"
  shows "daysBeforeYear (400 * a + 100 * b + 4 * c + e + 1) = 146097 * a + 36524 * b + 1461 * c + 365 * e"
  using year_parts [OF assms, of a] by (simp add: daysBeforeYear_def Let_def)

lemma mod_succ_zero:
  fixes p n :: int
  assumes "0 < n"
  shows "(p + 1) mod n = 0 \<longleftrightarrow> p mod n = n - 1"
proof (cases "p mod n = n - 1")
  case True
  have "(p + 1) mod n = (p mod n + 1) mod n" by (simp add: mod_add_left_eq)
  with True show ?thesis by simp
next
  case False
  with assms pos_mod_sign [of n p] pos_mod_bound [of n p] have "0 < p mod n + 1" "p mod n + 1 < n" by linarith+
  moreover have "(p + 1) mod n = (p mod n + 1) mod n" by (simp add: mod_add_left_eq)
  ultimately show ?thesis using False by simp
qed

lemma isLeap_parts:
  assumes "0 \<le> b" "b \<le> 3" "0 \<le> c" "c \<le> 24" "0 \<le> e" "e \<le> 3"
  shows "isLeap (400 * a + 100 * b + 4 * c + e + 1) \<longleftrightarrow> e = 3 \<and> (c < 24 \<or> b = (3 :: int))"
proof -
  note p = year_parts(4-6) [OF assms, of a]
  have "4 * c + e = 99 \<longleftrightarrow> c = 24 \<and> e = 3" "100 * b + 4 * c + e = 399 \<longleftrightarrow> b = 3 \<and> c = 24 \<and> e = 3"
    using assms by linarith+
  with p assms(4) show ?thesis by (auto simp: isLeap_def mod_succ_zero)
qed

lemma yearOfDay_bounds:
  "daysBeforeYear (yearOfDay d) \<le> d \<and> d < daysBeforeYear (yearOfDay d + 1)"
proof -
  define a where "a = d div 146097"
  define r where "r = d mod 146097"
  define b where "b = min 3 (r div 36524)"
  define s where "s = r - 36524 * b"
  define c where "c = s div 1461"
  define u where "u = s mod 1461"
  define e where "e = min 3 (u div 365)"
  have d: "d = 146097 * a + 36524 * b + 1461 * c + u" by (simp add: a_def r_def s_def c_def u_def)
  have r: "0 \<le> r" "r < 146097" by (simp_all add: r_def)
  then have b: "0 \<le> b" "b \<le> 3" "0 \<le> s" "s < 36525" "b < 3 \<Longrightarrow> s < 36524" by (auto simp: b_def s_def)
  then have c: "0 \<le> c" "c \<le> 24" "0 \<le> u" "u < 1461" by (auto simp: c_def u_def)
  then have e: "0 \<le> e" "e \<le> 3" "365 * e \<le> u" "u \<le> 365 * e + 365" "e < 3 \<Longrightarrow> u < 365 * e + 365"
    by (auto simp: e_def)
  have y: "yearOfDay d = 400 * a + 100 * b + 4 * c + e + 1"
    by (simp add: yearOfDay_def Let_def a_def r_def b_def s_def c_def u_def e_def)
  have low: "daysBeforeYear (yearOfDay d) = 146097 * a + 36524 * b + 1461 * c + 365 * e"
    unfolding y using b c e by (intro daysBeforeYear_parts) auto
  have "u < 365 * e + 365 + (if isLeap (yearOfDay d) then 1 else 0)"
  proof (cases "isLeap (yearOfDay d)")
    case False
    then have "e < 3 \<or> (c = 24 \<and> b < 3)"
      unfolding y using isLeap_parts [of b c e a] b c e by auto
    then show ?thesis
    proof
      assume "c = 24 \<and> b < 3"
      with b have "s < 36524" "s = 1461 * 24 + u" using mult_div_mod_eq [of 1461 s] by (simp_all add: c_def u_def)
      with e(3,4) show ?thesis using False by (cases "e = 3") (use e in auto)
    qed (use e False in auto)
  qed (use e in auto)
  with low d e(3) daysBeforeYear_step [of "yearOfDay d"] show ?thesis by linarith
qed

text \<open>Months: a day of the year lies in the month found for it.\<close>

lemma month_upto: "[1..12] = [1, 2, 3, 4, 5, 6, 7, 8, 9, 10, 11, 12 :: int]"
  by (simp add: upto.simps)

lemma month_cases:
  assumes "0 \<le> yd" and "yd < 365 + (if leap then 1 else 0)"
  obtains m where "m \<in> {1..12}" "daysBefore leap m \<le> yd" "yd < daysBefore leap (m + 1)"
proof -
  let ?B = "daysBefore leap"
  have ends: "?B 1 \<le> yd" "yd < ?B 13" using assms by (auto simp: daysBefore_def)
  consider "yd < ?B 2" | "?B 2 \<le> yd" "yd < ?B 3" | "?B 3 \<le> yd" "yd < ?B 4" | "?B 4 \<le> yd" "yd < ?B 5"
    | "?B 5 \<le> yd" "yd < ?B 6" | "?B 6 \<le> yd" "yd < ?B 7" | "?B 7 \<le> yd" "yd < ?B 8" | "?B 8 \<le> yd" "yd < ?B 9"
    | "?B 9 \<le> yd" "yd < ?B 10" | "?B 10 \<le> yd" "yd < ?B 11" | "?B 11 \<le> yd" "yd < ?B 12" | "?B 12 \<le> yd"
    by linarith
  then show thesis
    by cases (use that [of 1] that [of 2] that [of 3] that [of 4] that [of 5] that [of 6] that [of 7] that [of 8]
        that [of 9] that [of 10] that [of 11] that [of 12] ends in simp_all)
qed

lemma daysBefore_mono: "a \<in> {1..13} \<Longrightarrow> b \<in> {1..13} \<Longrightarrow> a < b \<Longrightarrow> daysBefore leap a < daysBefore leap b"
  unfolding daysBefore_def by (cases leap; simp; presburger)

lemma monthOfYearDay_unique:
  assumes m: "m \<in> {1..12}" and "daysBefore leap m \<le> yd" and "yd < daysBefore leap (m + 1)"
  shows "monthOfYearDay leap yd = m"
proof -
  have le: "daysBefore leap k \<le> yd \<longleftrightarrow> k \<le> m" if "k \<in> {1..12}" for k
  proof (cases "k \<le> m")
    case True
    with daysBefore_mono [of k m leap] that m assms(2) show ?thesis by (cases "k = m") auto
  next
    case False
    with daysBefore_mono [of "m + 1" k leap] that m assms(3) show ?thesis by (cases "k = m + 1") auto
  qed
  have "filter (\<lambda>k. daysBefore leap k \<le> yd) [1..12] = filter (\<lambda>k. k \<le> m) [1..12]"
    by (rule filter_cong) (use le in auto)
  moreover have "filter (\<lambda>k. k \<le> m) [1..12] = [1..m]"
    using m by (auto simp: month_upto upto.simps)
  ultimately show ?thesis using m by (simp add: monthOfYearDay_def)
qed

lemma monthOfYearDay_bounds:
  assumes "0 \<le> yd" and "yd < 365 + (if leap then 1 else 0)"
  shows "1 \<le> monthOfYearDay leap yd" "monthOfYearDay leap yd \<le> 12"
    "daysBefore leap (monthOfYearDay leap yd) \<le> yd" "yd < daysBefore leap (monthOfYearDay leap yd + 1)"
proof -
  obtain m where m: "m \<in> {1..12}" "daysBefore leap m \<le> yd" "yd < daysBefore leap (m + 1)"
    by (rule month_cases [OF assms])
  with monthOfYearDay_unique [OF m] show "1 \<le> monthOfYearDay leap yd" "monthOfYearDay leap yd \<le> 12"
    "daysBefore leap (monthOfYearDay leap yd) \<le> yd" "yd < daysBefore leap (monthOfYearDay leap yd + 1)"
    by simp_all
qed

section \<open>Dates and days\<close>

lemma daysBeforeYear_mono:
  assumes "a < b"
  shows "daysBeforeYear a < daysBeforeYear b"
proof -
  have "daysBeforeYear a < daysBeforeYear (a + 1 + int k)" for k
  proof (induction k)
    case 0
    then show ?case using daysBeforeYear_step [of a] by simp
  next
    case (Suc k)
    have "a + 1 + int (Suc k) = (a + 1 + int k) + 1" by simp
    with Suc daysBeforeYear_step [of "a + 1 + int k"] show ?case by (simp split: if_splits)
  qed
  from this [of "nat (b - a - 1)"] assms show ?thesis by simp
qed

lemma yearOfDay_unique:
  assumes "daysBeforeYear y \<le> d" and "d < daysBeforeYear (y + 1)"
  shows "yearOfDay d = y"
proof -
  note b = yearOfDay_bounds [of d]
  have "\<not> yearOfDay d < y"
  proof
    assume "yearOfDay d < y"
    then have "yearOfDay d + 1 \<le> y" by simp
    with daysBeforeYear_mono [of "yearOfDay d + 1" y] have "daysBeforeYear (yearOfDay d + 1) \<le> daysBeforeYear y"
      by (cases "yearOfDay d + 1 = y") auto
    with b assms(1) show False by simp
  qed
  moreover have "\<not> y < yearOfDay d"
  proof
    assume "y < yearOfDay d"
    then have "y + 1 \<le> yearOfDay d" by simp
    with daysBeforeYear_mono [of "y + 1" "yearOfDay d"] have "daysBeforeYear (y + 1) \<le> daysBeforeYear (yearOfDay d)"
      by (cases "y + 1 = yearOfDay d") auto
    with b assms(2) show False by simp
  qed
  ultimately show ?thesis by simp
qed

lemma dayNumber_add: "dayNumber y m (d + k) = dayNumber y m d + k"
  by (simp add: dayNumber_def Let_def)

lemma dayNumber_normal: "1 \<le> m \<Longrightarrow> m \<le> 12 \<Longrightarrow> dayNumber y m d = daysBeforeYear y + daysBefore (isLeap y) m + d - 1"
  by (simp add: dayNumber_def Let_def)

text \<open>The first day of the month after month \<open>m\<close>, in December the first of January.\<close>

lemma dayNumber_next_month:
  assumes "1 \<le> m" "m \<le> 12"
  shows "dayNumber y (m + 1) 1 = daysBeforeYear y + daysBefore (isLeap y) (m + 1)"
proof (cases "m = 12")
  case True
  with daysBeforeYear_step [of y] show ?thesis by (simp add: dayNumber_def Let_def daysBefore_def)
next
  case False
  with assms dayNumber_normal [of "m + 1" y 1] show ?thesis by simp
qed

lemma dayNumber_month_step:
  assumes "1 \<le> m" "m \<le> 12"
  shows "dayNumber y m 1 < dayNumber y (m + 1) 1"
  using daysBefore_mono [of m "m + 1" "isLeap y"] assms dayNumber_normal [OF assms, of y 1] dayNumber_next_month [OF assms, of y]
  by simp

text \<open>Counting months from another January.\<close>

lemma dayNumber_normalise:
  "dayNumber y (m + i) d = dayNumber (y + (m - 1) div 12) ((m - 1) mod 12 + 1 + i) d"
proof -
  have "m + i - 1 = ((m - 1) mod 12 + 1 + i - 1) + 12 * ((m - 1) div 12)"
    using mult_div_mod_eq [of 12 "m - 1"] by linarith
  then have "(m + i - 1) div 12 = ((m - 1) mod 12 + 1 + i - 1) div 12 + (m - 1) div 12"
    "(m + i - 1) mod 12 = ((m - 1) mod 12 + 1 + i - 1) mod 12"
    by (simp_all only: div_mult_self2 mod_mult_self2)
  then show ?thesis by (simp only: dayNumber_def Let_def add.assoc add.commute add.left_commute)
qed

lemma dayNumber_month_mono:
  assumes "m < m'"
  shows "dayNumber y m 1 < dayNumber y m' 1"
proof -
  have step: "dayNumber y m 1 < dayNumber y (m + 1) 1" for m
    using dayNumber_month_step [of "(m - 1) mod 12 + 1" "y + (m - 1) div 12"] dayNumber_normalise [of y m 0 1]
      dayNumber_normalise [of y m 1 1] pos_mod_bound [of 12 "m - 1"] by simp
  have "dayNumber y m 1 < dayNumber y (m + 1 + int j) 1" for j
  proof (induction j)
    case 0
    then show ?case using step [of m] by simp
  next
    case (Suc j)
    have "m + 1 + int (Suc j) = (m + 1 + int j) + 1" by simp
    with Suc step [of "m + 1 + int j"] show ?case by (metis order.strict_trans)
  qed
  from this [of "nat (m' - m - 1)"] assms show ?thesis by simp
qed

lemma year_day_range:
  defines "yd t \<equiv> localDay t - daysBeforeYear (timeYear t)"
  shows "0 \<le> yd t" "yd t < 365 + (if isLeap (timeYear t) then 1 else 0)"
  using yearOfDay_bounds [of "localDay t"] daysBeforeYear_step [of "timeYear t"]
  by (simp_all add: timeYear_def yd_def)

lemma timeMonth_range: "1 \<le> timeMonth t" "timeMonth t \<le> 12"
  using monthOfYearDay_bounds [OF year_day_range, of t] by (simp_all add: timeMonth_def Let_def)

lemma date_day: "dayNumber (timeYear t) (timeMonth t) (timeDay t) = localDay t"
  using timeMonth_range by (simp add: dayNumber_normal timeDay_def Let_def)

lemma month_of_day:
  "dayNumber (timeYear t) (timeMonth t) 1 \<le> localDay t"
  "localDay t < dayNumber (timeYear t) (timeMonth t + 1) 1"
  using monthOfYearDay_bounds [OF year_day_range, of t] timeMonth_range [of t]
  by (simp_all add: dayNumber_normal dayNumber_next_month timeMonth_def Let_def)

lemma timeDay_pos: "1 \<le> timeDay t"
  using month_of_day(1) [of t] date_day [of t] dayNumber_add [of "timeYear t" "timeMonth t" 1 "timeDay t - 1"] by simp

lemma daysBefore_year: "1 \<le> m \<Longrightarrow> m \<le> 13 \<Longrightarrow> daysBefore leap 1 \<le> daysBefore leap m \<and> daysBefore leap m \<le> 365 + (if leap then 1 else 0)"
  by (simp add: daysBefore_def)

text \<open>A day is in month \<open>m\<close> of year \<open>y\<close> if it is not before its first day nor past its last.\<close>

lemma month_unique:
  assumes "1 \<le> m" "m \<le> 12" and "dayNumber y m 1 \<le> localDay t" and "localDay t < dayNumber y (m + 1) 1"
  shows "timeYear t = y" "timeMonth t = m" "timeDay t = localDay t - dayNumber y m 1 + 1"
proof -
  let ?B = "daysBefore (isLeap y)"
  have lo: "daysBeforeYear y + ?B m \<le> localDay t" and hi: "localDay t < daysBeforeYear y + ?B (m + 1)"
    using assms dayNumber_normal [of m y 1] dayNumber_next_month [of m y] by simp_all
  have "0 \<le> ?B m" "?B (m + 1) \<le> 365 + (if isLeap y then 1 else 0)"
    using daysBefore_year [of m "isLeap y"] daysBefore_year [of "m + 1" "isLeap y"] assms(1,2)
    by (simp_all add: daysBefore_def)
  with lo hi daysBeforeYear_step [of y] show y: "timeYear t = y"
    unfolding timeYear_def by (intro yearOfDay_unique) linarith+
  show m: "timeMonth t = m"
    unfolding timeMonth_def y Let_def by (rule monthOfYearDay_unique) (use assms(1,2) lo hi in auto)
  show "timeDay t = localDay t - dayNumber y m 1 + 1"
    by (simp add: timeDay_def y m Let_def dayNumber_normal [OF assms(1,2)])
qed

section \<open>Midnights\<close>

text \<open>The instant at which local day \<open>d\<close> starts in a zone.\<close>

definition midnight :: "int \<Rightarrow> int \<Rightarrow> gotime" where
  "midnight off d = \<lparr>tm_ns = d * Day - off * Second, tm_off = off\<rparr>"

lemma midnight_simps [simp]:
  "tm_off (midnight off d) = off" "localDay (midnight off d) = d" "localNs (midnight off d) = d * Day"
  "timeHour (midnight off d) = 0" "timeMinute (midnight off d) = 0" "timeSecond (midnight off d) = 0"
  by (simp_all add: midnight_def localDay_def localNs_def timeHour_def timeMinute_def timeSecond_def durations)

lemma timeWeekday_midnight [simp]: "timeWeekday (midnight off d) = (d + 1) mod 7"
  by (simp add: timeWeekday_def)

lemma midnight_add: "timeAdd (midnight off d) (k * Day) = midnight off (d + k)"
  by (simp add: midnight_def timeAdd_def algebra_simps)

lemma timeDate_midnight: "timeDate y m d 0 0 0 off = midnight off (dayNumber y m d)"
  by (simp add: timeDate_def midnight_def)

lemma midnight_less: "tm_ns (midnight off a) < tm_ns (midnight off b) \<longleftrightarrow> a < b"
  by (simp add: midnight_def Day_def Hour_def Minute_def Second_def)

lemma midnight_le: "tm_ns (midnight off a) \<le> tm_ns (midnight off b) \<longleftrightarrow> a \<le> b"
  by (simp add: midnight_def Day_def Hour_def Minute_def Second_def)

lemma midnight_of_day:
  "tm_ns (midnight (tm_off t) (localDay t)) \<le> tm_ns t"
  "tm_ns t < tm_ns (midnight (tm_off t) (localDay t + 1))"
proof -
  have d: "0 < Day" by (simp add: durations)
  have "localNs t div Day * Day \<le> localNs t" "localNs t < (localNs t div Day + 1) * Day"
    using pos_mod_sign [OF d, of "localNs t"] pos_mod_bound [OF d, of "localNs t"] div_mult_mod_eq [of "localNs t" Day]
    unfolding distrib_right mult_1 by linarith+
  then show "tm_ns (midnight (tm_off t) (localDay t)) \<le> tm_ns t"
    "tm_ns t < tm_ns (midnight (tm_off t) (localDay t + 1))"
    by (simp_all add: midnight_def localDay_def localNs_def)
qed

text \<open>Full days added to an instant move it by that many days, at the same time of day.\<close>

lemma localDay_add: "localDay (timeAdd t (k * Day)) = localDay t + k"
proof -
  have "localNs (timeAdd t (k * Day)) = localNs t + k * Day" by (simp add: localNs_def timeAdd_def)
  moreover have "Day \<noteq> 0" by (simp add: durations)
  ultimately show ?thesis by (simp add: localDay_def)
qed

lemma localDay_midnight: "tm_ns t = tm_ns (midnight (tm_off t) d) \<Longrightarrow> localDay t = d"
  by (simp add: localDay_def localNs_def midnight_def durations)

lemma gotime_eqI: "tm_ns t = tm_ns u \<Longrightarrow> tm_off t = tm_off u \<Longrightarrow> t = (u :: gotime)"
  by simp

end
