(* ===== verification/Go_Float.thy ===== *)
theory Go_Float
  imports Complex_Main "HOL-Library.Log_Nat"
begin

text \<open>
  Go's \<^verbatim>\<open>float64\<close>: IEEE 754 double precision with rounding to nearest, ties to even. A finite
  value is the rational number it stands for, so the two zeros are one value; results too large
  are infinite, small ones are rounded to multiples of the least subnormal number.
\<close>

section \<open>Values and rounding\<close>

datatype float64 = Fin rat | PosInf | NegInf | NaN

definition pow2 :: "int \<Rightarrow> rat" where
  "pow2 e = (if 0 \<le> e then 2 ^ nat e else 1 / 2 ^ nat (- e))"

text \<open>The exponent of a positive number: \<open>pow2 e \<le> x < pow2 (e + 1)\<close>.\<close>

definition exponent :: "rat \<Rightarrow> int" where
  "exponent x =
     (let (n, d) = quotient_of x; e = bitlen n - bitlen d
      in if pow2 e \<le> x then e else e - 1)"

text \<open>The distance of two neighbouring values around a positive number.\<close>

definition quantum :: "rat \<Rightarrow> rat" where
  "quantum x = pow2 (max (exponent x - 52) (- 1074))"

definition roundHalfEven :: "rat \<Rightarrow> int" where
  "roundHalfEven x =
     (let n = floor x; r = x - of_int n
      in if r < 1 / 2 \<or> (r = 1 / 2 \<and> even n) then n else n + 1)"

definition roundPos :: "rat \<Rightarrow> rat" where
  "roundPos x = of_int (roundHalfEven (x / quantum x)) * quantum x"

definition fl :: "rat \<Rightarrow> float64" where
  "fl x =
     (if x = 0 then Fin 0
      else if 0 < x then (let y = roundPos x in if pow2 1024 \<le> y then PosInf else Fin y)
      else (let y = roundPos (- x) in if pow2 1024 \<le> y then NegInf else Fin (- y)))"

section \<open>Operations\<close>

fun fadd :: "float64 \<Rightarrow> float64 \<Rightarrow> float64" where
  "fadd (Fin x) (Fin y) = fl (x + y)"
| "fadd NaN _ = NaN"
| "fadd _ NaN = NaN"
| "fadd PosInf NegInf = NaN"
| "fadd NegInf PosInf = NaN"
| "fadd PosInf _ = PosInf"
| "fadd _ PosInf = PosInf"
| "fadd NegInf _ = NegInf"
| "fadd _ NegInf = NegInf"

fun fneg :: "float64 \<Rightarrow> float64" where
  "fneg (Fin x) = Fin (- x)"
| "fneg PosInf = NegInf"
| "fneg NegInf = PosInf"
| "fneg NaN = NaN"

definition fsub :: "float64 \<Rightarrow> float64 \<Rightarrow> float64" where
  "fsub x y = fadd x (fneg y)"

fun fpos :: "float64 \<Rightarrow> bool" where
  "fpos (Fin x) = (0 < x)" | "fpos PosInf = True" | "fpos _ = False"

fun fzero :: "float64 \<Rightarrow> bool" where
  "fzero (Fin x) = (x = 0)" | "fzero _ = False"

definition signedInf :: "bool \<Rightarrow> float64" where
  "signedInf p = (if p then PosInf else NegInf)"

fun fmul :: "float64 \<Rightarrow> float64 \<Rightarrow> float64" where
  "fmul (Fin x) (Fin y) = fl (x * y)"
| "fmul NaN _ = NaN"
| "fmul _ NaN = NaN"
| "fmul x y = (if fzero x \<or> fzero y then NaN else signedInf (fpos x = fpos y))"

text \<open>Division by zero: the sign of a zero divisor is taken to be positive.\<close>

fun fdiv :: "float64 \<Rightarrow> float64 \<Rightarrow> float64" where
  "fdiv NaN _ = NaN"
| "fdiv _ NaN = NaN"
| "fdiv (Fin x) (Fin y) = (if y = 0 then (if x = 0 then NaN else signedInf (0 < x)) else fl (x / y))"
| "fdiv (Fin x) _ = Fin 0"
| "fdiv x (Fin y) = signedInf (fpos x = (0 \<le> y))"
| "fdiv _ _ = NaN"

fun flt :: "float64 \<Rightarrow> float64 \<Rightarrow> bool" where
  "flt (Fin x) (Fin y) = (x < y)"
| "flt NaN _ = False"
| "flt _ NaN = False"
| "flt NegInf y = (y \<noteq> NegInf)"
| "flt _ NegInf = False"
| "flt PosInf _ = False"
| "flt _ PosInf = True"

fun feq :: "float64 \<Rightarrow> float64 \<Rightarrow> bool" where
  "feq NaN _ = False"
| "feq x y = (x = y)"

definition fle :: "float64 \<Rightarrow> float64 \<Rightarrow> bool" where
  "fle x y = (flt x y \<or> feq x y)"

fun fabs' :: "float64 \<Rightarrow> float64" where
  "fabs' (Fin x) = Fin \<bar>x\<bar>"
| "fabs' NegInf = PosInf"
| "fabs' x = x"

definition fOfInt :: "int \<Rightarrow> float64" where
  "fOfInt n = fl (of_int n)"

text \<open>Conversion to an integer truncates; what it gives for a value that does not fit is a parameter.\<close>

fun intOfF :: "(float64 \<Rightarrow> int) \<Rightarrow> float64 \<Rightarrow> int" where
  "intOfF other (Fin x) = (if \<bar>x\<bar> < 2 ^ 63 then (if 0 \<le> x then floor x else ceiling x) else other (Fin x))"
| "intOfF other x = other x"

section \<open>Rounding is monotone\<close>

lemma pow2_pos [simp]: "0 < pow2 e"
  by (simp add: pow2_def)

lemma pow2_powi: "pow2 e = 2 powi e"
  by (simp add: pow2_def power_int_def power_one_over inverse_eq_divide)

lemma pow2_add: "pow2 (a + b) = pow2 a * pow2 b"
  by (simp add: pow2_powi power_int_add)

lemma pow2_mono: "a \<le> b \<Longrightarrow> pow2 a \<le> pow2 b"
  by (simp add: pow2_powi power_int_increasing)

lemma pow2_less: "pow2 a < pow2 b \<longleftrightarrow> a < b"
proof
  assume "a < b"
  then have "pow2 a < pow2 (a + 1)" "pow2 (a + 1) \<le> pow2 b"
    using pow2_mono [of "a + 1" b] by (simp_all add: pow2_add) (simp add: pow2_def)
  then show "pow2 a < pow2 b" by simp
qed (use pow2_mono [of b a] in force)

lemma pow2_Suc: "pow2 (e + 1) = 2 * pow2 e"
  by (simp add: pow2_add) (simp add: pow2_def)

lemma pow2_int: "0 \<le> e \<Longrightarrow> \<exists>k. pow2 e = of_int k"
  by (rule exI [of _ "2 ^ nat e"]) (simp add: pow2_def)

lemma bitlen_range: "0 < n \<Longrightarrow> pow2 (bitlen n - 1) \<le> of_int n \<and> of_int n < pow2 (bitlen n)"
proof -
  assume n: "0 < n"
  have b: "0 < bitlen n" using n bitlen_nonneg [of n] bitlen_eq_zero_iff [of n] by linarith
  from bitlen_bounds [OF n] have l: "2 ^ nat (bitlen n - 1) \<le> n" and u: "n < 2 ^ nat (bitlen n)" by auto
  from l have "rat_of_int (2 ^ nat (bitlen n - 1)) \<le> of_int n" by (simp only: of_int_le_iff)
  moreover from u have "rat_of_int n < of_int (2 ^ nat (bitlen n))" by (simp only: of_int_less_iff)
  ultimately show ?thesis using b by (simp add: pow2_def)
qed

lemma exponent_bounds:
  assumes "0 < x"
  shows "pow2 (exponent x) \<le> x" and "x < pow2 (exponent x + 1)"
proof -
  obtain n d where q: "quotient_of x = (n, d)" by (cases "quotient_of x")
  have d: "0 < d" using quotient_of_denom_pos [OF q] .
  have x: "x = of_int n / of_int d" using quotient_of_div [OF q] .
  with assms d have n: "0 < n" by (simp add: zero_less_divide_iff)
  let ?e = "bitlen n - bitlen d"
  note bn = bitlen_range [OF n] and bd = bitlen_range [OF d]
  have "x < pow2 (?e + 1)"
  proof -
    have "of_int n < pow2 (?e + 1) * pow2 (bitlen d - 1)" using bn by (simp flip: pow2_add)
    also have "\<dots> \<le> pow2 (?e + 1) * of_int d" using bd by simp
    finally show ?thesis using d by (simp add: x divide_less_eq)
  qed
  moreover have "pow2 (?e - 1) \<le> x"
  proof -
    have "pow2 (?e - 1) * of_int d \<le> pow2 (?e - 1) * pow2 (bitlen d)" using bd by simp
    also have "\<dots> \<le> of_int n" using bn by (simp flip: pow2_add)
    finally show ?thesis using d by (simp add: x le_divide_eq)
  qed
  ultimately show "pow2 (exponent x) \<le> x" "x < pow2 (exponent x + 1)"
    by (simp_all add: exponent_def q Let_def)
qed

lemma exponent_mono:
  assumes "0 < x" and "x \<le> y"
  shows "exponent x \<le> exponent y"
proof -
  have "pow2 (exponent x) < pow2 (exponent y + 1)"
    using exponent_bounds(1) [OF assms(1)] exponent_bounds(2) [of y] assms by simp
  then show ?thesis by (simp add: pow2_less)
qed

lemma roundHalfEven_mono:
  assumes "x \<le> y"
  shows "roundHalfEven x \<le> roundHalfEven y"
proof (cases "floor x = floor y")
  case True
  with assms show ?thesis by (auto simp: roundHalfEven_def Let_def)
next
  case False
  with floor_mono [OF assms] have "floor x + 1 \<le> floor y" by simp
  moreover have "roundHalfEven x \<le> floor x + 1" "floor y \<le> roundHalfEven y"
    by (simp_all add: roundHalfEven_def Let_def)
  ultimately show ?thesis by linarith
qed

lemma roundHalfEven_of_int [simp]: "roundHalfEven (of_int n) = n"
  by (simp add: roundHalfEven_def)

lemma quantum_pos: "0 < quantum x"
  by (simp add: quantum_def)

text \<open>A power of two above the quantum is a multiple of it, so rounding does not cross it.\<close>

lemma pow2_multiple:
  assumes "max (exponent x - 52) (- 1074) \<le> e"
  shows "\<exists>k. pow2 e / quantum x = of_int k"
proof -
  let ?q = "max (exponent x - 52) (- 1074)"
  from pow2_int [of "e - ?q"] assms obtain k where k: "pow2 (e - ?q) = of_int k" by auto
  have "pow2 e = pow2 (e - ?q) * quantum x" by (simp add: quantum_def flip: pow2_add)
  with k quantum_pos [of x] show ?thesis by (intro exI [of _ k]) (simp add: field_simps)
qed

lemma roundPos_upper:
  assumes "x \<le> pow2 e" and "max (exponent x - 52) (- 1074) \<le> e"
  shows "roundPos x \<le> pow2 e"
proof -
  obtain k where k: "pow2 e / quantum x = of_int k" using pow2_multiple [OF assms(2)] by blast
  have "x / quantum x \<le> of_int k" using assms(1) quantum_pos [of x] by (simp add: divide_right_mono flip: k)
  from roundHalfEven_mono [OF this] have "of_int (roundHalfEven (x / quantum x)) \<le> pow2 e / quantum x"
    by (simp add: k)
  then show ?thesis using quantum_pos [of x] by (simp add: roundPos_def le_divide_eq)
qed

lemma roundPos_lower:
  assumes "pow2 e \<le> x" and "max (exponent x - 52) (- 1074) \<le> e"
  shows "pow2 e \<le> roundPos x"
proof -
  obtain k where k: "pow2 e / quantum x = of_int k" using pow2_multiple [OF assms(2)] by blast
  have "of_int k \<le> x / quantum x" using assms(1) quantum_pos [of x] by (simp add: divide_right_mono flip: k)
  from roundHalfEven_mono [OF this] have "pow2 e / quantum x \<le> of_int (roundHalfEven (x / quantum x))"
    by (simp add: k)
  then show ?thesis using quantum_pos [of x] by (simp add: roundPos_def divide_le_eq)
qed

lemma roundPos_mono:
  assumes x: "0 < x" and xy: "x \<le> y"
  shows "roundPos x \<le> roundPos y"
proof (cases "quantum x = quantum y")
  case True
  have "x / quantum y \<le> y / quantum y" using xy quantum_pos [of y] by (simp add: divide_right_mono)
  from roundHalfEven_mono [OF this] show ?thesis
    unfolding roundPos_def True using quantum_pos [of y] by simp
next
  case False
  have y: "0 < y" using x xy by simp
  from False exponent_mono [OF x xy] have e: "exponent x < exponent y" "- 1074 < exponent y - 52"
    by (auto simp: quantum_def max_def order_le_less split: if_splits)
  have "x \<le> pow2 (exponent y)"
    using exponent_bounds(2) [OF x] pow2_mono [of "exponent x + 1" "exponent y"] e(1) by simp
  then have "roundPos x \<le> pow2 (exponent y)" by (rule roundPos_upper) (use e in simp)
  also have "\<dots> \<le> roundPos y" by (rule roundPos_lower [OF exponent_bounds(1) [OF y]]) (use e in simp)
  finally show ?thesis .
qed

lemma roundPos_nonneg: "0 < x \<Longrightarrow> 0 \<le> roundPos x"
proof -
  assume "0 < x"
  then have "(0 :: rat) \<le> x / quantum x" using quantum_pos [of x] by simp
  from roundHalfEven_mono [OF this] have "0 \<le> roundHalfEven (x / quantum x)"
    using roundHalfEven_of_int [of 0] by simp
  then show ?thesis using quantum_pos [of x] by (simp add: roundPos_def)
qed

text \<open>The order of finite and infinite values, NaN apart.\<close>

definition fmono :: "float64 \<Rightarrow> float64 \<Rightarrow> bool" where
  "fmono x y \<longleftrightarrow> x \<noteq> NaN \<and> y \<noteq> NaN \<and> fle x y"

lemma fle_fl:
  assumes "x \<le> y"
  shows "fle (fl x) (fl y)"
proof -
  consider "x = y" | "0 < x" "x \<le> y" | "x \<le> 0" "0 \<le> y" | "y < 0" "x \<le> y" using assms by linarith
  then show ?thesis
  proof cases
    case 1
    have "fl y \<noteq> NaN" by (simp add: fl_def Let_def)
    with 1 show ?thesis by (cases "fl y") (simp_all add: fle_def)
  next
    case 2
    from roundPos_mono [OF 2] 2 show ?thesis
      by (auto simp: fle_def fl_def Let_def order_le_less)
  next
    case 3
    have "0 \<le> roundPos (- x)" if "x < 0" using roundPos_nonneg [of "- x"] that by simp
    then have l: "fle (fl x) (Fin 0)"
      using 3 by (cases "x = 0") (auto simp: fle_def fl_def Let_def order_le_less)
    have "0 \<le> roundPos y" if "0 < y" using roundPos_nonneg that .
    then have u: "fle (Fin 0) (fl y)"
      using 3 by (cases "y = 0") (auto simp: fle_def fl_def Let_def order_le_less)
    from l u show ?thesis by (cases "fl x"; cases "fl y") (auto simp: fle_def)
  next
    case 4
    then have "0 < - y" "- y \<le> - x" by simp_all
    note r = roundPos_mono [OF this]
    have neg: "fl z = (if pow2 1024 \<le> roundPos (- z) then NegInf else Fin (- roundPos (- z)))" if "z < 0" for z
      using that by (simp add: fl_def Let_def)
    have fx: "fl x = (if pow2 1024 \<le> roundPos (- x) then NegInf else Fin (- roundPos (- x)))"
      and fy: "fl y = (if pow2 1024 \<le> roundPos (- y) then NegInf else Fin (- roundPos (- y)))"
      using 4 by (intro neg; simp)+
    show ?thesis
    proof (cases "pow2 1024 \<le> roundPos (- x)")
      case True
      then show ?thesis unfolding fx fy by (simp add: fle_def)
    next
      case False
      with r have "\<not> pow2 1024 \<le> roundPos (- y)" by linarith
      with False r show ?thesis unfolding fx fy fle_def by (simp add: order_le_less) linarith
    qed
  qed
qed

section \<open>Integers that fit are exact\<close>

lemma fl_of_int:
  assumes "\<bar>n\<bar> \<le> 2 ^ 53"
  shows "fl (of_int n) = Fin (of_int n)"
proof -
  have pos: "roundPos (of_int k) = of_int k \<and> of_int k < pow2 1024" if "0 < k" "k \<le> 2 ^ 53" for k
  proof -
    let ?x = "rat_of_int k"
    have x: "0 < ?x" using that by simp
    have le: "?x \<le> pow2 53"
    proof -
      have "?x \<le> of_int (2 ^ 53)" using that(2) by (simp only: of_int_le_iff)
      then show ?thesis by (simp add: pow2_def)
    qed
    have e: "exponent ?x \<le> 53"
    proof -
      have "pow2 (exponent ?x) \<le> pow2 53" using exponent_bounds(1) [OF x] le by simp
      then show ?thesis by (meson linorder_not_less pow2_less)
    qed
    have "\<exists>j. ?x / quantum ?x = of_int j"
    proof (cases "exponent ?x = 53")
      case True
      then have "?x = pow2 53" using exponent_bounds(1) [OF x] le by simp
      then show ?thesis using pow2_multiple [of ?x 53] True by simp
    next
      case False
      then have "max (exponent ?x - 52) (- 1074) \<le> 0" using e by simp
      from pow2_multiple [OF this] obtain j where "1 / quantum ?x = of_int j" by (auto simp: pow2_def)
      then have "?x / quantum ?x = of_int (k * j)" by (simp add: divide_inverse)
      then show ?thesis by blast
    qed
    then obtain j where "?x / quantum ?x = of_int j" by blast
    moreover from this have "?x = of_int j * quantum ?x" using quantum_pos [of ?x] by (simp add: field_simps)
    moreover have "?x < pow2 1024" using le pow2_less [of 53 1024] by simp
    ultimately show ?thesis by (simp add: roundPos_def)
  qed
  consider "n = 0" | "0 < n" | "n < 0" by linarith
  then show ?thesis
  proof cases
    case 2
    with pos [of n] assms show ?thesis by (simp add: fl_def Let_def)
  next
    case 3
    with pos [of "- n"] assms show ?thesis by (simp add: fl_def Let_def)
  qed (simp add: fl_def)
qed

lemma fadd_comm: "fadd x y = fadd y x"
  by (cases x; cases y) (simp_all add: add.commute)

lemma fmul_comm: "fmul x y = fmul y x"
  by (cases x; cases y) (auto simp: mult.commute signedInf_def)

end
