(* ===== verification/Timeutil.thy ===== *)
theory Timeutil
  imports Go_Time Go_Float Filter_Lexer
begin

text \<open>
  The helpers of \<^verbatim>\<open>core/pkg/util/timeutil/timeutil.go\<close>: durations as Prometheus strings and
  back, UTC offsets, the start of a week. Parsing a duration is the code lifted from Go's
  library, with its checks for overflow on 64-bit integers. A result is an error message or a
  value.
\<close>

section \<open>Integers and durations\<close>

text \<open>Go's division truncates; the remainder has the sign of the dividend.\<close>

definition tquot :: "int \<Rightarrow> int \<Rightarrow> int" where
  "tquot a b = sgn a * sgn b * (\<bar>a\<bar> div \<bar>b\<bar>)"

definition trem :: "int \<Rightarrow> int \<Rightarrow> int" where
  "trem a b = a - b * tquot a b"

lemma tquot_nonneg: "0 \<le> a \<Longrightarrow> 0 < b \<Longrightarrow> tquot a b = a div b"
  by (cases "a = 0") (simp_all add: tquot_def)

lemma trem_nonneg: "0 \<le> a \<Longrightarrow> 0 < b \<Longrightarrow> trem a b = a mod b"
  by (simp add: trem_def tquot_nonneg minus_mult_div_eq_mod)

text \<open>The methods \<^verbatim>\<open>Seconds\<close>, \<^verbatim>\<open>Minutes\<close> and \<^verbatim>\<open>Hours\<close> of a duration.\<close>

definition durIn :: "duration \<Rightarrow> duration \<Rightarrow> float64" where
  "durIn unit d = fadd (fOfInt (tquot d unit)) (fdiv (fOfInt (trem d unit)) (fOfInt unit))"

definition durSeconds :: "duration \<Rightarrow> float64" where "durSeconds = durIn Second"
definition durMinutes :: "duration \<Rightarrow> float64" where "durMinutes = durIn Minute"
definition durHours :: "duration \<Rightarrow> float64" where "durHours = durIn Hour"

text \<open>The verb \<^verbatim>\<open>%d\<close>.\<close>

definition digitChar :: "int \<Rightarrow> char" where
  "digitChar d = char_of (48 + nat d)"

function showNat :: "int \<Rightarrow> string" where
  "showNat n = (if n < 10 then [digitChar n] else showNat (n div 10) @ [digitChar (n mod 10)])"
  by pat_completeness auto
termination by (relation "measure nat") auto

declare showNat.simps [simp del]

definition showInt :: "int \<Rightarrow> string" where
  "showInt n = (if n < 0 then ''-'' @ showNat (- n) else showNat n)"

section \<open>Durations as strings\<close>

text \<open>The conversion \<^verbatim>\<open>int64(duration.Seconds())\<close> is of a value that always fits.\<close>

definition DurationString :: "duration \<Rightarrow> string" where
  "DurationString d =
     (let durSecs = intOfF (\<lambda>_. 0) (durSeconds d)
      in if durSecs > 0
         then (if durSecs mod 86400 = 0 then showInt (durSecs div 86400) @ ''d''
               else if durSecs mod 3600 = 0 then showInt (durSecs div 3600) @ ''h''
               else if durSecs mod 60 = 0 then showInt (durSecs div 60) @ ''m''
               else showInt durSecs @ ''s'')
         else [])"

definition DurationToPromOffsetString :: "duration \<Rightarrow> string" where
  "DurationToPromOffsetString d =
     (let dirStr = DurationString d in if dirStr \<noteq> [] then ''offset '' @ dirStr else dirStr)"

definition DurationOffsetStrings :: "duration \<Rightarrow> duration \<Rightarrow> string \<times> string" where
  "DurationOffsetStrings d off = (DurationString d, DurationString off)"

section \<open>Reading digits\<close>

definition isDigit :: "char \<Rightarrow> bool" where
  "isDigit c = (48 \<le> (of_char c :: nat) \<and> (of_char c :: nat) \<le> 57)"

definition digitVal :: "char \<Rightarrow> int" where
  "digitVal c = of_char c - 48"

text \<open>\<^verbatim>\<open>leadingInt\<close>; \<open>None\<close> is the overflow error.\<close>

fun leadingIntFrom :: "int \<Rightarrow> string \<Rightarrow> (int \<times> string) option" where
  "leadingIntFrom x [] = Some (x, [])"
| "leadingIntFrom x (c # s) =
     (if \<not> isDigit c then Some (x, c # s)
      else if x > maxInt64 div 10 then None
      else (let y = wrap64 (x * 10 + digitVal c) in if y < 0 then None else leadingIntFrom y s))"

definition leadingInt :: "string \<Rightarrow> (int \<times> string) option" where
  "leadingInt s = leadingIntFrom 0 s"

fun leadingFractionFrom :: "int \<Rightarrow> float64 \<Rightarrow> bool \<Rightarrow> string \<Rightarrow> int \<times> float64 \<times> string" where
  "leadingFractionFrom x scale overflow [] = (x, scale, [])"
| "leadingFractionFrom x scale overflow (c # s) =
     (if \<not> isDigit c then (x, scale, c # s)
      else if overflow then leadingFractionFrom x scale True s
      else if x > maxInt64 div 10 then leadingFractionFrom x scale True s
      else (let y = wrap64 (x * 10 + digitVal c)
            in if y < 0 then leadingFractionFrom x scale True s
               else leadingFractionFrom y (fmul scale (Fin 10)) False s))"

definition leadingFraction :: "string \<Rightarrow> int \<times> float64 \<times> string" where
  "leadingFraction s = leadingFractionFrom 0 (Fin 1) False s"

section \<open>Parsing durations\<close>

text \<open>The two encodings of the micro sign are U+00B5 and U+03BC in UTF-8.\<close>

definition unitMap :: "string \<rightharpoonup> int" where
  "unitMap =
     [''ns'' \<mapsto> 1, ''us'' \<mapsto> 1000, [CHR 0xC2, CHR 0xB5, CHR ''s''] \<mapsto> 1000,
      [CHR 0xCE, CHR 0xBC, CHR ''s''] \<mapsto> 1000, ''ms'' \<mapsto> 1000000, ''s'' \<mapsto> Second, ''m'' \<mapsto> Minute,
      ''h'' \<mapsto> Hour, ''d'' \<mapsto> Day, ''w'' \<mapsto> Week]"

definition unitChar :: "char \<Rightarrow> bool" where
  "unitChar c = (\<not> (c = CHR ''.'' \<or> isDigit c))"

datatype durationError = InvalidDuration string | MissingUnit string | UnknownUnit string string

text \<open>
  One round of the loop: a number, perhaps with a fraction, and a unit. \<open>other\<close> is what
  converting a float that does not fit into 64 bits gives.
\<close>

definition durationRound ::
  "(float64 \<Rightarrow> int) \<Rightarrow> string \<Rightarrow> int \<Rightarrow> string \<Rightarrow> durationError + int \<times> string" where
  "durationRound other orig d s =
     (if \<not> (hd s = CHR ''.'' \<or> isDigit (hd s)) then Inl (InvalidDuration orig)
      else case leadingInt s of
        None \<Rightarrow> Inl (InvalidDuration orig)
      | Some (v, s1) \<Rightarrow>
          (let pre = (length s \<noteq> length s1);
               (f, scale, s2) = (if s1 \<noteq> [] \<and> hd s1 = CHR ''.'' then leadingFraction (tl s1) else (0, Fin 1, s1));
               post = (s1 \<noteq> [] \<and> hd s1 = CHR ''.'' \<and> length (tl s1) \<noteq> length s2);
               u = takeWhile unitChar s2; s3 = dropWhile unitChar s2
           in if \<not> pre \<and> \<not> post then Inl (InvalidDuration orig)
              else if u = [] then Inl (MissingUnit orig)
              else case unitMap u of
                     None \<Rightarrow> Inl (UnknownUnit u orig)
                   | Some unit \<Rightarrow>
                       if v > maxInt64 div unit then Inl (InvalidDuration orig)
                       else (let v1 = wrap64 (v * unit);
                                 v2 = (if f > 0
                                       then wrap64 (v1 + intOfF other (fmul (fOfInt f) (fdiv (fOfInt unit) scale)))
                                       else v1)
                             in if f > 0 \<and> v2 < 0 then Inl (InvalidDuration orig)
                                else (let d1 = wrap64 (d + v2)
                                      in if d1 < 0 then Inl (InvalidDuration orig) else Inr (d1, s3)))))"

lemma leadingIntFrom_length: "leadingIntFrom x s = Some (v, s') \<Longrightarrow> length s' \<le> length s"
  by (induction x s rule: leadingIntFrom.induct) (auto simp: Let_def split: if_splits)

lemma leadingFractionFrom_length: "length (snd (snd (leadingFractionFrom x sc ov s))) \<le> length s"
  by (induction s arbitrary: x sc ov) (auto simp: Let_def intro: le_SucI)

text \<open>Every round consumes its unit, so the loop ends.\<close>

lemma durationRound_length:
  assumes "durationRound other orig d s = Inr (d', s')" and "s \<noteq> []"
  shows "length s' < length s"
proof -
  from assms(1) obtain v s1 where v: "leadingInt s = Some (v, s1)"
    by (auto simp: durationRound_def split: if_splits option.splits)
  then have l1: "length s1 \<le> length s" unfolding leadingInt_def by (rule leadingIntFrom_length)
  obtain f scale s2 where f: "(if s1 \<noteq> [] \<and> hd s1 = CHR ''.'' then leadingFraction (tl s1) else (0, Fin 1, s1)) = (f, scale, s2)"
    by (metis prod_cases3)
  then have l2: "length s2 \<le> length s1"
    using leadingFractionFrom_length [of 0 "Fin 1" False "tl s1"]
    by (auto simp: leadingFraction_def split: if_splits)
  from assms(1) v f have u: "takeWhile unitChar s2 \<noteq> []" and s': "s' = dropWhile unitChar s2"
    by (auto simp: durationRound_def Let_def split: if_splits option.splits)
  have "length s2 = length (takeWhile unitChar s2) + length s'"
    unfolding s' by (metis length_append takeWhile_dropWhile_id)
  moreover have "length (takeWhile unitChar s2) \<noteq> 0" using u by simp
  ultimately show ?thesis using l1 l2 by presburger
qed

function durationLoop :: "(float64 \<Rightarrow> int) \<Rightarrow> string \<Rightarrow> int \<Rightarrow> string \<Rightarrow> durationError + int" where
  "durationLoop other orig d s =
     (if s = [] then Inr d
      else case durationRound other orig d s of
             Inl e \<Rightarrow> Inl e
           | Inr (d', s') \<Rightarrow> durationLoop other orig d' s')"
  by pat_completeness auto
termination
  by (relation "measure (\<lambda>(_, _, _, s). length s)") (auto dest: durationRound_length)

declare durationLoop.simps [simp del]

definition goParseDuration :: "(float64 \<Rightarrow> int) \<Rightarrow> string \<Rightarrow> durationError + int" where
  "goParseDuration other orig =
     (let signed = (orig \<noteq> [] \<and> (hd orig = CHR ''-'' \<or> hd orig = CHR ''+''));
          neg = (signed \<and> hd orig = CHR ''-'');
          s = (if signed then tl orig else orig)
      in if s = ''0'' then Inr 0
         else if s = [] then Inl (InvalidDuration orig)
         else case durationLoop other orig 0 s of
                Inl e \<Rightarrow> Inl e
              | Inr d \<Rightarrow> Inr (if neg then wrap64 (- d) else d))"

text \<open>\<^verbatim>\<open>strings.TrimSpace\<close> trims the runes with Unicode's white space property.\<close>

definition isSpaceRune :: "nat \<Rightarrow> bool" where
  "isSpaceRune r \<longleftrightarrow> (0x09 \<le> r \<and> r \<le> 0x0D) \<or> r = 0x20 \<or> r = 0x85 \<or> r = 0xA0 \<or> r = 0x1680 \<or>
     (0x2000 \<le> r \<and> r \<le> 0x200A) \<or> r = 0x2028 \<or> r = 0x2029 \<or> r = 0x202F \<or> r = 0x205F \<or> r = 0x3000"

function runeChunks :: "string \<Rightarrow> (nat \<times> string) list" where
  "runeChunks [] = []"
| "runeChunks (c # s) =
     (let (r, n) = decodeRune (c # s) in (r, take n (c # s)) # runeChunks (drop n (c # s)))"
  by pat_completeness auto
termination
proof (relation "measure length", goal_cases)
  case (2 c s x y n)
  then have "snd (decodeRune (c # s)) = n" by (metis snd_conv)
  then show ?case using decodeRune_size [of "c # s"] by auto
qed simp

definition trimSpace :: "string \<Rightarrow> string" where
  "trimSpace s =
     (let space = (\<lambda>(r, _). isSpaceRune r);
          cs = dropWhile space (runeChunks s)
      in concat (map snd (rev (dropWhile space (rev cs)))))"

definition trimPrefix :: "string \<Rightarrow> string \<Rightarrow> string" where
  "trimPrefix p s = (if hasPrefix s p then drop (length p) s else s)"

definition CleanDurationString :: "string \<Rightarrow> string" where
  "CleanDurationString s = trimPrefix ''offset '' (trimSpace s)"

definition ParseDuration :: "(float64 \<Rightarrow> int) \<Rightarrow> string \<Rightarrow> durationError + int" where
  "ParseDuration other s = goParseDuration other (CleanDurationString s)"

section \<open>Offsets, ranges and weeks\<close>

text \<open>\<^verbatim>\<open>^(\+|-)(\d\d):(\d\d)$\<close>\<close>

definition matchOffset :: "string \<Rightarrow> (char \<times> string \<times> string) option" where
  "matchOffset s =
     (case s of
        [sg, h1, h2, c, m1, m2] \<Rightarrow>
          if (sg = CHR ''+'' \<or> sg = CHR ''-'') \<and> isDigit h1 \<and> isDigit h2 \<and> c = CHR '':'' \<and> isDigit m1 \<and> isDigit m2
          then Some (sg, [h1, h2], [m1, m2]) else None
      | _ \<Rightarrow> None)"

text \<open>\<^verbatim>\<open>strconv.ParseInt\<close> of digits: too large a number gives the largest one and an error.\<close>

fun digitsVal :: "int \<Rightarrow> string \<Rightarrow> int" where
  "digitsVal x [] = x"
| "digitsVal x (c # s) = digitsVal (x * 10 + digitVal c) s"

definition parseDigits :: "string \<Rightarrow> int" where
  "parseDigits s = min maxInt64 (digitsVal 0 s)"

definition ParseUTCOffset :: "string \<Rightarrow> string + duration" where
  "ParseUTCOffset s =
     (if s = [] then Inr 0
      else case matchOffset s of
             None \<Rightarrow> Inl (''Illegal UTC offset format: '' @ s)
           | Some (sg, h, m) \<Rightarrow>
               (let sig = (if sg = CHR ''-'' then -1 else 1)
                in Inr (sig * parseDigits h * Hour + sig * parseDigits m * Minute)))"

definition ParseTimeRange :: "gotime \<Rightarrow> duration \<Rightarrow> duration \<Rightarrow> gotime \<times> gotime" where
  "ParseTimeRange now d off =
     (let endTime = (if off > 0 then timeAdd now (wrap64 (- 1 * off)) else now)
      in (timeAdd endTime (wrap64 (- 1 * d)), endTime))"

definition RoundToStartOfWeek :: "gotime \<Rightarrow> gotime" where
  "RoundToStartOfWeek t =
     (let date = timeDate (timeYear t) (timeMonth t) (timeDay t) 0 0 0 0
      in timeAdd date (- 1 * timeWeekday date * Day))"

definition RoundToStartOfFollowingWeek :: "gotime \<Rightarrow> gotime" where
  "RoundToStartOfFollowingWeek t =
     (let date = timeDate (timeYear t) (timeMonth t) (timeDay t) 0 0 0 0
      in timeAdd date ((7 - timeWeekday date) * Day))"

definition EarlierOf :: "gotime \<Rightarrow> gotime \<Rightarrow> gotime" where
  "EarlierOf t u = (if timeBefore t u then t else u)"

definition LaterOf :: "gotime \<Rightarrow> gotime \<Rightarrow> gotime" where
  "LaterOf t u = (if timeAfter t u then t else u)"

section \<open>Printed durations parse back\<close>

lemma digitChar_simps:
  assumes "0 \<le> d" and "d < 10"
  shows "isDigit (digitChar d)" "digitVal (digitChar d) = d"
proof -
  have n: "(of_char (digitChar d) :: nat) = 48 + nat d" using assms by (simp add: digitChar_def)
  with assms show "isDigit (digitChar d)" by (simp add: isDigit_def)
  have "(of_char (digitChar d) :: int) = int (of_char (digitChar d))" by (simp add: of_char_def)
  with n assms show "digitVal (digitChar d) = d" by (simp add: digitVal_def)
qed

text \<open>Reading a printed number after other digits continues the number.\<close>

lemma leadingIntFrom_showNat:
  assumes "0 \<le> n" and "0 \<le> x" and "x * 10 ^ length (showNat n) + n \<le> maxInt64"
  shows "leadingIntFrom x (showNat n @ s) = leadingIntFrom (x * 10 ^ length (showNat n) + n) s"
  using assms
proof (induction n arbitrary: x s rule: showNat.induct)
  case (1 n)
  have step: "leadingIntFrom y (digitChar d # t) = leadingIntFrom (y * 10 + d) t"
    if "0 \<le> y" "0 \<le> d" "d < 10" "y * 10 + d \<le> maxInt64" for y d t
    using that digitChar_simps [of d] by (simp add: Let_def wrap64_id minInt64_def maxInt64_def)
  show ?case
  proof (cases "n < 10")
    case True
    with 1 step [of x n] show ?thesis by (simp add: showNat.simps [of n])
  next
    case False
    let ?m = "n div 10" and ?k = "length (showNat (n div 10))"
    have len: "x * 10 ^ length (showNat n) + n = (x * 10 ^ ?k + ?m) * 10 + n mod 10"
      using False by (simp add: showNat.simps [of n] algebra_simps)
    have nn: "0 \<le> x * 10 ^ ?k + ?m" using 1 by simp
    have max: "(x * 10 ^ ?k + ?m) * 10 + n mod 10 \<le> maxInt64" using 1 len by simp
    then have "x * 10 ^ ?k + ?m \<le> maxInt64" using nn pos_mod_sign [of 10 n] by simp
    then have "leadingIntFrom x (showNat ?m @ digitChar (n mod 10) # s) =
        leadingIntFrom (x * 10 ^ ?k + ?m) (digitChar (n mod 10) # s)"
      using 1 False by (intro "1.IH") auto
    also have "\<dots> = leadingIntFrom ((x * 10 ^ ?k + ?m) * 10 + n mod 10) s"
      by (rule step) (use nn max in auto)
    finally show ?thesis unfolding len using False by (simp add: showNat.simps [of n])
  qed
qed

lemma showNat_head: "0 \<le> n \<Longrightarrow> \<exists>d t. showNat n = digitChar d # t \<and> 0 \<le> d \<and> d < 10"
proof (induction n rule: showNat.induct)
  case (1 n)
  show ?case
  proof (cases "n < 10")
    case True
    with 1 show ?thesis by (auto simp: showNat.simps [of n])
  next
    case False
    moreover have "0 \<le> n div 10" using 1 by simp
    ultimately obtain d t where "showNat (n div 10) = digitChar d # t" "0 \<le> d" "d < 10" using "1.IH" by blast
    with False show ?thesis by (auto simp: showNat.simps [of n])
  qed
qed

lemma durationRound_show:
  assumes "0 < n" and "unitMap [u] = Some unit" and "0 < unit" and "n * unit \<le> maxInt64" and "unitChar u"
  shows "durationRound other orig 0 (showNat n @ [u]) = Inr (n * unit, [])"
proof -
  obtain d t where h: "showNat n = digitChar d # t" "0 \<le> d" "d < 10" using showNat_head [of n] assms(1) by auto
  have "n \<le> n * unit" using assms(1,3) by simp
  then have n: "n \<le> maxInt64" using assms(4) by linarith
  have "\<not> isDigit u" "u \<noteq> CHR ''.''" using assms(5) by (simp_all add: unitChar_def)
  then have lead: "leadingInt (showNat n @ [u]) = Some (n, [u])"
    using leadingIntFrom_showNat [of n 0 "[u]"] assms(1) n by (simp add: leadingInt_def)
  have "n \<le> maxInt64 div unit" using zdiv_mono1 [OF assms(4,3)] assms(3) by simp
  moreover have nn: "0 \<le> n * unit" using assms by simp
  moreover have "minInt64 \<le> n * unit" using nn by (simp add: minInt64_def)
  then have "wrap64 (n * unit) = n * unit" using assms(4) by (rule wrap64_id)
  moreover have "length (showNat n) \<noteq> 0" using h by simp
  moreover have "isDigit (hd (showNat n @ [u]))" using h digitChar_simps(1) by simp
  ultimately show ?thesis
    using lead \<open>u \<noteq> CHR ''.''\<close> assms(2,5) by (simp add: durationRound_def Let_def)
qed

lemma unit_chars: "unitChar (CHR ''d'')" "unitChar (CHR ''h'')" "unitChar (CHR ''m'')" "unitChar (CHR ''s'')"
  by (simp_all add: unitChar_def isDigit_def)

lemma goParseDuration_show:
  assumes "0 < n" and "unitMap [u] = Some unit" and "0 < unit" and "n * unit \<le> maxInt64" and "unitChar u"
  shows "goParseDuration other (showInt n @ [u]) = Inr (n * unit)"
proof -
  obtain d t where h: "showNat n = digitChar d # t" "0 \<le> d" "d < 10" using showNat_head [of n] assms(1) by auto
  from digitChar_simps(1) [OF h(2,3)] have "digitChar d \<noteq> CHR ''-''" "digitChar d \<noteq> CHR ''+''"
    by (auto simp: isDigit_def)
  with h assms(1) have "goParseDuration other (showInt n @ [u]) =
      (case durationLoop other (showInt n @ [u]) 0 (showInt n @ [u]) of Inl e \<Rightarrow> Inl e | Inr d \<Rightarrow> Inr d)"
    by (simp add: goParseDuration_def showInt_def Let_def split: sum.split)
  moreover have "durationLoop other orig 0 (showInt n @ [u]) = Inr (n * unit)" for orig
    using durationRound_show [OF assms, of other orig] assms(1)
    by (subst durationLoop.simps) (simp add: showInt_def durationLoop.simps)
  ultimately show ?thesis by simp
qed

text \<open>The whole seconds of a duration, when it has nothing else.\<close>

lemma durSeconds_whole:
  assumes "0 \<le> k" and "k * Second \<le> maxInt64"
  shows "intOfF other (durSeconds (k * Second)) = k"
proof -
  have S: "0 < Second" by (simp add: Second_def)
  have q: "tquot (k * Second) Second = k" "trem (k * Second) Second = 0"
    using assms(1) S by (simp_all add: tquot_nonneg trem_nonneg)
  have k: "k \<le> 2 ^ 53" using assms(2) by (simp add: Second_def maxInt64_def)
  have "fOfInt k = Fin (of_int k)" unfolding fOfInt_def by (rule fl_of_int) (use assms(1) k in simp)
  moreover have "fl (of_int k) = Fin (of_int k)" by (rule fl_of_int) (use assms(1) k in simp)
  moreover have "fOfInt 0 = Fin 0" "fOfInt Second = Fin (of_int Second)"
    unfolding fOfInt_def using fl_of_int [of 0] fl_of_int [of Second] by (simp_all add: Second_def)
  ultimately have "durSeconds (k * Second) = Fin (of_int k)"
    using S by (simp add: durSeconds_def durIn_def q fl_def)
  moreover have "\<bar>rat_of_int k\<bar> < 2 ^ 63"
  proof -
    have "k < 2 ^ 63" using k by simp
    then have "rat_of_int k < of_int (2 ^ 63)" by (simp only: of_int_less_iff)
    then show ?thesis using assms(1) by simp
  qed
  ultimately show ?thesis using assms(1) by simp
qed

lemma DurationString_shape:
  assumes "0 < k" and "k * Second \<le> maxInt64"
  obtains n u unit where "DurationString (k * Second) = showInt n @ [u]" and "0 < n"
    and "unitMap [u] = Some unit" and "0 < unit" and "n * unit = k * Second" and "unitChar u"
proof -
  have w: "intOfF (\<lambda>_. 0) (durSeconds (k * Second)) = k" using durSeconds_whole [OF _ assms(2)] assms(1) by simp
  have whole: "k = (k div p) * p" "0 < k div p" if "k mod p = 0" "0 < p" for p
    using that assms(1) by (auto simp: pos_imp_zdiv_pos_iff intro: zdvd_imp_le)
  consider "k mod 86400 = 0" | "k mod 86400 \<noteq> 0" "k mod 3600 = 0" | "k mod 86400 \<noteq> 0" "k mod 3600 \<noteq> 0" "k mod 60 = 0"
    | "k mod 86400 \<noteq> 0" "k mod 3600 \<noteq> 0" "k mod 60 \<noteq> 0" by blast
  then show thesis
  proof cases
    case 1
    show thesis
      by (rule that [of "k div 86400" "CHR ''d''" Day])
        (use 1 w assms(1) whole [of 86400] in \<open>auto simp: DurationString_def unitMap_def durations unit_chars\<close>)
  next
    case 2
    show thesis
      by (rule that [of "k div 3600" "CHR ''h''" Hour])
        (use 2 w assms(1) whole [of 3600] in \<open>auto simp: DurationString_def unitMap_def durations unit_chars\<close>)
  next
    case 3
    show thesis
      by (rule that [of "k div 60" "CHR ''m''" Minute])
        (use 3 w assms(1) whole [of 60] in \<open>auto simp: DurationString_def unitMap_def durations unit_chars\<close>)
  next
    case 4
    show thesis
      by (rule that [of k "CHR ''s''" Second])
        (use 4 w assms(1) in \<open>auto simp: DurationString_def unitMap_def durations unit_chars\<close>)
  qed
qed

lemma goParseDuration_DurationString:
  assumes "0 < k" and "k * Second \<le> maxInt64"
  shows "goParseDuration other (DurationString (k * Second)) = Inr (k * Second)"
proof -
  obtain n u unit where d: "DurationString (k * Second) = showInt n @ [u]" "0 < n" "unitMap [u] = Some unit"
    "0 < unit" "n * unit = k * Second" "unitChar u" by (rule DurationString_shape [OF assms]) (rule that)
  with goParseDuration_show [of n u unit other] assms(2) show ?thesis by simp
qed

text \<open>Trimming text of ASCII characters that neither starts nor ends with a space.\<close>

lemma runeChunks_ascii:
  "\<forall>c \<in> set s. (of_char c :: nat) < 0x80 \<Longrightarrow> runeChunks s = map (\<lambda>c. (of_char c, [c])) s"
  by (induction s) (simp_all add: decodeRune_ascii del: runeChunks.simps(2), simp add: decodeRune_ascii)

lemma concat_single: "concat (map snd (map (\<lambda>c. (f c, [c])) s)) = s"
  by (induction s) simp_all

lemma trimSpace_id:
  assumes "\<forall>c \<in> set s. (of_char c :: nat) < 0x80" and "s \<noteq> []"
    and "\<not> isSpaceRune (of_char (hd s))" and "\<not> isSpaceRune (of_char (last s))"
  shows "trimSpace s = s"
proof -
  let ?f = "\<lambda>c. (of_char c :: nat, [c])"
  have "dropWhile (\<lambda>(r, _). isSpaceRune r) (map ?f s) = map ?f s" using assms(2,3) by (cases s) auto
  moreover have "dropWhile (\<lambda>(r, _). isSpaceRune r) (rev (map ?f s)) = rev (map ?f s)"
    using assms(2,4) by (cases s rule: rev_cases) auto
  ultimately show ?thesis
    using runeChunks_ascii [OF assms(1)] concat_single [of of_char s] by (simp add: trimSpace_def Let_def)
qed

lemma showNat_digits: "0 \<le> n \<Longrightarrow> c \<in> set (showNat n) \<Longrightarrow> isDigit c"
proof (induction n rule: showNat.induct)
  case (1 n)
  then show ?case
    using digitChar_simps(1) [of n] digitChar_simps(1) [of "n mod 10"]
    by (cases "n < 10") (auto simp: showNat.simps [of n])
qed

lemma digitsVal_append: "digitsVal x (s @ t) = digitsVal (digitsVal x s) t"
  by (induction s arbitrary: x) simp_all

lemma digitsVal_showNat: "0 \<le> n \<Longrightarrow> digitsVal 0 (showNat n) = n"
proof (induction n rule: showNat.induct)
  case (1 n)
  then show ?case
    using digitChar_simps(2) [of n] digitChar_simps(2) [of "n mod 10"]
    by (cases "n < 10") (simp_all add: showNat.simps [of n] digitsVal_append)
qed

lemma digit_ascii: "isDigit c \<Longrightarrow> (of_char c :: nat) < 0x80 \<and> \<not> isSpaceRune (of_char c)"
  by (simp add: isDigit_def isSpaceRune_def)

lemma units_ascii: "unitMap [u] = Some unit \<Longrightarrow> (of_char u :: nat) < 0x80 \<and> \<not> isSpaceRune (of_char u)"
  by (auto simp: unitMap_def isSpaceRune_def split: if_splits)

lemma DurationString_clean:
  assumes "0 < k" and "k * Second \<le> maxInt64"
  shows "CleanDurationString (DurationString (k * Second)) = DurationString (k * Second)"
    and "CleanDurationString (DurationToPromOffsetString (k * Second)) = DurationString (k * Second)"
proof -
  obtain n u unit where d: "DurationString (k * Second) = showInt n @ [u]" "0 < n" "unitMap [u] = Some unit"
    by (rule DurationString_shape [OF assms])
  let ?s = "showInt n @ [u]"
  obtain c t where h: "showNat n = digitChar c # t" "0 \<le> c" "c < 10" using showNat_head [of n] d(2) by auto
  have dig: "isDigit x" if "x \<in> set (showNat n)" for x using showNat_digits [of n x] d(2) that by simp
  have ascii: "\<forall>x \<in> set ?s. (of_char x :: nat) < 0x80"
    using dig digit_ascii units_ascii [OF d(3)] d(2) by (auto simp: showInt_def)
  have "trimSpace ?s = ?s"
    by (rule trimSpace_id [OF ascii]) (use h d(2) units_ascii [OF d(3)] digit_ascii digitChar_simps(1) [OF h(2,3)] in
        \<open>simp_all add: showInt_def\<close>)
  moreover have "\<not> hasPrefix ?s ''offset ''"
    using h d(2) digitChar_simps(1) [OF h(2,3)] by (auto simp: hasPrefix_iff showInt_def isDigit_def)
  ultimately show "CleanDurationString (DurationString (k * Second)) = DurationString (k * Second)"
    by (simp add: CleanDurationString_def trimPrefix_def d(1))
  have "trimSpace (''offset '' @ ?s) = ''offset '' @ ?s"
    by (rule trimSpace_id) (use ascii units_ascii [OF d(3)] in \<open>simp_all add: isSpaceRune_def\<close>)
  then show "CleanDurationString (DurationToPromOffsetString (k * Second)) = DurationString (k * Second)"
    by (simp add: CleanDurationString_def DurationToPromOffsetString_def trimPrefix_def d(1) hasPrefix_def)
qed

end
