(* ===== verification/Go_Unicode.thy ===== *)
theory Go_Unicode
  imports Timeutil
begin

text \<open>
  Runes and their classes, as far as the sources use Go's \<^verbatim>\<open>unicode\<close>, \<^verbatim>\<open>utf8\<close> and
  \<^verbatim>\<open>strings\<close> packages: encoding, letters and numbers, lower case, and strings split at and
  joined with a separator. The tables above ASCII are arguments.
\<close>

section \<open>Runes\<close>

definition encodeRune :: "nat \<Rightarrow> string" where
  "encodeRune r =
     map char_of
       (if r < 0x80 then [r]
        else if r < 0x800 then [0xC0 + r div 64, 0x80 + r mod 64]
        else if r < 0x10000 then [0xE0 + r div 4096, 0x80 + r div 64 mod 64, 0x80 + r mod 64]
        else [0xF0 + r div 262144, 0x80 + r div 4096 mod 64, 0x80 + r div 64 mod 64, 0x80 + r mod 64])"

definition runesOf :: "string \<Rightarrow> nat list" where
  "runesOf s = map fst (runeChunks s)"

definition isLetterRune :: "(nat \<Rightarrow> bool) \<Rightarrow> nat \<Rightarrow> bool" where
  "isLetterRune letters r = (if r < 0x80 then 65 \<le> r \<and> r \<le> 90 \<or> 97 \<le> r \<and> r \<le> 122 else letters r)"

definition isDigitRune :: "(nat \<Rightarrow> bool) \<Rightarrow> nat \<Rightarrow> bool" where
  "isDigitRune digits r = (if r < 0x80 then 48 \<le> r \<and> r \<le> 57 else digits r)"

definition isUpperRune :: "(nat \<Rightarrow> bool) \<Rightarrow> nat \<Rightarrow> bool" where
  "isUpperRune uppers r = (if r < 0x80 then 65 \<le> r \<and> r \<le> 90 else uppers r)"

definition lowerRune :: "(nat \<Rightarrow> nat) \<Rightarrow> nat \<Rightarrow> nat" where
  "lowerRune lowers r = (if r < 0x80 then if 65 \<le> r \<and> r \<le> 90 then r + 32 else r else lowers r)"

text \<open>\<^verbatim>\<open>strings.ToLower\<close> maps rune by rune; an invalid byte becomes the replacement rune.\<close>

definition toLower :: "(nat \<Rightarrow> nat) \<Rightarrow> string \<Rightarrow> string" where
  "toLower lowers s = concat (map (\<lambda>r. encodeRune (lowerRune lowers r)) (runesOf s))"

section \<open>Splitting and joining\<close>

text \<open>\<^verbatim>\<open>strings.Split\<close> at a separator of one byte, and \<^verbatim>\<open>strings.Join\<close>.\<close>

fun splitByte :: "char \<Rightarrow> string \<Rightarrow> string list" where
  "splitByte c [] = [[]]"
| "splitByte c (x # xs) =
     (if x = c then [] # splitByte c xs
      else (case splitByte c xs of y # ys \<Rightarrow> (x # y) # ys | [] \<Rightarrow> [[x]]))"

fun joinStr :: "string \<Rightarrow> string list \<Rightarrow> string" where
  "joinStr sep [] = []"
| "joinStr sep [s] = s"
| "joinStr sep (s # t # ts) = s @ sep @ joinStr sep (t # ts)"

lemma splitByte_ne [simp]: "splitByte c s \<noteq> []"
  by (induction s) (auto split: list.split)

lemma splitByte_free: "c \<notin> set s \<Longrightarrow> splitByte c s = [s]"
  by (induction s) auto

lemma splitByte_append: "c \<notin> set s \<Longrightarrow> splitByte c (s @ c # t) = s # splitByte c t"
  by (induction s) auto

lemma runesOf_map:
  assumes "\<forall>c \<in> set s. (of_char c :: nat) < 0x80"
  shows "runesOf s = map of_char s"
  using runeChunks_ascii [OF assms] by (simp add: runesOf_def)

end
