(* ===== verification/Alloc_Keys.thy ===== *)
theory Alloc_Keys
  imports Alloc_Props Go_Unicode "HOL-Library.AList" "HOL-Library.Multiset"
begin

text \<open>
  Operations on the properties of an allocation: aggregation properties and their parser, copying,
  comparison, the key by which allocations are aggregated, and the intersection that a sum of two
  allocations keeps (\<^verbatim>\<open>core/pkg/opencost/allocationprops.go\<close>), with the rest of the label
  configuration (\<^verbatim>\<open>config.go\<close>). Lower case above ASCII is the argument \<open>lowers\<close>.
\<close>

section \<open>Names\<close>

definition ExternalSuffix :: string where "ExternalSuffix = ''__external__''"
definition IdleSuffix :: string where "IdleSuffix = ''__idle__''"
definition SharedSuffix :: string where "SharedSuffix = ''__shared__''"
definition UnallocatedSuffix :: string where "UnallocatedSuffix = ''__unallocated__''"
definition UnmountedSuffix :: string where "UnmountedSuffix = ''__unmounted__''"

definition AllocationClusterProp :: string where "AllocationClusterProp = ''cluster''"
definition AllocationNodeProp :: string where "AllocationNodeProp = ''node''"
definition AllocationContainerProp :: string where "AllocationContainerProp = ''container''"
definition AllocationControllerProp :: string where "AllocationControllerProp = ''controller''"
definition AllocationControllerKindProp :: string where "AllocationControllerKindProp = ''controllerKind''"
definition AllocationNamespaceProp :: string where "AllocationNamespaceProp = ''namespace''"
definition AllocationPodProp :: string where "AllocationPodProp = ''pod''"
definition AllocationProviderIDProp :: string where "AllocationProviderIDProp = ''providerID''"
definition AllocationServiceProp :: string where "AllocationServiceProp = ''service''"
definition AllocationLabelProp :: string where "AllocationLabelProp = ''label''"
definition AllocationAnnotationProp :: string where "AllocationAnnotationProp = ''annotation''"
definition AllocationNamespaceLabelProp :: string where "AllocationNamespaceLabelProp = ''namespaceLabel''"
definition AllocationDeploymentProp :: string where "AllocationDeploymentProp = ''deployment''"
definition AllocationStatefulSetProp :: string where "AllocationStatefulSetProp = ''statefulset''"
definition AllocationDaemonSetProp :: string where "AllocationDaemonSetProp = ''daemonset''"
definition AllocationJobProp :: string where "AllocationJobProp = ''job''"
definition AllocationDepartmentProp :: string where "AllocationDepartmentProp = ''department''"
definition AllocationEnvironmentProp :: string where "AllocationEnvironmentProp = ''environment''"
definition AllocationOwnerProp :: string where "AllocationOwnerProp = ''owner''"
definition AllocationProductProp :: string where "AllocationProductProp = ''product''"
definition AllocationTeamProp :: string where "AllocationTeamProp = ''team''"

lemmas allocation_props =
  AllocationClusterProp_def AllocationNodeProp_def AllocationContainerProp_def
  AllocationControllerProp_def AllocationControllerKindProp_def AllocationNamespaceProp_def
  AllocationPodProp_def AllocationProviderIDProp_def AllocationServiceProp_def
  AllocationLabelProp_def AllocationAnnotationProp_def AllocationNamespaceLabelProp_def
  AllocationDeploymentProp_def AllocationStatefulSetProp_def AllocationDaemonSetProp_def
  AllocationJobProp_def AllocationDepartmentProp_def AllocationEnvironmentProp_def
  AllocationOwnerProp_def AllocationProductProp_def AllocationTeamProp_def

section \<open>Aggregation properties\<close>

definition IsLabel :: "string \<Rightarrow> bool" where
  "IsLabel apt = hasPrefix apt ''label:''"

definition GetLabel :: "string \<Rightarrow> string" where
  "GetLabel apt = (if IsLabel apt then trimSpace (trimPrefix ''label:'' apt) else [])"

definition IsAnnotation :: "string \<Rightarrow> bool" where
  "IsAnnotation apt = hasPrefix apt ''annotation:''"

definition GetAnnotation :: "string \<Rightarrow> string" where
  "GetAnnotation apt = (if IsAnnotation apt then trimSpace (trimPrefix ''annotation:'' apt) else [])"

definition IsAliasedLabel :: "string option \<Rightarrow> bool" where
  "IsAliasedLabel apt =
     (case apt of
        None \<Rightarrow> False
      | Some a \<Rightarrow>
          a = AllocationDepartmentProp \<or> a = AllocationEnvironmentProp \<or> a = AllocationOwnerProp \<or>
          a = AllocationProductProp \<or> a = AllocationTeamProp)"

definition GetAliasedLabelDefault :: "string \<Rightarrow> string" where
  "GetAliasedLabelDefault a =
     (if a = AllocationDepartmentProp then ''department''
      else if a = AllocationEnvironmentProp then ''env''
      else if a = AllocationOwnerProp then ''owner''
      else if a = AllocationProductProp then ''app''
      else if a = AllocationTeamProp then ''team''
      else [])"

definition propertyNames :: "(string \<times> string) list" where
  "propertyNames =
     [(''cluster'', AllocationClusterProp),
      (''node'', AllocationNodeProp),
      (''container'', AllocationContainerProp),
      (''controller'', AllocationControllerProp),
      (''controllerkind'', AllocationControllerKindProp),
      (''namespace'', AllocationNamespaceProp),
      (''pod'', AllocationPodProp),
      (''providerid'', AllocationProviderIDProp),
      (''service'', AllocationServiceProp),
      (''label'', AllocationLabelProp),
      (''annotation'', AllocationAnnotationProp),
      (''deployment'', AllocationDeploymentProp),
      (''statefulset'', AllocationStatefulSetProp),
      (''daemonset'', AllocationDaemonSetProp),
      (''job'', AllocationJobProp),
      (''department'', AllocationDepartmentProp),
      (''environment'', AllocationEnvironmentProp),
      (''owner'', AllocationOwnerProp),
      (''product'', AllocationProductProp),
      (''team'', AllocationTeamProp)]"

text \<open>The constants are matched after trimming and lower-casing, the prefixes in the text as given.\<close>

definition ParseProperty :: "(nat \<Rightarrow> nat) \<Rightarrow> string \<Rightarrow> string + string" where
  "ParseProperty lowers txt' =
     (case map_of propertyNames (trimSpace (toLower lowers txt')) of
        Some p \<Rightarrow> Inr p
      | None \<Rightarrow>
          if hasPrefix txt' ''label:''
          then Inr (''label:'' @ sanitizeKey (trimSpace (trimPrefix ''label:'' txt')))
          else if hasPrefix txt' ''annotation:''
          then Inr (''annotation:'' @ sanitizeKey (trimSpace (trimPrefix ''annotation:'' txt')))
          else Inl (''invalid allocation property: '' @ txt'))"

fun parsePropertiesFrom :: "(nat \<Rightarrow> nat) \<Rightarrow> string list \<Rightarrow> string list \<Rightarrow> string + string list" where
  "parsePropertiesFrom lowers properties [] = Inr properties"
| "parsePropertiesFrom lowers properties (prop # props) =
     (case ParseProperty lowers prop of
        Inl err \<Rightarrow> Inl (''Failed to parse property: '' @ err)
      | Inr p \<Rightarrow> parsePropertiesFrom lowers (if p \<in> set properties then properties else properties @ [p]) props)"

definition ParseProperties :: "(nat \<Rightarrow> nat) \<Rightarrow> string list \<Rightarrow> string + string list" where
  "ParseProperties lowers props = parsePropertiesFrom lowers [] props"

section \<open>Copying and comparing\<close>

definition copyStringMap :: "string gomap option \<Rightarrow> string gomap option" where
  "copyStringMap original = Some (entries original)"

definition propsClone :: "allocationProperties option \<Rightarrow> allocationProperties option" where
  "propsClone p =
     map_option
       (\<lambda>p. p\<lparr>pr_Labels := copyStringMap (pr_Labels p),
             pr_Annotations := copyStringMap (pr_Annotations p),
             pr_NamespaceLabels := copyStringMap (pr_NamespaceLabels p),
             pr_NamespaceAnnotations := copyStringMap (pr_NamespaceAnnotations p)\<rparr>) p"

definition sameMap :: "string gomap \<Rightarrow> string gomap \<Rightarrow> bool" where
  "sameMap m m' = (length m = length m' \<and> list_all (\<lambda>(k, v). map_of m' k = Some v) m)"

fun insertStr :: "string \<Rightarrow> string list \<Rightarrow> string list" where
  "insertStr s [] = [s]"
| "insertStr s (t # ts) = (if strLess t s then t # insertStr s ts else s # t # ts)"

definition sortStrings :: "string list \<Rightarrow> string list" where
  "sortStrings ss = foldr insertStr ss []"

text \<open>
  The comparison sorts the services of both operands in place once everything before them is
  equal, so it returns the two operands with its result.
\<close>

definition propsEqual ::
  "allocationProperties \<Rightarrow> allocationProperties \<Rightarrow> bool \<times> allocationProperties \<times> allocationProperties" where
  "propsEqual p that' =
     (if pr_Cluster p = pr_Cluster that' \<and> pr_Node p = pr_Node that' \<and> pr_Container p = pr_Container that' \<and>
         pr_Controller p = pr_Controller that' \<and> pr_ControllerKind p = pr_ControllerKind that' \<and>
         pr_Namespace p = pr_Namespace that' \<and> pr_Pod p = pr_Pod that' \<and> pr_ProviderID p = pr_ProviderID that' \<and>
         sameMap (entries (pr_Labels p)) (entries (pr_Labels that')) \<and>
         sameMap (entries (pr_NamespaceLabels p)) (entries (pr_NamespaceLabels that')) \<and>
         sameMap (entries (pr_Annotations p)) (entries (pr_Annotations that')) \<and>
         sameMap (entries (pr_NamespaceAnnotations p)) (entries (pr_NamespaceAnnotations that')) \<and>
         length (pr_Services p) = length (pr_Services that')
      then (let ss = sortStrings (pr_Services p); ts = sortStrings (pr_Services that')
            in (ss = ts, p\<lparr>pr_Services := ss\<rparr>, that'\<lparr>pr_Services := ts\<rparr>))
      else (False, p, that'))"

definition propsEqualPtr :: "allocationProperties option \<Rightarrow> allocationProperties option \<Rightarrow>
    bool \<times> allocationProperties option \<times> allocationProperties option" where
  "propsEqualPtr p that' =
     (case (p, that') of
        (Some a, Some b) \<Rightarrow> (let (eq, a', b') = propsEqual a b in (eq, Some a', Some b'))
      | _ \<Rightarrow> (False, p, that'))"

section \<open>The label configuration\<close>

definition Sanitize :: "string \<Rightarrow> string" where
  "Sanitize label = sanitizeKey (trimSpace label)"

definition setFrom :: "string \<Rightarrow> string \<Rightarrow> string gomap \<Rightarrow> string gomap" where
  "setFrom key v m = (if v \<noteq> [] then AList.update key v m else m)"

definition setFromExternal :: "string \<Rightarrow> string \<Rightarrow> string \<Rightarrow> string gomap \<Rightarrow> string gomap" where
  "setFromExternal key ext label m =
     (if ext \<noteq> [] then AList.update key ext m
      else if label \<noteq> [] then AList.update key (''kubernetes_label_'' @ label) m
      else m)"

definition defaultLabelMap :: "string gomap" where
  "defaultLabelMap =
     [(''department_label'', ''department''),
      (''environment_label'', ''env''),
      (''owner_label'', ''owner''),
      (''product_label'', ''app''),
      (''team_label'', ''team''),
      (''cluster_external_label'', ''kubernetes_cluster''),
      (''namespace_external_label'', ''kubernetes_namespace''),
      (''controller_external_label'', ''kubernetes_controller''),
      (''daemonset_external_label'', ''kubernetes_daemonset''),
      (''deployment_external_label'', ''kubernetes_deployment''),
      (''statefulset_external_label'', ''kubernetes_statefulset''),
      (''service_external_label'', ''kubernetes_service''),
      (''pod_external_label'', ''kubernetes_pod''),
      (''department_external_label'', ''kubernetes_label_department''),
      (''environment_external_label'', ''kubernetes_label_env''),
      (''owner_external_label'', ''kubernetes_label_owner''),
      (''product_external_label'', ''kubernetes_label_app''),
      (''team_external_label'', ''kubernetes_label_team'')]"

definition labelConfigMap :: "labelConfig option \<Rightarrow> string gomap" where
  "labelConfigMap lc =
     (case lc of
        None \<Rightarrow> defaultLabelMap
      | Some c \<Rightarrow>
          (setFromExternal ''team_external_label'' (lc_TeamExternalLabel c) (lc_TeamLabel c) \<circ>
           setFromExternal ''product_external_label'' (lc_ProductExternalLabel c) (lc_ProductLabel c) \<circ>
           setFromExternal ''owner_external_label'' (lc_OwnerExternalLabel c) (lc_OwnerLabel c) \<circ>
           setFromExternal ''environment_external_label'' (lc_EnvironmentExternalLabel c) (lc_EnvironmentLabel c) \<circ>
           setFromExternal ''department_external_label'' (lc_DepartmentExternalLabel c) (lc_DepartmentLabel c) \<circ>
           setFrom ''pod_external_label'' (lc_PodExternalLabel c) \<circ>
           setFrom ''service_external_label'' (lc_ServiceExternalLabel c) \<circ>
           setFrom ''statefulset_external_label'' (lc_StatefulsetExternalLabel c) \<circ>
           setFrom ''deployment_external_label'' (lc_DeploymentExternalLabel c) \<circ>
           setFrom ''daemonset_external_label'' (lc_DaemonsetExternalLabel c) \<circ>
           setFrom ''controller_external_label'' (lc_ControllerExternalLabel c) \<circ>
           setFrom ''namespace_external_label'' (lc_NamespaceExternalLabel c) \<circ>
           setFrom ''cluster_external_label'' (lc_ClusterExternalLabel c) \<circ>
           setFrom ''team_label'' (lc_TeamLabel c) \<circ>
           setFrom ''product_label'' (lc_ProductLabel c) \<circ>
           setFrom ''owner_label'' (lc_OwnerLabel c) \<circ>
           setFrom ''environment_label'' (lc_EnvironmentLabel c) \<circ>
           setFrom ''department_label'' (lc_DepartmentLabel c)) defaultLabelMap)"

section \<open>Keys\<close>

text \<open>The values of the labels configured for a concept, the annotation where there is no label.\<close>

definition aliasNames :: "allocationProperties \<Rightarrow> string \<Rightarrow> string list" where
  "aliasNames p configured =
     (if pr_Labels p = None \<and> pr_Annotations p = None then [UnallocatedSuffix]
      else map (\<lambda>labelName.
             (let n = Sanitize labelName
              in case map_of (entries (pr_Labels p)) n of
                   Some v \<Rightarrow> v
                 | None \<Rightarrow> (case map_of (entries (pr_Annotations p)) n of Some v \<Rightarrow> v | None \<Rightarrow> UnallocatedSuffix)))
           (splitByte (CHR '','') configured))"

definition metadataName :: "string gomap option \<Rightarrow> string \<Rightarrow> string" where
  "metadataName m name =
     (case m of
        None \<Rightarrow> UnallocatedSuffix
      | Some es \<Rightarrow> (case map_of es (Sanitize name) of Some v \<Rightarrow> v | None \<Rightarrow> UnallocatedSuffix))"

definition keyNames :: "labelConfig \<Rightarrow> allocationProperties \<Rightarrow> string \<Rightarrow> string list" where
  "keyNames lc p agg =
     (if agg = AllocationClusterProp then [pr_Cluster p]
      else if agg = AllocationNodeProp then [pr_Node p]
      else if agg = AllocationNamespaceProp then [pr_Namespace p]
      else if agg = AllocationControllerKindProp
      then [if pr_ControllerKind p = [] then UnallocatedSuffix else pr_ControllerKind p]
      else if agg = AllocationDaemonSetProp \<or> agg = AllocationStatefulSetProp \<or>
              agg = AllocationDeploymentProp \<or> agg = AllocationJobProp
      then [if agg \<noteq> pr_ControllerKind p \<or> pr_Controller p = [] then UnallocatedSuffix else pr_Controller p]
      else if agg = AllocationControllerProp
      then [if pr_Controller p = [] then UnallocatedSuffix
            else if pr_ControllerKind p \<noteq> [] then pr_ControllerKind p @ '':'' @ pr_Controller p
            else pr_Controller p]
      else if agg = AllocationPodProp then [pr_Pod p]
      else if agg = AllocationContainerProp then [pr_Container p]
      else if agg = AllocationServiceProp
      then (case pr_Services p of
              [] \<Rightarrow> [UnallocatedSuffix]
            | service # _ \<Rightarrow>
                [if pr_Pod p = UnmountedSuffix \<or> pr_Namespace p = UnmountedSuffix \<or>
                    pr_Container p = UnmountedSuffix
                 then UnmountedSuffix else service])
      else if hasPrefix agg ''label:'' then [metadataName (pr_Labels p) (trimPrefix ''label:'' agg)]
      else if hasPrefix agg ''annotation:'' then [metadataName (pr_Annotations p) (trimPrefix ''annotation:'' agg)]
      else if agg = AllocationDepartmentProp then aliasNames p (lc_DepartmentLabel lc)
      else if agg = AllocationEnvironmentProp then aliasNames p (lc_EnvironmentLabel lc)
      else if agg = AllocationOwnerProp then aliasNames p (lc_OwnerLabel lc)
      else if agg = AllocationProductProp then aliasNames p (lc_ProductLabel lc)
      else if agg = AllocationTeamProp then aliasNames p (lc_TeamLabel lc)
      else [])"

definition GenerateKey :: "allocationProperties option \<Rightarrow> string list \<Rightarrow> labelConfig option \<Rightarrow> string" where
  "GenerateKey props aggregateBy labelConfig =
     (case props of
        None \<Rightarrow> []
      | Some p \<Rightarrow>
          (let lc = (case labelConfig of None \<Rightarrow> NewLabelConfig | Some c \<Rightarrow> c)
           in joinStr ''/'' (concat (map (keyNames lc p) aggregateBy))))"

section \<open>Intersection\<close>

definition mapIntersection :: "string gomap option \<Rightarrow> string gomap option \<Rightarrow> string gomap option" where
  "mapIntersection m1 m2 =
     Some (filter (\<lambda>(k, v). map_of (entries m2) k = Some v) (entries m1))"

definition emptyProps :: allocationProperties where
  "emptyProps =
     \<lparr>pr_Cluster = [], pr_Node = [], pr_Container = [], pr_Controller = [], pr_ControllerKind = [],
      pr_Namespace = [], pr_Pod = [], pr_Services = [], pr_ProviderID = [], pr_Labels = None,
      pr_Annotations = None, pr_NamespaceLabels = None, pr_NamespaceAnnotations = None,
      pr_AggregatedMetadata = False\<rparr>"

definition common :: "string \<Rightarrow> string \<Rightarrow> string" where
  "common s t = (if s = t then s else [])"

text \<open>With equal namespaces: the namespace and the metadata that is kept with it.\<close>

definition intersectNamespace ::
  "allocationProperties \<Rightarrow> allocationProperties \<Rightarrow> allocationProperties \<Rightarrow> allocationProperties" where
  "intersectNamespace p that' ip =
     (let ns = (if pr_Container p = UnmountedSuffix then that' else p);
          ip1 = ip\<lparr>pr_Namespace := pr_Namespace p,
                   pr_NamespaceLabels := copyStringMap (pr_NamespaceLabels ns),
                   pr_NamespaceAnnotations := copyStringMap (pr_NamespaceAnnotations ns)\<rparr>
      in if pr_AggregatedMetadata p \<or> pr_AggregatedMetadata that'
         then (let ip2 = ip1\<lparr>pr_AggregatedMetadata := True\<rparr>
               in if pr_Container p = UnmountedSuffix
                  then ip2\<lparr>pr_Annotations := pr_Annotations that', pr_Labels := pr_Labels that'\<rparr>
                  else if pr_Container that' = UnmountedSuffix
                  then ip2\<lparr>pr_Annotations := pr_Annotations p, pr_Labels := pr_Labels p\<rparr>
                  else ip2\<lparr>pr_Annotations := mapIntersection (pr_Annotations p) (pr_Annotations that'),
                           pr_Labels := mapIntersection (pr_Labels p) (pr_Labels that')\<rparr>)
         else ip1)"

definition Intersection ::
  "allocationProperties option \<Rightarrow> allocationProperties option \<Rightarrow> allocationProperties option" where
  "Intersection p that' =
     (case (p, that') of
        (Some a, Some b) \<Rightarrow>
          (let ip = emptyProps\<lparr>pr_Cluster := common (pr_Cluster a) (pr_Cluster b),
                               pr_Node := common (pr_Node a) (pr_Node b),
                               pr_Container := common (pr_Container a) (pr_Container b),
                               pr_Controller := common (pr_Controller a) (pr_Controller b),
                               pr_ControllerKind := common (pr_ControllerKind a) (pr_ControllerKind b)\<rparr>;
               ip' = (if pr_Namespace a = pr_Namespace b then intersectNamespace a b ip else ip)
           in Some (ip'\<lparr>pr_Pod := common (pr_Pod a) (pr_Pod b),
                        pr_ProviderID := common (pr_ProviderID a) (pr_ProviderID b)\<rparr>))
      | _ \<Rightarrow> None)"

section \<open>Printing\<close>

definition namedString :: "string \<Rightarrow> string \<Rightarrow> string list" where
  "namedString name v = (if v \<noteq> [] then [name @ '':'' @ v] else [])"

definition mapString :: "string \<Rightarrow> string gomap option \<Rightarrow> string" where
  "mapString name m =
     name @ '':{'' @ joinStr '','' (map (\<lambda>(k, v). k @ '':'' @ v) (entries m)) @ ''}''"

definition propsString :: "allocationProperties option \<Rightarrow> string" where
  "propsString props =
     (case props of
        None \<Rightarrow> ''<nil>''
      | Some p \<Rightarrow>
          ''{'' @ joinStr ''; ''
            (namedString ''Cluster'' (pr_Cluster p) @ namedString ''Node'' (pr_Node p) @
             namedString ''Container'' (pr_Container p) @ namedString ''Controller'' (pr_Controller p) @
             namedString ''ControllerKind'' (pr_ControllerKind p) @ namedString ''Namespace'' (pr_Namespace p) @
             namedString ''Pod'' (pr_Pod p) @ namedString ''ProviderID'' (pr_ProviderID p) @
             (if pr_Services p \<noteq> [] then [''Services:'' @ joinStr '';'' (pr_Services p)] else []) @
             [mapString ''Labels'' (pr_Labels p), mapString ''NamespaceLabels'' (pr_NamespaceLabels p),
              mapString ''Annotations'' (pr_Annotations p),
              mapString ''NamespaceAnnotations'' (pr_NamespaceAnnotations p)]) @ ''}'')"

section \<open>External allocations\<close>

text \<open>
  The form of AWS Glue column names (\<^verbatim>\<open>core/pkg/util/cloudutil/aws.go\<close>). The tables of
  \<^verbatim>\<open>unicode\<close> above ASCII are the argument \<open>ut\<close>; \<open>None\<close> is the panic of the slice that
  cuts the last byte of an empty string.
\<close>

record unicodeTables =
  ut_upper :: "nat \<Rightarrow> bool"
  ut_letter :: "nat \<Rightarrow> bool"
  ut_number :: "nat \<Rightarrow> bool"
  ut_lower :: "nat \<Rightarrow> nat"

definition glueStep :: "unicodeTables \<Rightarrow> nat \<Rightarrow> nat \<Rightarrow> nat \<Rightarrow> nat \<Rightarrow> string \<times> nat" where
  "glueStep ut len i prev r =
     (let w = (if isUpperRune (ut_upper ut) r \<and> prev \<noteq> 0x5F \<and> i \<noteq> 0 then ''_'' else [])
      in if \<not> isLetterRune (ut_letter ut) r \<and> \<not> isDigitRune (ut_number ut) r
         then (w @ (if prev \<noteq> 0x5F \<and> i \<noteq> 0 \<and> i \<noteq> len - 1 then ''_'' else []), 0x5F)
         else if r = 0x5F \<and> (prev = 0x5F \<or> i = 0 \<or> i = len - 1) then (w, 0x5F)
         else (w @ encodeRune (lowerRune (ut_lower ut) r), r))"

fun glueRunes :: "unicodeTables \<Rightarrow> nat \<Rightarrow> nat \<Rightarrow> nat \<Rightarrow> (nat \<times> string) list \<Rightarrow> string \<times> nat" where
  "glueRunes ut len i prev [] = ([], prev)"
| "glueRunes ut len i prev ((r, bytes) # rs) =
     (let (w, prev1) = glueStep ut len i prev r;
          (rest, prev2) = glueRunes ut len (i + length bytes) prev1 rs
      in (w @ rest, prev2))"

fun removeFirst :: "char \<Rightarrow> nat \<Rightarrow> string \<Rightarrow> string" where
  "removeFirst c n [] = []"
| "removeFirst c n (x # xs) =
     (if n = 0 then x # xs else if x = c then removeFirst c (n - 1) xs else x # removeFirst c n xs)"

definition ConvertToGlueColumnFormat :: "unicodeTables \<Rightarrow> string \<Rightarrow> string option" where
  "ConvertToGlueColumnFormat ut columnName =
     (let (sb, prev) = glueRunes ut (length columnName) 0 0 (runeChunks columnName)
      in if prev = 0x5F \<and> sb = [] then None
         else (let final = (if prev = 0x5F then butlast sb else sb);
                   final' = removeFirst (CHR ''_'') (length final - 128) final
               in Some (take 128 final')))"

text \<open>The first label that is present, as configured or in Glue's form.\<close>

fun findLabel :: "unicodeTables \<Rightarrow> string gomap \<Rightarrow> string list \<Rightarrow> (string \<times> string) option" where
  "findLabel ut labels [] = Some ([], [])"
| "findLabel ut labels (name # names) =
     (case map_of labels name of
        Some lv \<Rightarrow> Some (name, lv)
      | None \<Rightarrow>
          (case ConvertToGlueColumnFormat ut name of
             None \<Rightarrow> None
           | Some gn \<Rightarrow> (case map_of labels gn of Some lv \<Rightarrow> Some (gn, lv) | None \<Rightarrow> findLabel ut labels names)))"

definition externalLabelNames :: "labelConfig \<Rightarrow> string \<Rightarrow> string list" where
  "externalLabelNames c agg =
     (if agg = AllocationClusterProp then splitByte (CHR '','') (lc_ClusterExternalLabel c)
      else if agg = AllocationControllerProp then splitByte (CHR '','') (lc_ControllerExternalLabel c)
      else if agg = AllocationNamespaceProp then splitByte (CHR '','') (lc_NamespaceExternalLabel c)
      else if agg = AllocationPodProp then splitByte (CHR '','') (lc_PodExternalLabel c)
      else if agg = AllocationServiceProp then splitByte (CHR '','') (lc_ServiceExternalLabel c)
      else if agg = AllocationDeploymentProp then splitByte (CHR '','') (lc_DeploymentExternalLabel c)
      else if agg = AllocationStatefulSetProp then splitByte (CHR '','') (lc_StatefulsetExternalLabel c)
      else if agg = AllocationDaemonSetProp then splitByte (CHR '','') (lc_DaemonsetExternalLabel c)
      else if agg = AllocationDepartmentProp then splitByte (CHR '','') (lc_DepartmentExternalLabel c)
      else if agg = AllocationEnvironmentProp then splitByte (CHR '','') (lc_EnvironmentExternalLabel c)
      else if agg = AllocationOwnerProp then splitByte (CHR '','') (lc_OwnerExternalLabel c)
      else if agg = AllocationProductProp then splitByte (CHR '','') (lc_ProductExternalLabel c)
      else if agg = AllocationTeamProp then splitByte (CHR '','') (lc_TeamExternalLabel c)
      else [])"

definition GetExternalAllocationName ::
  "unicodeTables \<Rightarrow> labelConfig option \<Rightarrow> string gomap \<Rightarrow> string \<Rightarrow> string option" where
  "GetExternalAllocationName ut lc labels aggregateBy =
     (let aggByLabel = hasPrefix aggregateBy ''label:'';
          labelNames =
            (if aggByLabel then [sanitizeKey (trimPrefix ''label:'' aggregateBy)]
             else map Sanitize
                    (externalLabelNames (case lc of None \<Rightarrow> NewLabelConfig | Some c \<Rightarrow> c)
                      (toLower (ut_lower ut) aggregateBy)))
      in if labelNames = [] then Some []
         else (case findLabel ut labels labelNames of
                 None \<Rightarrow> None
               | Some (labelName, labelValue) \<Rightarrow>
                   Some (if labelName = [] then []
                         else if aggByLabel then labelName @ ''='' @ labelValue
                         else labelValue)))"


section \<open>Intersections keep the keys of what agrees\<close>

text \<open>Two properties agree on what the key of an aggregation property is made of.\<close>

definition agreesOn :: "allocationProperties \<Rightarrow> allocationProperties \<Rightarrow> string \<Rightarrow> bool" where
  "agreesOn p q agg =
     ((agg = AllocationClusterProp \<and> pr_Cluster p = pr_Cluster q) \<or>
      (agg = AllocationNodeProp \<and> pr_Node p = pr_Node q) \<or>
      (agg = AllocationNamespaceProp \<and> pr_Namespace p = pr_Namespace q) \<or>
      (agg = AllocationPodProp \<and> pr_Pod p = pr_Pod q) \<or>
      (agg = AllocationContainerProp \<and> pr_Container p = pr_Container q) \<or>
      (agg = AllocationControllerKindProp \<and> pr_ControllerKind p = pr_ControllerKind q) \<or>
      (agg \<in> {AllocationControllerProp, AllocationDeploymentProp, AllocationStatefulSetProp,
              AllocationDaemonSetProp, AllocationJobProp} \<and>
       pr_ControllerKind p = pr_ControllerKind q \<and> pr_Controller p = pr_Controller q))"

lemma Intersection_Some: "Intersection (Some p) (Some q) = Some (the (Intersection (Some p) (Some q)))"
  by (simp add: Intersection_def Let_def)

lemma Intersection_scalars:
  assumes "i = the (Intersection (Some p) (Some q))"
  shows "pr_Cluster i = common (pr_Cluster p) (pr_Cluster q)" "pr_Node i = common (pr_Node p) (pr_Node q)"
    "pr_Container i = common (pr_Container p) (pr_Container q)" "pr_Pod i = common (pr_Pod p) (pr_Pod q)"
    "pr_Controller i = common (pr_Controller p) (pr_Controller q)"
    "pr_ControllerKind i = common (pr_ControllerKind p) (pr_ControllerKind q)"
    "pr_Namespace i = common (pr_Namespace p) (pr_Namespace q)"
    "pr_ProviderID i = common (pr_ProviderID p) (pr_ProviderID q)"
  unfolding assms
  by (simp_all add: Intersection_def intersectNamespace_def emptyProps_def Let_def split: if_split)
    (simp add: common_def)

lemma keyNames_Intersection:
  assumes "agreesOn p q agg"
  shows "keyNames lc (the (Intersection (Some p) (Some q))) agg = keyNames lc p agg"
proof -
  note i = Intersection_scalars [OF refl, of p q]
  from assms show ?thesis
    unfolding agreesOn_def insert_iff empty_iff
    by (elim disjE conjE) (simp_all add: keyNames_def i common_def allocation_props)
qed

lemma keyNames_agree: "agreesOn p q agg \<Longrightarrow> keyNames lc p agg = keyNames lc q agg"
  unfolding agreesOn_def insert_iff empty_iff
  by (elim disjE conjE) (simp_all add: keyNames_def allocation_props)

lemma GenerateKey_Intersection:
  assumes "\<forall>agg \<in> set aggregateBy. agreesOn p q agg"
  shows "GenerateKey (Intersection (Some p) (Some q)) aggregateBy lc = GenerateKey (Some p) aggregateBy lc"
proof -
  have "map (keyNames c (the (Intersection (Some p) (Some q)))) aggregateBy = map (keyNames c p) aggregateBy" for c
    using keyNames_Intersection assms by simp
  then show ?thesis by (subst Intersection_Some) (simp add: GenerateKey_def del: map_eq_conv)
qed

section \<open>Comparison\<close>

lemma sameMap_iff:
  assumes "distinct (map fst m)" and "distinct (map fst m')"
  shows "sameMap m m' \<longleftrightarrow> map_of m = map_of m'"
proof
  assume s: "sameMap m m'"
  then have in': "map_of m' k = Some v" if "(k, v) \<in> set m" for k v
    using that by (auto simp: sameMap_def list_all_iff)
  then have le: "map_of m \<subseteq>\<^sub>m map_of m'"
    unfolding map_le_def by (metis domD map_of_SomeD)
  then have "fst ` set m \<subseteq> fst ` set m'"
    by (metis dom_map_of_conv_image_fst map_le_implies_dom_le)
  moreover have "card (fst ` set m) = card (fst ` set m')"
    using s assms distinct_card [of "map fst m"] distinct_card [of "map fst m'"] by (simp add: sameMap_def)
  ultimately have "fst ` set m = fst ` set m'" by (simp add: card_subset_eq)
  then have "dom (map_of m) = dom (map_of m')" by (simp add: dom_map_of_conv_image_fst)
  with le show "map_of m = map_of m'" by (metis map_le_antisym map_le_def)
next
  assume e: "map_of m = map_of m'"
  then have "fst ` set m = fst ` set m'" by (metis dom_map_of_conv_image_fst)
  then have "length m = length m'" using assms by (metis distinct_card length_map list.set_map)
  moreover have "map_of m' k = Some v" if "(k, v) \<in> set m" for k v
    using that e assms(1) by (metis map_of_is_SomeI)
  ultimately show "sameMap m m'" by (auto simp: sameMap_def list_all_iff)
qed

lemma strLess_linear: "\<not> strLess s t \<Longrightarrow> s = t \<or> strLess t s"
  by (induction s t rule: strLess.induct) auto

lemma strLess_irrefl: "\<not> strLess s s"
  by (induction s) auto

lemma strLess_trans: "strLess s t \<Longrightarrow> strLess t u \<Longrightarrow> strLess s u"
proof (induction s t arbitrary: u rule: strLess.induct)
  case (4 a as b bs)
  then show ?case by (cases u) auto
qed (auto elim: strLess.elims)

lemma insertStr_swap: "insertStr s (insertStr t us) = insertStr t (insertStr s us)"
proof (induction us)
  case Nil
  then show ?case using strLess_linear strLess_trans strLess_irrefl by (simp, metis)
next
  case (Cons u us)
  then show ?case
    using strLess_linear [of s t] strLess_linear [of u s] strLess_linear [of u t]
      strLess_trans [of s t] strLess_trans [of t s] strLess_trans [of u] strLess_irrefl
    by (simp, metis)
qed

lemma mset_insertStr [simp]: "mset (insertStr s ts) = add_mset s (mset ts)"
  by (induction ts) auto

lemma mset_sortStrings: "mset (sortStrings ss) = mset ss"
  by (induction ss) (simp_all add: sortStrings_def)

lemma sortStrings_mset: "sortStrings ss = sortStrings ts \<longleftrightarrow> mset ss = mset ts"
proof
  assume "mset ss = mset ts"
  then have "fold insertStr (rev ss) = fold insertStr (rev ts)"
    by (intro fold_multiset_equiv) (auto simp: fun_eq_iff insertStr_swap)
  then show "sortStrings ss = sortStrings ts" by (simp add: sortStrings_def foldr_conv_fold)
qed (metis mset_sortStrings)

text \<open>The comparison on properties whose maps have each key once.\<close>

definition propsOk :: "allocationProperties \<Rightarrow> bool" where
  "propsOk p = list_all (\<lambda>m. distinct (map fst (entries m)))
     [pr_Labels p, pr_NamespaceLabels p, pr_Annotations p, pr_NamespaceAnnotations p]"

lemma propsEqual_iff:
  assumes "propsOk p" and "propsOk q"
  shows "fst (propsEqual p q) \<longleftrightarrow>
    (pr_Cluster p = pr_Cluster q \<and> pr_Node p = pr_Node q \<and> pr_Container p = pr_Container q \<and>
     pr_Controller p = pr_Controller q \<and> pr_ControllerKind p = pr_ControllerKind q \<and>
     pr_Namespace p = pr_Namespace q \<and> pr_Pod p = pr_Pod q \<and> pr_ProviderID p = pr_ProviderID q \<and>
     map_of (entries (pr_Labels p)) = map_of (entries (pr_Labels q)) \<and>
     map_of (entries (pr_NamespaceLabels p)) = map_of (entries (pr_NamespaceLabels q)) \<and>
     map_of (entries (pr_Annotations p)) = map_of (entries (pr_Annotations q)) \<and>
     map_of (entries (pr_NamespaceAnnotations p)) = map_of (entries (pr_NamespaceAnnotations q)) \<and>
     mset (pr_Services p) = mset (pr_Services q))"
proof -
  have "length (pr_Services p) = length (pr_Services q)" if "mset (pr_Services p) = mset (pr_Services q)"
    using mset_eq_length [OF that] .
  with assms show ?thesis by (auto simp: propsEqual_def propsOk_def Let_def sameMap_iff sortStrings_mset)
qed

section \<open>Parsed properties\<close>

lemma lowerRune_less: "r < 0x80 \<Longrightarrow> lowerRune lowers r < 0x80"
  by (simp add: lowerRune_def)

lemma encodeRune_small: "r < 0x80 \<Longrightarrow> encodeRune r = [char_of r]"
  by (simp add: encodeRune_def)

lemma toLower_ascii:
  assumes "\<forall>c \<in> set s. (of_char c :: nat) < 0x80"
  shows "toLower lowers s = map (\<lambda>c. char_of (lowerRune lowers (of_char c) :: nat)) s"
proof -
  have "concat (map (\<lambda>r. encodeRune (lowerRune lowers r)) (map of_char s)) =
    map (\<lambda>c. char_of (lowerRune lowers (of_char c) :: nat)) s"
    using assms by (induction s) (simp_all add: encodeRune_small lowerRune_less)
  then show ?thesis by (simp add: toLower_def runesOf_map [OF assms])
qed

lemma toLower_ascii_id:
  assumes "\<forall>c \<in> set s. (of_char c :: nat) < 0x80"
  shows "toLower lowers s = toLower (\<lambda>r. r) s"
  unfolding toLower_ascii [OF assms] using assms by (simp add: lowerRune_def)

lemma trimSpace_free:
  assumes "\<forall>c \<in> set s. (of_char c :: nat) < 0x80 \<and> \<not> isSpaceRune (of_char c)"
  shows "trimSpace s = s"
proof (cases "s = []")
  case True
  then show ?thesis by (simp add: trimSpace_def)
next
  case False
  then have "hd s \<in> set s" "last s \<in> set s" by simp_all
  with False assms show ?thesis by (intro trimSpace_id) auto
qed

definition lowered :: "string \<Rightarrow> string" where
  "lowered s = map (\<lambda>c. char_of (lowerRune (\<lambda>r. r) (of_char c) :: nat)) s"

lemma toLower_lowered: "\<forall>c \<in> set s. (of_char c :: nat) < 0x80 \<Longrightarrow> toLower lowers s = lowered s"
  using toLower_ascii [of s lowers] by (simp add: lowered_def lowerRune_def)

lemma lowered_free:
  assumes "\<forall>c \<in> set s. (of_char c :: nat) < 0x80 \<and> \<not> isSpaceRune (of_char c)"
  shows "trimSpace (lowered s) = lowered s"
proof (rule trimSpace_free)
  have "(of_char (char_of (lowerRune (\<lambda>r. r) (of_char c) :: nat) :: char) :: nat) < 0x80 \<and>
    \<not> isSpaceRune (of_char (char_of (lowerRune (\<lambda>r. r) (of_char c) :: nat) :: char))" if "c \<in> set s" for c
    using assms that by (auto simp: lowerRune_def isSpaceRune_def)
  then show "\<forall>c \<in> set (lowered s). (of_char c :: nat) < 0x80 \<and> \<not> isSpaceRune (of_char c)"
    by (simp add: lowered_def)
qed

lemma lowered_simps:
  "lowered [] = []"
  "lowered (c # s) =
     (if 65 \<le> (of_char c :: nat) \<and> (of_char c :: nat) \<le> 90 then char_of (of_char c + 32 :: nat) else c) # lowered s"
  by (simp_all add: lowered_def lowerRune_def)

lemma lower_chars:
  "char_of (100 :: nat) = CHR ''d''" "char_of (105 :: nat) = CHR ''i''" "char_of (107 :: nat) = CHR ''k''"
  by code_simp+

lemma propertyNames_lowered: "list_all (\<lambda>(n, p). lowered p = n) propertyNames"
  by (simp add: propertyNames_def allocation_props lowered_simps lower_chars)

lemma propertyNames_distinct: "distinct (map fst propertyNames)"
  by code_simp

definition nameLetters :: string where
  "nameLetters = ''abcdefghijklmnopqrstuvwxyzDIK''"

lemma propertyNames_letters: "list_all (\<lambda>(n, p). set p \<subseteq> set nameLetters) propertyNames"
  unfolding propertyNames_def allocation_props list.pred_inject prod.case
  by (simp add: nameLetters_def)

lemma nameLetters_plain: "\<forall>c \<in> set nameLetters. (of_char c :: nat) < 0x80 \<and> \<not> isSpaceRune (of_char c)"
  by (simp add: nameLetters_def isSpaceRune_def)

lemma propertyNames_fixed:
  assumes "(n, p) \<in> set propertyNames"
  shows "ParseProperty lowers p = Inr p"
proof -
  have "lowered p = n" using assms propertyNames_lowered by (auto simp: list_all_iff)
  then have "map_of propertyNames (lowered p) = Some p" using assms propertyNames_distinct by simp
  moreover have "\<forall>c \<in> set p. (of_char c :: nat) < 0x80 \<and> \<not> isSpaceRune (of_char c)"
    using assms propertyNames_letters nameLetters_plain by (fastforce simp: list_all_iff)
  then have "trimSpace (toLower lowers p) = lowered p" using lowered_free toLower_lowered by simp
  ultimately show ?thesis by (simp add: ParseProperty_def)
qed

text \<open>A label or annotation property is no other property: it has a colon.\<close>

lemma promKey_no_space: "promKeyRune r \<Longrightarrow> \<not> isSpaceRune r"
  by (auto simp: promKeyRune_def isSpaceRune_def)

lemma sanitized_plain: "\<forall>c \<in> set (sanitizeKey k). (of_char c :: nat) < 0x80 \<and> \<not> isSpaceRune (of_char c)"
  using sanitizeKey_chars promKeyRune_ascii promKey_no_space by blast

lemma trimSpace_sanitized: "trimSpace (sanitizeKey k) = sanitizeKey k"
  by (rule trimSpace_free [OF sanitized_plain])

lemma propertyNames_no_colon: "list_all (\<lambda>(n, _). CHR '':'' \<notin> set n) propertyNames"
  by code_simp

lemma lowered_colon: "CHR '':'' \<in> set (lowered (''label:'' @ s))" "CHR '':'' \<in> set (lowered (''annotation:'' @ s))"
proof -
  have "CHR '':'' \<in> set (lowered ''label:'')" "CHR '':'' \<in> set (lowered ''annotation:'')" by code_simp+
  then show "CHR '':'' \<in> set (lowered (''label:'' @ s))" "CHR '':'' \<in> set (lowered (''annotation:'' @ s))"
    unfolding lowered_def map_append set_append by blast+
qed

lemma keyed_not_name:
  assumes "pre = ''label:'' \<or> pre = ''annotation:''"
  shows "map_of propertyNames (trimSpace (toLower lowers (pre @ sanitizeKey k))) = None"
proof -
  have "\<forall>c \<in> set pre. (of_char c :: nat) < 0x80 \<and> \<not> isSpaceRune (of_char c)"
    using assms by (auto simp: isSpaceRune_def)
  with sanitized_plain [of k]
  have plain: "\<forall>c \<in> set (pre @ sanitizeKey k). (of_char c :: nat) < 0x80 \<and> \<not> isSpaceRune (of_char c)"
    by (simp only: set_append) blast
  then have "toLower lowers (pre @ sanitizeKey k) = lowered (pre @ sanitizeKey k)"
    by (intro toLower_lowered) blast
  with lowered_free [OF plain] have "trimSpace (toLower lowers (pre @ sanitizeKey k)) = lowered (pre @ sanitizeKey k)"
    by simp
  moreover have "CHR '':'' \<in> set (lowered (pre @ sanitizeKey k))" using assms lowered_colon by blast
  moreover have "CHR '':'' \<notin> set n" if "map_of propertyNames n = Some v" for n v
    using map_of_SomeD [OF that] propertyNames_no_colon by (auto simp: list_all_iff)
  ultimately show ?thesis by (metis not_None_eq)
qed

lemma ParseProperty_keyed:
  assumes "pre = ''label:'' \<or> pre = ''annotation:''"
  shows "ParseProperty lowers (pre @ sanitizeKey k) = Inr (pre @ sanitizeKey k)"
  using assms keyed_not_name [OF assms, of lowers k]
  by (auto simp: ParseProperty_def trimPrefix_def hasPrefix_def trimSpace_sanitized sanitizeKey_idem)

lemma ParseProperty_fixed:
  assumes "ParseProperty lowers t = Inr p"
  shows "ParseProperty lowers p = Inr p"
proof (cases "map_of propertyNames (trimSpace (toLower lowers t))")
  case None
  with assms have "\<exists>k pre. (pre = ''label:'' \<or> pre = ''annotation:'') \<and> p = pre @ sanitizeKey k"
    unfolding ParseProperty_def by (simp del: append.simps split: if_splits; blast)
  then obtain k pre where "pre = ''label:'' \<or> pre = ''annotation:''" "p = pre @ sanitizeKey k" by blast
  with ParseProperty_keyed [of pre lowers k] show ?thesis by simp
next
  case (Some v)
  with assms have "v = p" by (simp add: ParseProperty_def)
  with propertyNames_fixed [OF map_of_SomeD [OF Some]] show ?thesis by simp
qed

lemma parsePropertiesFrom_distinct:
  assumes "parsePropertiesFrom lowers acc ps = Inr qs" and "distinct acc"
  shows "distinct qs"
  using assms by (induction ps arbitrary: acc) (auto split: sum.splits)


section \<open>Names in Glue's form\<close>

text \<open>Lower-case letters and digits are kept; one underscore at the end takes the last of them with it.\<close>

definition glueChar :: "char \<Rightarrow> bool" where
  "glueChar c = (let n = of_char c :: nat in (97 \<le> n \<and> n \<le> 122) \<or> (48 \<le> n \<and> n \<le> 57))"

lemma glueStep_keep: "glueChar c \<Longrightarrow> glueStep ut len i prev (of_char c) = ([c], of_char c)"
  by (auto simp: glueChar_def glueStep_def isUpperRune_def isLetterRune_def isDigitRune_def lowerRune_def
      encodeRune_def Let_def)

lemma glueRunes_keep:
  assumes "list_all glueChar s"
  shows "glueRunes ut len i prev (map (\<lambda>c. (of_char c, [c])) s @ rest) =
    (let (w, p) = glueRunes ut len (i + length s) (if s = [] then prev else of_char (last s)) rest in (s @ w, p))"
  using assms
proof (induction s arbitrary: i prev)
  case (Cons c s)
  then show ?case by (cases "s = []") (simp_all add: glueStep_keep case_prod_unfold Let_def)
qed simp

lemma removeFirst_free: "c \<notin> set s \<Longrightarrow> removeFirst c n s = s"
  by (induction s arbitrary: n) auto

lemma glueChar_plain: "glueChar c \<Longrightarrow> (of_char c :: nat) < 0x80 \<and> c \<noteq> CHR ''_''"
  by (auto simp: glueChar_def Let_def)

lemma glue_keeps:
  assumes "list_all glueChar s"
  shows "ConvertToGlueColumnFormat ut s = Some (take 128 s)"
proof -
  have "\<forall>c \<in> set s. (of_char c :: nat) < 0x80" and u: "CHR ''_'' \<notin> set s"
    using assms glueChar_plain by (auto simp: list_all_iff)
  then have "runeChunks s = map (\<lambda>c. (of_char c, [c])) s" by (intro runeChunks_ascii)
  with glueRunes_keep [OF assms, of ut "length s" 0 0 "[]"]
  have g: "glueRunes ut (length s) 0 0 (runeChunks s) = (s, if s = [] then 0 else of_char (last s))" by simp
  have "(if s = [] then 0 else of_char (last s) :: nat) \<noteq> 0x5F"
  proof (cases "s = []")
    case False
    then have "glueChar (last s)" using assms by (simp add: list_all_iff)
    then show ?thesis by (auto simp: glueChar_def Let_def)
  qed simp
  with g removeFirst_free [OF u] show ?thesis by (simp add: ConvertToGlueColumnFormat_def del: of_char_eq_iff)
qed

lemma glue_drops:
  assumes "list_all glueChar s" and "s \<noteq> []"
  shows "ConvertToGlueColumnFormat ut (s @ ''_'') = Some (take 128 (butlast s))"
proof -
  have a: "\<forall>c \<in> set (s @ ''_''). (of_char c :: nat) < 0x80" and u: "CHR ''_'' \<notin> set s"
    using assms(1) glueChar_plain by (auto simp: list_all_iff)
  have l: "(of_char (last s) :: nat) \<noteq> 0x5F"
    using assms by (auto simp: list_all_iff glueChar_def Let_def dest!: last_in_set)
  have "CHR ''_'' \<notin> set (butlast s)" using u in_set_butlastD by fast
  note r = removeFirst_free [OF this]
  have "runeChunks (s @ ''_'') = map (\<lambda>c. (of_char c, [c])) s @ [(0x5F, ''_'')]"
    using runeChunks_ascii [OF a] by simp
  with glueRunes_keep [OF assms(1), of ut "length (s @ ''_'')" 0 0 "[(0x5F, ''_'')]"] assms(2) l
  have "glueRunes ut (length (s @ ''_'')) 0 0 (runeChunks (s @ ''_'')) = (s, 0x5F)"
    by (simp add: glueStep_def isUpperRune_def isLetterRune_def isDigitRune_def)
  with assms(2) r show ?thesis by (simp add: ConvertToGlueColumnFormat_def)
qed

text \<open>A name of one underscore has nothing to cut the last byte from.\<close>

lemma glue_panics: "ConvertToGlueColumnFormat ut ''_'' = None"
proof -
  have "runeChunks ''_'' = [(0x5F, ''_'')]" using runeChunks_ascii [of "''_''"] by simp
  then show ?thesis
    by (simp add: ConvertToGlueColumnFormat_def glueStep_def isUpperRune_def isLetterRune_def isDigitRune_def)
qed

section \<open>Comparing changes the key\<close>

text \<open>The services are sorted by the comparison, and the key of the service property is the first of them.\<close>

lemma propsEqual_sorts:
  assumes "propsOk p"
  shows "propsEqual p p = (True, p\<lparr>pr_Services := sortStrings (pr_Services p)\<rparr>, p\<lparr>pr_Services := sortStrings (pr_Services p)\<rparr>)"
  using assms by (simp add: propsEqual_def propsOk_def sameMap_iff Let_def)

end
