(* ===== verification/Window.thy ===== *)
theory Window
  imports Timeutil "HOL-Library.Monad_Syntax"
begin

text \<open>
  Windows of time (\<^verbatim>\<open>core/pkg/opencost/window.go\<close>): rounding, comparison, combination and
  the division of a range into windows of one size. Calendar windows and the parser of window
  strings have their own theories. A window whose start or end is nil is open on that side.
\<close>

section \<open>Rounding\<close>

definition RoundBack :: "gotime \<Rightarrow> duration \<Rightarrow> gotime" where
  "RoundBack t resolution =
     (if resolution = Week then RoundToStartOfWeek t
      else timeAdd (timeTruncate (timeAdd t (tm_off t * Second)) resolution) (- tm_off t * Second))"

definition RoundForward :: "gotime \<Rightarrow> duration \<Rightarrow> gotime" where
  "RoundForward t resolution =
     (let back = RoundBack t resolution
      in if timeEqual back t then t else timeAdd back resolution)"

section \<open>Windows\<close>

record window =
  wn_start :: "gotime option"
  wn_end :: "gotime option"

definition NewWindow :: "gotime option \<Rightarrow> gotime option \<Rightarrow> window" where
  "NewWindow s e = \<lparr>wn_start = s, wn_end = e\<rparr>"

definition NewClosedWindow :: "gotime \<Rightarrow> gotime \<Rightarrow> window" where
  "NewClosedWindow s e = \<lparr>wn_start = Some s, wn_end = Some e\<rparr>"

definition IsOpen :: "window \<Rightarrow> bool" where
  "IsOpen w = (wn_start w = None \<or> wn_end w = None)"

definition IsEmpty :: "window \<Rightarrow> bool" where
  "IsEmpty w = (wn_start w = None \<and> wn_end w = None)"

definition HasDuration :: "window \<Rightarrow> bool" where
  "HasDuration w =
     (case (wn_start w, wn_end w) of (Some s, Some e) \<Rightarrow> \<not> timeEqual e s | _ \<Rightarrow> False)"

definition IsNegative :: "window \<Rightarrow> bool" where
  "IsNegative w =
     (case (wn_start w, wn_end w) of (Some s, Some e) \<Rightarrow> timeBefore e s | _ \<Rightarrow> False)"

text \<open>Copying the times behind the pointers gives an equal value.\<close>

definition windowClone :: "window \<Rightarrow> window" where
  "windowClone w =
     NewWindow (case wn_start w of Some s \<Rightarrow> Some s | None \<Rightarrow> None) (case wn_end w of Some e \<Rightarrow> Some e | None \<Rightarrow> None)"

definition windowContains :: "window \<Rightarrow> gotime \<Rightarrow> bool" where
  "windowContains w t =
     (\<not> (case wn_start w of Some s \<Rightarrow> timeBefore t s | None \<Rightarrow> False) \<and>
      \<not> (case wn_end w of Some e \<Rightarrow> timeAfter t e | None \<Rightarrow> False))"

definition ContainsWindow :: "window \<Rightarrow> window \<Rightarrow> bool" where
  "ContainsWindow w that' =
     (case (wn_start that', wn_end that') of
        (Some s, Some e) \<Rightarrow> windowContains w s \<and> windowContains w e
      | _ \<Rightarrow> False)"

text \<open>The duration of an open window is the conversion of an infinite float, a parameter.\<close>

definition windowDuration :: "(float64 \<Rightarrow> int) \<Rightarrow> window \<Rightarrow> duration" where
  "windowDuration other w =
     (case (wn_start w, wn_end w) of
        (Some s, Some e) \<Rightarrow> timeSub e s
      | _ \<Rightarrow> intOfF other PosInf)"

definition windowHours :: "window \<Rightarrow> float64" where
  "windowHours w =
     (case (wn_start w, wn_end w) of (Some s, Some e) \<Rightarrow> durHours (timeSub e s) | _ \<Rightarrow> PosInf)"

definition windowMinutes :: "window \<Rightarrow> float64" where
  "windowMinutes w =
     (case (wn_start w, wn_end w) of (Some s, Some e) \<Rightarrow> durMinutes (timeSub e s) | _ \<Rightarrow> PosInf)"

definition approxEqual :: "gotime option \<Rightarrow> gotime option \<Rightarrow> duration \<Rightarrow> bool" where
  "approxEqual x y threshold =
     (case (x, y) of
        (None, None) \<Rightarrow> True
      | (Some t, Some u) \<Rightarrow> flt (fabs' (durSeconds (timeSub t u))) (durSeconds threshold)
      | _ \<Rightarrow> False)"

definition ApproximatelyEqual :: "window \<Rightarrow> window \<Rightarrow> duration \<Rightarrow> bool" where
  "ApproximatelyEqual w that' threshold =
     (approxEqual (wn_start w) (wn_start that') threshold \<and> approxEqual (wn_end w) (wn_end that') threshold)"

definition timesDiffer :: "gotime option \<Rightarrow> gotime option \<Rightarrow> bool" where
  "timesDiffer x y = (case (x, y) of (Some t, Some u) \<Rightarrow> \<not> timeEqual t u | _ \<Rightarrow> False)"

definition windowEqual :: "window \<Rightarrow> window \<Rightarrow> bool" where
  "windowEqual w that' =
     (if timesDiffer (wn_start w) (wn_start that') then False
      else if timesDiffer (wn_end w) (wn_end that') then False
      else if (wn_start w = None) \<noteq> (wn_start that' = None) then False
      else if (wn_end w = None) \<noteq> (wn_end that' = None) then False
      else True)"

section \<open>Growing and shrinking\<close>

definition ExpandStart :: "gotime \<Rightarrow> window \<Rightarrow> window" where
  "ExpandStart start w =
     (if (case wn_start w of None \<Rightarrow> True | Some s \<Rightarrow> timeBefore start s) then w\<lparr>wn_start := Some start\<rparr> else w)"

definition ExpandEnd :: "gotime \<Rightarrow> window \<Rightarrow> window" where
  "ExpandEnd end' w =
     (if (case wn_end w of None \<Rightarrow> True | Some e \<Rightarrow> timeAfter end' e) then w\<lparr>wn_end := Some end'\<rparr> else w)"

definition Expand :: "window \<Rightarrow> window \<Rightarrow> window" where
  "Expand w that' =
     (let w1 = (case wn_start that' of None \<Rightarrow> w\<lparr>wn_start := None\<rparr> | Some s \<Rightarrow> ExpandStart s w)
      in case wn_end that' of None \<Rightarrow> w1\<lparr>wn_end := None\<rparr> | Some e \<Rightarrow> ExpandEnd e w1)"

definition ContractStart :: "gotime \<Rightarrow> window \<Rightarrow> window" where
  "ContractStart start w =
     (if (case wn_start w of None \<Rightarrow> True | Some s \<Rightarrow> timeAfter start s) then w\<lparr>wn_start := Some start\<rparr> else w)"

definition ContractEnd :: "gotime \<Rightarrow> window \<Rightarrow> window" where
  "ContractEnd end' w =
     (if (case wn_end w of None \<Rightarrow> True | Some e \<Rightarrow> timeBefore end' e) then w\<lparr>wn_end := Some end'\<rparr> else w)"

definition Contract :: "window \<Rightarrow> window \<Rightarrow> window" where
  "Contract w that' =
     (let w1 = (case wn_start that' of None \<Rightarrow> w | Some s \<Rightarrow> ContractStart s w)
      in case wn_end that' of None \<Rightarrow> w1 | Some e \<Rightarrow> ContractEnd e w1)"

definition Shift :: "window \<Rightarrow> duration \<Rightarrow> window" where
  "Shift w d =
     \<lparr>wn_start = map_option (\<lambda>t. timeAdd t d) (wn_start w), wn_end = map_option (\<lambda>t. timeAdd t d) (wn_end w)\<rparr>"

section \<open>Overlap\<close>

definition Overlaps :: "window \<Rightarrow> window \<Rightarrow> bool" where
  "Overlaps w x =
     (case (wn_start w, wn_end w) of
        (None, None) \<Rightarrow> True
      | (ws, we) \<Rightarrow>
          (case (wn_start x, wn_end x) of
             (None, None) \<Rightarrow> True
           | (xs, xe) \<Rightarrow>
               (case (ws, we) of
                  (None, None) \<Rightarrow> True
                | (None, Some e) \<Rightarrow> (case xs of Some s \<Rightarrow> timeBefore s e | None \<Rightarrow> True)
                | (Some s, None) \<Rightarrow> (case xe of Some e \<Rightarrow> timeAfter e s | None \<Rightarrow> True)
                | (Some s, Some e) \<Rightarrow>
                    (case (xs, xe) of
                       (None, None) \<Rightarrow> True
                     | (None, Some e') \<Rightarrow> \<not> timeBefore e' s
                     | (Some s', None) \<Rightarrow> \<not> timeAfter s' e
                     | (Some s', Some e') \<Rightarrow>
                         if \<not> timeBefore s' e \<and> \<not> timeBefore e' e then False
                         else if \<not> timeAfter s' s \<and> \<not> timeAfter e' s then False
                         else True))))"

text \<open>
  \<^verbatim>\<open>GetPercentInWindow\<close>; \<open>None\<close> is the nil pointer the code follows when the window it is
  called on is open and the other one is not.
\<close>

definition GetPercentInWindow :: "(float64 \<Rightarrow> int) \<Rightarrow> window \<Rightarrow> window \<Rightarrow> float64 option" where
  "GetPercentInWindow other w that' =
     (if IsOpen that' then Some (Fin 0)
      else do {
        ws \<leftarrow> wn_start w;
        we \<leftarrow> wn_end w;
        s0 \<leftarrow> wn_start that';
        e0 \<leftarrow> wn_end that';
        let s = (if timeBefore s0 ws then ws else s0);
        let e = (if timeAfter e0 we then we else e0);
        let mins = durMinutes (timeSub e s);
        Some (if fle mins (Fin 0) then Fin 0
              else fdiv mins (durMinutes (windowDuration other that'))) })"

section \<open>Dividing a range\<close>

datatype rangeError = NotDivisible | NotAligned | MismatchedZones | OtherZone

text \<open>
  The loops add windows while the next one fits. They need not end, so they are partial:
  \<open>None\<close> is a run that does not return, and also the division by zero for windows of less than
  a minute. \<open>utcOffset\<close> is the configured offset.
\<close>

partial_function (option) windowLoop :: "gotime \<Rightarrow> duration \<Rightarrow> gotime \<Rightarrow> gotime \<Rightarrow> window list \<Rightarrow> window list option" where
  "windowLoop end' step s e windows =
     (if timeAfter e end' then Some windows
      else windowLoop end' step (timeAdd s step) (timeAdd e step) (windows @ [NewWindow (Some s) (Some e)]))"

definition GetWindows ::
  "(float64 \<Rightarrow> int) \<Rightarrow> duration \<Rightarrow> gotime \<Rightarrow> gotime \<Rightarrow> duration \<Rightarrow> (rangeError + window list) option" where
  "GetWindows other utcOffset start end' windowSize =
     (let dur = timeSub end' start;
          m = intOfF other (durMinutes dur); n = intOfF other (durMinutes windowSize)
      in if n = 0 then None
         else if trem m n \<noteq> 0 then Some (Inl NotDivisible)
         else if start \<noteq> RoundBack start windowSize then Some (Inl NotAligned)
         else if tm_off start \<noteq> tm_off end' then Some (Inl MismatchedZones)
         else if tm_off start \<noteq> intOfF other (durSeconds utcOffset) then Some (Inl OtherZone)
         else map_option Inr (windowLoop end' windowSize start (timeAdd start windowSize) []))"

partial_function (option) queryWindowLoop ::
  "gotime \<Rightarrow> duration \<Rightarrow> gotime \<Rightarrow> gotime \<Rightarrow> window list \<Rightarrow> window list option" where
  "queryWindowLoop end' step s e windows =
     (if \<not> timeBefore s end' then Some windows
      else (let e' = timeAdd e step
            in queryWindowLoop end' step (timeAdd s step) (if timeAfter e' end' then end' else e')
                 (windows @ [NewWindow (Some s) (Some e)])))"

definition GetWindowsForQueryWindow ::
  "(float64 \<Rightarrow> int) \<Rightarrow> duration \<Rightarrow> gotime \<Rightarrow> gotime \<Rightarrow> duration \<Rightarrow> (rangeError + window list) option" where
  "GetWindowsForQueryWindow other utcOffset start end' queryWindow =
     (if tm_off start \<noteq> tm_off end' then Some (Inl MismatchedZones)
      else if tm_off start \<noteq> intOfF other (durSeconds utcOffset) then Some (Inl OtherZone)
      else map_option Inr (queryWindowLoop end' queryWindow start (timeAdd start queryWindow) []))"

section \<open>Rounding stays close and lands on the grid\<close>

lemma RoundBack_props:
  assumes "0 < r" and "r \<noteq> Week"
  shows "tm_ns (RoundBack t r) \<le> tm_ns t" "tm_ns t < tm_ns (RoundBack t r) + r"
    "localNs (RoundBack t r) mod r = 0" "tm_off (RoundBack t r) = tm_off t"
proof -
  have "tm_ns (RoundBack t r) = tm_ns t - localNs t mod r" "tm_off (RoundBack t r) = tm_off t"
    using assms by (simp_all add: RoundBack_def timeAdd_def timeTruncate_def localNs_def)
  moreover have "0 \<le> localNs t mod r" "localNs t mod r < r" using assms(1) by simp_all
  moreover have "(localNs t - localNs t mod r) mod r = 0" by (simp add: mod_diff_right_eq)
  moreover have "localNs (RoundBack t r) = localNs t - localNs t mod r"
    using calculation(1,2) by (simp add: localNs_def)
  ultimately show "tm_ns (RoundBack t r) \<le> tm_ns t" "tm_ns t < tm_ns (RoundBack t r) + r"
    "localNs (RoundBack t r) mod r = 0" "tm_off (RoundBack t r) = tm_off t" by simp_all
qed

lemma RoundForward_props:
  assumes "0 < r" and "r \<noteq> Week"
  shows "tm_ns t \<le> tm_ns (RoundForward t r)" "tm_ns (RoundForward t r) < tm_ns t + r"
    "localNs (RoundForward t r) mod r = 0"
proof -
  note b = RoundBack_props [OF assms, of t]
  have eq: "localNs t = localNs (RoundBack t r)" if "tm_ns (RoundBack t r) = tm_ns t"
    using that b(4) by (simp add: localNs_def)
  have "localNs (timeAdd (RoundBack t r) r) mod r = 0" using b(3) by (simp add: localNs_def timeAdd_def algebra_simps mod_add_self1)
  with b eq show "tm_ns t \<le> tm_ns (RoundForward t r)" "tm_ns (RoundForward t r) < tm_ns t + r"
    "localNs (RoundForward t r) mod r = 0"
    by (auto simp: RoundForward_def Let_def timeEqual_def timeAdd_def assms(1))
qed

text \<open>The start of the week is the midnight, in UTC, of the Sunday on or before the local date.\<close>

lemma RoundToStartOfWeek_midnight:
  "RoundToStartOfWeek t = midnight 0 (localDay t - (localDay t + 1) mod 7)"
  using midnight_add [of 0 "localDay t" "- ((localDay t + 1) mod 7)"]
  by (simp add: RoundToStartOfWeek_def timeDate_midnight date_day Let_def)

section \<open>Windows as intervals\<close>

lemma Contract_contains: "windowContains (Contract w x) t \<longleftrightarrow> windowContains w t \<and> windowContains x t"
  by (auto simp: windowContains_def Contract_def ContractStart_def ContractEnd_def Let_def time_order split: option.splits)

lemma Expand_contains:
  "windowContains (Expand (NewClosedWindow s e) (NewClosedWindow s' e')) t \<longleftrightarrow>
     min (tm_ns s) (tm_ns s') \<le> tm_ns t \<and> tm_ns t \<le> max (tm_ns e) (tm_ns e')"
  by (auto simp: windowContains_def Expand_def ExpandStart_def ExpandEnd_def NewClosedWindow_def Let_def time_order)

lemma windowEqual_iff:
  "windowEqual w x \<longleftrightarrow> map_option tm_ns (wn_start w) = map_option tm_ns (wn_start x) \<and>
     map_option tm_ns (wn_end w) = map_option tm_ns (wn_end x)"
  by (auto simp: windowEqual_def timesDiffer_def time_order split: option.splits)

lemma Shift_contains: "windowContains (Shift w d) (timeAdd t d) = windowContains w t"
  by (auto simp: windowContains_def Shift_def time_order timeAdd_def split: option.splits)

text \<open>Two closed windows of positive length overlap if they have an instant of the half-open interval in common.\<close>

definition inHalfOpen :: "window \<Rightarrow> int \<Rightarrow> bool" where
  "inHalfOpen w n =
     ((case wn_start w of Some s \<Rightarrow> tm_ns s \<le> n | None \<Rightarrow> True) \<and> (case wn_end w of Some e \<Rightarrow> n < tm_ns e | None \<Rightarrow> True))"

lemma Overlaps_closed:
  assumes "tm_ns s < tm_ns e" and "tm_ns s' < tm_ns e'"
  shows "Overlaps (NewClosedWindow s e) (NewClosedWindow s' e') \<longleftrightarrow>
    (\<exists>n. inHalfOpen (NewClosedWindow s e) n \<and> inHalfOpen (NewClosedWindow s' e') n)"
proof -
  have "Overlaps (NewClosedWindow s e) (NewClosedWindow s' e') \<longleftrightarrow> tm_ns s' < tm_ns e \<and> tm_ns s < tm_ns e'"
    using assms by (auto simp: Overlaps_def NewClosedWindow_def time_order)
  also have "\<dots> \<longleftrightarrow> (\<exists>n. tm_ns s \<le> n \<and> n < tm_ns e \<and> tm_ns s' \<le> n \<and> n < tm_ns e')"
    using assms by (auto intro!: exI [of _ "max (tm_ns s) (tm_ns s')"])
  finally show ?thesis by (simp add: inHalfOpen_def NewClosedWindow_def conj_assoc)
qed

section \<open>Windows side by side\<close>

text \<open>Windows of positive length that follow each other from \<open>a\<close> to \<open>b\<close>.\<close>

fun tiles :: "int \<Rightarrow> int \<Rightarrow> window list \<Rightarrow> bool" where
  "tiles a b [] = (a = b)"
| "tiles a b (w # ws) =
     (case (wn_start w, wn_end w) of
        (Some s, Some e) \<Rightarrow> tm_ns s = a \<and> a < tm_ns e \<and> tiles (tm_ns e) b ws
      | _ \<Rightarrow> False)"

lemma tiles_append: "tiles a b (us @ ws) \<longleftrightarrow> (\<exists>m. tiles a m us \<and> tiles m b ws)"
  by (induction us arbitrary: a) (auto split: option.splits prod.splits)

lemma tiles_le: "tiles a b ws \<Longrightarrow> a \<le> b"
  by (induction ws arbitrary: a) (fastforce split: option.splits)+

text \<open>Every window of a tiling lies in it, and every instant of it in one window only.\<close>

lemma tiles_inside: "tiles a b ws \<Longrightarrow> w \<in> set ws \<Longrightarrow> inHalfOpen w n \<Longrightarrow> a \<le> n \<and> n < b"
proof (induction ws arbitrary: a)
  case (Cons v ws)
  then obtain s e where v: "wn_start v = Some s" "wn_end v = Some e" "tm_ns s = a" "a < tm_ns e" "tiles (tm_ns e) b ws"
    by (auto split: option.splits)
  from tiles_le [OF v(5)] Cons v show ?case by (fastforce simp: inHalfOpen_def)
qed simp

lemma tiles_cover:
  assumes "tiles a b ws" and "a \<le> n" and "n < b"
  shows "\<exists>!i. i < length ws \<and> inHalfOpen (ws ! i) n"
  using assms
proof (induction ws arbitrary: a)
  case (Cons w ws)
  then obtain s e where w: "wn_start w = Some s" "wn_end w = Some e" "tm_ns s = a" "a < tm_ns e" "tiles (tm_ns e) b ws"
    by (auto split: option.splits)
  show ?case
  proof (cases "n < tm_ns e")
    case True
    have "\<not> inHalfOpen v n" if "v \<in> set ws" for v using tiles_inside [OF w(5) that, of n] True by auto
    then have "i = 0" if "i < length (w # ws)" "inHalfOpen ((w # ws) ! i) n" for i
      using that by (cases i) auto
    then show ?thesis using True w Cons.prems by (intro ex1I [of _ 0]) (auto simp: inHalfOpen_def)
  next
    case False
    then have "\<exists>!i. i < length ws \<and> inHalfOpen (ws ! i) n" using Cons w by auto
    then obtain i where i: "i < length ws" "inHalfOpen (ws ! i) n"
      "\<And>j. j < length ws \<Longrightarrow> inHalfOpen (ws ! j) n \<Longrightarrow> j = i" by blast
    show ?thesis
    proof (rule ex1I [of _ "Suc i"])
      fix j
      assume "j < length (w # ws) \<and> inHalfOpen ((w # ws) ! j) n"
      then show "j = Suc i" using False w i(3) by (cases j) (auto simp: inHalfOpen_def)
    next
      show "Suc i < length (w # ws) \<and> inHalfOpen ((w # ws) ! Suc i) n" using i(1,2) by simp
    qed
  qed
qed simp

lemma tiles_snoc: "tiles a (tm_ns s) ws \<Longrightarrow> tm_ns s < tm_ns e \<Longrightarrow> tiles a (tm_ns e) (ws @ [NewWindow (Some s) (Some e)])"
  by (auto simp: tiles_append NewWindow_def)

text \<open>With a positive step the loops end, and their windows tile the range.\<close>

lemma windowLoop_tiles:
  assumes "0 < step" and "tiles a (tm_ns s) ws" and "tm_ns s \<le> tm_ns end' \<or> ws = []"
  shows "\<exists>r b. windowLoop end' step s (timeAdd s step) ws = Some r \<and> tiles a b r \<and> tm_ns end' < b + step \<and>
    (b \<le> tm_ns end' \<or> r = []) \<and>
    (\<forall>w \<in> set r - set ws. \<exists>s. w = NewWindow (Some s) (Some (timeAdd s step)))"
  using assms(2,3)
proof (induction "nat (tm_ns end' - tm_ns s)" arbitrary: s ws rule: less_induct)
  case less
  show ?case
  proof (cases "tm_ns end' < tm_ns s + step")
    case True
    then have "windowLoop end' step s (timeAdd s step) ws = Some ws"
      by (subst windowLoop.simps) (simp add: time_order timeAdd_def)
    with less True show ?thesis by (intro exI [of _ ws] exI [of _ "tm_ns s"]) auto
  next
    case False
    let ?s = "timeAdd s step" and ?ws = "ws @ [NewWindow (Some s) (Some (timeAdd s step))]"
    have "windowLoop end' step s ?s ws = windowLoop end' step ?s (timeAdd ?s step) ?ws"
      using False by (subst windowLoop.simps) (simp add: time_order timeAdd_def)
    moreover have "tiles a (tm_ns ?s) ?ws" using less(2) assms(1) tiles_snoc [of a s ws ?s] by (simp add: timeAdd_def)
    moreover have "nat (tm_ns end' - tm_ns ?s) < nat (tm_ns end' - tm_ns s)" "tm_ns ?s \<le> tm_ns end'"
      using False assms(1) by (simp_all add: timeAdd_def)
    ultimately obtain r b where r: "windowLoop end' step s ?s ws = Some r" "tiles a b r" "tm_ns end' < b + step"
      "b \<le> tm_ns end' \<or> r = []" "\<forall>w \<in> set r - set ?ws. \<exists>s. w = NewWindow (Some s) (Some (timeAdd s step))"
      using less(1) [of ?s ?ws] by auto
    then show ?thesis by (intro exI [of _ r] exI [of _ b]) auto
  qed
qed

lemma queryWindowLoop_tiles:
  assumes "0 < step" and "tiles a (tm_ns s) ws" and "tm_ns s \<le> tm_ns end'"
    and "e = (if tm_ns s + step \<le> tm_ns end' then timeAdd s step else end')"
  shows "\<exists>r. queryWindowLoop end' step s e ws = Some r \<and> tiles a (tm_ns end') r"
  using assms(2-4)
proof (induction "nat (tm_ns end' - tm_ns s)" arbitrary: s e ws rule: less_induct)
  case less
  show ?case
  proof (cases "tm_ns s < tm_ns end'")
    case False
    with less show ?thesis by (subst queryWindowLoop.simps) (simp add: time_order)
  next
    case True
    let ?s = "timeAdd s step" and ?ws = "ws @ [NewWindow (Some s) (Some e)]"
    let ?e = "if timeAfter (timeAdd e step) end' then end' else timeAdd e step"
    have step: "queryWindowLoop end' step s e ws = queryWindowLoop end' step ?s ?e ?ws"
      using True by (subst queryWindowLoop.simps) (simp add: time_order Let_def)
    have tiled: "tiles a (tm_ns e) ?ws"
      using tiles_snoc [OF less(2), of e] True assms(1) less(4) by (simp add: timeAdd_def)
    show ?thesis
    proof (cases "tm_ns s + step \<le> tm_ns end'")
      case False
      then have "queryWindowLoop end' step ?s ?e ?ws = Some ?ws"
        by (subst queryWindowLoop.simps) (simp add: time_order timeAdd_def)
      with step tiled less(4) False show ?thesis by simp
    next
      case fits: True
      then have e: "e = ?s" using less(4) by simp
      then have "?e = (if tm_ns ?s + step \<le> tm_ns end' then timeAdd ?s step else end')"
        by (simp add: time_order timeAdd_def)
      moreover have "nat (tm_ns end' - tm_ns ?s) < nat (tm_ns end' - tm_ns s)" "tm_ns ?s \<le> tm_ns end'"
        using True fits assms(1) by (simp_all add: timeAdd_def)
      ultimately show ?thesis using less(1) [of ?s ?ws ?e] tiled e step by simp
    qed
  qed
qed

section \<open>The share of a window is between none and all of it\<close>

lemma fle_FinD: "fle x (Fin b) \<Longrightarrow> fle (Fin a) x \<Longrightarrow> \<exists>r. x = Fin r \<and> a \<le> r \<and> r \<le> b"
  by (cases x) (auto simp: fle_def)

lemma fl_between:
  assumes "fl a = Fin a" "fl b = Fin b" "a \<le> x" "x \<le> b"
  shows "\<exists>r. fl x = Fin r \<and> a \<le> r \<and> r \<le> b"
  using fle_FinD [of "fl x" b a] fle_fl [OF assms(3)] fle_fl [OF assms(4)] assms(1,2) by simp

lemma fl_consts: "fl 0 = Fin 0" "fl 1 = Fin 1"
  using fl_of_int [of 0] fl_of_int [of 1] by simp_all

text \<open>A non-negative duration in a unit: whole units and a rounded rest.\<close>

lemma durIn_parts:
  assumes "0 \<le> d" "d \<le> maxInt64" "Second \<le> unit" "unit \<le> 2 ^ 53"
  obtains f where "fl (of_int (d mod unit) / of_int unit) = Fin f" "0 \<le> f" "f \<le> 1"
    "durIn unit d = fl (of_int (d div unit) + f)"
proof -
  have u: "0 < unit" using assms(3) by (simp add: Second_def)
  have r: "(0 :: rat) \<le> of_int (d mod unit) / of_int unit" "of_int (d mod unit) / of_int unit \<le> (1 :: rat)"
    using u by (simp_all add: less_imp_le)
  from fl_between [OF fl_consts r] obtain f where
    f: "fl (of_int (d mod unit) / of_int unit) = Fin f" "0 \<le> f" "f \<le> 1" by blast
  have "d div unit \<le> d div Second" using assms(1,3) by (intro zdiv_mono2) (simp_all add: Second_def)
  also have "\<dots> \<le> 2 ^ 53" using zdiv_mono1 [OF assms(2), of Second] by (simp add: Second_def maxInt64_def)
  finally have q: "d div unit \<le> 2 ^ 53" .
  have q0: "0 \<le> d div unit" using assms(1) u by (simp add: pos_imp_zdiv_nonneg_iff)
  have m: "0 \<le> d mod unit" "d mod unit \<le> 2 ^ 53"
    using assms(4) pos_mod_sign [OF u, of d] pos_mod_bound [OF u, of d] by linarith+
  have "fOfInt (d div unit) = Fin (of_int (d div unit))" "fOfInt (d mod unit) = Fin (of_int (d mod unit))"
    "fOfInt unit = Fin (of_int unit)"
    unfolding fOfInt_def by (rule fl_of_int; use q q0 m u assms(4) in simp)+
  with f u assms(1) have "durIn unit d = fl (of_int (d div unit) + f)"
    by (simp add: durIn_def tquot_nonneg trem_nonneg)
  with f show thesis by (rule that)
qed

lemma durIn_mono:
  assumes "0 \<le> d" "d \<le> d'" "d' \<le> maxInt64" "Second \<le> unit" "unit \<le> 2 ^ 53"
  shows "fle (durIn unit d) (durIn unit d')"
proof -
  have u: "0 < unit" using assms(4) by (simp add: Second_def)
  obtain f where f: "fl (of_int (d mod unit) / of_int unit) = Fin f" "f \<le> 1" "durIn unit d = fl (of_int (d div unit) + f)"
    by (rule durIn_parts [of d unit]) (use assms in auto)
  obtain f' where f': "fl (of_int (d' mod unit) / of_int unit) = Fin f'" "0 \<le> f'" "durIn unit d' = fl (of_int (d' div unit) + f')"
    by (rule durIn_parts [of d' unit]) (use assms in auto)
  have "of_int (d div unit) + f \<le> of_int (d' div unit) + f'"
  proof (cases "d div unit = d' div unit")
    case True
    then have "d mod unit \<le> d' mod unit" using assms(2) by (simp flip: minus_div_mult_eq_mod)
    then have "rat_of_int (d mod unit) / of_int unit \<le> of_int (d' mod unit) / of_int unit"
      using u by (simp add: divide_right_mono)
    from fle_fl [OF this] f(1) f'(1) have "f \<le> f'" by (simp add: fle_def order_le_less)
    with True show ?thesis by simp
  next
    case False
    have "d div unit \<le> d' div unit" using assms(2) u by (rule zdiv_mono1)
    with False have "d div unit + 1 \<le> d' div unit" by simp
    then have "rat_of_int (d div unit + 1) \<le> of_int (d' div unit)" by (simp only: of_int_le_iff)
    with f(2) f'(2) show ?thesis by simp
  qed
  from fle_fl [OF this] f(3) f'(3) show ?thesis by simp
qed

lemma durIn_finite:
  assumes "0 \<le> d" "d \<le> maxInt64" "Second \<le> unit" "unit \<le> 2 ^ 53"
  shows "\<exists>x. durIn unit d = Fin x \<and> 0 \<le> x \<and> x \<le> 2 ^ 53"
proof -
  obtain f where f: "0 \<le> f" "f \<le> 1" "durIn unit d = fl (of_int (d div unit) + f)"
    by (rule durIn_parts [OF assms])
  have "d div unit \<le> d div Second" using assms(1,3) by (intro zdiv_mono2) (simp_all add: Second_def)
  also have "\<dots> \<le> 2 ^ 53 - 1" using zdiv_mono1 [OF assms(2), of Second] by (simp add: Second_def maxInt64_def)
  finally have "rat_of_int (d div unit) \<le> of_int (2 ^ 53 - 1)" by (simp only: of_int_le_iff)
  moreover have "0 \<le> d div unit" using assms(1,3) by (simp add: pos_imp_zdiv_nonneg_iff Second_def)
  then have "0 \<le> rat_of_int (d div unit)" by simp
  ultimately have "(0 :: rat) \<le> of_int (d div unit) + f" "of_int (d div unit) + f \<le> rat_of_int (2 ^ 53)" using f by simp_all
  from fl_between [OF fl_consts(1) fl_of_int this] f(3) show ?thesis by auto
qed

lemma durIn_nonpos:
  assumes "minInt64 \<le> d" "d \<le> 0" "Second \<le> unit" "unit \<le> 2 ^ 53"
  shows "fle (durIn unit d) (Fin 0)"
proof -
  have u: "0 < unit" using assms(3) by (simp add: Second_def)
  let ?q = "- d div unit" and ?m = "- d mod unit"
  have parts: "tquot d unit = - ?q" "trem d unit = - ?m"
    using assms(2) u by (auto simp: trem_def tquot_def sgn_if minus_mult_div_eq_mod [symmetric])
  have "?q \<le> - d div Second" using assms(2,3) by (intro zdiv_mono2) (simp_all add: Second_def)
  also have "\<dots> \<le> 2 ^ 53" using zdiv_mono1 [of "- d" "2 ^ 63" Second] assms(1) by (simp add: Second_def minInt64_def)
  finally have q: "?q \<le> 2 ^ 53" .
  have q0: "0 \<le> ?q" using assms(2) u by (simp add: pos_imp_zdiv_nonneg_iff)
  have m: "0 \<le> ?m" "?m \<le> unit" using u pos_mod_bound [of unit "- d"] by (simp_all add: less_imp_le)
  have "fOfInt (- ?q) = Fin (of_int (- ?q))" "fOfInt (- ?m) = Fin (of_int (- ?m))" "fOfInt unit = Fin (of_int unit)"
    unfolding fOfInt_def by (rule fl_of_int; use q q0 m u assms(4) in simp)+
  moreover have "(- 1 :: rat) \<le> of_int (- ?m) / of_int unit" "of_int (- ?m) / of_int unit \<le> (0 :: rat)"
    using u m by (simp_all add: divide_le_eq_1 divide_le_0_iff)
  from fl_between [OF _ fl_consts(1) this] fl_of_int [of "- 1"] obtain f where
    f: "fl (of_int (- ?m) / of_int unit) = Fin f" "f \<le> 0" by auto
  ultimately have "durIn unit d = fl (of_int (- ?q) + f)" using u by (simp add: durIn_def parts)
  moreover have "of_int (- ?q) + f \<le> 0" using q0 f(2) by (simp add: of_int_nonneg)
  ultimately show ?thesis using fle_fl [of "of_int (- ?q) + f" 0] fl_consts(1) by simp
qed

lemma timeSub_range: "minInt64 \<le> timeSub t u" "timeSub t u \<le> maxInt64"
  by (simp_all add: timeSub_def minInt64_def maxInt64_def)

lemma GetPercentInWindow_bounds:
  assumes "wn_start w = Some ws" "wn_end w = Some we"
  shows "\<exists>p. GetPercentInWindow other w x = Some (Fin p) \<and> 0 \<le> p \<and> p \<le> 1"
proof (cases "IsOpen x")
  case True
  then show ?thesis by (simp add: GetPercentInWindow_def)
next
  case False
  then obtain s0 e0 where x: "wn_start x = Some s0" "wn_end x = Some e0" by (auto simp: IsOpen_def)
  define s where "s = (if timeBefore s0 ws then ws else s0)"
  define e where "e = (if timeAfter e0 we then we else e0)"
  have M: "Second \<le> Minute" "Minute \<le> 2 ^ 53" by (simp_all add: durations)
  have sub: "timeSub e s \<le> timeSub e0 s0" by (auto simp: timeSub_def s_def e_def time_order)
  have p: "GetPercentInWindow other w x = Some (if fle (durMinutes (timeSub e s)) (Fin 0) then Fin 0
      else fdiv (durMinutes (timeSub e s)) (durMinutes (timeSub e0 s0)))"
    using False by (simp add: GetPercentInWindow_def assms x windowDuration_def Let_def flip: s_def e_def)
  show ?thesis
  proof (cases "fle (durMinutes (timeSub e s)) (Fin 0)")
    case True
    with p show ?thesis by simp
  next
    case pos: False
    then have nn: "0 \<le> timeSub e s"
      using durIn_nonpos [OF timeSub_range(1) _ M, of e s] by (cases "0 \<le> timeSub e s") (auto simp: durMinutes_def)
    obtain a where a: "durMinutes (timeSub e s) = Fin a" "0 \<le> a"
      using durIn_finite [OF nn timeSub_range(2) M] by (auto simp: durMinutes_def)
    obtain b where b: "durMinutes (timeSub e0 s0) = Fin b"
      using durIn_finite [OF _ timeSub_range(2) M, of e0 s0] nn sub by (auto simp: durMinutes_def)
    have "a \<le> b" using durIn_mono [OF nn sub timeSub_range(2) M] a b by (auto simp: durMinutes_def fle_def)
    moreover have "0 < a" using pos a by (auto simp: fle_def)
    ultimately have "0 \<le> a / b" "a / b \<le> 1" "b \<noteq> 0" by simp_all
    from fl_between [OF fl_consts this(1,2)] p pos a b \<open>b \<noteq> 0\<close> show ?thesis by auto
  qed
qed

section \<open>Dividing a range returns\<close>

lemma minutes_count:
  assumes "Minute \<le> d" "d \<le> maxInt64"
  shows "1 \<le> intOfF other (durMinutes d)"
proof -
  have M: "Second \<le> Minute" "Minute \<le> 2 ^ 53" "0 \<le> Minute" by (simp_all add: durations)
  obtain x where x: "durMinutes d = Fin x" "x \<le> 2 ^ 53"
    using durIn_finite [OF _ assms(2) M(1,2)] assms(1) M(3) by (auto simp: durMinutes_def)
  have c: "fOfInt 1 = Fin 1" "fOfInt 0 = Fin 0" "fOfInt Minute = Fin (of_int Minute)"
    using fl_of_int [of 1] fl_of_int [of 0] fl_of_int [of Minute] by (simp_all add: fOfInt_def durations)
  have "tquot Minute Minute = 1" "trem Minute Minute = 0" by (simp_all add: tquot_nonneg trem_nonneg durations)
  then have "durMinutes Minute = Fin 1"
    using fl_consts by (simp add: durMinutes_def durIn_def c) (simp add: durations)
  with durIn_mono [OF M(3) assms M(1,2)] x(1) have "1 \<le> x" by (auto simp: durMinutes_def fle_def)
  moreover from this x(2) have "\<bar>x\<bar> < 2 ^ 63" by simp
  ultimately show ?thesis using x(1) by (simp add: le_floor_iff)
qed

lemma GetWindows_tiles:
  assumes "Minute \<le> windowSize" "windowSize \<le> maxInt64"
  shows "\<exists>r. GetWindows other utcOffset start end' windowSize = Some r \<and>
    (case r of
       Inl _ \<Rightarrow> True
     | Inr ws \<Rightarrow> \<exists>b. tiles (tm_ns start) b ws \<and> tm_ns end' < b + windowSize \<and> (b \<le> tm_ns end' \<or> ws = []) \<and>
         (\<forall>w \<in> set ws. \<exists>s. w = NewWindow (Some s) (Some (timeAdd s windowSize))))"
proof -
  have "0 < windowSize" using assms(1) by (simp add: durations)
  from windowLoop_tiles [OF this, of "tm_ns start" start "[]" end'] obtain ws b where
    ws: "windowLoop end' windowSize start (timeAdd start windowSize) [] = Some ws" "tiles (tm_ns start) b ws"
    "tm_ns end' < b + windowSize" "b \<le> tm_ns end' \<or> ws = []"
    "\<forall>w \<in> set ws. \<exists>s. w = NewWindow (Some s) (Some (timeAdd s windowSize))" by auto
  have "intOfF other (durMinutes windowSize) \<noteq> 0" using minutes_count [OF assms, of other] by linarith
  then have "(\<exists>e. GetWindows other utcOffset start end' windowSize = Some (Inl e)) \<or>
      GetWindows other utcOffset start end' windowSize = Some (Inr ws)"
    using ws(1) by (simp add: GetWindows_def Let_def)
  then show ?thesis using ws by auto
qed

end
