(* ===== verification/Alloc_Cost.thy ===== *)
theory Alloc_Cost
  imports Alloc_Keys Window
begin

text \<open>
  Allocations (\<^verbatim>\<open>core/pkg/opencost/allocation.go\<close>): the record with its costs and resources,
  whole costs and efficiencies, the sum of two allocations and the removal of NaN. A nil map or
  pointer is \<open>None\<close>; the order of the entries of a map is the order in which a loop visits them.
  An operation that changes its receiver returns it.
\<close>

section \<open>Records\<close>

record gpuAllocation =
  gpu_GPUDevice :: string
  gpu_GPUModel :: string
  gpu_GPUUUID :: string
  gpu_IsGPUShared :: "bool option"
  gpu_GPUUsageAverage :: "float64 option"
  gpu_GPURequestAverage :: "float64 option"

record lbAllocation =
  lb_Service :: string
  lb_Cost :: float64
  lb_Private :: bool
  lb_Ip :: string
  lb_Hours :: float64
  lb_Adjustment :: float64

type_synonym lbAllocations = "lbAllocation gomap"

record rawAllocationOnlyData =
  raw_CPUCoreUsageMax :: float64
  raw_RAMBytesUsageMax :: float64
  raw_GPUUsageMax :: "float64 option"

record pvKey =
  pvk_Cluster :: string
  pvk_Name :: string

record pvAllocation =
  pv_ByteHours :: float64
  pv_Cost :: float64
  pv_ProviderID :: string
  pv_Adjustment :: float64

type_synonym pvAllocations = "(pvKey \<times> pvAllocation) list"

record proportionalAssetResourceCost =
  parc_Cluster :: string
  parc_Name :: string
  parc_Type :: string
  parc_ProviderID :: string
  parc_CPUPercentage :: float64
  parc_GPUPercentage :: float64
  parc_RAMPercentage :: float64
  parc_LoadBalancerPercentage :: float64
  parc_PVPercentage :: float64
  parc_NodeResourceCostPercentage :: float64
  parc_GPUTotalCost :: float64
  parc_GPUProportionalCost :: float64
  parc_CPUTotalCost :: float64
  parc_CPUProportionalCost :: float64
  parc_RAMTotalCost :: float64
  parc_RAMProportionalCost :: float64
  parc_LoadBalancerProportionalCost :: float64
  parc_LoadBalancerTotalCost :: float64
  parc_PVProportionalCost :: float64
  parc_PVTotalCost :: float64

type_synonym parcs = "proportionalAssetResourceCost gomap"

record sharedCostBreakdown =
  scb_Name :: string
  scb_TotalCost :: float64
  scb_CPUCost :: float64
  scb_GPUCost :: float64
  scb_RAMCost :: float64
  scb_PVCost :: float64
  scb_NetworkCost :: float64
  scb_LBCost :: float64
  scb_ExternalCost :: float64

type_synonym scbs = "sharedCostBreakdown gomap"

record allocation =
  al_Name :: string
  al_Properties :: "allocationProperties option"
  al_Window :: window
  al_Start :: gotime
  al_End :: gotime
  al_CPUCoreHours :: float64
  al_CPUCoreRequestAverage :: float64
  al_CPUCoreUsageAverage :: float64
  al_CPUCost :: float64
  al_CPUCostAdjustment :: float64
  al_CPUCostIdle :: float64
  al_GPUHours :: float64
  al_GPUCost :: float64
  al_GPUCostAdjustment :: float64
  al_GPUCostIdle :: float64
  al_NetworkTransferBytes :: float64
  al_NetworkReceiveBytes :: float64
  al_NetworkCost :: float64
  al_NetworkCrossZoneCost :: float64
  al_NetworkCrossRegionCost :: float64
  al_NetworkInternetCost :: float64
  al_NetworkCostAdjustment :: float64
  al_LoadBalancerCost :: float64
  al_LoadBalancerCostAdjustment :: float64
  al_PVs :: "pvAllocations option"
  al_PVCostAdjustment :: float64
  al_RAMByteHours :: float64
  al_RAMBytesRequestAverage :: float64
  al_RAMBytesUsageAverage :: float64
  al_RAMCost :: float64
  al_RAMCostAdjustment :: float64
  al_RAMCostIdle :: float64
  al_SharedCost :: float64
  al_ExternalCost :: float64
  al_RawAllocationOnly :: "rawAllocationOnlyData option"
  al_ProportionalAssetResourceCosts :: "parcs option"
  al_SharedCostBreakdown :: "scbs option"
  al_LoadBalancers :: "lbAllocations option"
  al_UnmountedPVCost :: float64
  al_deprecatedGPURequestAverage :: float64
  al_deprecatedGPUUsageAverage :: float64
  al_GPUAllocation :: "gpuAllocation option"
  al_CPUCoreLimitAverage :: float64
  al_RAMBytesLimitAverage :: float64
  al_NetworkNatGatewayEgressCost :: float64
  al_NetworkNatGatewayIngressCost :: float64

text \<open>The zero value of the struct.\<close>

definition zeroAllocation :: allocation where
  "zeroAllocation =
     \<lparr>al_Name = [], al_Properties = None, al_Window = NewWindow None None, al_Start = zeroTime, al_End = zeroTime,
      al_CPUCoreHours = Fin 0, al_CPUCoreRequestAverage = Fin 0, al_CPUCoreUsageAverage = Fin 0,
      al_CPUCost = Fin 0, al_CPUCostAdjustment = Fin 0, al_CPUCostIdle = Fin 0, al_GPUHours = Fin 0,
      al_GPUCost = Fin 0, al_GPUCostAdjustment = Fin 0, al_GPUCostIdle = Fin 0,
      al_NetworkTransferBytes = Fin 0, al_NetworkReceiveBytes = Fin 0, al_NetworkCost = Fin 0,
      al_NetworkCrossZoneCost = Fin 0, al_NetworkCrossRegionCost = Fin 0,
      al_NetworkInternetCost = Fin 0, al_NetworkCostAdjustment = Fin 0, al_LoadBalancerCost = Fin 0,
      al_LoadBalancerCostAdjustment = Fin 0, al_PVs = None, al_PVCostAdjustment = Fin 0,
      al_RAMByteHours = Fin 0, al_RAMBytesRequestAverage = Fin 0, al_RAMBytesUsageAverage = Fin 0,
      al_RAMCost = Fin 0, al_RAMCostAdjustment = Fin 0, al_RAMCostIdle = Fin 0, al_SharedCost = Fin 0,
      al_ExternalCost = Fin 0, al_RawAllocationOnly = None, al_ProportionalAssetResourceCosts = None,
      al_SharedCostBreakdown = None, al_LoadBalancers = None, al_UnmountedPVCost = Fin 0,
      al_deprecatedGPURequestAverage = Fin 0, al_deprecatedGPUUsageAverage = Fin 0,
      al_GPUAllocation = None, al_CPUCoreLimitAverage = Fin 0, al_RAMBytesLimitAverage = Fin 0,
      al_NetworkNatGatewayEgressCost = Fin 0, al_NetworkNatGatewayIngressCost = Fin 0\<rparr>"

section \<open>Comparing numbers\<close>

text \<open>\<^verbatim>\<open>math.Max\<close> and \<^verbatim>\<open>util.IsApproximately\<close> (\<^verbatim>\<open>core/pkg/util/math.go\<close>).\<close>

definition mathMax :: "float64 \<Rightarrow> float64 \<Rightarrow> float64" where
  "mathMax x y =
     (if x = PosInf \<or> y = PosInf then PosInf
      else if x = NaN \<or> y = NaN then NaN
      else if flt y x then x else y)"

definition IsApproximately :: "float64 \<Rightarrow> float64 \<Rightarrow> bool" where
  "IsApproximately a b =
     fle (fabs' (fsub a b)) (fmul (fl (1 / 1000000)) (mathMax (fabs' a) (fabs' b)))"

definition IsWithin :: "float64 \<Rightarrow> float64 \<Rightarrow> float64 \<Rightarrow> bool" where
  "IsWithin a b delta = fle (fabs' (fsub a b)) delta"

definition nanToZero :: "float64 \<Rightarrow> float64" where
  "nanToZero x = (if x = NaN then Fin 0 else x)"

definition nanToNil :: "float64 option \<Rightarrow> float64 option" where
  "nanToNil x = (if x = None \<or> x = Some NaN then None else x)"

section \<open>Graphics processors and load balancers\<close>

definition gpuSanitizeNaN :: "gpuAllocation option \<Rightarrow> gpuAllocation option" where
  "gpuSanitizeNaN g =
     map_option (\<lambda>g. g\<lparr>gpu_GPURequestAverage := nanToNil (gpu_GPURequestAverage g),
                        gpu_GPUUsageAverage := nanToNil (gpu_GPUUsageAverage g)\<rparr>) g"

definition gpuClone :: "gpuAllocation option \<Rightarrow> gpuAllocation option" where
  "gpuClone g =
     map_option (\<lambda>g. \<lparr>gpu_GPUDevice = gpu_GPUDevice g, gpu_GPUModel = gpu_GPUModel g, gpu_GPUUUID = gpu_GPUUUID g,
       gpu_IsGPUShared = gpu_IsGPUShared g, gpu_GPUUsageAverage = gpu_GPUUsageAverage g,
       gpu_GPURequestAverage = gpu_GPURequestAverage g\<rparr>) g"

definition ptrValueEqual :: "('a \<Rightarrow> 'a \<Rightarrow> bool) \<Rightarrow> 'a option \<Rightarrow> 'a option \<Rightarrow> bool" where
  "ptrValueEqual eq a b =
     (case (a, b) of (None, None) \<Rightarrow> True | (Some x, Some y) \<Rightarrow> eq x y | _ \<Rightarrow> False)"

definition gpuEqual :: "gpuAllocation option \<Rightarrow> gpuAllocation option \<Rightarrow> bool" where
  "gpuEqual orig that' =
     (case (orig, that') of
        (None, None) \<Rightarrow> True
      | (Some g, Some t) \<Rightarrow>
          gpu_GPUDevice g = gpu_GPUDevice t \<and> gpu_GPUModel g = gpu_GPUModel t \<and> gpu_GPUUUID g = gpu_GPUUUID t \<and>
          ptrValueEqual (=) (gpu_IsGPUShared g) (gpu_IsGPUShared t) \<and>
          ptrValueEqual feq (gpu_GPUUsageAverage g) (gpu_GPUUsageAverage t) \<and>
          ptrValueEqual feq (gpu_GPURequestAverage g) (gpu_GPURequestAverage t)
      | _ \<Rightarrow> False)"

definition lbClone :: "lbAllocations option \<Rightarrow> lbAllocations option" where
  "lbClone orig =
     map_option (map (\<lambda>(key, lb).
       (key, \<lparr>lb_Service = lb_Service lb, lb_Cost = lb_Cost lb, lb_Private = lb_Private lb, lb_Ip = lb_Ip lb,
              lb_Hours = lb_Hours lb, lb_Adjustment = Fin 0\<rparr>))) orig"

definition lbSanitizeNaN :: "lbAllocation \<Rightarrow> lbAllocation" where
  "lbSanitizeNaN lba = lba\<lparr>lb_Cost := nanToZero (lb_Cost lba), lb_Hours := nanToZero (lb_Hours lba)\<rparr>"

definition lbAddOne :: "string \<times> lbAllocation \<Rightarrow> lbAllocations \<Rightarrow> lbAllocations" where
  "lbAddOne = (\<lambda>(lbKey, that') merged.
     (case map_of merged lbKey of
        None \<Rightarrow>
          AList.update lbKey
            \<lparr>lb_Service = lb_Service that', lb_Cost = lb_Cost that', lb_Private = False, lb_Ip = [],
             lb_Hours = lb_Hours that', lb_Adjustment = Fin 0\<rparr> merged
      | Some lb \<Rightarrow>
          AList.update lbKey
            (lb\<lparr>lb_Cost := fadd (lb_Cost lb) (lb_Cost that'), lb_Hours := fadd (lb_Hours lb) (lb_Hours that')\<rparr>)
            merged))"

definition lbAdd :: "lbAllocations option \<Rightarrow> lbAllocations option \<Rightarrow> lbAllocations option" where
  "lbAdd this thatLbAllocs =
     (let merged = lbClone this
      in case thatLbAllocs of
           None \<Rightarrow> merged
         | Some ts \<Rightarrow> Some (fold lbAddOne ts (entries merged)))"

definition lbsSanitizeNaN :: "lbAllocations option \<Rightarrow> lbAllocations option" where
  "lbsSanitizeNaN lbs = map_option (map (\<lambda>(k, lb). (k, lbSanitizeNaN lb))) lbs"

section \<open>Raw data\<close>

definition rawClone :: "rawAllocationOnlyData option \<Rightarrow> rawAllocationOnlyData option" where
  "rawClone r =
     map_option (\<lambda>r. \<lparr>raw_CPUCoreUsageMax = raw_CPUCoreUsageMax r, raw_RAMBytesUsageMax = raw_RAMBytesUsageMax r,
       raw_GPUUsageMax = raw_GPUUsageMax r\<rparr>) r"

definition rawEqual :: "rawAllocationOnlyData option \<Rightarrow> rawAllocationOnlyData option \<Rightarrow> bool" where
  "rawEqual r that' =
     (case (r, that') of
        (None, None) \<Rightarrow> True
      | (Some x, Some y) \<Rightarrow>
          IsApproximately (raw_CPUCoreUsageMax x) (raw_CPUCoreUsageMax y) \<and>
          IsApproximately (raw_RAMBytesUsageMax x) (raw_RAMBytesUsageMax y) \<and>
          ptrValueEqual IsApproximately (raw_GPUUsageMax x) (raw_GPUUsageMax y)
      | _ \<Rightarrow> False)"

definition rawSanitizeNaN :: "rawAllocationOnlyData option \<Rightarrow> rawAllocationOnlyData option" where
  "rawSanitizeNaN r =
     map_option (\<lambda>r. r\<lparr>raw_CPUCoreUsageMax := nanToZero (raw_CPUCoreUsageMax r),
       raw_RAMBytesUsageMax := nanToZero (raw_RAMBytesUsageMax r),
       raw_GPUUsageMax := nanToNil (raw_GPUUsageMax r)\<rparr>) r"

section \<open>Persistent volumes\<close>

definition pvClone :: "pvAllocations option \<Rightarrow> pvAllocations option" where
  "pvClone pv =
     map_option (map (\<lambda>(k, v).
       (k, \<lparr>pv_ByteHours = pv_ByteHours v, pv_Cost = pv_Cost v, pv_ProviderID = pv_ProviderID v,
            pv_Adjustment = Fin 0\<rparr>))) pv"

definition zeroPV :: pvAllocation where
  "zeroPV = \<lparr>pv_ByteHours = Fin 0, pv_Cost = Fin 0, pv_ProviderID = [], pv_Adjustment = Fin 0\<rparr>"

definition pvAddOne :: "pvKey \<times> pvAllocation \<Rightarrow> pvAllocations \<Rightarrow> pvAllocations" where
  "pvAddOne = (\<lambda>(pvKey, that') apv.
     (let apvAlloc = (case map_of apv pvKey of None \<Rightarrow> zeroPV | Some v \<Rightarrow> v)
      in AList.update pvKey
           (apvAlloc\<lparr>pv_Cost := fadd (pv_Cost apvAlloc) (pv_Cost that'),
                     pv_ByteHours := fadd (pv_ByteHours apvAlloc) (pv_ByteHours that'),
                     pv_ProviderID :=
                       (if pv_ProviderID apvAlloc = pv_ProviderID that' then pv_ProviderID apvAlloc else [])\<rparr>)
           apv))"

definition pvAdd :: "pvAllocations option \<Rightarrow> pvAllocations option \<Rightarrow> pvAllocations option" where
  "pvAdd pv that' =
     (let apv = pvClone pv
      in case that' of None \<Rightarrow> apv | Some ts \<Rightarrow> Some (fold pvAddOne ts (case apv of None \<Rightarrow> [] | Some m \<Rightarrow> m)))"

definition pvAllocEqual :: "pvAllocation \<Rightarrow> pvAllocation \<Rightarrow> bool" where
  "pvAllocEqual pva that' =
     (IsApproximately (pv_ByteHours pva) (pv_ByteHours that') \<and> IsApproximately (pv_Cost pva) (pv_Cost that'))"

definition pvEqual :: "pvAllocations option \<Rightarrow> pvAllocations option \<Rightarrow> bool" where
  "pvEqual this that' =
     (case (this, that') of
        (None, None) \<Rightarrow> True
      | (Some m, Some m') \<Rightarrow>
          length m = length m' \<and>
          list_all (\<lambda>(k, pv). case map_of m' k of None \<Rightarrow> False | Some tv \<Rightarrow> pvAllocEqual pv tv) m
      | _ \<Rightarrow> False)"

definition pvAllocSanitizeNaN :: "pvAllocation \<Rightarrow> pvAllocation" where
  "pvAllocSanitizeNaN pva = pva\<lparr>pv_ByteHours := nanToZero (pv_ByteHours pva), pv_Cost := nanToZero (pv_Cost pva)\<rparr>"

definition pvSanitizeNaN :: "pvAllocations option \<Rightarrow> pvAllocations option" where
  "pvSanitizeNaN pvs = map_option (map (\<lambda>(k, v). (k, pvAllocSanitizeNaN v))) pvs"

definition pvKeyString :: "pvKey \<Rightarrow> string" where
  "pvKeyString pvk = ''cluster='' @ pvk_Cluster pvk @ '':name='' @ pvk_Name pvk"

definition pvKeyFromString :: "string \<Rightarrow> string + pvKey" where
  "pvKeyFromString key =
     (case splitByte (CHR '':'') key of
        [c, n] \<Rightarrow> Inr \<lparr>pvk_Cluster = trimPrefix ''cluster='' c, pvk_Name = trimPrefix ''name='' n\<rparr>
      | _ \<Rightarrow> Inl (''PVKey string has the incorrect format: '' @ key))"

section \<open>Proportional asset resource costs\<close>

definition parcKey :: "proportionalAssetResourceCost \<Rightarrow> bool \<Rightarrow> string" where
  "parcKey parc byName =
     (if byName then parc_Cluster parc @ '','' @ parc_Name parc else parc_Cluster parc)"

definition parcClone :: "parcs option \<Rightarrow> parcs option" where
  "parcClone ps = Some (entries ps)"

definition positiveShare :: "float64 \<Rightarrow> float64 \<Rightarrow> float64 \<Rightarrow> float64" where
  "positiveShare part whole old = (if flt (Fin 0) whole then fdiv part whole else old)"

definition costFraction :: "float64 \<Rightarrow> float64 \<Rightarrow> float64" where
  "costFraction part whole = (let f = fdiv part whole in if f = NaN \<or> flt f (Fin 0) then Fin 0 else f)"

definition ComputePercentages :: "proportionalAssetResourceCost \<Rightarrow> proportionalAssetResourceCost" where
  "ComputePercentages p =
     (let totalNodeCost = fadd (fadd (parc_RAMTotalCost p) (parc_CPUTotalCost p)) (parc_GPUTotalCost p);
          q = p\<lparr>parc_CPUPercentage := positiveShare (parc_CPUProportionalCost p) (parc_CPUTotalCost p) (parc_CPUPercentage p),
                parc_GPUPercentage := positiveShare (parc_GPUProportionalCost p) (parc_GPUTotalCost p) (parc_GPUPercentage p),
                parc_LoadBalancerPercentage :=
                  positiveShare (parc_LoadBalancerProportionalCost p) (parc_LoadBalancerTotalCost p) (parc_LoadBalancerPercentage p),
                parc_RAMPercentage := positiveShare (parc_RAMProportionalCost p) (parc_RAMTotalCost p) (parc_RAMPercentage p),
                parc_PVPercentage := positiveShare (parc_PVProportionalCost p) (parc_PVTotalCost p) (parc_PVPercentage p)\<rparr>;
          ramFraction = costFraction (parc_RAMTotalCost p) totalNodeCost;
          cpuFraction = costFraction (parc_CPUTotalCost p) totalNodeCost;
          gpuFraction = costFraction (parc_GPUTotalCost p) totalNodeCost
      in q\<lparr>parc_NodeResourceCostPercentage :=
             fadd (fadd (fmul (parc_RAMPercentage q) ramFraction) (fmul (parc_CPUPercentage q) cpuFraction))
               (fmul (parc_GPUPercentage q) gpuFraction)\<rparr>)"

text \<open>The entry that replaces an existing one has no totals yet: those fields are zero.\<close>

definition zeroParc :: proportionalAssetResourceCost where
  "zeroParc =
     \<lparr>parc_Cluster = [], parc_Name = [], parc_Type = [], parc_ProviderID = [],
       parc_CPUPercentage = Fin 0, parc_GPUPercentage = Fin 0, parc_RAMPercentage = Fin 0,
       parc_LoadBalancerPercentage = Fin 0, parc_PVPercentage = Fin 0,
       parc_NodeResourceCostPercentage = Fin 0, parc_GPUTotalCost = Fin 0,
       parc_GPUProportionalCost = Fin 0, parc_CPUTotalCost = Fin 0, parc_CPUProportionalCost = Fin 0,
       parc_RAMTotalCost = Fin 0, parc_RAMProportionalCost = Fin 0,
       parc_LoadBalancerProportionalCost = Fin 0, parc_LoadBalancerTotalCost = Fin 0,
       parc_PVProportionalCost = Fin 0, parc_PVTotalCost = Fin 0\<rparr>"

definition mergeParc ::
  "proportionalAssetResourceCost \<Rightarrow> proportionalAssetResourceCost \<Rightarrow> proportionalAssetResourceCost" where
  "mergeParc current parc =
     zeroParc\<lparr>parc_Name := parc_Name current, parc_Type := parc_Type current, parc_Cluster := parc_Cluster current,
       parc_ProviderID := parc_ProviderID current,
       parc_CPUProportionalCost := fadd (parc_CPUProportionalCost current) (parc_CPUProportionalCost parc),
       parc_RAMProportionalCost := fadd (parc_RAMProportionalCost current) (parc_RAMProportionalCost parc),
       parc_GPUProportionalCost := fadd (parc_GPUProportionalCost current) (parc_GPUProportionalCost parc),
       parc_PVProportionalCost := fadd (parc_PVProportionalCost current) (parc_PVProportionalCost parc),
       parc_LoadBalancerProportionalCost :=
         fadd (parc_LoadBalancerProportionalCost current) (parc_LoadBalancerProportionalCost parc)\<rparr>"

definition parcInsert :: "bool \<Rightarrow> proportionalAssetResourceCost \<Rightarrow> parcs \<Rightarrow> parcs" where
  "parcInsert byName parc parcs =
     (let p = (if byName then parc
               else parc\<lparr>parc_Name := [], parc_Type := [], parc_ProviderID := []\<rparr>);
          key = parcKey p byName
      in case map_of parcs key of
           Some current \<Rightarrow> AList.update key (ComputePercentages (mergeParc current p)) parcs
         | None \<Rightarrow> AList.update key (ComputePercentages p) parcs)"

definition parcAdd :: "parcs \<Rightarrow> parcs \<Rightarrow> parcs" where
  "parcAdd parcs that' = fold (\<lambda>(_, parc). parcInsert (parc_Name parc \<noteq> []) parc) that' parcs"

definition parcSanitizeNaN :: "proportionalAssetResourceCost \<Rightarrow> proportionalAssetResourceCost" where
  "parcSanitizeNaN p =
     p\<lparr>parc_CPUPercentage := nanToZero (parc_CPUPercentage p),
       parc_GPUPercentage := nanToZero (parc_GPUPercentage p),
       parc_RAMPercentage := nanToZero (parc_RAMPercentage p),
       parc_LoadBalancerPercentage := nanToZero (parc_LoadBalancerPercentage p),
       parc_PVPercentage := nanToZero (parc_PVPercentage p),
       parc_NodeResourceCostPercentage := nanToZero (parc_NodeResourceCostPercentage p),
       parc_GPUTotalCost := nanToZero (parc_GPUTotalCost p),
       parc_GPUProportionalCost := nanToZero (parc_GPUProportionalCost p),
       parc_CPUTotalCost := nanToZero (parc_CPUTotalCost p),
       parc_CPUProportionalCost := nanToZero (parc_CPUProportionalCost p),
       parc_RAMTotalCost := nanToZero (parc_RAMTotalCost p),
       parc_RAMProportionalCost := nanToZero (parc_RAMProportionalCost p),
       parc_LoadBalancerProportionalCost := nanToZero (parc_LoadBalancerProportionalCost p),
       parc_LoadBalancerTotalCost := nanToZero (parc_LoadBalancerTotalCost p),
       parc_PVProportionalCost := nanToZero (parc_PVProportionalCost p),
       parc_PVTotalCost := nanToZero (parc_PVTotalCost p)\<rparr>"

definition parcsSanitizeNaN :: "parcs option \<Rightarrow> parcs option" where
  "parcsSanitizeNaN ps = map_option (map (\<lambda>(k, p). (k, parcSanitizeNaN p))) ps"

section \<open>Shared cost breakdowns\<close>

definition scbClone :: "scbs option \<Rightarrow> scbs option" where
  "scbClone ss = Some (entries ss)"

definition scbInsert :: "sharedCostBreakdown \<Rightarrow> scbs \<Rightarrow> scbs" where
  "scbInsert scb scbs =
     (case map_of scbs (scb_Name scb) of
        Some current \<Rightarrow>
          AList.update (scb_Name scb)
           \<lparr>scb_Name = scb_Name current, scb_TotalCost = fadd (scb_TotalCost current) (scb_TotalCost scb),
            scb_CPUCost = fadd (scb_CPUCost current) (scb_CPUCost scb),
            scb_GPUCost = fadd (scb_GPUCost current) (scb_GPUCost scb),
            scb_RAMCost = fadd (scb_RAMCost current) (scb_RAMCost scb),
            scb_PVCost = fadd (scb_PVCost current) (scb_PVCost scb),
            scb_NetworkCost = fadd (scb_NetworkCost current) (scb_NetworkCost scb),
            scb_LBCost = fadd (scb_LBCost current) (scb_LBCost scb),
            scb_ExternalCost = fadd (scb_ExternalCost current) (scb_ExternalCost scb)\<rparr> scbs
      | None \<Rightarrow> AList.update (scb_Name scb) scb scbs)"

definition scbAdd :: "scbs \<Rightarrow> scbs \<Rightarrow> scbs" where
  "scbAdd scbs that' = fold (\<lambda>(_, scb). scbInsert scb) that' scbs"

definition scbSanitizeNaN :: "sharedCostBreakdown \<Rightarrow> sharedCostBreakdown" where
  "scbSanitizeNaN s =
     s\<lparr>scb_CPUCost := nanToZero (scb_CPUCost s), scb_GPUCost := nanToZero (scb_GPUCost s),
       scb_RAMCost := nanToZero (scb_RAMCost s), scb_PVCost := nanToZero (scb_PVCost s),
       scb_NetworkCost := nanToZero (scb_NetworkCost s), scb_LBCost := nanToZero (scb_LBCost s),
       scb_ExternalCost := nanToZero (scb_ExternalCost s), scb_TotalCost := nanToZero (scb_TotalCost s)\<rparr>"

definition scbsSanitizeNaN :: "scbs option \<Rightarrow> scbs option" where
  "scbsSanitizeNaN ss = map_option (map (\<lambda>(k, s). (k, scbSanitizeNaN s))) ss"

section \<open>Costs of an allocation\<close>

definition sumOf :: "('v \<Rightarrow> float64) \<Rightarrow> ('k \<times> 'v) list \<Rightarrow> float64" where
  "sumOf f m = fold (\<lambda>(_, v) c. fadd c (f v)) m (Fin 0)"

definition pvEntries :: "allocation \<Rightarrow> pvAllocations" where
  "pvEntries a = (case al_PVs a of None \<Rightarrow> [] | Some m \<Rightarrow> m)"

definition PVCost :: "allocation \<Rightarrow> float64" where
  "PVCost a = sumOf pv_Cost (pvEntries a)"

definition PVByteHours :: "allocation \<Rightarrow> float64" where
  "PVByteHours a = sumOf pv_ByteHours (pvEntries a)"

definition CPUTotalCost :: "allocation \<Rightarrow> float64" where
  "CPUTotalCost a = fadd (al_CPUCost a) (al_CPUCostAdjustment a)"

definition GPUTotalCost :: "allocation \<Rightarrow> float64" where
  "GPUTotalCost a = fadd (al_GPUCost a) (al_GPUCostAdjustment a)"

definition RAMTotalCost :: "allocation \<Rightarrow> float64" where
  "RAMTotalCost a = fadd (al_RAMCost a) (al_RAMCostAdjustment a)"

definition PVTotalCost :: "allocation \<Rightarrow> float64" where
  "PVTotalCost a = fadd (PVCost a) (al_PVCostAdjustment a)"

definition NetworkTotalCost :: "allocation \<Rightarrow> float64" where
  "NetworkTotalCost a = fadd (al_NetworkCost a) (al_NetworkCostAdjustment a)"

definition LoadBalancerTotalCost :: "allocation \<Rightarrow> float64" where
  "LoadBalancerTotalCost a = fadd (al_LoadBalancerCost a) (al_LoadBalancerCostAdjustment a)"

definition LBTotalCost :: "allocation \<Rightarrow> float64" where
  "LBTotalCost a = LoadBalancerTotalCost a"

definition SharedTotalCost :: "allocation \<Rightarrow> float64" where
  "SharedTotalCost a = al_SharedCost a"

definition TotalCost :: "allocation \<Rightarrow> float64" where
  "TotalCost a =
     fadd (fadd (fadd (fadd (fadd (fadd (fadd (CPUTotalCost a) (GPUTotalCost a)) (RAMTotalCost a)) (PVTotalCost a))
       (NetworkTotalCost a)) (LBTotalCost a)) (SharedTotalCost a)) (al_ExternalCost a)"

definition efficiency :: "float64 \<Rightarrow> float64 \<Rightarrow> float64 \<Rightarrow> float64" where
  "efficiency request usage whole =
     (if flt (Fin 0) request then fdiv usage request
      else if feq usage (Fin 0) \<or> feq whole (Fin 0) then Fin 0
      else Fin 1)"

definition CPUEfficiency :: "allocation \<Rightarrow> float64" where
  "CPUEfficiency a = efficiency (al_CPUCoreRequestAverage a) (al_CPUCoreUsageAverage a) (CPUTotalCost a)"

definition RAMEfficiency :: "allocation \<Rightarrow> float64" where
  "RAMEfficiency a = efficiency (al_RAMBytesRequestAverage a) (al_RAMBytesUsageAverage a) (RAMTotalCost a)"

definition GPUEfficiency :: "allocation \<Rightarrow> float64" where
  "GPUEfficiency a =
     (case al_GPUAllocation a of
        None \<Rightarrow> Fin 0
      | Some g \<Rightarrow>
          (case (gpu_GPURequestAverage g, gpu_GPUUsageAverage g) of
             (Some request, Some usage) \<Rightarrow>
               if flt (Fin 0) request \<and> flt (Fin 0) usage then fdiv usage request
               else if feq request (Fin 0) \<or> feq (GPUTotalCost a) (Fin 0) then Fin 0
               else Fin 1
           | _ \<Rightarrow> Fin 0))"

definition TotalEfficiency :: "allocation \<Rightarrow> float64" where
  "TotalEfficiency a =
     (if flt (Fin 0) (fadd (RAMTotalCost a) (CPUTotalCost a))
      then fdiv (fadd (fmul (RAMEfficiency a) (RAMTotalCost a)) (fmul (CPUEfficiency a) (CPUTotalCost a)))
             (fadd (CPUTotalCost a) (RAMTotalCost a))
      else Fin 0)"

definition allocResolution :: "allocation \<Rightarrow> duration" where
  "allocResolution a = timeSub (al_End a) (al_Start a)"

definition allocMinutes :: "allocation \<Rightarrow> float64" where
  "allocMinutes a = durMinutes (timeSub (al_End a) (al_Start a))"

definition perHour :: "allocation \<Rightarrow> float64 \<Rightarrow> float64" where
  "perHour a x =
     (if fle (allocMinutes a) (Fin 0) then Fin 0 else fdiv x (fdiv (allocMinutes a) (Fin 60)))"

definition CPUCores :: "allocation \<Rightarrow> float64" where "CPUCores a = perHour a (al_CPUCoreHours a)"
definition RAMBytes :: "allocation \<Rightarrow> float64" where "RAMBytes a = perHour a (al_RAMByteHours a)"
definition GPUs :: "allocation \<Rightarrow> float64" where "GPUs a = perHour a (al_GPUHours a)"
definition PVBytes :: "allocation \<Rightarrow> float64" where "PVBytes a = perHour a (PVByteHours a)"

definition ResetAdjustments :: "allocation \<Rightarrow> allocation" where
  "ResetAdjustments a =
     a\<lparr>al_CPUCostAdjustment := Fin 0, al_GPUCostAdjustment := Fin 0, al_RAMCostAdjustment := Fin 0,
       al_PVCostAdjustment := Fin 0, al_NetworkCostAdjustment := Fin 0, al_LoadBalancerCostAdjustment := Fin 0\<rparr>"

definition IsAggregated :: "allocation option \<Rightarrow> bool" where
  "IsAggregated a = (case a of None \<Rightarrow> True | Some x \<Rightarrow> al_Properties x = None)"

definition IsExternal :: "allocation \<Rightarrow> bool" where
  "IsExternal a = containsStr (al_Name a) ExternalSuffix"

definition IsIdle :: "allocation \<Rightarrow> bool" where
  "IsIdle a = containsStr (al_Name a) IdleSuffix"

definition IsUnallocated :: "allocation \<Rightarrow> bool" where
  "IsUnallocated a = containsStr (al_Name a) UnallocatedSuffix"

definition IsUnmounted :: "allocation \<Rightarrow> bool" where
  "IsUnmounted a = containsStr (al_Name a) UnmountedSuffix"

definition SetUnmountedPVCost :: "allocation \<Rightarrow> float64 \<times> allocation" where
  "SetUnmountedPVCost a =
     (if IsUnmounted a then (PVTotalCost a, a\<lparr>al_UnmountedPVCost := PVTotalCost a\<rparr>) else (Fin 0, a))"

section \<open>Copies, comparison, NaN\<close>

definition allocClone :: "allocation \<Rightarrow> allocation" where
  "allocClone a =
     a\<lparr>al_Properties := propsClone (al_Properties a), al_Window := windowClone (al_Window a),
       al_PVs := pvClone (al_PVs a), al_RawAllocationOnly := rawClone (al_RawAllocationOnly a),
       al_ProportionalAssetResourceCosts := parcClone (al_ProportionalAssetResourceCosts a),
       al_SharedCostBreakdown := scbClone (al_SharedCostBreakdown a),
       al_LoadBalancers := lbClone (al_LoadBalancers a), al_GPUAllocation := gpuClone (al_GPUAllocation a)\<rparr>"

text \<open>The comparison returns the allocations too: that of the properties sorts their services.\<close>

definition allocEqual :: "allocation \<Rightarrow> allocation \<Rightarrow> bool \<times> allocation \<times> allocation" where
  "allocEqual a that' =
     (if al_Name a \<noteq> al_Name that' then (False, a, that')
      else (let (eq, p, q) = propsEqualPtr (al_Properties a) (al_Properties that')
            in (eq \<and> windowEqual (al_Window a) (al_Window that') \<and> timeEqual (al_Start a) (al_Start that') \<and>
         timeEqual (al_End a) (al_End that') \<and>
         IsApproximately (al_CPUCoreHours a) (al_CPUCoreHours that') \<and>
         IsApproximately (al_CPUCost a) (al_CPUCost that') \<and>
         IsApproximately (al_CPUCostIdle a) (al_CPUCostIdle that') \<and>
         IsApproximately (al_CPUCostAdjustment a) (al_CPUCostAdjustment that') \<and>
         IsApproximately (al_GPUHours a) (al_GPUHours that') \<and>
         IsApproximately (al_GPUCost a) (al_GPUCost that') \<and>
         IsApproximately (al_GPUCostIdle a) (al_GPUCostIdle that') \<and>
         IsApproximately (al_GPUCostAdjustment a) (al_GPUCostAdjustment that') \<and>
         IsApproximately (al_NetworkTransferBytes a) (al_NetworkTransferBytes that') \<and>
         IsApproximately (al_NetworkReceiveBytes a) (al_NetworkReceiveBytes that') \<and>
         IsApproximately (al_NetworkCost a) (al_NetworkCost that') \<and>
         IsApproximately (al_NetworkCrossZoneCost a) (al_NetworkCrossZoneCost that') \<and>
         IsApproximately (al_NetworkCrossRegionCost a) (al_NetworkCrossRegionCost that') \<and>
         IsApproximately (al_NetworkInternetCost a) (al_NetworkInternetCost that') \<and>
         IsApproximately (al_NetworkNatGatewayEgressCost a) (al_NetworkNatGatewayEgressCost that') \<and>
         IsApproximately (al_NetworkNatGatewayIngressCost a) (al_NetworkNatGatewayIngressCost that') \<and>
         IsApproximately (al_NetworkCostAdjustment a) (al_NetworkCostAdjustment that') \<and>
         IsApproximately (al_LoadBalancerCost a) (al_LoadBalancerCost that') \<and>
         IsApproximately (al_LoadBalancerCostAdjustment a) (al_LoadBalancerCostAdjustment that') \<and>
         IsApproximately (al_PVCostAdjustment a) (al_PVCostAdjustment that') \<and>
         IsApproximately (al_RAMByteHours a) (al_RAMByteHours that') \<and>
         IsApproximately (al_RAMCost a) (al_RAMCost that') \<and>
         IsApproximately (al_RAMCostIdle a) (al_RAMCostIdle that') \<and>
         IsApproximately (al_RAMCostAdjustment a) (al_RAMCostAdjustment that') \<and>
         IsApproximately (al_SharedCost a) (al_SharedCost that') \<and>
         IsApproximately (al_ExternalCost a) (al_ExternalCost that') \<and>
         rawEqual (al_RawAllocationOnly a) (al_RawAllocationOnly that') \<and> pvEqual (al_PVs a) (al_PVs that') \<and>
         IsApproximately (al_UnmountedPVCost a) (al_UnmountedPVCost that') \<and>
         gpuEqual (al_GPUAllocation a) (al_GPUAllocation that'),
         a\<lparr>al_Properties := p\<rparr>, that'\<lparr>al_Properties := q\<rparr>)))"

definition allocSanitizeNaN :: "allocation \<Rightarrow> allocation" where
  "allocSanitizeNaN a =
     a\<lparr>al_CPUCost := nanToZero (al_CPUCost a), al_CPUCostIdle := nanToZero (al_CPUCostIdle a),
       al_CPUCoreRequestAverage := nanToZero (al_CPUCoreRequestAverage a),
       al_CPUCoreLimitAverage := nanToZero (al_CPUCoreLimitAverage a),
       al_CPUCoreHours := nanToZero (al_CPUCoreHours a),
       al_CPUCoreUsageAverage := nanToZero (al_CPUCoreUsageAverage a),
       al_CPUCostAdjustment := nanToZero (al_CPUCostAdjustment a),
       al_GPUHours := nanToZero (al_GPUHours a), al_GPUCost := nanToZero (al_GPUCost a),
       al_GPUCostIdle := nanToZero (al_GPUCostIdle a),
       al_GPUCostAdjustment := nanToZero (al_GPUCostAdjustment a),
       al_NetworkTransferBytes := nanToZero (al_NetworkTransferBytes a),
       al_NetworkReceiveBytes := nanToZero (al_NetworkReceiveBytes a),
       al_NetworkCost := nanToZero (al_NetworkCost a),
       al_NetworkCrossZoneCost := nanToZero (al_NetworkCrossZoneCost a),
       al_NetworkCrossRegionCost := nanToZero (al_NetworkCrossRegionCost a),
       al_NetworkInternetCost := nanToZero (al_NetworkInternetCost a),
       al_NetworkNatGatewayEgressCost := nanToZero (al_NetworkNatGatewayEgressCost a),
       al_NetworkNatGatewayIngressCost := nanToZero (al_NetworkNatGatewayIngressCost a),
       al_NetworkCostAdjustment := nanToZero (al_NetworkCostAdjustment a),
       al_LoadBalancerCost := nanToZero (al_LoadBalancerCost a),
       al_LoadBalancerCostAdjustment := nanToZero (al_LoadBalancerCostAdjustment a),
       al_PVCostAdjustment := nanToZero (al_PVCostAdjustment a),
       al_RAMByteHours := nanToZero (al_RAMByteHours a),
       al_RAMBytesRequestAverage := nanToZero (al_RAMBytesRequestAverage a),
       al_RAMBytesLimitAverage := nanToZero (al_RAMBytesLimitAverage a),
       al_RAMBytesUsageAverage := nanToZero (al_RAMBytesUsageAverage a),
       al_RAMCost := nanToZero (al_RAMCost a), al_RAMCostIdle := nanToZero (al_RAMCostIdle a),
       al_RAMCostAdjustment := nanToZero (al_RAMCostAdjustment a),
       al_SharedCost := nanToZero (al_SharedCost a), al_ExternalCost := nanToZero (al_ExternalCost a),
       al_PVs := pvSanitizeNaN (al_PVs a), al_RawAllocationOnly := rawSanitizeNaN (al_RawAllocationOnly a),
       al_GPUAllocation := gpuSanitizeNaN (al_GPUAllocation a),
       al_ProportionalAssetResourceCosts := parcsSanitizeNaN (al_ProportionalAssetResourceCosts a),
       al_SharedCostBreakdown := scbsSanitizeNaN (al_SharedCostBreakdown a),
       al_LoadBalancers := lbsSanitizeNaN (al_LoadBalancers a)\<rparr>"

section \<open>Sums\<close>

definition generateKey :: "allocation option \<Rightarrow> string list \<Rightarrow> labelConfig option \<Rightarrow> string" where
  "generateKey a aggregateBy labelConfig =
     (case a of None \<Rightarrow> [] | Some x \<Rightarrow> GenerateKey (al_Properties x) aggregateBy labelConfig)"

text \<open>
  The properties of a sum: what the two have in common, with a controller chosen where the rest
  of the key is the same and the controllers are not.
\<close>

definition addKey :: "allocation \<Rightarrow> string" where
  "addKey a = generateKey (Some a) [''cluster'', ''node'', ''namespace'', ''pod'', ''container''] None"

definition addProperties :: "allocation \<Rightarrow> allocation \<Rightarrow> allocationProperties option" where
  "addProperties a that' =
     (let ip = Intersection (al_Properties a) (al_Properties that')
      in case (al_Properties a, al_Properties that') of
           (Some l, Some r) \<Rightarrow>
             if addKey a = addKey that' \<and> pr_Controller l \<noteq> pr_Controller r
             then map_option (\<lambda>p. p\<lparr>pr_Controller :=
                    (if pr_Controller l = [] then pr_Controller r
                     else if pr_Controller r = [] then pr_Controller l
                     else hd (sortStrings [pr_Controller l, pr_Controller r]))\<rparr>) ip
             else ip
         | _ \<Rightarrow> ip)"

definition addParcs :: "parcs option \<Rightarrow> parcs option \<Rightarrow> parcs option \<times> parcs option" where
  "addParcs p q =
     (if p \<noteq> None \<or> q \<noteq> None then (Some (parcAdd (entries p) (entries q)), Some (entries q)) else (p, q))"

definition addScbs :: "scbs option \<Rightarrow> scbs option \<Rightarrow> scbs option \<times> scbs option" where
  "addScbs p q =
     (if p \<noteq> None \<or> q \<noteq> None then (Some (scbAdd (entries p) (entries q)), Some (entries q)) else (p, q))"

text \<open>A rate times the minutes of its allocation, summed over both.\<close>

definition addMins :: "(allocation \<Rightarrow> float64) \<Rightarrow> allocation \<Rightarrow> allocation \<Rightarrow> float64" where
  "addMins f a that' = fadd (fmul (f a) (allocMinutes a)) (fmul (f that') (allocMinutes that'))"

definition gpuRate :: "(gpuAllocation \<Rightarrow> float64 option) \<Rightarrow> allocation \<Rightarrow> float64 option" where
  "gpuRate f a = (case al_GPUAllocation a of None \<Rightarrow> None | Some g \<Rightarrow> f g)"

definition addGpuMins :: "(gpuAllocation \<Rightarrow> float64 option) \<Rightarrow> allocation \<Rightarrow> allocation \<Rightarrow> float64 option" where
  "addGpuMins f a that' =
     (let mins = map_option (\<lambda>x. fmul x (allocMinutes a)) (gpuRate f a)
      in case gpuRate f that' of
           None \<Rightarrow> mins
         | Some y \<Rightarrow>
             Some (case mins of
                     None \<Rightarrow> fmul y (allocMinutes that')
                   | Some x \<Rightarrow> fadd x (fmul y (allocMinutes that'))))"

definition addGpu :: "allocation \<Rightarrow> allocation \<Rightarrow> float64 \<Rightarrow> gpuAllocation option" where
  "addGpu a that' m =
     (let g = (if al_GPUAllocation a = None \<and> al_GPUAllocation that' \<noteq> None
               then gpuClone (al_GPUAllocation that') else al_GPUAllocation a)
      in map_option
           (\<lambda>g. if flt (Fin 0) m
             then g\<lparr>gpu_GPURequestAverage := map_option (\<lambda>x. fdiv x m) (addGpuMins gpu_GPURequestAverage a that'),
                    gpu_GPUUsageAverage := map_option (\<lambda>x. fdiv x m) (addGpuMins gpu_GPUUsageAverage a that')\<rparr>
             else g\<lparr>gpu_GPURequestAverage := None, gpu_GPUUsageAverage := None\<rparr>) g)"

text \<open>Start and end of the sum, and the rates converted back over its minutes.\<close>

definition addTimes :: "allocation \<Rightarrow> allocation \<Rightarrow> gotime \<times> gotime" where
  "addTimes a that' =
     (if timeBefore (al_Start that') (al_Start a) then al_Start that' else al_Start a,
      if timeAfter (al_End that') (al_End a) then al_End that' else al_End a)"

definition addRates :: "allocation \<Rightarrow> allocation \<Rightarrow> allocation \<Rightarrow> allocation" where
  "addRates a that' b =
     (let (s, e) = addTimes a that'; m = durMinutes (timeSub e s);
          b1 = b\<lparr>al_Start := s, al_End := e, al_GPUAllocation := addGpu a that' m\<rparr>
      in if flt (Fin 0) m
         then b1\<lparr>al_CPUCoreRequestAverage := fdiv (addMins al_CPUCoreRequestAverage a that') m,
              al_CPUCoreLimitAverage := fdiv (addMins al_CPUCoreLimitAverage a that') m,
              al_CPUCoreUsageAverage := fdiv (addMins al_CPUCoreUsageAverage a that') m,
              al_RAMBytesRequestAverage := fdiv (addMins al_RAMBytesRequestAverage a that') m,
              al_RAMBytesLimitAverage := fdiv (addMins al_RAMBytesLimitAverage a that') m,
              al_RAMBytesUsageAverage := fdiv (addMins al_RAMBytesUsageAverage a that') m\<rparr>
         else b1\<lparr>al_CPUCoreRequestAverage := Fin 0, al_CPUCoreLimitAverage := Fin 0,
              al_CPUCoreUsageAverage := Fin 0, al_RAMBytesRequestAverage := Fin 0,
              al_RAMBytesLimitAverage := Fin 0, al_RAMBytesUsageAverage := Fin 0\<rparr>)"

text \<open>The receiver and the argument: nil maps of the argument are replaced by empty ones.\<close>

definition allocAdd :: "allocation \<Rightarrow> allocation \<Rightarrow> allocation \<times> allocation" where
  "allocAdd a that' =
     (let (ps, ps') = addParcs (al_ProportionalAssetResourceCosts a) (al_ProportionalAssetResourceCosts that');
          (ss, ss') = addScbs (al_SharedCostBreakdown a) (al_SharedCostBreakdown that');
          b = (addRates a that' a)
        \<lparr>al_Properties := addProperties a that', al_ProportionalAssetResourceCosts := ps, al_SharedCostBreakdown := ss,
         al_Window := Expand (al_Window a) (al_Window that'),
         al_CPUCoreHours := fadd (al_CPUCoreHours a) (al_CPUCoreHours that'),
         al_GPUHours := fadd (al_GPUHours a) (al_GPUHours that'),
         al_RAMByteHours := fadd (al_RAMByteHours a) (al_RAMByteHours that'),
         al_NetworkTransferBytes := fadd (al_NetworkTransferBytes a) (al_NetworkTransferBytes that'),
         al_NetworkReceiveBytes := fadd (al_NetworkReceiveBytes a) (al_NetworkReceiveBytes that'),
         al_CPUCost := fadd (al_CPUCost a) (al_CPUCost that'),
         al_GPUCost := fadd (al_GPUCost a) (al_GPUCost that'),
         al_RAMCost := fadd (al_RAMCost a) (al_RAMCost that'),
         al_CPUCostIdle := fadd (al_CPUCostIdle a) (al_CPUCostIdle that'),
         al_GPUCostIdle := fadd (al_GPUCostIdle a) (al_GPUCostIdle that'),
         al_RAMCostIdle := fadd (al_RAMCostIdle a) (al_RAMCostIdle that'),
         al_NetworkCost := fadd (al_NetworkCost a) (al_NetworkCost that'),
         al_NetworkCrossZoneCost := fadd (al_NetworkCrossZoneCost a) (al_NetworkCrossZoneCost that'),
         al_NetworkCrossRegionCost := fadd (al_NetworkCrossRegionCost a) (al_NetworkCrossRegionCost that'),
         al_NetworkInternetCost := fadd (al_NetworkInternetCost a) (al_NetworkInternetCost that'),
         al_NetworkNatGatewayEgressCost := fadd (al_NetworkNatGatewayEgressCost a) (al_NetworkNatGatewayEgressCost that'),
         al_NetworkNatGatewayIngressCost := fadd (al_NetworkNatGatewayIngressCost a) (al_NetworkNatGatewayIngressCost that'),
         al_LoadBalancerCost := fadd (al_LoadBalancerCost a) (al_LoadBalancerCost that'),
         al_SharedCost := fadd (al_SharedCost a) (al_SharedCost that'),
         al_ExternalCost := fadd (al_ExternalCost a) (al_ExternalCost that'),
         al_UnmountedPVCost := fadd (al_UnmountedPVCost a) (al_UnmountedPVCost that'),
         al_PVs := pvAdd (al_PVs a) (al_PVs that'),
         al_CPUCostAdjustment := fadd (al_CPUCostAdjustment a) (al_CPUCostAdjustment that'),
         al_RAMCostAdjustment := fadd (al_RAMCostAdjustment a) (al_RAMCostAdjustment that'),
         al_GPUCostAdjustment := fadd (al_GPUCostAdjustment a) (al_GPUCostAdjustment that'),
         al_PVCostAdjustment := fadd (al_PVCostAdjustment a) (al_PVCostAdjustment that'),
         al_NetworkCostAdjustment := fadd (al_NetworkCostAdjustment a) (al_NetworkCostAdjustment that'),
         al_LoadBalancerCostAdjustment := fadd (al_LoadBalancerCostAdjustment a) (al_LoadBalancerCostAdjustment that'),
         al_LoadBalancers := lbAdd (al_LoadBalancers a) (al_LoadBalancers that'), al_RawAllocationOnly := None\<rparr>
      in (b, that'\<lparr>al_ProportionalAssetResourceCosts := ps', al_SharedCostBreakdown := ss'\<rparr>))"

text \<open>\<^verbatim>\<open>Add\<close> and \<^verbatim>\<open>Share\<close> on pointers; the second result is the argument after the call.\<close>

definition allocAddPtr ::
  "allocation option \<Rightarrow> allocation option \<Rightarrow> allocation option \<times> allocation option" where
  "allocAddPtr a that' =
     (case (a, that') of
        (None, t) \<Rightarrow> (map_option allocClone t, t)
      | (Some x, None) \<Rightarrow> (Some (allocClone x), None)
      | (Some x, Some y) \<Rightarrow> (let (agg, y') = allocAdd (allocClone x) y in (Some agg, Some y')))"

definition Share :: "allocation option \<Rightarrow> allocation option \<Rightarrow> string + allocation option" where
  "Share a that' =
     (case that' of
        None \<Rightarrow> Inr (map_option allocClone a)
      | Some t \<Rightarrow>
          (case a of
             None \<Rightarrow> Inl ''cannot share with nil Allocation''
           | Some x \<Rightarrow>
               (let agg = allocClone x
                in Inr (Some (agg\<lparr>al_SharedCost := fadd (al_SharedCost agg) (TotalCost t)\<rparr>)))))"

definition migrateAllocation :: "nat \<Rightarrow> nat \<Rightarrow> allocation \<Rightarrow> allocation" where
  "migrateAllocation fromVersion toVersion a =
     (if fromVersion = 22 \<and> 23 \<le> toVersion
      then a\<lparr>al_GPUAllocation :=
             Some \<lparr>gpu_GPUDevice = [], gpu_GPUModel = [], gpu_GPUUUID = [], gpu_IsGPUShared = None,
                   gpu_GPUUsageAverage = Some (al_deprecatedGPUUsageAverage a),
                   gpu_GPURequestAverage = Some (al_deprecatedGPURequestAverage a)\<rparr>\<rparr>
      else a)"

section \<open>Access by property\<close>

definition StringProperty :: "allocation \<Rightarrow> string \<Rightarrow> string + string" where
  "StringProperty a property =
     (let get = (\<lambda>f. Inr (case al_Properties a of None \<Rightarrow> [] | Some p \<Rightarrow> f p))
      in if property = AllocationClusterProp then get pr_Cluster
         else if property = AllocationNodeProp then get pr_Node
         else if property = AllocationContainerProp then get pr_Container
         else if property = AllocationControllerProp then get pr_Controller
         else if property = AllocationControllerKindProp then get pr_ControllerKind
         else if property = AllocationNamespaceProp then get pr_Namespace
         else if property = AllocationPodProp then get pr_Pod
         else if property = AllocationProviderIDProp then get pr_ProviderID
         else Inl (''Allocation: StringProperty: invalid property name: '' @ property))"

definition StringSliceProperty :: "allocation \<Rightarrow> string \<Rightarrow> string + string list" where
  "StringSliceProperty a property =
     (if property = AllocationServiceProp
      then Inr (case al_Properties a of None \<Rightarrow> [] | Some p \<Rightarrow> pr_Services p)
      else Inl (''Allocation: StringSliceProperty: invalid property name: '' @ property))"

definition StringMapProperty :: "allocation \<Rightarrow> string \<Rightarrow> string + string gomap option" where
  "StringMapProperty a property =
     (if property = AllocationLabelProp
      then Inr (case al_Properties a of None \<Rightarrow> None | Some p \<Rightarrow> pr_Labels p)
      else if property = AllocationAnnotationProp
      then Inr (case al_Properties a of None \<Rightarrow> None | Some p \<Rightarrow> pr_Annotations p)
      else Inl (''Allocation: StringMapProperty: invalid property name: '' @ property))"

section \<open>Fields that sums add\<close>

text \<open>
  What a field of an allocation has to satisfy to be totalled by sums: it is added, the argument
  of a sum keeps it, and neither a copy nor another window changes it.
\<close>

locale summed_field =
  fixes f :: "allocation \<Rightarrow> float64"
  assumes f_add: "f (fst (allocAdd a b)) = fadd (f a) (f b)"
    and f_arg: "f (snd (allocAdd a b)) = f b"
    and f_window: "f (a\<lparr>al_Window := w\<rparr>) = f a"
    and f_clone: "f (allocClone a) = f a"
begin

lemma add_comm: "f (fst (allocAdd a b)) = f (fst (allocAdd b a))"
  by (simp add: f_add fadd_comm)

end

definition summedFields :: "(allocation \<Rightarrow> float64) list" where
  "summedFields =
     [al_CPUCoreHours, al_GPUHours, al_RAMByteHours, al_NetworkTransferBytes, al_NetworkReceiveBytes,
      al_CPUCost, al_GPUCost, al_RAMCost, al_CPUCostIdle, al_GPUCostIdle, al_RAMCostIdle,
      al_NetworkCost, al_NetworkCrossZoneCost, al_NetworkCrossRegionCost, al_NetworkInternetCost,
      al_NetworkNatGatewayEgressCost, al_NetworkNatGatewayIngressCost, al_LoadBalancerCost,
      al_SharedCost, al_ExternalCost, al_UnmountedPVCost, al_CPUCostAdjustment, al_RAMCostAdjustment,
      al_GPUCostAdjustment, al_PVCostAdjustment, al_NetworkCostAdjustment, al_LoadBalancerCostAdjustment]"

definition rateFields :: "(allocation \<Rightarrow> float64) list" where
  "rateFields = [al_CPUCoreRequestAverage, al_CPUCoreLimitAverage, al_CPUCoreUsageAverage,
      al_RAMBytesRequestAverage, al_RAMBytesLimitAverage, al_RAMBytesUsageAverage]"

lemmas allocAdd_simps = allocAdd_def addRates_def Let_def case_prod_unfold

lemma summed_fields: "list_all summed_field summedFields"
  by (simp add: summedFields_def summed_field_def allocAdd_simps allocClone_def)

lemma summed_fieldI: "f \<in> set summedFields \<Longrightarrow> summed_field f"
  using summed_fields by (simp add: list_all_iff)

interpretation cpuCost: summed_field al_CPUCost
  by (rule summed_fieldI) (simp add: summedFields_def)

interpretation ramCost: summed_field al_RAMCost
  by (rule summed_fieldI) (simp add: summedFields_def)

interpretation sharedCost: summed_field al_SharedCost
  by (rule summed_fieldI) (simp add: summedFields_def)


section \<open>Sums in either order\<close>

lemma allocAdd_times:
  "tm_ns (al_Start (fst (allocAdd a b))) = min (tm_ns (al_Start a)) (tm_ns (al_Start b))"
  "tm_ns (al_End (fst (allocAdd a b))) = max (tm_ns (al_End a)) (tm_ns (al_End b))"
  by (auto simp: allocAdd_simps addTimes_def time_order)

lemma addMins_comm: "addMins f a b = addMins f b a"
  by (simp add: addMins_def fadd_comm)

lemma addTimes_minutes: "timeSub (snd (addTimes a b)) (fst (addTimes a b)) = timeSub (snd (addTimes b a)) (fst (addTimes b a))"
  by (auto simp: addTimes_def timeSub_def time_order)

lemma rates_comm: "f \<in> set rateFields \<Longrightarrow> f (fst (allocAdd a b)) = f (fst (allocAdd b a))"
  by (auto simp: rateFields_def allocAdd_simps addMins_comm [of _ a b] addTimes_minutes [of a b])

lemma Expand_comm: "\<not> IsOpen w \<Longrightarrow> \<not> IsOpen x \<Longrightarrow> windowEqual (Expand w x) (Expand x w)"
  by (auto simp: IsOpen_def windowEqual_def timesDiffer_def Expand_def ExpandStart_def ExpandEnd_def Let_def time_order
      split: option.splits)

lemma allocAdd_window: "al_Window (fst (allocAdd a b)) = Expand (al_Window a) (al_Window b)"
  by (simp add: allocAdd_simps)

section \<open>Maps merged entry by entry\<close>

lemma map_of_fold_update:
  assumes "\<And>k v m. map_of (g (k, v) m) = (map_of m)(k \<mapsto> upd v (map_of m k))" and "distinct (map fst ts)"
  shows "map_of (fold g ts m) k = (case map_of ts k of None \<Rightarrow> map_of m k | Some v \<Rightarrow> Some (upd v (map_of m k)))"
  using assms(2)
proof (induction ts arbitrary: m)
  case (Cons t ts)
  obtain k' v where t: "t = (k', v)" by (cases t)
  with Cons.prems have n: "map_of ts k' = None" by (simp add: map_of_eq_None_iff)
  have "map_of (g (k', v) m) = (map_of m)(k' \<mapsto> upd v (map_of m k'))" by (rule assms(1))
  with Cons.IH [of "g (k', v) m"] Cons.prems t n show ?case by (cases "k = k'") (simp_all split: option.split)
qed simp

definition pvMap :: "pvAllocations option \<Rightarrow> pvKey \<Rightarrow> pvAllocation option" where
  "pvMap pvs k = map_of (case pvs of None \<Rightarrow> [] | Some m \<Rightarrow> m) k"

definition pvMerge :: "pvAllocation \<Rightarrow> pvAllocation option \<Rightarrow> pvAllocation" where
  "pvMerge t v =
     (let a = (case v of None \<Rightarrow> zeroPV | Some a \<Rightarrow> a)
      in a\<lparr>pv_Cost := fadd (pv_Cost a) (pv_Cost t), pv_ByteHours := fadd (pv_ByteHours a) (pv_ByteHours t),
           pv_ProviderID := (if pv_ProviderID a = pv_ProviderID t then pv_ProviderID a else [])\<rparr>)"

lemma map_of_pvClone: "pvMap (pvClone p) k = map_option (\<lambda>v. v\<lparr>pv_Adjustment := Fin 0\<rparr>) (pvMap p k)"
proof -
  have "map_of (map (\<lambda>(k, v). (k, h v)) m) k = map_option h (map_of m k)" for h :: "pvAllocation \<Rightarrow> pvAllocation" and m
    by (induction m) auto
  then show ?thesis by (cases p; cases "pvMap p k") (simp_all add: pvMap_def pvClone_def)
qed

lemma pvAdd_map:
  assumes "distinct (map fst (case q of None \<Rightarrow> [] | Some m \<Rightarrow> m))"
  shows "pvMap (pvAdd p q) k =
    (case pvMap q k of None \<Rightarrow> pvMap (pvClone p) k | Some t \<Rightarrow> Some (pvMerge t (pvMap (pvClone p) k)))"
proof (cases q)
  case (Some ts)
  have "map_of (fold pvAddOne ts m) k = (case map_of ts k of None \<Rightarrow> map_of m k | Some v \<Rightarrow> Some (pvMerge v (map_of m k)))" for m
    by (rule map_of_fold_update) (use assms Some in \<open>simp_all add: pvAddOne_def pvMerge_def Let_def update_conv'\<close>)
  with Some show ?thesis by (simp add: pvMap_def pvAdd_def Let_def split: option.split)
qed (simp add: pvMap_def pvAdd_def)

section \<open>Keys of volumes\<close>

lemma length_splitByte: "length (splitByte c s) = Suc (count_list s c)"
  by (induction s) (auto split: list.split)

lemma pvKey_roundtrip:
  "pvKeyFromString (pvKeyString k) = Inr k \<longleftrightarrow> CHR '':'' \<notin> set (pvk_Cluster k) \<and> CHR '':'' \<notin> set (pvk_Name k)"
proof
  assume "CHR '':'' \<notin> set (pvk_Cluster k) \<and> CHR '':'' \<notin> set (pvk_Name k)"
  then have c: "CHR '':'' \<notin> set (''cluster='' @ pvk_Cluster k)" and n: "CHR '':'' \<notin> set (''name='' @ pvk_Name k)"
    by simp_all
  have "splitByte (CHR '':'') (pvKeyString k) = [''cluster='' @ pvk_Cluster k, ''name='' @ pvk_Name k]"
    using splitByte_append [OF c, of "''name='' @ pvk_Name k"] splitByte_free [OF n] by (simp add: pvKeyString_def)
  then show "pvKeyFromString (pvKeyString k) = Inr k"
    by (simp add: pvKeyFromString_def trimPrefix_def hasPrefix_def)
next
  assume r: "pvKeyFromString (pvKeyString k) = Inr k"
  then have "length (splitByte (CHR '':'') (pvKeyString k)) = 2"
    by (auto simp: pvKeyFromString_def split: list.splits)
  then have "count_list (pvk_Cluster k) (CHR '':'') + count_list (pvk_Name k) (CHR '':'') = 0"
    unfolding length_splitByte by (simp add: pvKeyString_def)
  then show "CHR '':'' \<notin> set (pvk_Cluster k) \<and> CHR '':'' \<notin> set (pvk_Name k)"
    by (simp add: count_list_0_iff)
qed


section \<open>Removing NaN\<close>

text \<open>The numbers of an allocation that \<^verbatim>\<open>SanitizeNaN\<close> looks at.\<close>

definition sanitizedFields :: "(allocation \<Rightarrow> float64) list" where
  "sanitizedFields =
     [al_CPUCost, al_CPUCostIdle, al_CPUCoreRequestAverage, al_CPUCoreLimitAverage, al_CPUCoreHours,
      al_CPUCoreUsageAverage, al_CPUCostAdjustment, al_GPUHours, al_GPUCost, al_GPUCostIdle,
      al_GPUCostAdjustment, al_NetworkTransferBytes, al_NetworkReceiveBytes, al_NetworkCost,
      al_NetworkCrossZoneCost, al_NetworkCrossRegionCost, al_NetworkInternetCost,
      al_NetworkNatGatewayEgressCost, al_NetworkNatGatewayIngressCost, al_NetworkCostAdjustment,
      al_LoadBalancerCost, al_LoadBalancerCostAdjustment, al_PVCostAdjustment, al_RAMByteHours,
      al_RAMBytesRequestAverage, al_RAMBytesLimitAverage, al_RAMBytesUsageAverage, al_RAMCost,
      al_RAMCostIdle, al_RAMCostAdjustment, al_SharedCost, al_ExternalCost]"

definition pvNumbers :: "pvAllocation \<Rightarrow> float64 list" where
  "pvNumbers v = [pv_ByteHours v, pv_Cost v]"

definition lbNumbers :: "lbAllocation \<Rightarrow> float64 list" where
  "lbNumbers l = [lb_Cost l, lb_Hours l]"

definition optNumber :: "float64 option \<Rightarrow> float64 list" where
  "optNumber x = (case x of None \<Rightarrow> [] | Some y \<Rightarrow> [y])"

definition rawNumbers :: "rawAllocationOnlyData \<Rightarrow> float64 list" where
  "rawNumbers r = [raw_CPUCoreUsageMax r, raw_RAMBytesUsageMax r] @ optNumber (raw_GPUUsageMax r)"

definition gpuNumbers :: "gpuAllocation \<Rightarrow> float64 list" where
  "gpuNumbers g = optNumber (gpu_GPURequestAverage g) @ optNumber (gpu_GPUUsageAverage g)"

definition parcNumbers :: "proportionalAssetResourceCost \<Rightarrow> float64 list" where
  "parcNumbers p =
     [parc_CPUPercentage p, parc_GPUPercentage p, parc_RAMPercentage p, parc_LoadBalancerPercentage p,
      parc_PVPercentage p, parc_NodeResourceCostPercentage p, parc_GPUTotalCost p,
      parc_GPUProportionalCost p, parc_CPUTotalCost p, parc_CPUProportionalCost p, parc_RAMTotalCost p,
      parc_RAMProportionalCost p, parc_LoadBalancerProportionalCost p, parc_LoadBalancerTotalCost p,
      parc_PVProportionalCost p, parc_PVTotalCost p]"

definition scbNumbers :: "sharedCostBreakdown \<Rightarrow> float64 list" where
  "scbNumbers s = [scb_TotalCost s, scb_CPUCost s, scb_GPUCost s, scb_RAMCost s, scb_PVCost s, scb_NetworkCost s,
      scb_LBCost s, scb_ExternalCost s]"

definition ptrNumbers :: "('a \<Rightarrow> float64 list) \<Rightarrow> 'a option \<Rightarrow> float64 list" where
  "ptrNumbers nums x = (case x of None \<Rightarrow> [] | Some y \<Rightarrow> nums y)"

definition mapNumbers :: "('v \<Rightarrow> float64 list) \<Rightarrow> ('k \<times> 'v) list option \<Rightarrow> float64 list" where
  "mapNumbers nums m = ptrNumbers (\<lambda>es. concat (map (\<lambda>(_, v). nums v) es)) m"

definition allocNumbers :: "allocation \<Rightarrow> float64 list" where
  "allocNumbers a =
     map (\<lambda>f. f a) sanitizedFields @ mapNumbers pvNumbers (al_PVs a) @ ptrNumbers rawNumbers (al_RawAllocationOnly a) @
     ptrNumbers gpuNumbers (al_GPUAllocation a) @ mapNumbers parcNumbers (al_ProportionalAssetResourceCosts a) @
     mapNumbers scbNumbers (al_SharedCostBreakdown a) @ mapNumbers lbNumbers (al_LoadBalancers a)"

text \<open>A pass over the values behind a pointer or in a map removes NaN, and changes nothing without NaN.\<close>

lemma nan_simps [simp]:
  "nanToZero x \<noteq> NaN" "x \<noteq> NaN \<Longrightarrow> nanToZero x = x" "NaN \<notin> set (optNumber (nanToNil y))"
  "NaN \<notin> set (optNumber y) \<Longrightarrow> nanToNil y = y"
  by (auto simp: nanToZero_def nanToNil_def optNumber_def split: option.splits)

lemma nan_simps' [simp]: "NaN \<noteq> nanToZero x" "NaN \<noteq> x \<Longrightarrow> nanToZero x = x"
  by (auto simp: nanToZero_def)

definition cleans :: "('v \<Rightarrow> float64 list) \<Rightarrow> ('v \<Rightarrow> 'v) \<Rightarrow> bool" where
  "cleans nums g \<longleftrightarrow> (\<forall>v. NaN \<notin> set (nums (g v)) \<and> (NaN \<notin> set (nums v) \<longrightarrow> g v = v))"

lemma cleans_ptr: "cleans nums g \<Longrightarrow> cleans (ptrNumbers nums) (map_option g)"
  unfolding cleans_def
proof (intro allI)
  fix v assume "\<forall>v. NaN \<notin> set (nums (g v)) \<and> (NaN \<notin> set (nums v) \<longrightarrow> g v = v)"
  then show "NaN \<notin> set (ptrNumbers nums (map_option g v)) \<and> (NaN \<notin> set (ptrNumbers nums v) \<longrightarrow> map_option g v = v)"
    by (cases v) (simp_all add: ptrNumbers_def)
qed

lemma cleans_map:
  assumes "cleans nums g"
  shows "cleans (mapNumbers nums) (map_option (map (\<lambda>(k, v). (k, g v))))"
proof -
  have "cleans (\<lambda>es. concat (map (\<lambda>(_, v). nums v) es)) (map (\<lambda>(k, v). (k, g v)))"
    using assms by (fastforce simp: cleans_def intro!: map_idI)
  from cleans_ptr [OF this] show ?thesis unfolding mapNumbers_def .
qed

lemma cleans_parts:
  "cleans (mapNumbers pvNumbers) pvSanitizeNaN" "cleans (ptrNumbers rawNumbers) rawSanitizeNaN"
  "cleans (ptrNumbers gpuNumbers) gpuSanitizeNaN" "cleans (mapNumbers parcNumbers) parcsSanitizeNaN"
  "cleans (mapNumbers scbNumbers) scbsSanitizeNaN" "cleans (mapNumbers lbNumbers) lbsSanitizeNaN"
proof -
  have "cleans pvNumbers pvAllocSanitizeNaN" by (simp add: cleans_def pvNumbers_def pvAllocSanitizeNaN_def)
  then show "cleans (mapNumbers pvNumbers) pvSanitizeNaN"
    unfolding pvSanitizeNaN_def by (rule cleans_map)
  show "cleans (ptrNumbers rawNumbers) rawSanitizeNaN"
    unfolding rawSanitizeNaN_def by (rule cleans_ptr) (simp add: cleans_def rawNumbers_def)
  show "cleans (ptrNumbers gpuNumbers) gpuSanitizeNaN"
    unfolding gpuSanitizeNaN_def by (rule cleans_ptr) (simp add: cleans_def gpuNumbers_def)
  have "cleans parcNumbers parcSanitizeNaN" by (simp add: cleans_def parcNumbers_def parcSanitizeNaN_def)
  then show "cleans (mapNumbers parcNumbers) parcsSanitizeNaN"
    unfolding parcsSanitizeNaN_def by (rule cleans_map)
  have "cleans scbNumbers scbSanitizeNaN" by (simp add: cleans_def scbNumbers_def scbSanitizeNaN_def)
  then show "cleans (mapNumbers scbNumbers) scbsSanitizeNaN"
    unfolding scbsSanitizeNaN_def by (rule cleans_map)
  have "cleans lbNumbers lbSanitizeNaN" by (simp add: cleans_def lbNumbers_def lbSanitizeNaN_def)
  then show "cleans (mapNumbers lbNumbers) lbsSanitizeNaN"
    unfolding lbsSanitizeNaN_def by (rule cleans_map)
qed

lemma allocSanitize_clean: "NaN \<notin> set (allocNumbers (allocSanitizeNaN a))"
  using cleans_parts by (simp add: cleans_def allocNumbers_def sanitizedFields_def allocSanitizeNaN_def)

lemma allocSanitize_id: "NaN \<notin> set (allocNumbers a) \<Longrightarrow> allocSanitizeNaN a = a"
  using cleans_parts by (simp add: cleans_def allocNumbers_def sanitizedFields_def allocSanitizeNaN_def)

end
