(* ===== verification/Filter_Matcher.thy ===== *)
theory Filter_Matcher
  imports Filter_Transform
begin

text \<open>
  The match compiler, \<^verbatim>\<open>core/pkg/filter/matcher\<close>: matchers for a type \<open>'t\<close> of data, their
  \<^verbatim>\<open>Matches\<close> and \<^verbatim>\<open>String\<close> methods, and \<^verbatim>\<open>MatchCompiler.Compile\<close>, a stack machine driven
  by the pre-order traversal. The compiler is shown to implement the meaning \<open>holds\<close> of a
  filter tree, defined by recursion on the tree.

  A field mapper returns an error value, or panics, which is \<open>None\<close>; a method called on a nil
  matcher panics too.
\<close>

section \<open>Matchers\<close>

type_synonym mapError = string

type_synonym ('t, 'u) fieldMapper = "'t \<Rightarrow> ident \<Rightarrow> (mapError + 'u) option"

datatype 't matcher =
    AllPass
  | AllCut
  | AndM "'t matcher list"
  | OrM "'t matcher list"
  | NotM "'t matcher option"
  | StringMatcher filterOp ident string "('t, string) fieldMapper"
  | StringSliceMatcher filterOp ident string "('t, string list) fieldMapper"
  | StringMapMatcher filterOp ident string "('t, string gomap) fieldMapper"

text \<open>\<^verbatim>\<open>MatcherGroup.Add\<close>; only And, Or and Not implement it.\<close>

fun matcherAdd :: "'t matcher \<Rightarrow> 't matcher \<Rightarrow> 't matcher" where
  "matcherAdd (AndM ms) m = AndM (ms @ [m])"
| "matcherAdd (OrM ms) m = OrM (ms @ [m])"
| "matcherAdd (NotM _) m = NotM (Some m)"
| "matcherAdd g m = g"

text \<open>
  The comparisons of the three leaf matchers on the value the mapper found. An operator a
  matcher does not handle is logged and does not match.
\<close>

definition stringMatches :: "filterOp \<Rightarrow> string \<Rightarrow> string \<Rightarrow> bool" where
  "stringMatches op that v =
     (case op of
        FilterOpEquals \<Rightarrow> that = v
      | FilterOpContains \<Rightarrow> containsStr that v
      | FilterOpContainsPrefix \<Rightarrow> hasPrefix that v
      | FilterOpContainsSuffix \<Rightarrow> hasSuffix that v
      | _ \<Rightarrow> False)"

definition sliceMatches :: "filterOp \<Rightarrow> string list \<Rightarrow> string \<Rightarrow> bool" where
  "sliceMatches op that v =
     (case op of
        FilterOpContains \<Rightarrow> (if length that = 0 then v = [] else list_ex (\<lambda>s. s = v) that)
      | FilterOpContainsPrefix \<Rightarrow> list_ex (\<lambda>s. hasPrefix s v) that
      | FilterOpContainsSuffix \<Rightarrow> list_ex (\<lambda>s. hasSuffix s v) that
      | _ \<Rightarrow> False)"

definition mapMatches :: "filterOp \<Rightarrow> string gomap \<Rightarrow> string \<Rightarrow> bool" where
  "mapMatches op that key =
     (case op of
        FilterOpContains \<Rightarrow> mapHas that key
      | FilterOpContainsPrefix \<Rightarrow> list_ex (\<lambda>(k, _). hasPrefix k key) that
      | FilterOpContainsSuffix \<Rightarrow> list_ex (\<lambda>(k, _). hasSuffix k key) that
      | _ \<Rightarrow> False)"

text \<open>A mapper's error is logged and does not match.\<close>

definition mapped :: "(mapError + 'u) option \<Rightarrow> ('u \<Rightarrow> bool) \<Rightarrow> bool option" where
  "mapped r cmp =
     (case r of None \<Rightarrow> None | Some (Inl _) \<Rightarrow> Some False | Some (Inr that) \<Rightarrow> Some (cmp that))"

text \<open>\<^verbatim>\<open>Matches\<close>; the loops of And and Or stop at the first operand that decides.\<close>

fun Matches :: "'t matcher \<Rightarrow> 't \<Rightarrow> bool option"
and matchesAnd :: "'t matcher list \<Rightarrow> 't \<Rightarrow> bool option"
and matchesOr :: "'t matcher list \<Rightarrow> 't \<Rightarrow> bool option" where
  "Matches AllPass that = Some True"
| "Matches AllCut that = Some False"
| "Matches (AndM ms) that = (if length ms = 0 then Some True else matchesAnd ms that)"
| "Matches (OrM ms) that = (if length ms = 0 then Some True else matchesOr ms that)"
| "Matches (NotM None) that = None"
| "Matches (NotM (Some m)) that = map_option Not (Matches m that)"
| "Matches (StringMatcher op i v mapper) that =
     mapped (mapper that i) (\<lambda>s. stringMatches op s v)"
| "Matches (StringSliceMatcher op i v mapper) that =
     mapped (mapper that i) (\<lambda>ss. sliceMatches op ss v)"
| "Matches (StringMapMatcher op i key mapper) that =
     mapped (mapper that i) (\<lambda>m. mapMatches op m key)"
| "matchesAnd [] that = Some True"
| "matchesAnd (m # ms) that =
     (case Matches m that of
        None \<Rightarrow> None
      | Some b \<Rightarrow> if \<not> b then Some False else matchesAnd ms that)"
| "matchesOr [] that = Some False"
| "matchesOr (m # ms) that =
     (case Matches m that of
        None \<Rightarrow> None
      | Some b \<Rightarrow> if b then Some True else matchesOr ms that)"

text \<open>
  The \<^verbatim>\<open>String\<close> methods. And and Or print their operands through \<^verbatim>\<open>fmt.Sprintf\<close>, which
  recovers a panic of the operand's method and prints it.
\<close>

definition stringPanic :: string where
  "stringPanic = ''%!s(PANIC=String method: runtime error: '' @
     ''invalid memory address or nil pointer dereference)''"

definition leafString :: "filterOp \<Rightarrow> ident \<Rightarrow> string \<Rightarrow> string" where
  "leafString op i v =
     ''('' @ filterOpString op @ '' '' @ identifierString i @ '' \"'' @ v @ ''\")''"

fun matcherString :: "'t matcher \<Rightarrow> string option"
and matcherStrings :: "'t matcher list \<Rightarrow> string" where
  "matcherString AllPass = Some ''(AllPass)''"
| "matcherString AllCut = Some ''(AllCut)''"
| "matcherString (AndM ms) = Some (''(and'' @ matcherStrings ms @ '')'')"
| "matcherString (OrM ms) = Some (''(or'' @ matcherStrings ms @ '')'')"
| "matcherString (NotM None) = None"
| "matcherString (NotM (Some m)) = map_option (\<lambda>s. ''(not '' @ s @ '')'') (matcherString m)"
| "matcherString (StringMatcher op i v _) = Some (leafString op i v)"
| "matcherString (StringSliceMatcher op i v _) = Some (leafString op i v)"
| "matcherString (StringMapMatcher op i v _) = Some (leafString op i v)"
| "matcherStrings [] = []"
| "matcherStrings (m # ms) =
     '' '' @ (case matcherString m of None \<Rightarrow> stringPanic | Some s \<Rightarrow> s) @ matcherStrings ms"

section \<open>The compiler\<close>

record 't matchCompiler =
  mc_stringMapper :: "('t, string) fieldMapper"
  mc_sliceMapper :: "('t, string list) fieldMapper"
  mc_mapMapper :: "('t, string gomap) fieldMapper"
  mc_passes :: "pass list"

definition NewMatchCompiler ::
  "('t, string) fieldMapper \<Rightarrow> ('t, string list) fieldMapper \<Rightarrow> ('t, string gomap) fieldMapper \<Rightarrow>
    pass list \<Rightarrow> 't matchCompiler" where
  "NewMatchCompiler stringFieldMapper sliceFieldMapper mapFieldMapper passes =
     \<lparr>mc_stringMapper = stringFieldMapper, mc_sliceMapper = sliceFieldMapper,
      mc_mapMapper = mapFieldMapper, mc_passes = passes\<rparr>"

definition NewStringMatcher :: "'t matchCompiler \<Rightarrow> filterOp \<Rightarrow> ident \<Rightarrow> string \<Rightarrow> 't matcher" where
  "NewStringMatcher mc op i v = StringMatcher op i v (mc_stringMapper mc)"

definition NewStringSliceMatcher :: "'t matchCompiler \<Rightarrow> filterOp \<Rightarrow> ident \<Rightarrow> string \<Rightarrow> 't matcher" where
  "NewStringSliceMatcher mc op i v = StringSliceMatcher op i v (mc_sliceMapper mc)"

definition NewStringMapMatcher :: "'t matchCompiler \<Rightarrow> filterOp \<Rightarrow> ident \<Rightarrow> string \<Rightarrow> 't matcher" where
  "NewStringMapMatcher mc op i key = StringMapMatcher op i key (mc_mapMapper mc)"

text \<open>The variables \<^verbatim>\<open>result\<close> and \<^verbatim>\<open>currentOps\<close> the callback captures.\<close>

record 't compileState =
  co_result :: "'t matcher option"
  co_currentOps :: "'t matcher stack"

definition compileGroup ::
  "'t matcher \<Rightarrow> traversalState \<Rightarrow> 't compileState \<Rightarrow> 't compileState" where
  "compileGroup fresh state st =
     (if state = TraversalStateEnter
      then st\<lparr>co_currentOps := Push fresh (co_currentOps st)\<rparr>
      else if state = TraversalStateExit
      then (if Length (co_currentOps st) > 1
            then (let (current, rest) = Pop AllPass (co_currentOps st)
                  in st\<lparr>co_currentOps := UpdateTop (\<lambda>g. matcherAdd g current) rest\<rparr>)
            else (let (current, rest) = Pop AllPass (co_currentOps st)
                  in st\<lparr>co_result := Some current, co_currentOps := rest\<rparr>))
      else st)"

definition compilePut :: "'t matcher \<Rightarrow> 't compileState \<Rightarrow> 't compileState" where
  "compilePut sm st =
     (if Length (co_currentOps st) = 0 then st\<lparr>co_result := Some sm\<rparr>
      else st\<lparr>co_currentOps := UpdateTop (\<lambda>g. matcherAdd g sm) (co_currentOps st)\<rparr>)"

text \<open>
  The choice of matcher for the contains operators, which reads the field and panics on nil.
\<close>

definition containsMatcher ::
  "'t matchCompiler \<Rightarrow> filterOp \<Rightarrow> ident \<Rightarrow> string \<Rightarrow> 't matcher option" where
  "containsMatcher mc op left right =
     (case id_Field left of
        None \<Rightarrow> None
      | Some f \<Rightarrow>
          Some (if isSlice f then NewStringSliceMatcher mc op left right
                else if isMap f \<and> id_Key left = [] then NewStringMapMatcher mc op left right
                else NewStringMatcher mc op left right))"

text \<open>The callback \<^verbatim>\<open>handleLeaf\<close>; the state is \<open>None\<close> after a panic.\<close>

fun handleLeaf ::
  "'t matchCompiler \<Rightarrow> filterNode \<Rightarrow> traversalState \<Rightarrow> 't compileState option \<Rightarrow> 't compileState option" where
  "handleLeaf mc (AndOp _) state st = map_option (compileGroup (AndM []) state) st"
| "handleLeaf mc (OrOp _) state st = map_option (compileGroup (OrM []) state) st"
| "handleLeaf mc (NotOp _) state st = map_option (compileGroup (NotM None) state) st"
| "handleLeaf mc ContradictionOp state st = map_option (compilePut AllCut) st"
| "handleLeaf mc (EqualOp l r) state st =
     map_option (compilePut (NewStringMatcher mc FilterOpEquals l r)) st"
| "handleLeaf mc (ContainsOp l r) state st =
     (case containsMatcher mc FilterOpContains l r of
        None \<Rightarrow> None | Some sm \<Rightarrow> map_option (compilePut sm) st)"
| "handleLeaf mc (ContainsPrefixOp l r) state st =
     (case containsMatcher mc FilterOpContainsPrefix l r of
        None \<Rightarrow> None | Some sm \<Rightarrow> map_option (compilePut sm) st)"
| "handleLeaf mc (ContainsSuffixOp l r) state st =
     (case containsMatcher mc FilterOpContainsSuffix l r of
        None \<Rightarrow> None | Some sm \<Rightarrow> map_option (compilePut sm) st)"
| "handleLeaf mc VoidOp state st = st"
| "handleLeaf mc NilNode state st = st"

datatype compileError = ApplyingPasses passError

definition compileTree :: "'t matchCompiler \<Rightarrow> filterNode \<Rightarrow> 't matcher option" where
  "compileTree mc f =
     map_option (\<lambda>st. case co_result st of None \<Rightarrow> AllPass | Some m \<Rightarrow> m)
       (PreOrderTraversal f (handleLeaf mc) (Some \<lparr>co_result = None, co_currentOps = NewStack\<rparr>))"

definition Compile :: "'t matchCompiler \<Rightarrow> filterNode \<Rightarrow> (compileError + 't matcher) option" where
  "Compile mc f =
     (case ApplyAll f (mc_passes mc) of
        None \<Rightarrow> None
      | Some (Inl err) \<Rightarrow> Some (Inl (ApplyingPasses err))
      | Some (Inr f') \<Rightarrow>
          if f' = VoidOp then Some (Inr AllPass) else map_option Inr (compileTree mc f'))"

section \<open>The meaning of a filter\<close>

text \<open>The comparison a leaf makes: what \<open>Matches\<close> says of the matcher chosen for it.\<close>

definition leafHolds :: "'t matchCompiler \<Rightarrow> filterOp \<Rightarrow> ident \<Rightarrow> string \<Rightarrow> 't \<Rightarrow> bool option" where
  "leafHolds mc op i v that =
     (case id_Field i of
        None \<Rightarrow> None
      | Some f \<Rightarrow>
          if op \<noteq> FilterOpEquals \<and> isSlice f
          then mapped (mc_sliceMapper mc that i) (\<lambda>ss. sliceMatches op ss v)
          else if op \<noteq> FilterOpEquals \<and> isMap f \<and> id_Key i = []
          then mapped (mc_mapMapper mc that i) (\<lambda>m. mapMatches op m v)
          else mapped (mc_stringMapper mc that i) (\<lambda>s. stringMatches op s v))"

text \<open>
  \<open>holds mc n that\<close>: the Boolean reading of a tree, where \<open>leaf\<close> decides the comparisons. A
  conjunction or disjunction without operands is true.
\<close>

fun holds :: "(filterOp \<Rightarrow> ident \<Rightarrow> string \<Rightarrow> bool) \<Rightarrow> filterNode \<Rightarrow> bool" where
  "holds leaf NilNode = True"
| "holds leaf VoidOp = True"
| "holds leaf ContradictionOp = False"
| "holds leaf (AndOp ns) = (\<forall>n \<in> set ns. holds leaf n)"
| "holds leaf (OrOp ns) = (ns = [] \<or> (\<exists>n \<in> set ns. holds leaf n))"
| "holds leaf (NotOp n) = (\<not> holds leaf n)"
| "holds leaf (EqualOp i v) = leaf FilterOpEquals i v"
| "holds leaf (ContainsOp i v) = leaf FilterOpContains i v"
| "holds leaf (ContainsPrefixOp i v) = leaf FilterOpContainsPrefix i v"
| "holds leaf (ContainsSuffixOp i v) = leaf FilterOpContainsSuffix i v"

text \<open>A leaf whose mapper does not panic.\<close>

definition leafBool :: "'t matchCompiler \<Rightarrow> 't \<Rightarrow> filterOp \<Rightarrow> ident \<Rightarrow> string \<Rightarrow> bool" where
  "leafBool mc that op i v = (leafHolds mc op i v that = Some True)"

fun leafDefined :: "'t matchCompiler \<Rightarrow> 't \<Rightarrow> filterNode \<Rightarrow> bool" where
  "leafDefined mc that n =
     (case leafParts n of None \<Rightarrow> True | Some (op, i, v) \<Rightarrow> leafHolds mc op i v that \<noteq> None)"

section \<open>The compiler implements the meaning\<close>

fun compileFresh :: "filterNode \<Rightarrow> 't matcher" where
  "compileFresh (AndOp _) = AndM []"
| "compileFresh (OrOp _) = OrM []"
| "compileFresh _ = NotM None"

fun compileLeaf :: "'t matchCompiler \<Rightarrow> filterNode \<Rightarrow> 't matcher option" where
  "compileLeaf mc ContradictionOp = Some AllCut"
| "compileLeaf mc (EqualOp l r) = Some (NewStringMatcher mc FilterOpEquals l r)"
| "compileLeaf mc (ContainsOp l r) = containsMatcher mc FilterOpContains l r"
| "compileLeaf mc (ContainsPrefixOp l r) = containsMatcher mc FilterOpContainsPrefix l r"
| "compileLeaf mc (ContainsSuffixOp l r) = containsMatcher mc FilterOpContainsSuffix l r"
| "compileLeaf mc _ = None"

definition compileSt :: "unit \<Rightarrow> 't matcher option \<Rightarrow> 't matcher list \<Rightarrow> 't compileState option" where
  "compileSt e r gs = Some \<lparr>co_result = r, co_currentOps = stk gs\<rparr>"

text \<open>The leaves on which the callback does not panic: those with a field.\<close>

definition hasField :: "filterNode \<Rightarrow> bool" where
  "hasField n = (case leafParts n of None \<Rightarrow> True | Some (_, i, _) \<Rightarrow> id_Field i \<noteq> None)"

lemma compileLeaf_cases:
  assumes "\<not> isGroup n" and "n \<noteq> NilNode" and "hasField n"
  shows "n = VoidOp \<and> compileLeaf mc n = None \<or>
    (\<exists>m. compileLeaf mc n = Some m \<and>
      (\<forall>state st. handleLeaf mc n state st = map_option (compilePut m) st))"
  using assms by (cases n) (auto simp: hasField_def containsMatcher_def)

interpretation comp: group_walk "handleLeaf mc" compileSt compileFresh matcherAdd "\<lambda>g. g"
  "compileLeaf mc" "\<lambda>_ e. e" hasField for mc :: "'t matchCompiler"
proof unfold_locales
  fix n e r and gs :: "'t matcher list"
  assume "isGroup n"
  then show "handleLeaf mc n TraversalStateEnter (compileSt e r gs) = compileSt e r (compileFresh n # gs)"
    by (cases n) (simp_all add: compileGroup_def compileSt_def stack_simps)
next
  fix n e r g g' and gs :: "'t matcher list"
  assume "isGroup n"
  then show "handleLeaf mc n TraversalStateExit (compileSt e r (g # g' # gs)) =
    compileSt e r (matcherAdd g' g # gs)"
    by (cases n) (simp_all add: compileGroup_def compileSt_def stack_simps)
next
  fix n e r and g :: "'t matcher"
  assume "isGroup n"
  then show "handleLeaf mc n TraversalStateExit (compileSt e r [g]) = compileSt e (Some g) []"
    by (cases n) (simp_all add: compileGroup_def compileSt_def stack_simps)
next
  fix n e r and gs :: "'t matcher list"
  assume "\<not> isGroup n" "n \<noteq> NilNode" "hasField n" and "compileLeaf mc n = None"
  with compileLeaf_cases [of n mc]
  show "handleLeaf mc n TraversalStateNone (compileSt e r gs) = compileSt e r gs" by auto
next
  fix n m e r g and gs :: "'t matcher list"
  assume "\<not> isGroup n" "n \<noteq> NilNode" "hasField n" and "compileLeaf mc n = Some m"
  with compileLeaf_cases [of n mc]
  show "handleLeaf mc n TraversalStateNone (compileSt e r (g # gs)) = compileSt e r (matcherAdd g m # gs)"
    by (auto simp: compilePut_def compileSt_def stack_simps)
next
  fix n e r and m :: "'t matcher"
  assume "\<not> isGroup n" "n \<noteq> NilNode" "hasField n" and "compileLeaf mc n = Some m"
  with compileLeaf_cases [of n mc]
  show "handleLeaf mc n TraversalStateNone (compileSt e r []) = compileSt e (Some m) []"
    by (auto simp: compilePut_def compileSt_def stack_simps)
qed

abbreviation matcherFold :: "'t matchCompiler \<Rightarrow> filterNode \<Rightarrow> 't matcher option" where
  "matcherFold mc \<equiv> groupFold compileFresh matcherAdd (\<lambda>g. g) (compileLeaf mc)"

lemma compileTree_groupFold:
  fixes mc :: "'t matchCompiler"
  assumes "\<forall>l \<in> set (leaves n). hasField l"
  shows "compileTree mc n = Some (case matcherFold mc n of None \<Rightarrow> AllPass | Some m \<Rightarrow> m)"
proof -
  have "(Some \<lparr>co_result = None, co_currentOps = NewStack\<rparr> :: 't compileState option) =
    compileSt () None []"
    by (simp add: compileSt_def stack_simps)
  then have "PreOrderTraversal n (handleLeaf mc) (Some \<lparr>co_result = None, co_currentOps = NewStack\<rparr>) =
    compileSt () (matcherFold mc n) []"
    using comp.walk_root [OF assms, of mc "()" None] by (cases "matcherFold mc n") auto
  then show ?thesis by (simp add: compileTree_def compileSt_def)
qed

lemma solid_leaves: "solid n \<Longrightarrow> l \<in> set (leaves n) \<Longrightarrow> hasField l \<and> l \<noteq> VoidOp"
  by (induction n) (auto simp: hasField_def)

text \<open>The matchers of the operands, appended to a fresh group in order.\<close>

lemma fold_matcherAdd:
  assumes "\<And>n. n \<in> set ns \<Longrightarrow> h n = Some (f n)"
  shows "fold (\<lambda>n. addOpt matcherAdd (h n)) ns (AndM ms) = AndM (ms @ map f ns)"
    and "fold (\<lambda>n. addOpt matcherAdd (h n)) ns (OrM ms) = OrM (ms @ map f ns)"
  using assms by (induction ns arbitrary: ms) simp_all

lemma matchesAnd_all:
  assumes "\<And>n. n \<in> set ns \<Longrightarrow> Matches (f n) that = Some (p n)"
  shows "matchesAnd (map f ns) that = Some (\<forall>n \<in> set ns. p n)"
  using assms by (induction ns) simp_all

lemma matchesOr_ex:
  assumes "\<And>n. n \<in> set ns \<Longrightarrow> Matches (f n) that = Some (p n)"
  shows "matchesOr (map f ns) that = Some (\<exists>n \<in> set ns. p n)"
  using assms by (induction ns) simp_all

lemma compileLeaf_Matches:
  assumes "leafParts n = Some (op, i, v)" and "id_Field i \<noteq> None"
  shows "\<exists>m. compileLeaf mc n = Some m \<and> Matches m that = leafHolds mc op i v that"
  using assms
  by (cases n) (auto simp: leafHolds_def containsMatcher_def NewStringMatcher_def
    NewStringSliceMatcher_def NewStringMapMatcher_def)

text \<open>
  On a solid tree whose leaves do not panic for \<open>that\<close>, the matcher built for the tree decides
  its meaning.
\<close>

lemma matcherFold_Matches:
  assumes "solid n" and "\<forall>l \<in> set (leaves n). leafDefined mc that l"
  shows "\<exists>m. matcherFold mc n = Some m \<and> Matches m that = Some (holds (leafBool mc that) n)"
  using assms
proof (induction n)
  case (AndOp ns)
  then have "\<forall>n \<in> set ns. \<exists>m. matcherFold mc n = Some m \<and>
    Matches m that = Some (holds (leafBool mc that) n)" by auto
  then obtain f where f: "\<And>n. n \<in> set ns \<Longrightarrow> matcherFold mc n = Some (f n)"
    "\<And>n. n \<in> set ns \<Longrightarrow> Matches (f n) that = Some (holds (leafBool mc that) n)" by metis
  have "matchesAnd (map f ns) that = Some (\<forall>n \<in> set ns. holds (leafBool mc that) n)"
    by (rule matchesAnd_all) (rule f(2))
  with f(1) show ?case by (auto simp: fold_matcherAdd [where f = f])
next
  case (OrOp ns)
  then have "\<forall>n \<in> set ns. \<exists>m. matcherFold mc n = Some m \<and>
    Matches m that = Some (holds (leafBool mc that) n)" by auto
  then obtain f where f: "\<And>n. n \<in> set ns \<Longrightarrow> matcherFold mc n = Some (f n)"
    "\<And>n. n \<in> set ns \<Longrightarrow> Matches (f n) that = Some (holds (leafBool mc that) n)" by metis
  have "matchesOr (map f ns) that = Some (\<exists>n \<in> set ns. holds (leafBool mc that) n)"
    by (rule matchesOr_ex) (rule f(2))
  with f(1) show ?case by (auto simp: fold_matcherAdd [where f = f])
next
  case (NotOp n)
  then show ?case by auto
next
  case (EqualOp i v)
  then show ?case using compileLeaf_Matches [of "EqualOp i v" _ i v mc that]
    by (auto simp: leafBool_def)
next
  case (ContainsOp i v)
  then show ?case using compileLeaf_Matches [of "ContainsOp i v" _ i v mc that]
    by (auto simp: leafBool_def)
next
  case (ContainsPrefixOp i v)
  then show ?case using compileLeaf_Matches [of "ContainsPrefixOp i v" _ i v mc that]
    by (auto simp: leafBool_def)
next
  case (ContainsSuffixOp i v)
  then show ?case using compileLeaf_Matches [of "ContainsSuffixOp i v" _ i v mc that]
    by (auto simp: leafBool_def)
qed simp_all

text \<open>
  A compiler whose passes succeed with the tree \<open>n'\<close> returns a matcher that decides the meaning
  of \<open>n'\<close>.
\<close>

lemma Compile_meaning:
  assumes "ApplyAll n (mc_passes mc) = Some (Inr n')" and "n' = VoidOp \<or> solid n'"
  shows "\<exists>m. Compile mc n = Some (Inr m) \<and>
    (\<forall>that. (\<forall>l \<in> set (leaves n'). leafDefined mc that l) \<longrightarrow>
      Matches m that = Some (holds (leafBool mc that) n'))"
proof (cases "n' = VoidOp")
  case True
  with assms(1) show ?thesis by (simp add: Compile_def)
next
  case False
  with assms(2) have s: "solid n'" by blast
  then have "\<forall>l \<in> set (leaves n'). hasField l" using solid_leaves by blast
  from compileTree_groupFold [OF this] False assms(1)
  have "Compile mc n = Some (Inr (case matcherFold mc n' of None \<Rightarrow> AllPass | Some m \<Rightarrow> m))"
    by (simp add: Compile_def)
  moreover have "Matches (case matcherFold mc n' of None \<Rightarrow> AllPass | Some m \<Rightarrow> m) that =
      Some (holds (leafBool mc that) n')" if "\<forall>l \<in> set (leaves n'). leafDefined mc that l" for that
    using matcherFold_Matches [OF s that] by auto
  ultimately show ?thesis by blast
qed

section \<open>Passes and the meaning of a tree\<close>

text \<open>
  A pass that rewrites each leaf to a tree with the meaning the leaf has rewrites every tree to
  one with the same meaning. \<open>refines L' n' L n\<close>: under the leaf semantics \<open>L'\<close> the solid
  tree \<open>n'\<close> means what \<open>n\<close> means under \<open>L\<close>.
\<close>

definition refines ::
  "(filterOp \<Rightarrow> ident \<Rightarrow> string \<Rightarrow> bool) \<Rightarrow> filterNode \<Rightarrow> (filterOp \<Rightarrow> ident \<Rightarrow> string \<Rightarrow> bool) \<Rightarrow> filterNode \<Rightarrow> bool" where
  "refines L' n' L n \<longleftrightarrow> solid n' \<and> holds L' n' = holds L n"

lemma refines_groups:
  assumes "list_all2 (\<lambda>n' n. refines L' n' L n) ns' ns"
  shows "refines L' (AndOp ns') L (AndOp ns)" and "refines L' (OrOp ns') L (OrOp ns)"
proof -
  from assms have "(\<forall>n' \<in> set ns'. solid n') \<and>
    ((\<forall>n' \<in> set ns'. holds L' n') = (\<forall>n \<in> set ns. holds L n)) \<and>
    ((\<exists>n' \<in> set ns'. holds L' n') = (\<exists>n \<in> set ns. holds L n)) \<and> (ns' = [] \<longleftrightarrow> ns = [])"
    by (induction rule: list_all2_induct) (auto simp: refines_def)
  then show "refines L' (AndOp ns') L (AndOp ns)" and "refines L' (OrOp ns') L (OrOp ns)"
    by (auto simp: refines_def)
qed

lemma mutateLeaves_refines:
  assumes "\<And>l. \<not> isGroup l \<Longrightarrow> solid l \<Longrightarrow> \<exists>l'. g l = Some l' \<and> refines L' l' L l"
  shows "solid n \<Longrightarrow> \<exists>n'. mutateLeaves g n = Some n' \<and> refines L' n' L n"
    and "\<forall>n \<in> set ns. solid n \<Longrightarrow>
      \<exists>ns'. mutateOperands g ns = Some ns' \<and> list_all2 (\<lambda>n' n. refines L' n' L n) ns' ns"
proof (induction n and ns rule: filterNode_list_induct)
  case (And ns)
  then show ?case using refines_groups(1) [of L' L _ ns] by auto
next
  case (Or ns)
  then show ?case using refines_groups(2) [of L' L _ ns] by auto
next
  case (Not n)
  then show ?case by (auto simp: refines_def)
next
  case (Cons n ns)
  then obtain n' ns' where "mutateLeaves g n = Some n'" "refines L' n' L n"
    "mutateOperands g ns = Some ns'" "list_all2 (\<lambda>n' n. refines L' n' L n) ns' ns" by auto
  then show ?case by auto
qed (use assms in auto)

text \<open>The same for \<^verbatim>\<open>TransformLeaves\<close>, whose transformer reports no error on the leaves.\<close>

lemma TransformLeaves_refines:
  assumes "\<And>l. \<not> isGroup l \<Longrightarrow> solid l \<Longrightarrow> ok l \<Longrightarrow> \<exists>l'. t l s = (l', s) \<and> refines L' l' L l"
  shows "solid n \<Longrightarrow> \<forall>l \<in> set (leaves n). ok l \<Longrightarrow> \<exists>n'. TransformLeaves n t s = (n', s) \<and> refines L' n' L n"
    and "\<forall>n \<in> set ns. solid n \<and> (\<forall>l \<in> set (leaves n). ok l) \<Longrightarrow>
      \<exists>ns'. TransformOperands ns t s = (ns', s) \<and> list_all2 (\<lambda>n' n. refines L' n' L n) ns' ns"
proof (induction n and ns rule: filterNode_list_induct)
  case (And ns)
  then show ?case using refines_groups(1) [of L' L _ ns] by auto
next
  case (Or ns)
  then show ?case using refines_groups(2) [of L' L _ ns] by auto
next
  case (Not n)
  then show ?case by (auto simp: refines_def)
next
  case (Cons n ns)
  then obtain n' ns' where "TransformLeaves n t s = (n', s)" "refines L' n' L n"
    "TransformOperands ns t s = (ns', s)" "list_all2 (\<lambda>n' n. refines L' n' L n) ns' ns" by auto
  then show ?case by auto
qed (use assms in auto)

text \<open>The leaf semantics before the two general passes, given the semantics after them.\<close>

definition sanitized :: "(filterOp \<Rightarrow> ident \<Rightarrow> string \<Rightarrow> bool) \<Rightarrow> filterOp \<Rightarrow> ident \<Rightarrow> string \<Rightarrow> bool" where
  "sanitized L op i v =
     (if op \<noteq> FilterOpEquals \<and> isMap (the (id_Field i)) \<and> id_Key i = [] then L op i (sanitizeKey v)
      else L op (sanitize i) v)"

definition reallocated :: "(filterOp \<Rightarrow> ident \<Rightarrow> string \<Rightarrow> bool) \<Rightarrow> filterOp \<Rightarrow> ident \<Rightarrow> string \<Rightarrow> bool" where
  "reallocated L op i v = L op i (replaceUnallocated v)"

lemma sanitize_field [simp]: "id_Field (sanitize i) = id_Field i"
  by (simp add: sanitize_def)

lemma promKeySanitize_refines:
  "solid n \<Longrightarrow> \<exists>n'. promKeySanitizePass n = Some (Inr n') \<and> refines L n' (sanitized L) n"
proof -
  have "\<exists>l'. promKeySanitizeLeaf l = Some l' \<and> refines L l' (sanitized L) l" if "\<not> isGroup l" "solid l" for l
    using that by (cases l) (auto simp: sanitizeContains_def sanitized_def refines_def)
  from mutateLeaves_refines(1) [OF this] show "solid n \<Longrightarrow> ?thesis"
    by (fastforce simp: promKeySanitizePass_def)
qed

lemma unallocReplace_refines:
  "solid n \<Longrightarrow> \<exists>n'. unallocReplacePass n = Some (Inr n') \<and> refines L n' (reallocated L) n"
proof -
  have "\<exists>l'. unallocLeaf l = Some l' \<and> refines L l' (reallocated L) l" if "\<not> isGroup l" "solid l" for l
    using that by (cases l) (auto simp: reallocated_def refines_def)
  from mutateLeaves_refines(1) [OF this] show "solid n \<Longrightarrow> ?thesis"
    by (fastforce simp: unallocReplacePass_def)
qed

end
