(* ===== verification/Alloc_Matcher.thy ===== *)
theory Alloc_Matcher
  imports Alloc_Cost Filter_Matcher Filter_Fields Filter_Parser_Correct
begin

text \<open>
  Matching allocations, \<^verbatim>\<open>core/pkg/opencost/allocationmatcher.go\<close>: the maps from identifiers to
  the data of an allocation, the pass that rewrites alias filters to label and annotation
  filters, and the compiler that puts them together. A nil allocation or nil properties are
  \<open>None\<close>.
\<close>

section \<open>Field maps\<close>

definition allocationFieldMap :: "(allocation option, string) fieldMapper" where
  "allocationFieldMap a i =
     (case a of
        None \<Rightarrow> Some (Inl ''cannot map to nil allocation'')
      | Some al \<Rightarrow>
          (case al_Properties al of
             None \<Rightarrow> Some (Inl ''cannot map to nil properties'')
           | Some p \<Rightarrow>
               (case id_Field i of
                  None \<Rightarrow> Some (Inl ''cannot map field from identifier with nil field'')
                | Some f \<Rightarrow>
                    (let name = fld_Name f
                     in Some
                      (if name = FieldNamespace then Inr (pr_Namespace p)
                       else if name = FieldNode then Inr (pr_Node p)
                       else if name = FieldClusterID then Inr (pr_Cluster p)
                       else if name = FieldControllerName then Inr (pr_Controller p)
                       else if name = FieldControllerKind then Inr (pr_ControllerKind p)
                       else if name = FieldPod then Inr (pr_Pod p)
                       else if name = FieldContainer then Inr (pr_Container p)
                       else if name = FieldProvider then Inr (pr_ProviderID p)
                       else if name = FieldAccount then Inl ''account property not implemented''
                       else if name = FieldLabel then Inr (mapStr (entries (pr_Labels p)) (id_Key i))
                       else if name = FieldAnnotation
                       then Inr (mapStr (entries (pr_Annotations p)) (id_Key i))
                       else Inl (''Failed to find string identifier on Allocation: '' @ name))))))"

text \<open>The other two maps read the field and the properties without checking for nil.\<close>

definition allocationSliceFieldMap :: "(allocation option, string list) fieldMapper" where
  "allocationSliceFieldMap a i =
     (case id_Field i of
        None \<Rightarrow> None
      | Some f \<Rightarrow>
          if fld_Name f = FieldServices
          then (case a of
                  None \<Rightarrow> None
                | Some al \<Rightarrow> map_option (\<lambda>p. Inr (pr_Services p)) (al_Properties al))
          else Some (Inl (''Failed to find []string identifier on Allocation: '' @ fld_Name f)))"

definition allocationMapFieldMap :: "(allocation option, string gomap) fieldMapper" where
  "allocationMapFieldMap a i =
     (case id_Field i of
        None \<Rightarrow> None
      | Some f \<Rightarrow>
          if fld_Name f = FieldLabel
          then (case a of
                  None \<Rightarrow> None
                | Some al \<Rightarrow> map_option (\<lambda>p. Inr (entries (pr_Labels p))) (al_Properties al))
          else if fld_Name f = FieldAnnotation
          then (case a of
                  None \<Rightarrow> None
                | Some al \<Rightarrow> map_option (\<lambda>p. Inr (entries (pr_Annotations p))) (al_Properties al))
          else Some (Inl (''Failed to find map[string]string identifier on Allocation: '' @ fld_Name f)))"

section \<open>The alias pass\<close>

definition aliasNameToAliasKey :: "labelConfig \<Rightarrow> string \<rightharpoonup> string" where
  "aliasNameToAliasKey cfg =
     [AliasDepartment \<mapsto> lc_DepartmentLabel cfg,
      AliasEnvironment \<mapsto> lc_EnvironmentLabel cfg,
      AliasOwner \<mapsto> lc_OwnerLabel cfg,
      AliasProduct \<mapsto> lc_ProductLabel cfg,
      AliasTeam \<mapsto> lc_TeamLabel cfg]"

definition allocField :: "string \<Rightarrow> fieldRef" where
  "allocField fld = PlainField AllocationFieldType fld"

definition convertAliasFilter :: "string \<Rightarrow> string \<Rightarrow> filterOp \<Rightarrow> passError + filterNode" where
  "convertAliasFilter aliasKey filterValue op =
     (let reg = defaultFieldByType;
          labelKey = WithKey AllocationFieldType FieldLabel aliasKey;
          annotationKey = WithKey AllocationFieldType FieldAnnotation aliasKey;
          build = (case op of
                     FilterOpEquals \<Rightarrow> Some opsEq
                   | FilterOpContains \<Rightarrow> Some opsContains
                   | FilterOpContainsPrefix \<Rightarrow> Some opsContainsPrefix
                   | FilterOpContainsSuffix \<Rightarrow> Some opsContainsSuffix
                   | _ \<Rightarrow> None)
      in case build of
           None \<Rightarrow> Inl (UnsupportedAliasOp op)
         | Some mk \<Rightarrow>
             (let labelOp = mk reg labelKey filterValue;
                  annotationOp = mk reg annotationKey filterValue;
                  extantCaseNode =
                    opsOr
                      (opsAnd (opsContains reg (allocField FieldLabel) aliasKey) labelOp [])
                      (opsAnd (opsNot (opsContains reg (allocField FieldLabel) aliasKey))
                        (opsAnd (opsContains reg (allocField FieldAnnotation) aliasKey) annotationOp []) [])
                      []
              in Inr (if filterValue = [] \<or> filterValue = unallocatedSuffix
                      then opsOr extantCaseNode
                             (opsAnd (opsNot (opsContains reg (allocField FieldLabel) aliasKey))
                               (opsNot (opsContains reg (allocField FieldAnnotation) aliasKey)) []) []
                      else extantCaseNode)))"

text \<open>The transformer closure; its state is \<^verbatim>\<open>transformErr\<close>.\<close>

definition aliasTransformer ::
  "(string \<rightharpoonup> string) \<Rightarrow> filterNode \<Rightarrow> passError option \<Rightarrow> filterNode \<times> passError option" where
  "aliasTransformer names node err =
     (if err \<noteq> None then (node, err)
      else (case leafParts node of
              None \<Rightarrow> (node, err)
            | Some (op, left, filterValue) \<Rightarrow>
                (case id_Field left of
                   None \<Rightarrow> (node, err)
                 | Some f \<Rightarrow>
                     if \<not> isAlias f then (node, err)
                     else (case names (fld_Name f) of
                             None \<Rightarrow> (node, Some (UnknownAliasField (fld_Name f)))
                           | Some parserAliasKey \<Rightarrow>
                               (case convertAliasFilter parserAliasKey filterValue op of
                                  Inl e \<Rightarrow> (node, Some (AliasConversion e))
                                | Inr newFilter \<Rightarrow> (newFilter, err))))))"

definition allocationAliasPass :: "labelConfig \<Rightarrow> pass" where
  "allocationAliasPass cfg f =
     (let (newFilter, transformErr) = TransformLeaves f (aliasTransformer (aliasNameToAliasKey cfg)) None
      in Some (case transformErr of
                 Some e \<Rightarrow> Inl (AliasPassTransform e)
               | None \<Rightarrow> Inr newFilter))"

definition NewAllocationMatchCompiler :: "labelConfig option \<Rightarrow> allocation option matchCompiler" where
  "NewAllocationMatchCompiler labelConfig =
     NewMatchCompiler allocationFieldMap allocationSliceFieldMap allocationMapFieldMap
       ((case labelConfig of None \<Rightarrow> [] | Some cfg \<Rightarrow> [allocationAliasPass cfg]) @
        [promKeySanitizePass, unallocReplacePass])"

section \<open>What a filter on allocations means\<close>

text \<open>
  An alias filter compares the label of the alias key if the allocation has one, else the
  annotation; without either it matches exactly the filters for unallocated values.
\<close>

definition aliasHolds :: "allocationProperties \<Rightarrow> string \<Rightarrow> filterOp \<Rightarrow> string \<Rightarrow> bool" where
  "aliasHolds p key op v =
     (case map_of (entries (pr_Labels p)) key of
        Some s \<Rightarrow> stringMatches op s (replaceUnallocated v)
      | None \<Rightarrow>
          (case map_of (entries (pr_Annotations p)) key of
             Some s \<Rightarrow> stringMatches op s (replaceUnallocated v)
           | None \<Rightarrow> replaceUnallocated v = []))"

text \<open>An allocation of which only the properties are set.\<close>

definition withProps :: "allocationProperties \<Rightarrow> allocation" where
  "withProps p = zeroAllocation\<lparr>al_Properties := Some p\<rparr>"

lemma al_Properties_withProps [simp]: "al_Properties (withProps p) = Some p"
  by (simp add: withProps_def)

text \<open>
  The meaning of one comparison of a filter on an allocation with the properties \<open>p\<close>: keys of
  labels and annotations in Prometheus form, the value for unallocated as the empty string.
\<close>

definition plainHolds :: "allocationProperties \<Rightarrow> filterOp \<Rightarrow> ident \<Rightarrow> string \<Rightarrow> bool" where
  "plainHolds p =
     sanitized (reallocated (leafBool (NewAllocationMatchCompiler None)
       (Some (withProps p))))"

definition allocLeaf ::
  "labelConfig option \<Rightarrow> allocationProperties \<Rightarrow> filterOp \<Rightarrow> ident \<Rightarrow> string \<Rightarrow> bool" where
  "allocLeaf labelConfig p op i v =
     (case (labelConfig, id_Field i) of
        (Some cfg, Some f) \<Rightarrow>
          if isAlias f
          then (case aliasNameToAliasKey cfg (fld_Name f) of
                  Some key \<Rightarrow> aliasHolds p (sanitizeKey key) op v
                | None \<Rightarrow> False)
          else plainHolds p op i v
      | _ \<Rightarrow> plainHolds p op i v)"

section \<open>The alias pass keeps the meaning\<close>

lemma field_type_simps:
  "isMap (NewMapField n []) = True" "isSlice (NewMapField n []) = False" "isAlias (NewMapField n []) = False"
  "isAlias (NewAliasField n []) = True" "isMap (NewAliasField n []) = False" "isSlice (NewAliasField n []) = False"
  "fld_Name (NewMapField n as) = n" "fld_Name (NewAliasField n as) = n" "fld_Name (NewField n as) = n"
  "fld_Name (NewSliceField n as) = n"
  by (simp_all add: isMap_def isSlice_def isAlias_def NewMapField_def NewAliasField_def NewField_def
      NewSliceField_def fieldTypeWithAttributes_def ftIsMap_def ftIsSlice_def ftIsAlias_def
      FieldTypeMap_def FieldTypeAlias_def FieldTypeSlice_def)

lemma registry_allocation: "defaultFieldByType AllocationFieldType = Some allocationFieldByName"
  by (simp add: defaultFieldByType_def RegisterDefaultFieldLookup_def initialFieldByType_def
      AllocationFieldType_def fieldTypeName_def)

lemma allocationFieldByName_map:
  "allocationFieldByName FieldLabel = Some (NewMapField FieldLabel [])"
  "allocationFieldByName FieldAnnotation = Some (NewMapField FieldAnnotation [])"
  by (simp_all add: allocationFieldByName_def initFieldMap_def field_simps field_type_simps)

text \<open>The two fields an alias filter is rewritten to, and the identifiers built for them.\<close>

definition mapIdent :: "string \<Rightarrow> string \<Rightarrow> ident" where
  "mapIdent fld key = \<lparr>id_Field = Some (NewMapField fld []), id_Key = key\<rparr>"

lemma alloc_identifiers:
  assumes "fld = FieldLabel \<or> fld = FieldAnnotation"
  shows "opsIdentifier defaultFieldByType (WithKey AllocationFieldType fld key) = mapIdent fld key"
    and "opsIdentifier defaultFieldByType (allocField fld) = mapIdent fld []"
proof -
  have f: "CHR ''$'' \<notin> set fld" using assms by (auto simp: FieldLabel_def FieldAnnotation_def)
  have t: "CHR ''$'' \<notin> set AllocationFieldType"
    by (simp add: AllocationFieldType_def fieldTypeName_def)
  show "opsIdentifier defaultFieldByType (WithKey AllocationFieldType fld key) = mapIdent fld key"
    using opsIdentifier_WithKey [OF f t] assms allocationFieldByName_map
    by (auto simp: asField_def registry_allocation mapIdent_def)
  show "opsIdentifier defaultFieldByType (allocField fld) = mapIdent fld []"
    using assms allocationFieldByName_map
    by (auto simp: opsIdentifier_def allocField_def toFieldAndKey_def asField_def registry_allocation mapIdent_def)
qed

lemma sanitizeKey_ne: "k \<noteq> [] \<Longrightarrow> sanitizeKey k \<noteq> []"
proof -
  assume "k \<noteq> []"
  then obtain c s where k: "k = c # s" by (cases k) auto
  show ?thesis
  proof (cases "promKeyRune (fst (decodeRune (c # s)))")
    case True
    with promKeyRune_head k show ?thesis by (simp add: sanitizeKey_keep)
  next
    case False
    with k show ?thesis by (simp add: sanitizeKey_replace)
  qed
qed

definition propsMap :: "allocationProperties \<Rightarrow> string \<Rightarrow> string gomap" where
  "propsMap p fld = (if fld = FieldLabel then entries (pr_Labels p) else entries (pr_Annotations p))"

text \<open>What the two kinds of leaves of a rewritten alias filter say of the allocation.\<close>

lemma plainHolds_has:
  assumes "fld = FieldLabel \<or> fld = FieldAnnotation" and "sanitizeKey key \<noteq> unallocatedSuffix"
  shows "plainHolds p FilterOpContains (mapIdent fld []) key = mapHas (propsMap p fld) (sanitizeKey key)"
proof -
  have "replaceUnallocated (sanitizeKey key) = sanitizeKey key"
    using assms(2) by (simp add: replaceUnallocated_def)
  with assms(1) show ?thesis
    by (auto simp: plainHolds_def sanitized_def reallocated_def leafBool_def leafHolds_def mapIdent_def
        NewAllocationMatchCompiler_def NewMatchCompiler_def allocationMapFieldMap_def field_type_simps
        mapped_def mapMatches_def propsMap_def FieldLabel_def FieldAnnotation_def)
qed

lemma allocationFieldMap_map:
  assumes "fld = FieldLabel \<or> fld = FieldAnnotation"
  shows "allocationFieldMap (Some (withProps p)) (mapIdent fld key) =
    Some (Inr (mapStr (propsMap p fld) key))"
proof -
  have "FieldLabel \<notin> {FieldNamespace, FieldNode, FieldClusterID, FieldControllerName, FieldControllerKind,
      FieldPod, FieldContainer, FieldProvider, FieldAccount}"
    "FieldAnnotation \<notin> {FieldNamespace, FieldNode, FieldClusterID, FieldControllerName, FieldControllerKind,
      FieldPod, FieldContainer, FieldProvider, FieldAccount, FieldLabel}"
    by (simp_all add: field_simps)
  with assms show ?thesis
    by (elim disjE) (simp_all add: allocationFieldMap_def mapIdent_def field_type_simps(7) propsMap_def Let_def)
qed

lemma plainHolds_value:
  assumes "fld = FieldLabel \<or> fld = FieldAnnotation" and "key \<noteq> []"
  shows "plainHolds p op (mapIdent fld key) v =
    stringMatches op (mapStr (propsMap p fld) (sanitizeKey key)) (replaceUnallocated v)"
proof -
  let ?i = "mapIdent fld (sanitizeKey key)"
  have i: "sanitize (mapIdent fld key) = ?i" "id_Field ?i = Some (NewMapField fld [])" "id_Key ?i \<noteq> []"
    "id_Key (mapIdent fld key) \<noteq> []"
    using assms(2) sanitizeKey_ne [OF assms(2)] by (simp_all add: sanitize_def mapIdent_def)
  have "leafHolds (NewAllocationMatchCompiler None) op ?i w (Some (withProps p)) =
    Some (stringMatches op (mapStr (propsMap p fld) (sanitizeKey key)) w)" for w
    using i(2,3) allocationFieldMap_map [OF assms(1)]
    by (simp add: leafHolds_def field_type_simps(1,2) mapped_def NewAllocationMatchCompiler_def NewMatchCompiler_def)
  with i show ?thesis by (simp add: plainHolds_def sanitized_def reallocated_def leafBool_def)
qed

lemma propsMap_simps:
  "propsMap p FieldLabel = entries (pr_Labels p)" "propsMap p FieldAnnotation = entries (pr_Annotations p)"
  by (simp_all add: propsMap_def FieldLabel_def FieldAnnotation_def)

lemma aliasHolds_cases:
  "aliasHolds p k op v \<longleftrightarrow>
     (mapHas (entries (pr_Labels p)) k \<and>
        stringMatches op (mapStr (entries (pr_Labels p)) k) (replaceUnallocated v)) \<or>
     (\<not> mapHas (entries (pr_Labels p)) k \<and> mapHas (entries (pr_Annotations p)) k \<and>
        stringMatches op (mapStr (entries (pr_Annotations p)) k) (replaceUnallocated v)) \<or>
     (\<not> mapHas (entries (pr_Labels p)) k \<and> \<not> mapHas (entries (pr_Annotations p)) k \<and>
        (v = [] \<or> v = unallocatedSuffix))"
  by (auto simp: aliasHolds_def mapHas_def mapStr_def replaceUnallocated_def split: option.split)

text \<open>The tree an alias filter is rewritten to has the meaning of the alias.\<close>

lemma convertAliasFilter_holds:
  assumes op: "op \<in> {FilterOpEquals, FilterOpContains, FilterOpContainsPrefix, FilterOpContainsSuffix}"
    and key: "key \<noteq> []" "sanitizeKey key \<noteq> unallocatedSuffix"
  shows "\<exists>n. convertAliasFilter key v op = Inr n \<and> solid n \<and>
    holds (plainHolds p) n = aliasHolds p (sanitizeKey key) op v"
proof -
  let ?k = "sanitizeKey key"
  have has: "plainHolds p FilterOpContains (mapIdent FieldLabel []) key = mapHas (entries (pr_Labels p)) ?k"
    "plainHolds p FilterOpContains (mapIdent FieldAnnotation []) key = mapHas (entries (pr_Annotations p)) ?k"
    using plainHolds_has [OF _ key(2)] by (simp_all add: propsMap_simps)
  have val: "plainHolds p op' (mapIdent FieldLabel key) v =
      stringMatches op' (mapStr (entries (pr_Labels p)) ?k) (replaceUnallocated v)"
    "plainHolds p op' (mapIdent FieldAnnotation key) v =
      stringMatches op' (mapStr (entries (pr_Annotations p)) ?k) (replaceUnallocated v)" for op'
    using plainHolds_value [OF _ key(1)] by (simp_all add: propsMap_simps)
  have solid: "id_Field (mapIdent f k) \<noteq> None" for f k by (simp add: mapIdent_def)
  have ids: "opsIdentifier defaultFieldByType (WithKey AllocationFieldType FieldLabel k) = mapIdent FieldLabel k"
    "opsIdentifier defaultFieldByType (WithKey AllocationFieldType FieldAnnotation k) = mapIdent FieldAnnotation k"
    "opsIdentifier defaultFieldByType (allocField FieldLabel) = mapIdent FieldLabel []"
    "opsIdentifier defaultFieldByType (allocField FieldAnnotation) = mapIdent FieldAnnotation []" for k
    by (rule alloc_identifiers; simp)+
  note simps = convertAliasFilter_def opsOr_def opsAnd_def opsNot_def ids solid has val aliasHolds_cases Let_def
  from op consider "op = FilterOpEquals" | "op = FilterOpContains" | "op = FilterOpContainsPrefix"
    | "op = FilterOpContainsSuffix" by blast
  then show ?thesis
    by cases (simp_all add: simps opsEq_def opsContains_def opsContainsPrefix_def opsContainsSuffix_def; blast)+
qed

text \<open>Label keys an alias can be resolved with.\<close>

definition labelKeysOk :: "labelConfig \<Rightarrow> bool" where
  "labelKeysOk cfg =
     list_all (\<lambda>k. k \<noteq> [] \<and> sanitizeKey k \<noteq> unallocatedSuffix)
       [lc_DepartmentLabel cfg, lc_EnvironmentLabel cfg, lc_OwnerLabel cfg, lc_ProductLabel cfg, lc_TeamLabel cfg]"

definition aliasKnown :: "filterNode \<Rightarrow> bool" where
  "aliasKnown l =
     (case leafParts l of
        Some (_, i, _) \<Rightarrow>
          (case id_Field i of
             Some f \<Rightarrow> isAlias f \<longrightarrow>
               fld_Name f \<in> {AliasDepartment, AliasEnvironment, AliasOwner, AliasProduct, AliasTeam}
           | None \<Rightarrow> True)
      | None \<Rightarrow> True)"

lemma aliasNameToAliasKey_ok:
  assumes "labelKeysOk cfg" and "n \<in> {AliasDepartment, AliasEnvironment, AliasOwner, AliasProduct, AliasTeam}"
  shows "\<exists>k. aliasNameToAliasKey cfg n = Some k \<and> k \<noteq> [] \<and> sanitizeKey k \<noteq> unallocatedSuffix"
  using assms by (auto simp: labelKeysOk_def aliasNameToAliasKey_def)

lemma leafParts_holds:
  "leafParts l = Some (op, i, v) \<Longrightarrow> holds L l = L op i v \<and>
     op \<in> {FilterOpEquals, FilterOpContains, FilterOpContainsPrefix, FilterOpContainsSuffix} \<and>
     (solid l \<longrightarrow> id_Field i \<noteq> None)"
  by (cases l) auto

lemma leafParts_None: "leafParts l = None \<Longrightarrow> \<not> isGroup l \<Longrightarrow> solid l \<Longrightarrow> l = ContradictionOp"
  by (cases l) auto

lemma alias_leaf_refines:
  assumes keys: "labelKeysOk cfg" and l: "\<not> isGroup l" "solid l" "aliasKnown l"
  shows "\<exists>l'. aliasTransformer (aliasNameToAliasKey cfg) l None = (l', None) \<and>
    refines (plainHolds p) l' (allocLeaf (Some cfg) p) l"
proof (cases "leafParts l")
  case None
  with leafParts_None [OF None l(1,2)] show ?thesis by (simp add: aliasTransformer_def refines_def)
next
  case (Some t)
  then obtain op i v where t: "leafParts l = Some (op, i, v)" by (cases t) auto
  note h = leafParts_holds [OF t]
  with l(2) obtain f where f: "id_Field i = Some f" by auto
  show ?thesis
  proof (cases "isAlias f")
    case False
    with t f h l(2) show ?thesis by (simp add: aliasTransformer_def refines_def allocLeaf_def)
  next
    case True
    with l(3) t f have "fld_Name f \<in> {AliasDepartment, AliasEnvironment, AliasOwner, AliasProduct, AliasTeam}"
      by (simp add: aliasKnown_def)
    from aliasNameToAliasKey_ok [OF keys this] obtain k where
      k: "aliasNameToAliasKey cfg (fld_Name f) = Some k" "k \<noteq> []" "sanitizeKey k \<noteq> unallocatedSuffix" by blast
    from convertAliasFilter_holds [OF _ k(2,3), of op v p] h obtain n where
      "convertAliasFilter k v op = Inr n" "solid n"
      "holds (plainHolds p) n = aliasHolds p (sanitizeKey k) op v" by blast
    with True t f h k(1) show ?thesis by (simp add: aliasTransformer_def refines_def allocLeaf_def)
  qed
qed

lemma aliasPass_refines:
  assumes "labelKeysOk cfg" and "solid n" and "\<forall>l \<in> set (leaves n). aliasKnown l"
  shows "\<exists>n'. allocationAliasPass cfg n = Some (Inr n') \<and> refines (plainHolds p) n' (allocLeaf (Some cfg) p) n"
proof -
  have "\<exists>n'. TransformLeaves n (aliasTransformer (aliasNameToAliasKey cfg)) None = (n', None) \<and>
    refines (plainHolds p) n' (allocLeaf (Some cfg) p) n"
    by (rule TransformLeaves_refines(1) [where ok = aliasKnown, OF _ assms(2,3)])
      (rule alias_leaf_refines [OF assms(1)])
  then show ?thesis by (auto simp: allocationAliasPass_def)
qed

section \<open>The fields of parsed filters\<close>

lemma fieldsToMaps_ran:
  "ran (fst (fieldsToMaps fs)) \<subseteq> set fs \<and> ran (snd (fieldsToMaps fs)) \<subseteq> set fs"
proof -
  let ?step = "\<lambda>f (a, b). if isMap f then (a, b(fld_Name f \<mapsto> f)) else (a(fld_Name f \<mapsto> f), b)"
  have "ran (fst (fold ?step fs (a, b))) \<subseteq> ran a \<union> set fs \<and> ran (snd (fold ?step fs (a, b))) \<subseteq> ran b \<union> set fs"
    for a b :: "string \<rightharpoonup> astField"
  proof (induction fs arbitrary: a b)
    case (Cons f fs)
    show ?case
      using Cons.IH [of "if isMap f then a else a(fld_Name f \<mapsto> f)" "if isMap f then b(fld_Name f \<mapsto> f) else b"]
      by (auto simp: ran_def split: if_splits)
  qed simp
  from this [of Map.empty Map.empty] show ?thesis by (simp add: fieldsToMaps_def)
qed

lemma alloc_alias_names:
  assumes "f \<in> set allocationFilterFields" and "isAlias f"
  shows "fld_Name f \<in> {AliasDepartment, AliasEnvironment, AliasOwner, AliasProduct, AliasTeam}"
proof -
  have "\<not> isAlias (NewField n [])" "\<not> isAlias (NewField n [FieldAttributeNilable])" "\<not> isAlias (NewSliceField n [])"
    "\<not> isAlias (NewMapField n [])" for n
    by (simp_all add: isAlias_def NewMapField_def NewField_def NewSliceField_def fieldTypeWithAttributes_def
        ftIsAlias_def FieldTypeMap_def FieldTypeAlias_def FieldTypeSlice_def FieldTypeDefault_def ftSet_def
        FieldAttributeNilable_def)
  with assms show ?thesis
    unfolding allocationFilterFields_def by (auto simp: field_type_simps(8))
qed

text \<open>Every comparison of a parsed tree is on a field of the parser's table.\<close>

lemma parsed_fields:
  assumes "parsed fs ms n" and "l \<in> set (leaves n)" and "leafParts l = Some (op, i, v)"
  shows "\<exists>f. id_Field i = Some f \<and> f \<in> ran fs \<union> ran ms"
  using assms
proof (induction n)
  case (NotOp n)
  then show ?case by (cases n) (auto simp: leafOk_def split: option.splits)
qed (auto simp: leafOk_def split: option.splits)

lemma parsed_aliasKnown:
  assumes "parsed (dfp_fields NewAllocationFilterParser) (dfp_mapFields NewAllocationFilterParser) n"
    and "l \<in> set (leaves n)"
  shows "aliasKnown l"
proof (cases "leafParts l")
  case None
  then show ?thesis by (simp add: aliasKnown_def)
next
  case (Some t)
  then obtain op i v where t: "leafParts l = Some (op, i, v)" by (cases t) auto
  from parsed_fields [OF assms t] obtain f where f: "id_Field i = Some f"
    "f \<in> ran (dfp_fields NewAllocationFilterParser) \<union> ran (dfp_mapFields NewAllocationFilterParser)" by blast
  then have "f \<in> set allocationFilterFields"
    using fieldsToMaps_ran [of allocationFilterFields]
    by (auto simp: NewAllocationFilterParser_def NewFilterParser_def split_def Let_def)
  with t f(1) alloc_alias_names show ?thesis by (simp add: aliasKnown_def)
qed

section \<open>Parsed filters compile and mean what they say\<close>

lemma allocMappers_defined:
  assumes "al_Properties a = Some p" and "id_Field i \<noteq> None"
  shows "allocationFieldMap (Some a) i \<noteq> None" "allocationSliceFieldMap (Some a) i \<noteq> None"
    "allocationMapFieldMap (Some a) i \<noteq> None"
  using assms
  by (auto simp: allocationFieldMap_def allocationSliceFieldMap_def allocationMapFieldMap_def Let_def)

lemma alloc_compiler_simps:
  "mc_stringMapper (NewAllocationMatchCompiler lc) = allocationFieldMap"
  "mc_sliceMapper (NewAllocationMatchCompiler lc) = allocationSliceFieldMap"
  "mc_mapMapper (NewAllocationMatchCompiler lc) = allocationMapFieldMap"
  by (simp_all add: NewAllocationMatchCompiler_def NewMatchCompiler_def)

lemma allocMappers_name:
  assumes "al_Properties a = Some p"
  shows "allocationFieldMap (Some a) i = allocationFieldMap (Some (withProps p)) i"
    "allocationSliceFieldMap (Some a) i = allocationSliceFieldMap (Some (withProps p)) i"
    "allocationMapFieldMap (Some a) i = allocationMapFieldMap (Some (withProps p)) i"
  using assms
  by (cases "id_Field i"; simp add: allocationFieldMap_def allocationSliceFieldMap_def allocationMapFieldMap_def)+

lemma alloc_leafHolds:
  assumes "al_Properties a = Some p"
  shows "leafHolds (NewAllocationMatchCompiler lc) op i v (Some a) =
    leafHolds (NewAllocationMatchCompiler None) op i v (Some (withProps p))"
  unfolding leafHolds_def alloc_compiler_simps allocMappers_name [OF assms] ..

lemma mapped_defined: "r \<noteq> None \<Longrightarrow> mapped r cmp \<noteq> None"
  by (auto simp: mapped_def split: sum.splits)

lemma alloc_leafDefined:
  assumes "al_Properties a = Some p" and "solid n" and "l \<in> set (leaves n)"
  shows "leafDefined (NewAllocationMatchCompiler lc) (Some a) l"
proof (cases "leafParts l")
  case None
  then show ?thesis by simp
next
  case (Some t)
  then obtain op i v where t: "leafParts l = Some (op, i, v)" by (cases t) auto
  with solid_leaves [OF assms(2,3)] have i: "id_Field i \<noteq> None" by (simp add: hasField_def)
  note d = allocMappers_defined [OF assms(1) i]
  from i obtain f where "id_Field i = Some f" by blast
  then have "leafHolds (NewAllocationMatchCompiler lc) op i v (Some a) \<noteq> None"
    using mapped_defined [OF d(1)] mapped_defined [OF d(2)] mapped_defined [OF d(3)]
    unfolding leafHolds_def alloc_compiler_simps by simp
  with t show ?thesis by simp
qed

text \<open>A pass has one result, so what holds for every choice of a parameter holds of that result.\<close>

lemma pass_uniform:
  assumes "\<And>p. \<exists>n'. r = Some (Inr n') \<and> Q p n'"
  shows "\<exists>n'. r = Some (Inr n') \<and> (\<forall>p. Q p n')"
  using assms by (metis option.inject sum.inject(2))

text \<open>The passes of the allocation compiler, in order.\<close>

lemma alloc_passes:
  assumes n: "solid n" "\<forall>l \<in> set (leaves n). aliasKnown l" and cfg: "case lc of None \<Rightarrow> True | Some cfg \<Rightarrow> labelKeysOk cfg"
  shows "\<exists>n'. ApplyAll n (mc_passes (NewAllocationMatchCompiler lc)) = Some (Inr n') \<and> solid n' \<and>
    (\<forall>a p. al_Properties a = Some p \<longrightarrow>
      holds (leafBool (NewAllocationMatchCompiler lc) (Some a)) n' = holds (allocLeaf lc p) n)"
proof -
  have "\<exists>n1. (case lc of None \<Rightarrow> n1 = n | Some cfg \<Rightarrow> allocationAliasPass cfg n = Some (Inr n1)) \<and>
    (\<forall>p. refines (plainHolds p) n1 (allocLeaf lc p) n)"
  proof (cases lc)
    case None
    have "allocLeaf None p = plainHolds p" for p by (intro ext) (simp add: allocLeaf_def)
    with None n(1) show ?thesis by (simp add: refines_def)
  next
    case (Some c)
    with cfg have "labelKeysOk c" by simp
    from pass_uniform [OF aliasPass_refines [OF this n]] Some show ?thesis by simp
  qed
  then obtain n1 where n1: "case lc of None \<Rightarrow> n1 = n | Some cfg \<Rightarrow> allocationAliasPass cfg n = Some (Inr n1)"
    "\<And>p. refines (plainHolds p) n1 (allocLeaf lc p) n" by blast
  then have "solid n1" by (simp add: refines_def)
  from pass_uniform [where Q = "\<lambda>L n'. refines L n' (sanitized L) n1", OF promKeySanitize_refines [OF this]] obtain n2 where
    n2: "promKeySanitizePass n1 = Some (Inr n2)" "\<And>L. refines L n2 (sanitized L) n1" by blast
  then have "solid n2" by (simp add: refines_def)
  from pass_uniform [where Q = "\<lambda>L n'. refines L n' (reallocated L) n2", OF unallocReplace_refines [OF this]] obtain n3 where
    n3: "unallocReplacePass n2 = Some (Inr n3)" "\<And>L. refines L n3 (reallocated L) n2" by blast
  have "ApplyAll n (mc_passes (NewAllocationMatchCompiler lc)) = Some (Inr n3)"
    using n1(1) n2(1) n3(1) Clone_solid [OF n(1)]
    by (cases lc) (simp_all add: ApplyAll_def NewAllocationMatchCompiler_def NewMatchCompiler_def)
  moreover have "holds (leafBool (NewAllocationMatchCompiler lc) (Some a)) n3 = holds (allocLeaf lc p) n"
    if "al_Properties a = Some p" for a p
  proof -
    let ?L = "leafBool (NewAllocationMatchCompiler None) (Some (withProps p))"
    have "leafBool (NewAllocationMatchCompiler lc) (Some a) = ?L"
      by (intro ext) (simp add: leafBool_def alloc_leafHolds [OF that])
    with n3(2) [of ?L] n2(2) [of "reallocated ?L"] n1(2) [of p] show ?thesis
      by (simp add: refines_def plainHolds_def)
  qed
  ultimately show ?thesis using n3(2) by (auto simp: refines_def)
qed

lemma alloc_compile:
  assumes "n = VoidOp \<or> parsed (dfp_fields NewAllocationFilterParser) (dfp_mapFields NewAllocationFilterParser) n"
    and cfg: "case lc of None \<Rightarrow> True | Some cfg \<Rightarrow> labelKeysOk cfg"
  shows "\<exists>m. Compile (NewAllocationMatchCompiler lc) n = Some (Inr m) \<and>
    (\<forall>a p. al_Properties a = Some p \<longrightarrow> Matches m (Some a) = Some (holds (allocLeaf lc p) n))"
proof (cases "n = VoidOp")
  case True
  have "Clone VoidOp = VoidOp" by (simp add: Clone_def cloneHandle.simps)
  moreover have "allocationAliasPass cfg VoidOp = Some (Inr VoidOp)" for cfg
    by (simp add: allocationAliasPass_def aliasTransformer_def)
  moreover have "promKeySanitizePass VoidOp = Some (Inr VoidOp)" "unallocReplacePass VoidOp = Some (Inr VoidOp)"
    by (simp_all add: promKeySanitizePass_def unallocReplacePass_def)
  ultimately have "ApplyAll VoidOp (mc_passes (NewAllocationMatchCompiler lc)) = Some (Inr VoidOp)"
    by (cases lc) (simp_all add: ApplyAll_def NewAllocationMatchCompiler_def NewMatchCompiler_def)
  with True show ?thesis by (simp add: Compile_def)
next
  case False
  with assms(1) have pn: "parsed (dfp_fields NewAllocationFilterParser) (dfp_mapFields NewAllocationFilterParser) n"
    by blast
  from alloc_passes [OF parsed_solid [OF pn] _ cfg] parsed_aliasKnown [OF pn] obtain n' where
    n': "ApplyAll n (mc_passes (NewAllocationMatchCompiler lc)) = Some (Inr n')" "solid n'"
    "\<And>a p. al_Properties a = Some p \<Longrightarrow>
      holds (leafBool (NewAllocationMatchCompiler lc) (Some a)) n' = holds (allocLeaf lc p) n" by blast
  from Compile_meaning [OF n'(1)] n'(2) obtain m where "Compile (NewAllocationMatchCompiler lc) n = Some (Inr m)"
    "\<And>that. \<forall>l \<in> set (leaves n'). leafDefined (NewAllocationMatchCompiler lc) that l \<Longrightarrow>
      Matches m that = Some (holds (leafBool (NewAllocationMatchCompiler lc) that) n')" by blast
  moreover from this(2) have "Matches m (Some a) = Some (holds (allocLeaf lc p) n)"
    if "al_Properties a = Some p" for a p
    using that n'(3) alloc_leafDefined [OF that n'(2)] by simp
  ultimately show ?thesis by blast
qed

section \<open>The comparisons, field by field\<close>

text \<open>The fields a filter can compare as strings, with the property each one reads.\<close>

definition stringProperties :: "(string \<times> (allocationProperties \<Rightarrow> string)) list" where
  "stringProperties =
     [(FieldClusterID, pr_Cluster), (FieldNode, pr_Node), (FieldNamespace, pr_Namespace),
      (FieldControllerName, pr_Controller), (FieldControllerKind, pr_ControllerKind),
      (FieldContainer, pr_Container), (FieldPod, pr_Pod), (FieldProvider, pr_ProviderID)]"

lemma plain_field_kinds:
  "isMap (NewField n []) = False" "isSlice (NewField n []) = False"
  "isMap (NewField n [FieldAttributeNilable]) = False" "isSlice (NewField n [FieldAttributeNilable]) = False"
  "isAlias (NewField n []) = False" "isAlias (NewField n [FieldAttributeNilable]) = False"
  "isSlice (NewSliceField n []) = True" "isMap (NewSliceField n []) = False"
  by (simp_all add: isMap_def isSlice_def isAlias_def NewField_def NewSliceField_def fieldTypeWithAttributes_def
      ftIsMap_def ftIsSlice_def ftIsAlias_def FieldTypeMap_def FieldTypeSlice_def FieldTypeAlias_def
      FieldTypeDefault_def FieldAttributeNilable_def ftSet_def)

lemma allocationFieldByName_plain:
  "(name, g) \<in> set stringProperties \<Longrightarrow>
     allocationFieldByName name = Some (NewField name []) \<or>
     allocationFieldByName name = Some (NewField name [FieldAttributeNilable])"
  unfolding stringProperties_def list.set
  by (elim insertE emptyE; simp add: allocationFieldByName_def initFieldMap_def field_simps field_type_simps)

lemma allocationFieldMap_plain:
  assumes "(name, g) \<in> set stringProperties" and "id_Field i = Some f" "fld_Name f = name"
  shows "allocationFieldMap (Some (withProps p)) i = Some (Inr (g p))"
  using assms(1) unfolding stringProperties_def list.set
  by (elim insertE emptyE; simp add: assms(2,3) allocationFieldMap_def Let_def field_simps)

lemma plainHolds_string:
  assumes "(name, g) \<in> set stringProperties" and "i = \<lparr>id_Field = allocationFieldByName name, id_Key = []\<rparr>"
  shows "plainHolds p op i v = stringMatches op (g p) (replaceUnallocated v)"
proof -
  from allocationFieldByName_plain [OF assms(1)] obtain f where f: "allocationFieldByName name = Some f"
    "fld_Name f = name" "\<not> isMap f" "\<not> isSlice f"
    by (metis plain_field_kinds(1-4) field_type_simps(9))
  then have "sanitize i = i" "id_Field i = Some f" using assms(2) by (simp_all add: sanitize_def)
  with f allocationFieldMap_plain [OF assms(1), of i f p] show ?thesis
    by (simp add: plainHolds_def sanitized_def reallocated_def leafBool_def leafHolds_def alloc_compiler_simps mapped_def)
qed

lemma plainHolds_services:
  assumes "op \<noteq> FilterOpEquals" 
  shows "plainHolds p op \<lparr>id_Field = allocationFieldByName FieldServices, id_Key = []\<rparr> v =
    sliceMatches op (pr_Services p) (replaceUnallocated v)"
proof -
  have "allocationFieldByName FieldServices = Some (NewSliceField FieldServices [])"
    by (simp add: allocationFieldByName_def initFieldMap_def field_simps field_type_simps)
  then show ?thesis
   by (simp add: assms plainHolds_def sanitized_def reallocated_def leafBool_def leafHolds_def alloc_compiler_simps mapped_def
    plain_field_kinds sanitize_def allocationSliceFieldMap_def field_type_simps)
qed

lemma plainHolds_unmapped:
  assumes "name \<in> {FieldNodeLabel, FieldNamespaceLabel, FieldAccount}"
  shows "plainHolds p op \<lparr>id_Field = allocationFieldByName name, id_Key = key\<rparr> v = False"
proof -
  have "\<exists>f. allocationFieldByName name = Some f \<and> fld_Name f = name \<and> \<not> isSlice f"
    using assms by (elim insertE emptyE; simp add: allocationFieldByName_def initFieldMap_def field_simps field_type_simps plain_field_kinds)
  then obtain f where f: "allocationFieldByName name = Some f" "fld_Name f = name" "\<not> isSlice f" by blast
  let ?a = "Some (withProps p)"
  have "leafHolds (NewAllocationMatchCompiler None) op i w ?a = Some False" if i: "id_Field i = Some f" for i w
  proof -
    have "\<exists>e. allocationFieldMap ?a i = Some (Inl e)" "\<exists>e. allocationMapFieldMap ?a i = Some (Inl e)"
      using assms by (elim insertE emptyE; simp add: i f(2) allocationFieldMap_def allocationMapFieldMap_def Let_def field_simps)+
    then obtain e1 e2 where "allocationFieldMap ?a i = Some (Inl e1)" "allocationMapFieldMap ?a i = Some (Inl e2)"
      by blast
    with i f(3) show ?thesis by (simp add: leafHolds_def alloc_compiler_simps mapped_def)
  qed
  then show ?thesis
    by (simp add: f plainHolds_def sanitized_def reallocated_def leafBool_def)
qed

end
