(* ===== verification/Alloc_Set.thy ===== *)
theory Alloc_Set
  imports Alloc_Cost
begin

text \<open>
  Sets of allocations and their accumulation (\<^verbatim>\<open>core/pkg/opencost/allocation.go\<close>,
  \<^verbatim>\<open>AllocationSet\<close>). A set holds pointers: inserting an allocation stores the pointer, and
  adding to an entry changes the allocation behind it, for every holder of the pointer. So
  allocations live in a heap, a list indexed by addresses, that the operations take and return.
  The order of the entries of a map is the order in which a loop visits them.
\<close>

section \<open>Heap and sets\<close>

type_synonym ref = nat
type_synonym allocHeap = "allocation list"

record allocationSet =
  as_Allocations :: "ref gomap option"
  as_ExternalKeys :: "bool gomap option"
  as_IdleKeys :: "bool gomap option"
  as_FromSource :: string
  as_Window :: window
  as_Warnings :: "string list option"
  as_Errors :: "string list option"

definition refsOf :: "allocationSet \<Rightarrow> ref gomap" where
  "refsOf as = entries (as_Allocations as)"

definition emptySet :: "window \<Rightarrow> allocationSet" where
  "emptySet w =
     \<lparr>as_Allocations = Some [], as_ExternalKeys = Some [], as_IdleKeys = Some [], as_FromSource = [],
      as_Window = w, as_Warnings = None, as_Errors = None\<rparr>"

section \<open>Reading\<close>

definition setIsEmpty :: "allocationSet option \<Rightarrow> bool" where
  "setIsEmpty as = (case as of None \<Rightarrow> True | Some s \<Rightarrow> refsOf s = [])"

definition setLength :: "allocationSet option \<Rightarrow> nat" where
  "setLength as = (case as of None \<Rightarrow> 0 | Some s \<Rightarrow> length (refsOf s))"

definition setGet :: "allocationSet \<Rightarrow> string \<Rightarrow> ref option" where
  "setGet as key = map_of (refsOf as) key"

definition setStart :: "allocationSet option \<Rightarrow> gotime" where
  "setStart as =
     (case as of
        None \<Rightarrow> timeUnix 0
      | Some s \<Rightarrow> (case wn_start (as_Window s) of None \<Rightarrow> timeUnix 0 | Some t \<Rightarrow> t))"

definition setEnd :: "allocationSet option \<Rightarrow> gotime" where
  "setEnd as =
     (case as of
        None \<Rightarrow> timeUnix 0
      | Some s \<Rightarrow> (case wn_end (as_Window s) of None \<Rightarrow> timeUnix 0 | Some t \<Rightarrow> t))"

definition setUTCOffset :: "allocationSet option \<Rightarrow> duration" where
  "setUTCOffset as = wrap64 (tm_off (setStart as) * Second)"

definition setResolution :: "(float64 \<Rightarrow> int) \<Rightarrow> allocationSet \<Rightarrow> duration" where
  "setResolution other as = windowDuration other (as_Window as)"

definition setSum :: "(allocation \<Rightarrow> float64) \<Rightarrow> allocHeap \<Rightarrow> allocationSet \<Rightarrow> float64" where
  "setSum f h as = sumOf (\<lambda>r. f (h ! r)) (refsOf as)"

definition setTotalCost :: "allocHeap \<Rightarrow> allocationSet option \<Rightarrow> float64" where
  "setTotalCost h as = (case as of None \<Rightarrow> Fin 0 | Some s \<Rightarrow> setSum TotalCost h s)"

definition setExternalCost :: "allocHeap \<Rightarrow> allocationSet option \<Rightarrow> float64" where
  "setExternalCost h as = (case as of None \<Rightarrow> Fin 0 | Some s \<Rightarrow> setSum al_ExternalCost h s)"

definition GetUnmountedPVCost :: "allocHeap \<Rightarrow> allocationSet \<Rightarrow> float64" where
  "GetUnmountedPVCost h as = setSum al_UnmountedPVCost h as"

section \<open>Copies\<close>

text \<open>A loop that clones the allocations of some entries into new cells.\<close>

fun cloneEntries :: "allocHeap \<Rightarrow> ref gomap \<Rightarrow> allocHeap \<times> ref gomap" where
  "cloneEntries h [] = (h, [])"
| "cloneEntries h ((k, r) # es) =
     (let (h', es') = cloneEntries (h @ [allocClone (h ! r)]) es in (h', (k, length h) # es'))"

text \<open>
  The copied warnings are assigned to a variable of the inner block, so the clone has none; the
  name of the source is not copied.
\<close>

definition setClone :: "allocHeap \<Rightarrow> allocationSet \<Rightarrow> allocHeap \<times> allocationSet" where
  "setClone h as =
     (let (h', allocs) = cloneEntries h (refsOf as)
      in (h', \<lparr>as_Allocations = Some allocs, as_ExternalKeys = Some (entries (as_ExternalKeys as)),
               as_IdleKeys = Some (entries (as_IdleKeys as)), as_FromSource = [],
               as_Window = windowClone (as_Window as), as_Warnings = None, as_Errors = as_Errors as\<rparr>))"

definition setClonePtr :: "allocHeap \<Rightarrow> allocationSet option \<Rightarrow> allocHeap \<times> allocationSet option" where
  "setClonePtr h as =
     (case as of None \<Rightarrow> (h, None) | Some s \<Rightarrow> (let (h', s') = setClone h s in (h', Some s')))"

definition keyedClones :: "allocHeap \<Rightarrow> allocationSet option \<Rightarrow> (allocationSet \<Rightarrow> bool gomap option) \<Rightarrow> allocHeap \<times> ref gomap" where
  "keyedClones h as keys =
     (case as of
        None \<Rightarrow> (h, [])
      | Some s \<Rightarrow>
          cloneEntries h
            (List.map_filter (\<lambda>(k, _). map_option (\<lambda>r. (k, r)) (setGet s k)) (entries (keys s))))"

definition ExternalAllocations :: "allocHeap \<Rightarrow> allocationSet option \<Rightarrow> allocHeap \<times> ref gomap" where
  "ExternalAllocations h as = keyedClones h as as_ExternalKeys"

definition IdleAllocations :: "allocHeap \<Rightarrow> allocationSet option \<Rightarrow> allocHeap \<times> ref gomap" where
  "IdleAllocations h as = keyedClones h as as_IdleKeys"

section \<open>Changing a set\<close>

definition deleteKey :: "string \<Rightarrow> 'v gomap option \<Rightarrow> 'v gomap option" where
  "deleteKey name m = map_option (AList.delete name) m"

definition setDelete :: "allocationSet \<Rightarrow> string \<Rightarrow> allocationSet" where
  "setDelete as name =
     as\<lparr>as_ExternalKeys := deleteKey name (as_ExternalKeys as), as_IdleKeys := deleteKey name (as_IdleKeys as),
        as_Allocations := deleteKey name (as_Allocations as)\<rparr>"

text \<open>Adding one allocation to another in place; the two may be the same.\<close>

definition addAt :: "allocHeap \<Rightarrow> ref \<Rightarrow> ref \<Rightarrow> allocHeap" where
  "addAt h c r =
     (let (a, t) = allocAdd (h ! c) (h ! r) in if c = r then h[c := a] else h[r := t, c := a])"

definition recordKey :: "bool \<Rightarrow> string \<Rightarrow> bool gomap \<Rightarrow> bool gomap" where
  "recordKey b name m = (if b then AList.update name True m else m)"

definition expandAt :: "allocHeap \<Rightarrow> ref \<Rightarrow> window \<Rightarrow> allocHeap" where
  "expandAt h c w = h[c := (h ! c)\<lparr>al_Window := Expand (al_Window (h ! c)) w\<rparr>]"

definition setInsert :: "allocHeap \<Rightarrow> allocationSet \<Rightarrow> ref \<Rightarrow> allocHeap \<times> allocationSet" where
  "setInsert h as r =
     (let a = h ! r; name = al_Name a; allocs = refsOf as;
          (allocs', h1, c) =
            (case map_of allocs name of
               None \<Rightarrow> (AList.update name r allocs, h, r)
             | Some c \<Rightarrow> (allocs, addAt h c r, c))
      in (expandAt h1 c (as_Window as),
          as\<lparr>as_Allocations := Some allocs',
             as_ExternalKeys := Some (recordKey (IsExternal a) name (entries (as_ExternalKeys as))),
             as_IdleKeys := Some (recordKey (IsIdle a) name (entries (as_IdleKeys as)))\<rparr>))"

text \<open>\<^verbatim>\<open>Insert\<close> on pointers: an error for a nil set, a panic, \<open>None\<close>, for a nil allocation.\<close>

definition setInsertPtr ::
  "allocHeap \<Rightarrow> allocationSet option \<Rightarrow> ref option \<Rightarrow> (string option \<times> allocHeap \<times> allocationSet option) option" where
  "setInsertPtr h as r =
     (case as of
        None \<Rightarrow> Some (Some ''cannot insert into nil AllocationSet'', h, None)
      | Some s \<Rightarrow>
          (case r of
             None \<Rightarrow> None
           | Some r' \<Rightarrow> (let (h', s') = setInsert h s r' in Some (None, h', Some s'))))"

fun setInsertAll :: "allocHeap \<Rightarrow> allocationSet \<Rightarrow> ref list \<Rightarrow> allocHeap \<times> allocationSet" where
  "setInsertAll h as [] = (h, as)"
| "setInsertAll h as (r # rs) = (let (h', as') = setInsert h as r in setInsertAll h' as' rs)"

definition NewAllocationSet :: "allocHeap \<Rightarrow> gotime \<Rightarrow> gotime \<Rightarrow> ref list \<Rightarrow> allocHeap \<times> allocationSet" where
  "NewAllocationSet h start end' allocs =
     setInsertAll h (emptySet (NewWindow (Some start) (Some end'))) allocs"

text \<open>\<^verbatim>\<open>Set\<close> writes to maps that it makes only for an empty set; \<open>None\<close> is a write to a nil map.\<close>

definition setSet :: "allocHeap \<Rightarrow> allocationSet \<Rightarrow> ref \<Rightarrow> allocationSet option" where
  "setSet h as r =
     (let a = h ! r; name = al_Name a;
          s = (if refsOf as = [] then as\<lparr>as_Allocations := Some [], as_ExternalKeys := Some [], as_IdleKeys := Some []\<rparr>
               else as)
      in if (IsExternal a \<and> as_ExternalKeys s = None) \<or> (IsIdle a \<and> as_IdleKeys s = None) then None
         else Some (s\<lparr>as_Allocations := Some (AList.update name r (refsOf s)),
                      as_ExternalKeys := map_option (recordKey (IsExternal a) name) (as_ExternalKeys s),
                      as_IdleKeys := map_option (recordKey (IsIdle a) name) (as_IdleKeys s)\<rparr>))"

text \<open>Changing every allocation of a set in place.\<close>

definition updateAll :: "(allocation \<Rightarrow> allocation) \<Rightarrow> allocHeap \<Rightarrow> allocationSet \<Rightarrow> allocHeap" where
  "updateAll f h as = fold (\<lambda>(_, r) h. h[r := f (h ! r)]) (refsOf as) h"

definition setResetAdjustments :: "allocHeap \<Rightarrow> allocationSet \<Rightarrow> allocHeap" where
  "setResetAdjustments h as = updateAll ResetAdjustments h as"

definition setSanitizeNaN :: "allocHeap \<Rightarrow> allocationSet \<Rightarrow> allocHeap" where
  "setSanitizeNaN h as = updateAll allocSanitizeNaN h as"

definition setSetUnmountedPVCost :: "allocHeap \<Rightarrow> allocationSet \<Rightarrow> float64 \<times> allocHeap" where
  "setSetUnmountedPVCost h as =
     fold (\<lambda>(_, r) (upvc, h). (let (c, a) = SetUnmountedPVCost (h ! r) in (fadd upvc c, h[r := a])))
       (refsOf as) (Fin 0, h)"

section \<open>Accumulation\<close>

text \<open>The new set takes the pointers of both: the allocations of the receiver are added to in place.\<close>

definition setAccumulate ::
  "allocHeap \<Rightarrow> allocationSet option \<Rightarrow> allocationSet option \<Rightarrow> allocHeap \<times> allocationSet option" where
  "setAccumulate h as that' =
     (case (as, that') of
        (Some s, Some t) \<Rightarrow>
          if refsOf s = [] then setClonePtr h that'
          else if refsOf t = [] then setClonePtr h as
          else (let start = (if timeBefore (setStart that') (setStart as) then setStart that' else setStart as);
                    end' = (if timeAfter (setEnd that') (setEnd as) then setEnd that' else setEnd as);
                    (h0, acc) = NewAllocationSet h start end' [];
                    (h1, acc1) = setInsertAll h0 acc (map snd (refsOf s));
                    (h2, acc2) = setInsertAll h1 acc1 (map snd (refsOf t))
                in (h2, Some acc2))
      | (None, _) \<Rightarrow> setClonePtr h that'
      | (Some s, None) \<Rightarrow> setClonePtr h (if refsOf s = [] then None else as))"


section \<open>The invariant of a set\<close>

text \<open>
  Entries are under their names, in allocated cells, and the two other maps have exactly the keys
  of the external and of the idle entries.
\<close>

definition setKeysOk :: "string \<Rightarrow> allocationSet \<Rightarrow> bool gomap option \<Rightarrow> bool" where
  "setKeysOk suf as m \<longleftrightarrow> (\<forall>k. k \<in> fst ` set (entries m) \<longleftrightarrow> k \<in> fst ` set (refsOf as) \<and> containsStr k suf)"

definition setOk :: "allocHeap \<Rightarrow> allocationSet \<Rightarrow> bool" where
  "setOk h as \<longleftrightarrow> distinct (map fst (refsOf as)) \<and>
     (\<forall>(k, r) \<in> set (refsOf as). r < length h \<and> al_Name (h ! r) = k) \<and>
     setKeysOk ExternalSuffix as (as_ExternalKeys as) \<and> setKeysOk IdleSuffix as (as_IdleKeys as)"

definition refs :: "allocationSet \<Rightarrow> ref set" where
  "refs as = snd ` set (refsOf as)"

lemma setOk_refs: "setOk h as \<Longrightarrow> r \<in> refs as \<Longrightarrow> r < length h"
  by (auto simp: setOk_def refs_def)

lemma setGet_name:
  assumes "setOk h as" and "setGet as k = Some r"
  shows "r < length h \<and> al_Name (h ! r) = k \<and> r \<in> refs as"
proof -
  from assms(2) have "(k, r) \<in> set (refsOf as)" by (simp add: setGet_def map_of_SomeD)
  then have "r \<in> refs as" by (auto simp: refs_def intro: image_eqI [of _ snd "(k, r)"])
  with assms(1) \<open>(k, r) \<in> set (refsOf as)\<close> show ?thesis unfolding setOk_def by blast
qed

lemma setGet_refs: "setOk h as \<Longrightarrow> r \<in> refs as \<Longrightarrow> setGet as (al_Name (h ! r)) = Some r"
  by (auto simp: setOk_def setGet_def refs_def)

lemma setGet_None: "setGet as k = None \<longleftrightarrow> k \<notin> fst ` set (refsOf as)"
  by (simp add: setGet_def map_of_eq_None_iff)

lemma setOk_cong:
  assumes "setOk h as" and "length h \<le> length h'" and "\<And>r. r < length h \<Longrightarrow> al_Name (h' ! r) = al_Name (h ! r)"
  shows "setOk h' as"
  using assms by (fastforce simp: setOk_def)

lemma refsOf_emptySet [simp]: "refsOf (emptySet w) = []"
  by (simp add: refsOf_def emptySet_def)

lemma setOk_empty [simp]: "setOk h (emptySet w)"
  by (simp add: setOk_def setKeysOk_def) (simp add: emptySet_def)

lemma keys_update: "fst ` set (AList.update k v m) = insert k (fst ` set m)"
  using dom_update [of k v m] by simp

lemma snd_set_update_subset: "snd ` set (AList.update k v m) \<subseteq> insert v (snd ` set m)"
  by (induction m) auto

text \<open>Entries under the names of what they point to are distinct, and a loop that looks for one name finds one.\<close>

lemma distinct_map_snd:
  assumes "distinct (map fst m)" and "\<forall>(k, r) \<in> set m. g r = k"
  shows "distinct (map snd m)"
proof -
  have "map g (map snd m) = map fst m" using assms(2) by (induction m) auto
  with assms(1) show ?thesis by (metis distinct_map)
qed

lemma fold_named:
  assumes "distinct (map fst m)" and "\<forall>(k, r) \<in> set m. g r = k"
  shows "fold (\<lambda>r a. if g r = name then F r a else a) (map snd m) z =
    (case map_of m name of None \<Rightarrow> z | Some r \<Rightarrow> F r z)"
  using assms
proof (induction m arbitrary: z)
  case (Cons e m)
  obtain k r where e: "e = (k, r)" by (cases e)
  show ?case
  proof (cases "k = name")
    case True
    with Cons.prems e have "map_of m name = None" by (simp add: map_of_eq_None_iff)
    with Cons True e show ?thesis by simp
  qed (use Cons e in simp)
qed simp

section \<open>Inserting\<close>

lemma allocAdd_name [simp]:
  "al_Name (fst (allocAdd a b)) = al_Name a" "al_Name (snd (allocAdd a b)) = al_Name b"
  by (simp_all add: allocAdd_simps)

lemma addAt_length [simp]: "length (addAt h c r) = length h"
  by (simp add: addAt_def case_prod_unfold Let_def)

lemma expandAt_length [simp]: "length (expandAt h c w) = length h"
  by (simp add: expandAt_def)

lemma expandAt_name [simp]: "x < length h \<Longrightarrow> al_Name (expandAt h c w ! x) = al_Name (h ! x)"
  by (cases "x = c") (simp_all add: expandAt_def)

lemma addAt_name [simp]: "x < length h \<Longrightarrow> al_Name (addAt h c r ! x) = al_Name (h ! x)"
  by (cases "x = c"; cases "x = r") (simp_all add: addAt_def case_prod_unfold Let_def)

text \<open>The cell an insertion adds to: that of the entry, or the inserted one.\<close>

definition target :: "allocHeap \<Rightarrow> allocationSet \<Rightarrow> ref \<Rightarrow> ref" where
  "target h as r = (case setGet as (al_Name (h ! r)) of None \<Rightarrow> r | Some c \<Rightarrow> c)"

lemma setInsert_heap:
  "fst (setInsert h as r) =
     expandAt (case setGet as (al_Name (h ! r)) of None \<Rightarrow> h | Some c \<Rightarrow> addAt h c r) (target h as r) (as_Window as)"
  by (simp add: setInsert_def setGet_def target_def Let_def split: option.split)

lemma setInsert_refs:
  "refsOf (snd (setInsert h as r)) = AList.update (al_Name (h ! r)) (target h as r) (refsOf as)"
  by (simp add: setInsert_def setGet_def target_def Let_def refsOf_def [of "_\<lparr>as_IdleKeys := _\<rparr>"] update_triv
      split: option.split)

lemma setInsert_length [simp]: "length (fst (setInsert h as r)) = length h"
  by (simp add: setInsert_heap split: option.split)

lemma setInsert_name [simp]: "x < length h \<Longrightarrow> al_Name (fst (setInsert h as r) ! x) = al_Name (h ! x)"
  by (simp add: setInsert_heap split: option.split)

lemma setInsert_frame:
  assumes "x \<noteq> r" and "x \<noteq> target h as r"
  shows "fst (setInsert h as r) ! x = h ! x"
  using assms
  by (auto simp: setInsert_heap expandAt_def addAt_def target_def case_prod_unfold Let_def split: option.splits)

lemma setInsert_window [simp]: "as_Window (snd (setInsert h as r)) = as_Window as"
  by (simp add: setInsert_def Let_def split: option.split)

lemma setKeysOk_insert:
  assumes "setKeysOk suf as m" and "b = containsStr k suf" and "refsOf as' = AList.update k r (refsOf as)"
  shows "setKeysOk suf as' (Some (recordKey b k (entries m)))"
  using assms by (auto simp: setKeysOk_def recordKey_def keys_update)

lemma target_less: "setOk h as \<Longrightarrow> r < length h \<Longrightarrow> target h as r < length h \<and> al_Name (h ! target h as r) = al_Name (h ! r)"
  using setGet_name by (auto simp: target_def split: option.split)

lemma setInsert_ok:
  assumes ok: "setOk h as" and r: "r < length h"
  shows "setOk (fst (setInsert h as r)) (snd (setInsert h as r))"
proof -
  let ?h = "fst (setInsert h as r)" and ?as = "snd (setInsert h as r)"
  note refs = setInsert_refs [of h as r]
  have "distinct (map fst (refsOf ?as))"
    using ok by (simp add: refs distinct_update setOk_def)
  moreover have "x < length ?h \<and> al_Name (?h ! x) = k" if "(k, x) \<in> set (refsOf ?as)" for k x
  proof -
    from that \<open>distinct (map fst (refsOf ?as))\<close> have "map_of (refsOf ?as) k = Some x" by simp
    then have "k = al_Name (h ! r) \<and> x = target h as r \<or> map_of (refsOf as) k = Some x"
      by (auto simp: refs update_conv' split: if_splits)
    then show ?thesis using target_less [OF ok r] setGet_name [OF ok, of k x] by (auto simp: setGet_def)
  qed
  moreover have "setKeysOk ExternalSuffix ?as (as_ExternalKeys ?as)" "setKeysOk IdleSuffix ?as (as_IdleKeys ?as)"
  proof -
    have "as_ExternalKeys ?as = Some (recordKey (IsExternal (h ! r)) (al_Name (h ! r)) (entries (as_ExternalKeys as)))"
      "as_IdleKeys ?as = Some (recordKey (IsIdle (h ! r)) (al_Name (h ! r)) (entries (as_IdleKeys as)))"
      by (simp_all add: setInsert_def Let_def split: option.split)
    with ok refs show "setKeysOk ExternalSuffix ?as (as_ExternalKeys ?as)" "setKeysOk IdleSuffix ?as (as_IdleKeys ?as)"
      by (auto simp: setOk_def IsExternal_def IsIdle_def intro!: setKeysOk_insert)
  qed
  ultimately show ?thesis by (auto simp: setOk_def)
qed

section \<open>Totals per name\<close>

text \<open>The sum of two values of which either may be missing.\<close>

definition plusOpt :: "float64 option \<Rightarrow> float64 option \<Rightarrow> float64 option" where
  "plusOpt x y = (case (x, y) of (Some a, Some b) \<Rightarrow> Some (fadd a b) | (None, _) \<Rightarrow> y | _ \<Rightarrow> x)"

lemma plusOpt_simps [simp]:
  "plusOpt None y = y" "plusOpt x None = x" "plusOpt (Some a) (Some b) = Some (fadd a b)"
  by (simp_all add: plusOpt_def split: option.split)

definition fieldOf :: "(allocation \<Rightarrow> float64) \<Rightarrow> allocHeap \<Rightarrow> allocationSet \<Rightarrow> string \<Rightarrow> float64 option" where
  "fieldOf f h as name = map_option (\<lambda>r. f (h ! r)) (setGet as name)"

lemma fieldOf_empty [simp]: "fieldOf f h (emptySet w) name = None"
  by (simp add: fieldOf_def setGet_def)

context summed_field
begin

lemma expandAt_field [simp]: "f (expandAt h c w ! x) = f (h ! x)"
  by (cases "c < length h"; cases "x = c") (simp_all add: expandAt_def f_window list_update_beyond)

lemma addAt_field:
  "c < length h \<Longrightarrow> f (addAt h c r ! x) = (if x = c then fadd (f (h ! c)) (f (h ! r)) else f (h ! x))"
  by (cases "r < length h"; cases "x = r")
    (simp_all add: addAt_def case_prod_unfold Let_def f_add f_arg list_update_beyond)

lemma setInsert_field:
  assumes ok: "setOk h as" and r: "r < length h"
  shows "f (fst (setInsert h as r) ! x) =
    (if setGet as (al_Name (h ! r)) = Some x then fadd (f (h ! x)) (f (h ! r)) else f (h ! x))"
  using setGet_name [OF ok] by (auto simp: setInsert_heap addAt_field split: option.split)

lemma insert_fieldOf:
  assumes ok: "setOk h as" and r: "r < length h"
  shows "fieldOf f (fst (setInsert h as r)) (snd (setInsert h as r)) name =
    (if name = al_Name (h ! r) then plusOpt (fieldOf f h as name) (Some (f (h ! r))) else fieldOf f h as name)"
proof -
  let ?n = "al_Name (h ! r)"
  have get: "setGet (snd (setInsert h as r)) name = (if name = ?n then Some (target h as r) else setGet as name)"
    by (simp add: setGet_def setInsert_refs update_conv')
  show ?thesis
  proof (cases "name = ?n")
    case True
    with get show ?thesis
      by (cases "setGet as ?n") (simp_all add: fieldOf_def setInsert_field [OF ok r] target_def)
  next
    case False
    then have "setGet as ?n \<noteq> Some x" if "setGet as name = Some x" for x
      using setGet_name [OF ok that] setGet_name [OF ok, of ?n x] by auto
    with get False show ?thesis
      by (cases "setGet as name") (simp_all add: fieldOf_def setInsert_field [OF ok r])
  qed
qed

lemma insert_outside:
  assumes ok: "setOk h as" and r: "r < length h" and x: "x \<notin> refs as"
  shows "f (fst (setInsert h as r) ! x) = f (h ! x)"
  using setInsert_field [OF ok r, of x] setGet_name [OF ok, of "al_Name (h ! r)" x] x by auto

end

lemma insert_refs_subset: "refs (snd (setInsert h as r)) \<subseteq> insert r (refs as)"
proof
  fix x assume "x \<in> refs (snd (setInsert h as r))"
  then obtain k where "(k, x) \<in> set (AList.update (al_Name (h ! r)) (target h as r) (refsOf as))"
    by (auto simp: refs_def setInsert_refs)
  then have "x = target h as r \<or> x \<in> refs as"
    using snd_set_update_subset by (force simp: refs_def)
  then show "x \<in> insert r (refs as)"
    by (auto simp: target_def setGet_def refs_def dest!: map_of_SomeD split: option.splits)
      (metis image_eqI snd_conv)
qed

section \<open>Inserting many\<close>

lemma insertAll_Cons:
  "setInsertAll h as (r # rs) = setInsertAll (fst (setInsert h as r)) (snd (setInsert h as r)) rs"
  by (simp add: case_prod_unfold Let_def)

lemma insertAll_ok:
  assumes "setOk h as" and "\<forall>r \<in> set rs. r < length h"
  shows "setOk (fst (setInsertAll h as rs)) (snd (setInsertAll h as rs)) \<and>
    length (fst (setInsertAll h as rs)) = length h \<and>
    (\<forall>x < length h. al_Name (fst (setInsertAll h as rs) ! x) = al_Name (h ! x)) \<and>
    refs (snd (setInsertAll h as rs)) \<subseteq> refs as \<union> set rs \<and>
    as_Window (snd (setInsertAll h as rs)) = as_Window as \<and>
    (\<forall>x. x \<notin> refs as \<union> set rs \<longrightarrow> fst (setInsertAll h as rs) ! x = h ! x)"
  using assms
proof (induction rs arbitrary: h as)
  case (Cons r rs)
  let ?h = "fst (setInsert h as r)" and ?as = "snd (setInsert h as r)"
  have ok: "setOk ?h ?as" using setInsert_ok Cons.prems by simp
  have rs: "\<forall>r \<in> set rs. r < length ?h" using Cons.prems by simp
  have sub: "refs ?as \<subseteq> insert r (refs as)" by (rule insert_refs_subset)
  have frame: "?h ! x = h ! x" if "x \<notin> refs as \<union> set (r # rs)" for x
  proof (rule setInsert_frame)
    show "x \<noteq> r" using that by auto
    show "x \<noteq> target h as r"
      using that setGet_name [OF Cons.prems(1)] by (auto simp: target_def split: option.splits)
  qed
  from Cons.IH [OF ok rs] sub frame show ?case unfolding insertAll_Cons by auto
qed simp

context summed_field
begin

lemma insertAll_fieldOf:
  assumes "setOk h as" and "\<forall>r \<in> set rs. r < length h" and "distinct rs" and "set rs \<inter> refs as = {}"
  shows "fieldOf f (fst (setInsertAll h as rs)) (snd (setInsertAll h as rs)) name =
    fold (\<lambda>r acc. if al_Name (h ! r) = name then plusOpt acc (Some (f (h ! r))) else acc) rs (fieldOf f h as name) \<and>
    (\<forall>x. x \<notin> refs as \<and> x \<notin> set rs \<longrightarrow> f (fst (setInsertAll h as rs) ! x) = f (h ! x))"
  using assms
proof (induction rs arbitrary: h as)
  case (Cons r rs)
  let ?h = "fst (setInsert h as r)" and ?as = "snd (setInsert h as r)"
  have r: "r < length h" using Cons.prems by simp
  have ok: "setOk ?h ?as" using setInsert_ok Cons.prems by simp
  have rs: "\<forall>r \<in> set rs. r < length ?h" using Cons.prems by simp
  have disj: "set rs \<inter> refs ?as = {}" using insert_refs_subset [of h as r] Cons.prems by auto
  have same: "f (?h ! x) = f (h ! x)" if "x \<notin> refs as" for x
    using insert_outside [OF Cons.prems(1) r that] .
  have "fold (\<lambda>r acc. if al_Name (?h ! r) = name then plusOpt acc (Some (f (?h ! r))) else acc) rs z =
    fold (\<lambda>r acc. if al_Name (h ! r) = name then plusOpt acc (Some (f (h ! r))) else acc) rs z" for z
  proof (rule fold_cong)
    fix x assume "x \<in> set rs"
    then have "x < length h" "x \<notin> refs as" using Cons.prems by auto
    then show "(\<lambda>acc. if al_Name (?h ! x) = name then plusOpt acc (Some (f (?h ! x))) else acc) =
      (\<lambda>acc. if al_Name (h ! x) = name then plusOpt acc (Some (f (h ! x))) else acc)" by (simp add: same cong: if_cong)
  qed simp_all
  with Cons.IH [OF ok rs _ disj] Cons.prems same insert_refs_subset [of h as r]
    insert_fieldOf [OF Cons.prems(1) r, of name]
  show ?case unfolding insertAll_Cons by auto
qed simp

text \<open>The entries of a whole set, added to the accumulator once each.\<close>

lemma insert_set_fieldOf:
  assumes "setOk h acc" and s: "setOk h s" and "refs s \<inter> refs acc = {}"
  shows "fieldOf f (fst (setInsertAll h acc (map snd (refsOf s)))) (snd (setInsertAll h acc (map snd (refsOf s)))) name =
    plusOpt (fieldOf f h acc name) (fieldOf f h s name)"
proof -
  have dist: "distinct (map snd (refsOf s))"
    using s by (intro distinct_map_snd [of _ "\<lambda>r. al_Name (h ! r)"]) (auto simp: setOk_def)
  have set: "set (map snd (refsOf s)) = refs s" by (simp add: refs_def)
  have "fold (\<lambda>r a. if al_Name (h ! r) = name then plusOpt a (Some (f (h ! r))) else a) (map snd (refsOf s)) z =
    plusOpt z (fieldOf f h s name)" for z
  proof -
    have "distinct (map fst (refsOf s))" "\<forall>(k, r) \<in> set (refsOf s). al_Name (h ! r) = k"
      using s by (auto simp: setOk_def)
    from fold_named [OF this, of name "\<lambda>r a. plusOpt a (Some (f (h ! r)))" z]
    show ?thesis by (simp add: fieldOf_def setGet_def split: option.split)
  qed
  with insertAll_fieldOf [OF assms(1) _ dist, of name] assms set setOk_refs [OF s] show ?thesis by auto
qed

end

section \<open>Copying\<close>

lemma windowClone_id [simp]: "windowClone w = w"
  by (cases "wn_start w"; cases "wn_end w") (simp_all add: windowClone_def NewWindow_def)

lemma allocClone_name [simp]: "al_Name (allocClone a) = al_Name a"
  by (simp add: allocClone_def)

lemma cloneEntries_eq:
  assumes "\<forall>(k, r) \<in> set es. r < length h"
  shows "cloneEntries h es =
    (h @ map (\<lambda>(k, r). allocClone (h ! r)) es, zip (map fst es) [length h..<length h + length es])"
  using assms
proof (induction es arbitrary: h)
  case (Cons e es)
  obtain k r where e: "e = (k, r)" by (cases e)
  let ?h = "h @ [allocClone (h ! r)]"
  have "\<forall>(k, r) \<in> set es. r < length ?h" using Cons.prems by auto
  from Cons.IH [OF this] have ih: "cloneEntries ?h es =
    (?h @ map (\<lambda>(k, r). allocClone (?h ! r)) es, zip (map fst es) [length ?h..<length ?h + length es])" .
  have "map (\<lambda>(k, r). allocClone (?h ! r)) es = map (\<lambda>(k, r). allocClone (h ! r)) es"
    using Cons.prems by (auto simp: nth_append)
  moreover have "[length h..<length h + length (e # es)] = length h # [length ?h..<length ?h + length es]"
    by (simp add: upt_conv_Cons del: upt_Suc)
  ultimately show ?case using ih by (simp add: e del: upt_Suc)
qed simp

lemma refsOf_clone:
  assumes "setOk h s"
  shows "refsOf (snd (setClone h s)) = zip (map fst (refsOf s)) [length h..<length h + length (refsOf s)]"
    and "fst (setClone h s) = h @ map (\<lambda>(k, r). allocClone (h ! r)) (refsOf s)"
    and "as_Window (snd (setClone h s)) = as_Window s"
    and "entries (as_ExternalKeys (snd (setClone h s))) = entries (as_ExternalKeys s)"
    and "entries (as_IdleKeys (snd (setClone h s))) = entries (as_IdleKeys s)"
  using assms cloneEntries_eq [of "refsOf s" h]
  by (auto simp: setClone_def refsOf_def setOk_def case_prod_unfold Let_def)

lemma clone_get:
  assumes ok: "setOk h s"
  shows "setGet (snd (setClone h s)) name = None \<longleftrightarrow> setGet s name = None"
    and "setGet s name = Some r \<Longrightarrow>
      \<exists>x. setGet (snd (setClone h s)) name = Some x \<and> length h \<le> x \<and> fst (setClone h s) ! x = allocClone (h ! r)"
proof -
  let ?es = "refsOf s"
  have keys: "fst ` set (refsOf (snd (setClone h s))) = fst ` set ?es"
  proof -
    have "map fst (refsOf (snd (setClone h s))) = map fst ?es" by (simp add: refsOf_clone(1) [OF ok])
    then show ?thesis by (metis list.set_map)
  qed
  then show "setGet (snd (setClone h s)) name = None \<longleftrightarrow> setGet s name = None" by (simp add: setGet_None)
  assume "setGet s name = Some r"
  then obtain i where i: "i < length ?es" "?es ! i = (name, r)"
    by (auto simp: setGet_def dest!: map_of_SomeD simp: in_set_conv_nth)
  have "map_of (zip (map fst ?es) [length h..<length h + length ?es]) (map fst ?es ! i) =
    Some ([length h..<length h + length ?es] ! i)"
    by (rule map_of_zip_nth) (use ok i in \<open>simp_all add: setOk_def\<close>)
  with i show "\<exists>x. setGet (snd (setClone h s)) name = Some x \<and> length h \<le> x \<and> fst (setClone h s) ! x = allocClone (h ! r)"
    by (simp add: setGet_def refsOf_clone [OF ok] nth_append)
qed

lemma clone_refs:
  assumes "setOk h s"
  shows "refs (snd (setClone h s)) = {length h..<length h + length (refsOf s)}"
proof -
  have "map snd (refsOf (snd (setClone h s))) = [length h..<length h + length (refsOf s)]"
    by (simp add: refsOf_clone [OF assms])
  then show ?thesis unfolding refs_def by (metis list.set_map set_upt)
qed

lemma clone_ok:
  assumes ok: "setOk h s"
  shows "setOk (fst (setClone h s)) (snd (setClone h s))"
proof -
  let ?h = "fst (setClone h s)" and ?s = "snd (setClone h s)"
  have keys: "map fst (refsOf ?s) = map fst (refsOf s)" by (simp add: refsOf_clone [OF ok])
  have dist: "distinct (map fst (refsOf ?s))" using ok by (simp add: keys setOk_def)
  moreover have "x < length ?h \<and> al_Name (?h ! x) = k" if "(k, x) \<in> set (refsOf ?s)" for k x
  proof -
    from that dist have g: "setGet ?s k = Some x" by (simp add: setGet_def)
    with clone_get(1) [OF ok, of k] obtain r where r: "setGet s k = Some r" by auto
    from clone_get(2) [OF ok r] g setGet_name [OF ok r] have "al_Name (?h ! x) = k" by auto
    moreover have "x < length ?h"
    proof -
      have "x \<in> refs ?s" using that by (auto simp: refs_def intro: image_eqI [of _ snd "(k, x)"])
      with clone_refs [OF ok] show ?thesis by (simp add: refsOf_clone(2) [OF ok])
    qed
    ultimately show ?thesis by simp
  qed
  moreover have "fst ` set (refsOf ?s) = fst ` set (refsOf s)" using keys by (metis list.set_map)
  then have "setKeysOk suf ?s (as_ExternalKeys ?s) = setKeysOk suf s (as_ExternalKeys s)"
    "setKeysOk suf ?s (as_IdleKeys ?s) = setKeysOk suf s (as_IdleKeys s)" for suf
    by (simp_all add: setKeysOk_def refsOf_clone(4,5) [OF ok])
  ultimately show ?thesis using ok by (auto simp: setOk_def)
qed

context summed_field
begin

lemma clone_fieldOf:
  assumes ok: "setOk h s"
  shows "fieldOf f (fst (setClone h s)) (snd (setClone h s)) name = fieldOf f h s name"
  using clone_get [OF ok, of name] by (cases "setGet s name") (auto simp: fieldOf_def f_clone)

end

section \<open>Accumulating\<close>

text \<open>A nil set is like one without entries.\<close>

definition okPtr :: "allocHeap \<Rightarrow> allocationSet option \<Rightarrow> bool" where
  "okPtr h x = (case x of None \<Rightarrow> True | Some s \<Rightarrow> setOk h s)"

definition refsPtr :: "allocationSet option \<Rightarrow> ref set" where
  "refsPtr x = (case x of None \<Rightarrow> {} | Some s \<Rightarrow> refs s)"

definition fieldPtr :: "(allocation \<Rightarrow> float64) \<Rightarrow> allocHeap \<Rightarrow> allocationSet option \<Rightarrow> string \<Rightarrow> float64 option" where
  "fieldPtr f h x name = (case x of None \<Rightarrow> None | Some s \<Rightarrow> fieldOf f h s name)"

lemma ptr_simps [simp]:
  "okPtr h None" "okPtr h (Some s) = setOk h s" "refsPtr None = {}" "refsPtr (Some s) = refs s"
  "fieldPtr f h None name = None" "fieldPtr f h (Some s) name = fieldOf f h s name"
  by (simp_all add: okPtr_def refsPtr_def fieldPtr_def)

lemma no_entries: "refsOf s = [] \<Longrightarrow> refs s = {} \<and> fieldOf f h s name = None"
  by (simp add: refs_def fieldOf_def setGet_def)

text \<open>
  What accumulation does to the heap: cells are only added, names stay, and only the allocations
  of the two sets are written to; the result points to them or to new cells.
\<close>

definition touches :: "allocHeap \<Rightarrow> ref set \<Rightarrow> allocHeap \<Rightarrow> allocationSet option \<Rightarrow> bool" where
  "touches h R h' a \<longleftrightarrow> okPtr h' a \<and> length h \<le> length h' \<and> refsPtr a \<subseteq> R \<union> {length h..} \<and>
     (\<forall>x < length h. al_Name (h' ! x) = al_Name (h ! x) \<and> (x \<notin> R \<longrightarrow> h' ! x = h ! x))"

lemma clonePtr_touches:
  assumes "okPtr h t"
  shows "touches h {} (fst (setClonePtr h t)) (snd (setClonePtr h t))"
proof (cases t)
  case (Some s)
  with assms have ok: "setOk h s" by simp
  have "refs (snd (setClone h s)) \<subseteq> {length h..}" using clone_refs [OF ok] by auto
  with clone_ok [OF ok] Some show ?thesis
    by (simp add: touches_def setClonePtr_def case_prod_unfold Let_def refsOf_clone(2) [OF ok] nth_append)
qed (simp add: touches_def setClonePtr_def)

lemma touches_mono: "touches h R h' a \<Longrightarrow> R \<subseteq> R' \<Longrightarrow> touches h R' h' a"
  by (auto simp: touches_def)

context summed_field
begin

lemma clonePtr_field:
  "okPtr h t \<Longrightarrow> fieldPtr f (fst (setClonePtr h t)) (snd (setClonePtr h t)) name = fieldPtr f h t name"
  by (cases t) (simp_all add: setClonePtr_def case_prod_unfold Let_def clone_fieldOf)

end

definition hullWindow :: "allocationSet \<Rightarrow> allocationSet \<Rightarrow> window" where
  "hullWindow s t =
     NewWindow (Some (if timeBefore (setStart (Some t)) (setStart (Some s)) then setStart (Some t) else setStart (Some s)))
       (Some (if timeAfter (setEnd (Some t)) (setEnd (Some s)) then setEnd (Some t) else setEnd (Some s)))"

definition merge :: "allocHeap \<Rightarrow> allocationSet \<Rightarrow> allocationSet \<Rightarrow> allocHeap \<times> allocationSet" where
  "merge h s t =
     (let (h1, acc1) = setInsertAll h (emptySet (hullWindow s t)) (map snd (refsOf s))
      in setInsertAll h1 acc1 (map snd (refsOf t)))"

lemma accumulate_cases:
  "setAccumulate h (Some s) (Some t) =
     (if refsOf s = [] then setClonePtr h (Some t)
      else if refsOf t = [] then setClonePtr h (Some s)
      else (fst (merge h s t), Some (snd (merge h s t))))"
  "setAccumulate h None t' = setClonePtr h t'"
  "setAccumulate h (Some s) None = setClonePtr h (if refsOf s = [] then None else Some s)"
  by (simp_all add: setAccumulate_def merge_def hullWindow_def NewAllocationSet_def case_prod_unfold Let_def)

lemma set_map_refs: "set (map snd (refsOf s)) = refs s"
  by (simp add: refs_def)

lemma merge_parts:
  assumes s: "setOk h s" and t: "setOk h t" and disj: "refs s \<inter> refs t = {}"
  defines "h1 \<equiv> fst (setInsertAll h (emptySet (hullWindow s t)) (map snd (refsOf s)))"
    and "a1 \<equiv> snd (setInsertAll h (emptySet (hullWindow s t)) (map snd (refsOf s)))"
  shows "setOk h1 a1" "length h1 = length h" "\<forall>x < length h. al_Name (h1 ! x) = al_Name (h ! x)" "refs a1 \<subseteq> refs s"
    "as_Window a1 = hullWindow s t" "\<forall>x. x \<notin> refs s \<longrightarrow> h1 ! x = h ! x" "setOk h1 t" "\<forall>x \<in> refs t. h1 ! x = h ! x"
    "merge h s t = setInsertAll h1 a1 (map snd (refsOf t))"
proof -
  have "\<forall>r \<in> set (map snd (refsOf s)). r < length h" using setOk_refs [OF s] by (simp only: set_map_refs) blast
  note i = insertAll_ok [OF setOk_empty this, of "hullWindow s t", folded h1_def a1_def, unfolded set_map_refs]
  have "refs (emptySet (hullWindow s t)) = {}" by (simp add: refs_def)
  with i show i': "setOk h1 a1" "length h1 = length h" "\<forall>x < length h. al_Name (h1 ! x) = al_Name (h ! x)" "refs a1 \<subseteq> refs s"
    "as_Window a1 = hullWindow s t" "\<forall>x. x \<notin> refs s \<longrightarrow> h1 ! x = h ! x"
    by (auto simp: emptySet_def)
  show "setOk h1 t" by (rule setOk_cong [OF t]) (use i' in auto)
  show "\<forall>x \<in> refs t. h1 ! x = h ! x" using i'(6) disj by auto
  show "merge h s t = setInsertAll h1 a1 (map snd (refsOf t))"
    by (simp add: merge_def h1_def a1_def case_prod_unfold Let_def del: setInsertAll.simps)
qed

lemma merge_touches:
  assumes s: "setOk h s" and t: "setOk h t" and disj: "refs s \<inter> refs t = {}"
  shows "touches h (refs s \<union> refs t) (fst (merge h s t)) (Some (snd (merge h s t))) \<and>
    as_Window (snd (merge h s t)) = hullWindow s t"
proof -
  note m = merge_parts [OF s t disj]
  have "\<forall>r \<in> set (map snd (refsOf t)). r < length (fst (setInsertAll h (emptySet (hullWindow s t)) (map snd (refsOf s))))"
    using setOk_refs [OF t] by (simp only: set_map_refs m(2)) blast
  note i = insertAll_ok [OF m(1) this, folded m(9), unfolded set_map_refs]
  from i m(2-6) disj show ?thesis by (auto simp: touches_def)
qed

context summed_field
begin

lemma merge_field:
  assumes s: "setOk h s" and t: "setOk h t" and disj: "refs s \<inter> refs t = {}"
  shows "fieldOf f (fst (merge h s t)) (snd (merge h s t)) name = plusOpt (fieldOf f h s name) (fieldOf f h t name)"
proof -
  note m = merge_parts [OF s t disj]
  let ?h1 = "fst (setInsertAll h (emptySet (hullWindow s t)) (map snd (refsOf s)))"
  let ?a1 = "snd (setInsertAll h (emptySet (hullWindow s t)) (map snd (refsOf s)))"
  have "refs s \<inter> refs (emptySet (hullWindow s t)) = {}" by (simp add: refs_def)
  from insert_set_fieldOf [OF setOk_empty s this]
  have one: "fieldOf f ?h1 ?a1 name = fieldOf f h s name" by simp
  have "fieldOf f ?h1 t name = fieldOf f h t name"
    using m(8) setGet_name [OF t, of name] by (cases "setGet t name") (simp_all add: fieldOf_def)
  moreover have "refs t \<inter> refs ?a1 = {}" using m(4) disj by auto
  ultimately show ?thesis
    using insert_set_fieldOf [OF m(1) m(7), of name] one by (simp add: m(9))
qed

end

lemma accumulate_touches:
  assumes "okPtr h s" and "okPtr h t" and "refsPtr s \<inter> refsPtr t = {}"
  shows "touches h (refsPtr s \<union> refsPtr t) (fst (setAccumulate h s t)) (snd (setAccumulate h s t))"
proof (cases s)
  case None
  with assms clonePtr_touches [of h t] show ?thesis by (auto simp: accumulate_cases intro: touches_mono)
next
  case (Some s')
  note s = this
  show ?thesis
  proof (cases t)
    case None
    with assms s clonePtr_touches [of h "if refsOf s' = [] then None else Some s'"] show ?thesis
      by (auto simp: accumulate_cases intro: touches_mono)
  next
    case (Some t')
    with assms s merge_touches [of h s' t'] clonePtr_touches [of h s] clonePtr_touches [of h t] show ?thesis
      by (auto simp: accumulate_cases intro: touches_mono)
  qed
qed

context summed_field
begin

lemma accumulate_field:
  assumes "okPtr h s" and "okPtr h t" and "refsPtr s \<inter> refsPtr t = {}"
  shows "fieldPtr f (fst (setAccumulate h s t)) (snd (setAccumulate h s t)) name =
    plusOpt (fieldPtr f h s name) (fieldPtr f h t name)"
proof (cases s)
  case None
  with assms show ?thesis by (simp add: accumulate_cases clonePtr_field)
next
  case (Some s')
  note s = this
  show ?thesis
  proof (cases t)
    case None
    with assms s no_entries [of s'] clonePtr_field [of h s] show ?thesis
      by (auto simp: accumulate_cases setClonePtr_def)
  next
    case (Some t')
    with assms s no_entries [of s'] no_entries [of t'] clonePtr_field [of h s] clonePtr_field [of h t] merge_field [of h s' t']
    show ?thesis by (auto simp: accumulate_cases)
  qed
qed

end

section \<open>Other operations keep the invariant\<close>

lemma keys_delete: "fst ` set (AList.delete k m) = fst ` set m - {k}"
  by (metis AList.delete_keys list.set_map set_removeAll)

lemma setDelete_ok:
  assumes ok: "setOk h as"
  shows "setOk h (setDelete as name)"
proof -
  have r: "refsOf (setDelete as name) = AList.delete name (refsOf as)"
    by (cases "as_Allocations as") (simp_all add: setDelete_def refsOf_def deleteKey_def)
  have k: "entries (deleteKey name m) = AList.delete name (entries m)" for m :: "bool gomap option"
    by (cases m) (simp_all add: deleteKey_def)
  have "setKeysOk suf (setDelete as name) (deleteKey name m)" if "setKeysOk suf as m" for suf m
    using that by (simp add: setKeysOk_def r k keys_delete) blast
  moreover have "set (AList.delete name (refsOf as)) \<subseteq> set (refsOf as)" by (auto simp: AList.delete_eq)
  moreover have "distinct (map fst (AList.delete name (refsOf as)))"
    using ok by (simp add: setOk_def distinct_delete)
  moreover have "as_ExternalKeys (setDelete as name) = deleteKey name (as_ExternalKeys as)"
    "as_IdleKeys (setDelete as name) = deleteKey name (as_IdleKeys as)" by (simp_all add: setDelete_def)
  ultimately show ?thesis using ok unfolding setOk_def r by auto
qed

lemma setSet_ok:
  assumes ok: "setOk h as" and r: "r < length h" and s: "setSet h as r = Some as'"
  shows "setOk h as'"
proof -
  let ?n = "al_Name (h ! r)"
  have none: "entries m = []" if "setKeysOk suf as m" "refsOf as = []" for suf m
    using that by (auto simp: setKeysOk_def)
  have parts: "refsOf as' = AList.update ?n r (refsOf as) \<and>
    entries (as_ExternalKeys as') = recordKey (IsExternal (h ! r)) ?n (entries (as_ExternalKeys as)) \<and>
    entries (as_IdleKeys as') = recordKey (IsIdle (h ! r)) ?n (entries (as_IdleKeys as))"
  proof (cases "refsOf as = []")
    case True
    with ok none have "entries (as_ExternalKeys as) = []" "entries (as_IdleKeys as) = []"
      by (auto simp: setOk_def)
    with True s show ?thesis by (auto simp: setSet_def Let_def refsOf_def)
  next
    case False
    have m: "entries (map_option (recordKey b ?n) m) = recordKey b ?n (entries m)" if "\<not> (b \<and> m = None)" for b m
      using that by (cases m) (auto simp: recordKey_def)
    from False s show ?thesis by (auto simp: setSet_def Let_def m split: if_splits) (simp_all add: refsOf_def)
  qed
  have keys: "setKeysOk suf as' m'" if "setKeysOk suf as m" "entries m' = recordKey b ?n (entries m)"
    "b = containsStr ?n suf" for suf m m' b
    using setKeysOk_insert [OF that(1,3), of as' r] parts that(2) by (simp add: setKeysOk_def)
  have "distinct (map fst (refsOf as'))" using ok parts by (simp add: setOk_def distinct_update)
  moreover have "x < length h \<and> al_Name (h ! x) = k" if "(k, x) \<in> set (refsOf as')" for k x
  proof -
    from that calculation have "map_of (refsOf as') k = Some x" by simp
    with parts have "k = ?n \<and> x = r \<or> setGet as k = Some x" by (auto simp: update_conv' setGet_def split: if_splits)
    with r setGet_name [OF ok] show ?thesis by auto
  qed
  moreover have "setKeysOk ExternalSuffix as' (as_ExternalKeys as')" "setKeysOk IdleSuffix as' (as_IdleKeys as')"
    using ok parts by (auto simp: setOk_def IsExternal_def IsIdle_def intro: keys)
  ultimately show ?thesis by (auto simp: setOk_def)
qed

lemma name_update: "(\<And>a. al_Name (g a) = al_Name a) \<Longrightarrow> x < length h \<Longrightarrow> al_Name (h[b := g (h ! b)] ! x) = al_Name (h ! x)"
  by (cases "x = b") simp_all

lemma updateAll_parts:
  "length (fold (\<lambda>(_, r) h. h[r := g (h ! r)]) es h) = length h \<and>
   ((\<forall>a. al_Name (g a) = al_Name a) \<longrightarrow>
     (\<forall>x < length h. al_Name (fold (\<lambda>(_, r) h. h[r := g (h ! r)]) es h ! x) = al_Name (h ! x)))"
proof (induction es arbitrary: h)
  case (Cons e es)
  from Cons.IH [of "h[snd e := g (h ! snd e)]"] show ?case
    by (cases e) (auto simp: name_update)
qed simp

lemma updateAll_ok:
  assumes "setOk h as" and "\<And>a. al_Name (g a) = al_Name a"
  shows "setOk (updateAll g h s) as"
  using updateAll_parts [of g "refsOf s" h] assms(2) by (intro setOk_cong [OF assms(1)]) (simp_all add: updateAll_def)

lemma fold_update_nth:
  assumes "distinct (map snd es)" and "x < length h"
  shows "fold (\<lambda>(_, r) h. h[r := g (h ! r)]) es h ! x = (if x \<in> snd ` set es then g (h ! x) else h ! x)"
  using assms
proof (induction es arbitrary: h)
  case (Cons e es)
  obtain k r where e: "e = (k, r)" by (cases e)
  with Cons.prems have "x \<noteq> r" if "x \<in> snd ` set es" using that by auto
  with Cons e show ?case by (cases "x = r") (simp_all add: image_iff)
qed simp

lemma updateAll_nth:
  assumes "setOk h s" and "x < length h"
  shows "updateAll g h s ! x = (if x \<in> refs s then g (h ! x) else h ! x)"
proof -
  have "distinct (map snd (refsOf s))" using assms(1) by (auto simp: setOk_def intro: distinct_map_snd)
  from fold_update_nth [OF this assms(2)] show ?thesis by (simp add: updateAll_def refs_def)
qed

text \<open>The states of a heap and a set that calls reach from a new set, in any order.\<close>

inductive setReach :: "allocHeap \<Rightarrow> allocationSet \<Rightarrow> bool" where
  new: "setReach h (emptySet w)"
| allocate: "setReach h as \<Longrightarrow> setReach (h @ [a]) as"
| insert: "setReach h as \<Longrightarrow> r < length h \<Longrightarrow> setReach (fst (setInsert h as r)) (snd (setInsert h as r))"
| set: "setReach h as \<Longrightarrow> r < length h \<Longrightarrow> setSet h as r = Some as' \<Longrightarrow> setReach h as'"
| delete: "setReach h as \<Longrightarrow> setReach h (setDelete as name)"
| reset: "setReach h as \<Longrightarrow> setReach (setResetAdjustments h as) as"
| sanitize: "setReach h as \<Longrightarrow> setReach (setSanitizeNaN h as) as"
| clone: "setReach h as \<Longrightarrow> setReach (fst (setClone h as)) (snd (setClone h as))"

lemma setReach_ok: "setReach h as \<Longrightarrow> setOk h as"
proof (induction rule: setReach.induct)
  case (allocate h as a)
  then show ?case by (rule_tac setOk_cong) (auto simp: nth_append)
next
  case (reset h as)
  from reset.IH show ?case unfolding setResetAdjustments_def by (rule updateAll_ok) (simp add: ResetAdjustments_def)
next
  case (sanitize h as)
  from sanitize.IH show ?case unfolding setSanitizeNaN_def by (rule updateAll_ok) (simp add: allocSanitizeNaN_def)
qed (simp_all add: setInsert_ok setSet_ok setDelete_ok clone_ok)

end
