(* ===== verification/Go_Float_Order.thy ===== *)
theory Go_Float_Order
  imports Go_Float
begin

text \<open>
  Order of \<^verbatim>\<open>float64\<close> results: what an operation returns is representable, adding a
  non-negative value does not lower a representable one, and a part divided by the total it was
  added to is between zero and one. Both overflowing is the only way to a NaN.
\<close>


section \<open>Results of operations are representable\<close>

definition isFloat :: "float64 \<Rightarrow> bool" where
  "isFloat v = (case v of Fin x \<Rightarrow> fl x = Fin x | _ \<Rightarrow> True)"

lemma roundPos_multiple:
  assumes x: "0 < x" and y: "y = roundPos x" "0 < y"
  shows "roundPos y = y"
proof -
  let ?q = "max (exponent x - 52) (- 1074)" and ?e = "max (exponent x + 1) (- 1074)"
  have "x \<le> pow2 ?e" using exponent_bounds(2) [OF x] pow2_mono [of "exponent x + 1" ?e] by simp
  then have le: "y \<le> pow2 ?e" unfolding y(1) by (rule roundPos_upper) simp
  have "\<exists>j. y / quantum y = of_int j"
  proof (cases "y = pow2 ?e")
    case True
    have "pow2 (exponent y) \<le> pow2 ?e" using exponent_bounds(1) [OF y(2)] True by simp
    then have "exponent y \<le> ?e" by (meson linorder_not_less pow2_less)
    then have "max (exponent y - 52) (- 1074) \<le> ?e" by simp
    from pow2_multiple [OF this] True show ?thesis by metis
  next
    case False
    then have "pow2 (exponent y) < pow2 ?e" using exponent_bounds(1) [OF y(2)] le by simp
    then have "exponent y < ?e" by (simp only: pow2_less)
    then have "max (exponent y - 52) (- 1074) \<le> ?q" by linarith
    from pow2_multiple [OF this] obtain j where j: "pow2 ?q / quantum y = of_int j" by blast
    have "y = of_int (roundHalfEven (x / quantum x)) * pow2 ?q" by (simp add: y(1) roundPos_def quantum_def)
    then have "y / quantum y = of_int (roundHalfEven (x / quantum x)) * (pow2 ?q / quantum y)" by simp
    then have "y / quantum y = of_int (roundHalfEven (x / quantum x) * j)" by (simp only: j of_int_mult)
    then show ?thesis by blast
  qed
  then obtain j where j: "y / quantum y = of_int j" by blast
  then have "y = of_int j * quantum y" using quantum_pos [of y] by (simp add: field_simps)
  then show ?thesis by (simp add: roundPos_def j)
qed

lemma isFloat_fl: "isFloat (fl x)"
proof -
  have pos: "fl (roundPos z) = Fin (roundPos z)" if "0 < z" "\<not> pow2 1024 \<le> roundPos z" for z
  proof (cases "roundPos z = 0")
    case False
    with roundPos_nonneg [OF that(1)] have y: "0 < roundPos z" by simp
    from roundPos_multiple [OF that(1) refl y] y that(2) show ?thesis by (simp add: fl_def Let_def)
  qed (simp add: fl_def)
  have neg: "fl (- roundPos z) = Fin (- roundPos z)" if "0 < z" "\<not> pow2 1024 \<le> roundPos z" for z
  proof (cases "roundPos z = 0")
    case False
    with roundPos_nonneg [OF that(1)] have y: "0 < roundPos z" by simp
    from roundPos_multiple [OF that(1) refl y] y that(2) show ?thesis by (simp add: fl_def Let_def)
  qed (simp add: fl_def)
  consider "x = 0" | "0 < x" | "x < 0" by linarith
  then show ?thesis
  proof cases
    case 2
    then show ?thesis using pos [of x] by (simp add: isFloat_def fl_def [of x] Let_def)
  next
    case 3
    then show ?thesis using neg [of "- x"] by (simp add: isFloat_def fl_def [of x] Let_def)
  qed (simp add: isFloat_def fl_def)
qed

lemma isFloat_fadd: "isFloat (fadd x y)"
  by (cases "(x, y)" rule: fadd.cases) (simp_all add: isFloat_fl isFloat_def [of NaN] isFloat_def [of PosInf] isFloat_def [of NegInf])

section \<open>Shares of a total\<close>

definition nonneg :: "float64 \<Rightarrow> bool" where
  "nonneg v = fle (Fin 0) v"

lemma nonneg_cases: "nonneg v \<longleftrightarrow> v = PosInf \<or> (\<exists>x \<ge> 0. v = Fin x)"
  by (cases v) (auto simp: nonneg_def fle_def)

lemma nonneg_fl: "0 \<le> x \<Longrightarrow> nonneg (fl x)"
  using fle_fl [of 0 x] by (simp add: nonneg_def) (simp add: fl_def)

lemma nonneg_fadd: "nonneg x \<Longrightarrow> nonneg y \<Longrightarrow> nonneg (fadd x y)"
  by (auto simp: nonneg_cases [of x] nonneg_cases [of y] nonneg_fl) (simp_all add: nonneg_def fle_def)

lemma fle_trans: "fle x y \<Longrightarrow> fle y z \<Longrightarrow> fle x z"
  by (cases x; cases y; cases z) (auto simp: fle_def)

lemma fadd_above:
  assumes "nonneg t" and "isFloat t" and "nonneg w"
  shows "fle t (fadd t w)"
proof (cases t)
  case (Fin x)
  show ?thesis
  proof (cases w)
    case (Fin y)
    with \<open>t = Fin x\<close> assms fle_fl [of x "x + y"] show ?thesis by (auto simp: nonneg_cases isFloat_def)
  qed (use assms Fin in \<open>auto simp: nonneg_cases fle_def\<close>)
qed (use assms in \<open>auto simp: nonneg_cases fle_def\<close>)

lemma fadd_mono:
  assumes "nonneg c" and "nonneg w" and "fle c t"
  shows "fle (fadd c w) (fadd t w)"
proof -
  have fl: "fle (fl x) PosInf" for x
    by (cases "fl x") (auto simp: fle_def fl_def Let_def split: if_splits)
  show ?thesis
  proof (cases "c = PosInf \<or> w = PosInf \<or> t = PosInf")
    case True
    with assms fl show ?thesis by (cases c; cases w; cases t) (auto simp: nonneg_cases fle_def [of PosInf] fle_def [of "Fin _"])
  next
    case False
    with assms obtain x y z where "c = Fin x" "w = Fin y" "t = Fin z"
      by (cases t) (auto simp: nonneg_cases fle_def)
    with assms(3) fle_fl [of "x + y" "z + y"] show ?thesis by (auto simp: fle_def [of "Fin _"])
  qed
qed

definition isShare :: "float64 \<Rightarrow> bool" where
  "isShare v \<longleftrightarrow> v = NaN \<or> (fle (Fin 0) v \<and> fle v (Fin 1))"

lemma fl_one [simp]: "fl 1 = Fin 1" "fl 0 = Fin 0"
  using fl_of_int [of 1] by (simp_all add: fl_def)

lemma fdiv_share:
  assumes "flt (Fin 0) c" and "fle c t"
  shows "isShare (fdiv c t)"
proof (cases c)
  case (Fin x)
  show ?thesis
  proof (cases t)
    case (Fin y)
    with \<open>c = Fin x\<close> assms have "0 < x" "x \<le> y" "0 < y" by (auto simp: fle_def)
    then have "0 \<le> x / y" "x / y \<le> 1" by simp_all
    from fle_fl [OF this(1)] fle_fl [OF this(2)] show ?thesis
      using \<open>c = Fin x\<close> Fin \<open>0 < y\<close> by (simp add: isShare_def)
  qed (use assms Fin in \<open>auto simp: isShare_def fle_def\<close>)
next
  case PosInf
  with assms show ?thesis by (cases t) (auto simp: isShare_def fle_def)
qed (use assms in simp_all)

end
