(* ===== verification/Alloc_Aggregate.thy ===== *)
theory Alloc_Aggregate
  imports Alloc_Matcher Alloc_Set Go_Float_Order
begin

text \<open>
  Aggregation of a set of allocations (\<^verbatim>\<open>core/pkg/opencost/allocation.go\<close>, \<^verbatim>\<open>AggregateBy\<close>):
  external, idle and shared allocations are set apart, the others are filtered, given their share
  of the idle costs and inserted into a new set under the key of the aggregation; then the shared
  costs are distributed over the new set. The function works on the pointers of the given set, so
  it takes and returns the heap. The tables it builds are maps from strings, and a missing entry
  reads as zero.
\<close>

section \<open>Options and steps\<close>

definition ShareWeighted :: string where "ShareWeighted = ''__weighted__''"
definition ShareEven :: string where "ShareEven = ''__even__''"
definition ShareNone :: string where "ShareNone = ''__none__''"

text \<open>\<^verbatim>\<open>AllocationAggregationOptions\<close>; the store of totals, which no operation here reads, is left out.\<close>

record aggregationOptions =
  ao_Filter :: "filterNode option"
  ao_IdleByNode :: bool
  ao_IncludeProportionalAssetResourceCosts :: bool
  ao_LabelConfig :: "labelConfig option"
  ao_MergeUnallocated :: bool
  ao_Reconcile :: bool
  ao_ReconcileNetwork :: bool
  ao_Share :: "filterNode option"
  ao_SharedNamespaces :: "string list"
  ao_SharedLabels :: "string list gomap"
  ao_ShareIdle :: string
  ao_ShareSplit :: string
  ao_SharedHourlyCosts :: "float64 gomap"
  ao_IncludeSharedCostBreakdown :: bool
  ao_SplitIdle :: bool
  ao_IncludeAggregatedMetadata :: bool

definition zeroOptions :: aggregationOptions where
  "zeroOptions =
     \<lparr>ao_Filter = None, ao_IdleByNode = False, ao_IncludeProportionalAssetResourceCosts = False,
      ao_LabelConfig = None, ao_MergeUnallocated = False, ao_Reconcile = False,
      ao_ReconcileNetwork = False, ao_Share = None, ao_SharedNamespaces = [], ao_SharedLabels = [],
      ao_ShareIdle = [], ao_ShareSplit = [], ao_SharedHourlyCosts = [],
      ao_IncludeSharedCostBreakdown = False, ao_SplitIdle = False, ao_IncludeAggregatedMetadata = False\<rparr>"

datatype aggError =
    CompilingFilter compileError
  | CompilingSharer compileError
  | ShareCoefficients compileError
  | MissingIdleId string

text \<open>
  A step ends in a panic, \<open>None\<close>, or in an error or none with the state it leaves. A loop over
  the elements of a list stops at the first panic or error.
\<close>

type_synonym 's step = "(aggError option \<times> 's) option"

definition ok :: "'s \<Rightarrow> 's step" where
  "ok st = Some (None, st)"

definition andThen :: "'s step \<Rightarrow> ('s \<Rightarrow> 's step) \<Rightarrow> 's step" where
  "andThen s f =
     (case s of None \<Rightarrow> None | Some (Some e, st) \<Rightarrow> Some (Some e, st) | Some (None, st) \<Rightarrow> f st)"

primrec forEach :: "('a \<Rightarrow> 's \<Rightarrow> 's step) \<Rightarrow> 'a list \<Rightarrow> 's \<Rightarrow> 's step" where
  "forEach f [] st = ok st"
| "forEach f (x # xs) st = andThen (f x st) (forEach f xs)"

text \<open>A loop whose body has no error.\<close>

primrec foldOpt :: "('a \<Rightarrow> 's \<Rightarrow> 's option) \<Rightarrow> 'a list \<Rightarrow> 's \<Rightarrow> 's option" where
  "foldOpt f [] st = Some st"
| "foldOpt f (x # xs) st = Option.bind (f x st) (foldOpt f xs)"

section \<open>Tables\<close>

definition numAt :: "float64 gomap \<Rightarrow> string \<Rightarrow> float64" where
  "numAt m k = (case map_of m k of None \<Rightarrow> Fin 0 | Some v \<Rightarrow> v)"

definition mapAt :: "'v list gomap \<Rightarrow> string \<Rightarrow> 'v list" where
  "mapAt m k = (case map_of m k of None \<Rightarrow> [] | Some v \<Rightarrow> v)"

text \<open>\<^verbatim>\<open>m[k] += x\<close>, and changing the table under a key, made if it does not exist.\<close>

definition addNum :: "string \<Rightarrow> float64 \<Rightarrow> float64 gomap \<Rightarrow> float64 gomap" where
  "addNum k x m = AList.update k (fadd (numAt m k) x) m"

definition atKey :: "string \<Rightarrow> ('v gomap \<Rightarrow> 'v gomap) \<Rightarrow> 'v gomap gomap \<Rightarrow> 'v gomap gomap" where
  "atKey k f m = AList.update k (f (mapAt m k)) m"

text \<open>From identifiers of idle costs to names of allocations to resources.\<close>

type_synonym coeffs = "float64 gomap gomap gomap"
type_synonym totals = "float64 gomap gomap"

definition coeffOf :: "coeffs \<Rightarrow> string \<Rightarrow> string \<Rightarrow> string \<Rightarrow> float64" where
  "coeffOf c idleId name res = numAt (mapAt (mapAt c idleId) name) res"

definition addCost :: "string \<Rightarrow> string \<Rightarrow> string \<times> float64 \<Rightarrow> coeffs \<times> totals \<Rightarrow> coeffs \<times> totals" where
  "addCost idleId name rx ct =
     (atKey idleId (atKey name (addNum (fst rx) (snd rx))) (fst ct), atKey idleId (addNum (fst rx) (snd rx)) (snd ct))"

definition nodeCosts :: "allocation \<Rightarrow> (string \<times> float64) list" where
  "nodeCosts a = [(''cpu'', CPUTotalCost a), (''gpu'', GPUTotalCost a), (''ram'', RAMTotalCost a)]"

text \<open>\<^verbatim>\<open>getIdleId\<close> gives an identifier and an error; nil properties panic.\<close>

definition getIdleId :: "aggregationOptions \<Rightarrow> allocation \<Rightarrow> (string \<times> string option) option" where
  "getIdleId options a =
     map_option (\<lambda>p.
       if ao_IdleByNode options
       then (let idleId = pr_Cluster p @ ''/'' @ pr_Node p
             in (idleId, if idleId = [] then Some ''ProviderId is not set'' else None))
       else (let idleId = pr_Cluster p
             in (idleId, if idleId = [] then Some ''ClusterProp is not set'' else None)))
       (al_Properties a)"

definition idleIdOf :: "aggregationOptions \<Rightarrow> allocation \<Rightarrow> string option" where
  "idleIdOf options a = map_option fst (getIdleId options a)"

section \<open>Coefficients of idle costs\<close>

definition recordIdle :: "aggregationOptions \<Rightarrow> allocation \<Rightarrow> coeffs \<times> totals \<Rightarrow> (coeffs \<times> totals) option" where
  "recordIdle options a ct =
     (if IsIdle a then Some ct
      else map_option (\<lambda>idleId. fold (addCost idleId (al_Name a)) (nodeCosts a) ct) (idleIdOf options a))"

definition normalizeOne :: "float64 gomap \<Rightarrow> float64 gomap \<Rightarrow> float64 gomap" where
  "normalizeOne tot m =
     fold (\<lambda>r m. if flt (Fin 0) (numAt m r) \<and> flt (Fin 0) (numAt tot r)
                 then AList.update r (fdiv (numAt m r) (numAt tot r)) m else m)
       [''cpu'', ''gpu'', ''ram''] m"

definition normalizeCoeffs :: "totals \<Rightarrow> coeffs \<Rightarrow> coeffs" where
  "normalizeCoeffs tot c =
     map (\<lambda>(idleId, m). (idleId, map (\<lambda>(name, rs). (name, normalizeOne (mapAt tot idleId) rs)) m)) c"

definition computeIdleCoeffs ::
  "aggregationOptions \<Rightarrow> allocHeap \<Rightarrow> allocationSet \<Rightarrow> allocationSet \<Rightarrow> (coeffs \<times> totals) option" where
  "computeIdleCoeffs options h as shareSet =
     map_option (\<lambda>(c, tot). (normalizeCoeffs tot c, tot))
       (foldOpt (\<lambda>(_, r). recordIdle options (h ! r)) (refsOf as @ refsOf shareSet) ([], []))"

section \<open>Coefficients of shared costs\<close>

definition isFilterEmpty :: "'t matcher \<Rightarrow> bool" where
  "isFilterEmpty m = (case m of AllPass \<Rightarrow> True | _ \<Rightarrow> False)"

definition compileWith ::
  "labelConfig option \<Rightarrow> filterNode option \<Rightarrow> (compileError + allocation option matcher) option" where
  "compileWith lc f =
     (case f of None \<Rightarrow> Some (Inr AllPass) | Some n \<Rightarrow> Compile (NewAllocationMatchCompiler lc) n)"

definition keyOf :: "aggregationOptions \<Rightarrow> string list option \<Rightarrow> allocation \<Rightarrow> string" where
  "keyOf options aggregateBy a =
     generateKey (Some a) (case aggregateBy of None \<Rightarrow> [] | Some l \<Rightarrow> l) (ao_LabelConfig options)"

text \<open>The part of the total that a weighted distribution counts.\<close>

definition shareWeight :: "allocation \<Rightarrow> float64" where
  "shareWeight a = fsub (fsub (TotalCost a) (al_SharedCost a)) (al_UnmountedPVCost a)"

definition recordShare ::
  "string list option \<Rightarrow> aggregationOptions \<Rightarrow> allocation option matcher \<Rightarrow> allocation \<Rightarrow> float64 gomap \<times> float64 \<Rightarrow>
     (float64 gomap \<times> float64) option" where
  "recordShare aggregateBy options m a ct =
     (if IsIdle a \<or> IsUnmounted a then Some ct
      else (case Matches m (Some a) of
              None \<Rightarrow> None
            | Some b \<Rightarrow>
                (let name = (if b then keyOf options aggregateBy a else ''__filtered__''); (c, total) = ct
                 in if ao_ShareSplit options = ShareEven
                    then (let c' = AList.update name (Fin 1) c in Some (c', fOfInt (int (length c'))))
                    else Some (addNum name (shareWeight a) c, fadd total (shareWeight a)))))"

definition normalizeShares :: "float64 gomap \<times> float64 \<Rightarrow> float64 gomap" where
  "normalizeShares ct =
     map (\<lambda>(a, x). (a, if flt (Fin 0) x \<and> flt (Fin 0) (snd ct) then fdiv x (snd ct) else Fin 0)) (fst ct)"

definition computeShareCoeffs ::
  "string list option \<Rightarrow> aggregationOptions \<Rightarrow> allocHeap \<Rightarrow> allocationSet \<Rightarrow> (compileError + float64 gomap) option" where
  "computeShareCoeffs aggregateBy options h as =
     (case compileWith (ao_LabelConfig options) (ao_Filter options) of
        None \<Rightarrow> None
      | Some (Inl e) \<Rightarrow> Some (Inl e)
      | Some (Inr m) \<Rightarrow>
          map_option (\<lambda>ct. Inr (normalizeShares ct))
            (foldOpt (\<lambda>(_, r). recordShare aggregateBy options m (h ! r)) (refsOf as) ([], Fin 0)))"

section \<open>Proportional asset costs\<close>

definition lbCosts :: "allocation \<Rightarrow> coeffs \<times> totals \<Rightarrow> coeffs \<times> totals" where
  "lbCosts a ct =
     fold (\<lambda>(key, _). addCost key (al_Name a) (''loadbalancer'', LoadBalancerTotalCost a))
       (entries (al_LoadBalancers a)) ct"

definition recordParc :: "aggregationOptions \<Rightarrow> allocation \<Rightarrow> coeffs \<times> totals \<Rightarrow> (coeffs \<times> totals) option" where
  "recordParc options a ct =
     map_option (\<lambda>idleId. fold (addCost idleId (al_Name a)) (nodeCosts a) (lbCosts a ct)) (idleIdOf options a)"

definition recordSharedParc :: "aggregationOptions \<Rightarrow> allocation \<Rightarrow> coeffs \<times> totals \<Rightarrow> (coeffs \<times> totals) option" where
  "recordSharedParc options a ct =
     (if IsIdle a then Some ct
      else map_option (\<lambda>idleId. lbCosts a (fold (addCost idleId (al_Name a)) (nodeCosts a) ct)) (idleIdOf options a))"

definition nodeParc :: "coeffs \<Rightarrow> string \<Rightarrow> allocation \<Rightarrow> allocationProperties \<Rightarrow> proportionalAssetResourceCost" where
  "nodeParc c idleId a p =
     zeroParc\<lparr>parc_Cluster := pr_Cluster p, parc_Name := pr_Node p, parc_Type := ''Node'',
       parc_ProviderID := pr_ProviderID p,
       parc_GPUProportionalCost := coeffOf c idleId (al_Name a) ''gpu'',
       parc_CPUProportionalCost := coeffOf c idleId (al_Name a) ''cpu'',
       parc_RAMProportionalCost := coeffOf c idleId (al_Name a) ''ram''\<rparr>"

definition lbParc :: "coeffs \<Rightarrow> allocation \<Rightarrow> allocationProperties \<Rightarrow> string \<times> lbAllocation \<Rightarrow> proportionalAssetResourceCost" where
  "lbParc c a p ks =
     zeroParc\<lparr>parc_Cluster := pr_Cluster p, parc_Name := lb_Service (snd ks), parc_Type := ''LoadBalancer'',
       parc_LoadBalancerProportionalCost := coeffOf c (fst ks) (al_Name a) ''loadbalancer''\<rparr>"

definition pvParc :: "pvKey \<times> pvAllocation \<Rightarrow> proportionalAssetResourceCost" where
  "pvParc kp =
     zeroParc\<lparr>parc_Cluster := pvk_Cluster (fst kp), parc_Name := pvk_Name (fst kp), parc_Type := ''PV'',
       parc_ProviderID := pv_ProviderID (snd kp), parc_PVProportionalCost := pv_Cost (snd kp)\<rparr>"

definition parcsOf :: "aggregationOptions \<Rightarrow> coeffs \<Rightarrow> allocation \<Rightarrow> allocationProperties \<Rightarrow> string \<Rightarrow> parcs" where
  "parcsOf options c a p idleId =
     (let byNode = ao_IdleByNode options;
          ps0 = parcInsert byNode (nodeParc c idleId a p) [];
          ps1 = (if feq (al_LoadBalancerCost a) (Fin 0) then ps0
                 else fold (\<lambda>ks. parcInsert byNode (lbParc c a p ks)) (entries (al_LoadBalancers a)) ps0)
      in fold (\<lambda>kp. parcInsert byNode (pvParc kp)) (pvEntries a) ps1)"

definition setParcs :: "aggregationOptions \<Rightarrow> coeffs \<Rightarrow> string \<times> ref \<Rightarrow> allocHeap \<Rightarrow> allocHeap option" where
  "setParcs options c kr h =
     (let r = snd kr; a = h ! r
      in case (al_Properties a, idleIdOf options a) of
           (Some p, Some idleId) \<Rightarrow> Some (h[r := a\<lparr>al_ProportionalAssetResourceCosts := Some (parcsOf options c a p idleId)\<rparr>])
         | _ \<Rightarrow> None)"

definition deriveProportionalAssetResourceCosts ::
  "aggregationOptions \<Rightarrow> allocHeap \<Rightarrow> allocationSet \<Rightarrow> allocationSet \<Rightarrow> allocationSet \<Rightarrow> allocHeap option" where
  "deriveProportionalAssetResourceCosts options h as shareSet parcSet =
     Option.bind (foldOpt (\<lambda>(_, r). recordParc options (h ! r)) (refsOf parcSet) ([], []))
       (\<lambda>ct. Option.bind (foldOpt (\<lambda>(_, r). recordSharedParc options (h ! r)) (refsOf shareSet) ct)
          (\<lambda>(c, _). foldOpt (setParcs options c) (refsOf as) h))"

section \<open>The name shared costs are grouped under\<close>

definition sharedKeys :: "aggregationOptions \<Rightarrow> string list" where
  "sharedKeys options =
     fold (\<lambda>k aggs. if ''label:'' @ k \<in> set aggs then aggs else aggs @ [''label:'' @ k])
       (sortStrings (map fst (ao_SharedLabels options))) [] @
     (if ao_SharedNamespaces options \<noteq> [] then [''namespace''] else [])"

primrec firstShared :: "(string list \<times> nat) list \<Rightarrow> string list \<Rightarrow> string option" where
  "firstShared [] vs = None"
| "firstShared (li # ls) vs = (if vs ! snd li \<in> set (fst li) then Some (vs ! snd li) else firstShared ls vs)"

definition determineSharingName :: "allocation option \<Rightarrow> aggregationOptions option \<Rightarrow> string + string" where
  "determineSharingName a options =
     (case (a, options) of
        (None, _) \<Rightarrow> Inl ''determineSharingName called on nil Allocation''
      | (Some _, None) \<Rightarrow> Inr ''unknown''
      | (Some x, Some opts) \<Rightarrow>
          (let sharedLabels = map (mapAt (ao_SharedLabels opts)) (sortStrings (map fst (ao_SharedLabels opts)));
               values = splitByte (CHR ''/'') (generateKey (Some x) (sharedKeys opts) (ao_LabelConfig opts))
           in if length values \<noteq> length (sharedKeys opts) then Inr ''unknown''
              else (case firstShared (zip sharedLabels [0..<length sharedLabels]) values of
                      Some l \<Rightarrow> Inr l
                    | None \<Rightarrow>
                        if ao_SharedNamespaces opts \<noteq> [] \<and> last values \<in> set (ao_SharedNamespaces opts)
                        then Inr (last values) else Inr ''unknown'')))"

section \<open>The parts of an aggregation\<close>

text \<open>The sets and tables of a call, and the heap.\<close>

record aggState =
  ag_heap :: allocHeap
  ag_as :: allocationSet
  ag_aggSet :: allocationSet
  ag_externalSet :: allocationSet
  ag_idleSet :: allocationSet
  ag_parcSet :: allocationSet
  ag_shareSet :: allocationSet
  ag_idleCoefficients :: coeffs
  ag_allocatedTotals :: totals
  ag_idleFiltration :: "coeffs option"
  ag_shareCoefficients :: "float64 gomap"

text \<open>A set of which only the window is given has nil maps.\<close>

definition windowSet :: "window \<Rightarrow> allocationSet" where
  "windowSet w =
     \<lparr>as_Allocations = None, as_ExternalKeys = None, as_IdleKeys = None, as_FromSource = [],
      as_Window = windowClone w, as_Warnings = None, as_Errors = None\<rparr>"

definition startState :: "allocHeap \<Rightarrow> allocationSet \<Rightarrow> aggState" where
  "startState h as =
     (let new = windowSet (as_Window as)
      in \<lparr>ag_heap = h, ag_as = as, ag_aggSet = new, ag_externalSet = new, ag_idleSet = new, ag_parcSet = new,
          ag_shareSet = new, ag_idleCoefficients = [], ag_allocatedTotals = [], ag_idleFiltration = None,
          ag_shareCoefficients = []\<rparr>)"

definition updateCell :: "ref \<Rightarrow> (allocation \<Rightarrow> allocation) \<Rightarrow> aggState \<Rightarrow> aggState" where
  "updateCell r g st = st\<lparr>ag_heap := (ag_heap st)[r := g (ag_heap st ! r)]\<rparr>"

definition insertAgg :: "ref \<Rightarrow> aggState \<Rightarrow> aggState" where
  "insertAgg r st =
     (let (h, s) = setInsert (ag_heap st) (ag_aggSet st) r in st\<lparr>ag_heap := h, ag_aggSet := s\<rparr>)"

definition insertExternal :: "ref \<Rightarrow> aggState \<Rightarrow> aggState" where
  "insertExternal r st =
     (let (h, s) = setInsert (ag_heap st) (ag_externalSet st) r in st\<lparr>ag_heap := h, ag_externalSet := s\<rparr>)"

definition insertIdle :: "ref \<Rightarrow> aggState \<Rightarrow> aggState" where
  "insertIdle r st =
     (let (h, s) = setInsert (ag_heap st) (ag_idleSet st) r in st\<lparr>ag_heap := h, ag_idleSet := s\<rparr>)"

definition insertShare :: "ref \<Rightarrow> aggState \<Rightarrow> aggState" where
  "insertShare r st =
     (let (h, s) = setInsert (ag_heap st) (ag_shareSet st) r in st\<lparr>ag_heap := h, ag_shareSet := s\<rparr>)"

text \<open>A parallel set of clones, for the proportional costs.\<close>

definition insertParcClone :: "ref \<Rightarrow> aggState \<Rightarrow> aggState" where
  "insertParcClone r st =
     (let h = ag_heap st @ [allocClone (ag_heap st ! r)];
          (h', s) = setInsert h (ag_parcSet st) (length (ag_heap st))
      in st\<lparr>ag_heap := h', ag_parcSet := s\<rparr>)"

definition dropExternal :: "string \<Rightarrow> aggState \<Rightarrow> aggState" where
  "dropExternal name st =
     st\<lparr>ag_as := (ag_as st)\<lparr>as_ExternalKeys := deleteKey name (as_ExternalKeys (ag_as st)),
                            as_Allocations := deleteKey name (as_Allocations (ag_as st))\<rparr>\<rparr>"

definition dropIdle :: "string \<Rightarrow> aggState \<Rightarrow> aggState" where
  "dropIdle name st =
     st\<lparr>ag_as := (ag_as st)\<lparr>as_IdleKeys := deleteKey name (as_IdleKeys (ag_as st)),
                            as_Allocations := deleteKey name (as_Allocations (ag_as st))\<rparr>\<rparr>"

text \<open>(1) External, idle and shared allocations are moved to their sets.\<close>

definition partitionStep ::
  "aggregationOptions \<Rightarrow> allocation option matcher option \<Rightarrow> string \<times> ref \<Rightarrow> aggState \<Rightarrow> aggState step" where
  "partitionStep options sharer kr st =
     (let r = snd kr; a = ag_heap st ! r; name = al_Name a
      in case al_Properties a of
           None \<Rightarrow> None
         | Some p \<Rightarrow>
             (let st1 = updateCell r (\<lambda>a. a\<lparr>al_Properties := Some (p\<lparr>pr_AggregatedMetadata := ao_IncludeAggregatedMetadata options\<rparr>)\<rparr>) st;
                  st2 = (if ao_IncludeProportionalAssetResourceCosts options then insertParcClone r st1 else st1)
              in if IsExternal a then ok (insertExternal r (dropExternal name st2))
                 else if IsIdle a
                 then ok ((if ao_ShareIdle options = ShareEven \<or> ao_ShareIdle options = ShareWeighted
                           then insertIdle r else insertAgg r) (dropIdle name st2))
                 else (case sharer of
                         None \<Rightarrow> ok st2
                       | Some m \<Rightarrow>
                           (case Matches m (Some (ag_heap st2 ! r)) of
                              None \<Rightarrow> None
                            | Some b \<Rightarrow> ok (if b then insertShare r (dropIdle name st2) else st2)))))"

definition partition' ::
  "aggregationOptions \<Rightarrow> allocation option matcher option \<Rightarrow> aggState \<Rightarrow> aggState step" where
  "partition' options sharer st = forEach (partitionStep options sharer) (refsOf (ag_as st)) st"

text \<open>(2a) to (2c) The coefficients of idle costs, the proportional costs and the filtration.\<close>

definition idleStep :: "aggregationOptions \<Rightarrow> aggState \<Rightarrow> aggState step" where
  "idleStep options st =
     (if refsOf (ag_idleSet st) \<noteq> [] \<and> ao_ShareIdle options \<noteq> ShareNone
      then (case computeIdleCoeffs options (ag_heap st) (ag_as st) (ag_shareSet st) of
              None \<Rightarrow> None
            | Some (c, tot) \<Rightarrow> ok (st\<lparr>ag_idleCoefficients := c, ag_allocatedTotals := tot\<rparr>))
      else ok st)"

definition parcStep :: "aggregationOptions \<Rightarrow> aggState \<Rightarrow> aggState step" where
  "parcStep options st =
     (if ao_IncludeProportionalAssetResourceCosts options
      then (case deriveProportionalAssetResourceCosts options (ag_heap st) (ag_as st) (ag_shareSet st) (ag_parcSet st) of
              None \<Rightarrow> None
            | Some h \<Rightarrow> ok (st\<lparr>ag_heap := h\<rparr>))
      else ok st)"

definition filtrationStep :: "aggregationOptions \<Rightarrow> bool \<Rightarrow> aggState \<Rightarrow> aggState step" where
  "filtrationStep options shouldFilter st =
     (if shouldFilter \<and> ao_ShareIdle options = ShareNone
      then (case computeIdleCoeffs options (ag_heap st) (ag_as st) (ag_shareSet st) of
              None \<Rightarrow> None
            | Some (c, _) \<Rightarrow> ok (st\<lparr>ag_idleFiltration := Some c\<rparr>))
      else ok st)"

text \<open>(2d) The hourly overheads become allocations; the clock is read for each.\<close>

definition overheadStep ::
  "(float64 \<Rightarrow> int) \<Rightarrow> (string \<Rightarrow> gotime) \<Rightarrow> string \<times> float64 \<Rightarrow> aggState \<Rightarrow> aggState" where
  "overheadStep other now nc st =
     (let (name, cost) = nc; as = ag_as st
      in if flt (Fin 0) cost
         then (let hours = durHours (setResolution other as);
                   diff = timeSub (now name) (setEnd (Some as));
                   hours' = (if diff < 0 then fadd hours (durHours diff) else hours);
                   a = zeroAllocation\<lparr>al_Name := name @ ''/'' @ SharedSuffix, al_Start := setStart (Some as),
                         al_End := setEnd (Some as), al_SharedCost := fmul cost hours',
                         al_Properties := Some (emptyProps\<lparr>pr_Cluster := SharedSuffix\<rparr>)\<rparr>
               in insertShare (length (ag_heap st)) (st\<lparr>ag_heap := ag_heap st @ [a]\<rparr>))
         else st)"

text \<open>(2e)\<close>

definition shareStep :: "string list option \<Rightarrow> aggregationOptions \<Rightarrow> aggState \<Rightarrow> aggState step" where
  "shareStep aggregateBy options st =
     (if refsOf (ag_shareSet st) \<noteq> []
      then (case computeShareCoeffs aggregateBy options (ag_heap st) (ag_as st) of
              None \<Rightarrow> None
            | Some (Inl e) \<Rightarrow> Some (Some (ShareCoefficients e), st)
            | Some (Inr c) \<Rightarrow> ok (st\<lparr>ag_shareCoefficients := c\<rparr>))
      else ok st)"

section \<open>Distributing and inserting\<close>

text \<open>An allocation gets its part of an idle allocation, if there is a coefficient for it.\<close>

definition addIdle :: "float64 gomap \<Rightarrow> allocation \<Rightarrow> allocation \<Rightarrow> allocation" where
  "addIdle c idle a =
     a\<lparr>al_CPUCoreHours := fadd (al_CPUCoreHours a) (fmul (al_CPUCoreHours idle) (numAt c ''cpu'')),
       al_GPUHours := fadd (al_GPUHours a) (fmul (al_GPUHours idle) (numAt c ''gpu'')),
       al_RAMByteHours := fadd (al_RAMByteHours a) (fmul (al_RAMByteHours idle) (numAt c ''ram'')),
       al_CPUCost := fadd (al_CPUCost a) (fmul (al_CPUCost idle) (numAt c ''cpu'')),
       al_GPUCost := fadd (al_GPUCost a) (fmul (al_GPUCost idle) (numAt c ''gpu'')),
       al_RAMCost := fadd (al_RAMCost a) (fmul (al_RAMCost idle) (numAt c ''ram''))\<rparr>"

definition distributeIdle :: "string \<Rightarrow> ref \<Rightarrow> ref \<Rightarrow> aggState \<Rightarrow> aggState" where
  "distributeIdle idleId r ir st =
     (case map_of (mapAt (ag_idleCoefficients st) idleId) (al_Name (ag_heap st ! r)) of
        None \<Rightarrow> st
      | Some c \<Rightarrow> updateCell r (addIdle c (ag_heap st ! ir)) st)"

text \<open>(4) An idle allocation without an identifier is an error here, and is not in (6).\<close>

definition idleForStep ::
  "aggregationOptions \<Rightarrow> bool \<Rightarrow> string \<Rightarrow> ref \<Rightarrow> string \<times> ref \<Rightarrow> aggState \<Rightarrow> aggState step" where
  "idleForStep options strict idleId r kir st =
     (case getIdleId options (ag_heap st ! snd kir) of
        None \<Rightarrow> None
      | Some (iid, err) \<Rightarrow>
          if strict \<and> err \<noteq> None then Some (Some (MissingIdleId (the err)), st)
          else if iid \<noteq> idleId then ok st
          else ok (distributeIdle idleId r (snd kir) st))"

definition idleFor :: "aggregationOptions \<Rightarrow> bool \<Rightarrow> string \<Rightarrow> ref \<Rightarrow> aggState \<Rightarrow> aggState step" where
  "idleFor options strict idleId r st = forEach (idleForStep options strict idleId r) (refsOf (ag_idleSet st)) st"

definition dropFiltration :: "string \<Rightarrow> string \<Rightarrow> aggState \<Rightarrow> aggState" where
  "dropFiltration idleId name st =
     st\<lparr>ag_idleFiltration :=
         map_option (\<lambda>c. if mapHas c idleId then atKey idleId (AList.delete name) c else c) (ag_idleFiltration st)\<rparr>"

definition nameByKey :: "string list option \<Rightarrow> aggregationOptions \<Rightarrow> allocation \<Rightarrow> allocation" where
  "nameByKey aggregateBy options a =
     (let b = a\<lparr>al_Name := keyOf options aggregateBy a\<rparr>
      in if ao_MergeUnallocated options \<and> IsUnallocated b then b\<lparr>al_Name := UnallocatedSuffix\<rparr> else b)"

text \<open>(3) to (5)\<close>

definition aggregateStep ::
  "string list option \<Rightarrow> aggregationOptions \<Rightarrow> allocation option matcher \<Rightarrow> string \<times> ref \<Rightarrow> aggState \<Rightarrow> aggState step" where
  "aggregateStep aggregateBy options m kr st =
     (let r = snd kr; a = ag_heap st ! r
      in case idleIdOf options a of
           None \<Rightarrow> None
         | Some idleId \<Rightarrow>
             (case Matches m (Some a) of
                None \<Rightarrow> None
              | Some b \<Rightarrow>
                  if \<not> b then ok (dropFiltration idleId (al_Name a) st)
                  else andThen (idleFor options True idleId r st)
                         (\<lambda>st. ok (insertAgg r (updateCell r (nameByKey aggregateBy options) st)))))"

text \<open>(6)\<close>

definition sharedIdleStep :: "aggregationOptions \<Rightarrow> string \<times> ref \<Rightarrow> aggState \<Rightarrow> aggState step" where
  "sharedIdleStep options kr st =
     (case idleIdOf options (ag_heap st ! snd kr) of
        None \<Rightarrow> None
      | Some idleId \<Rightarrow> idleFor options False idleId (snd kr) st)"

text \<open>(7) What is left of the filtration coefficients, per identifier and resource.\<close>

definition groupFiltration :: "coeffs \<Rightarrow> totals" where
  "groupFiltration c =
     map (\<lambda>(idleId, m). (idleId,
       fold (\<lambda>(_, n) acc. fold (\<lambda>(res, x). addNum res x) n acc) m
         [(''cpu'', Fin 0), (''gpu'', Fin 0), (''ram'', Fin 0)])) c"

definition scaleIdle :: "float64 gomap \<Rightarrow> allocation \<Rightarrow> allocation" where
  "scaleIdle c a =
     a\<lparr>al_CPUCost := fmul (al_CPUCost a) (numAt c ''cpu''), al_CPUCoreHours := fmul (al_CPUCoreHours a) (numAt c ''cpu''),
       al_RAMCost := fmul (al_RAMCost a) (numAt c ''ram''), al_RAMByteHours := fmul (al_RAMByteHours a) (numAt c ''ram''),
       al_GPUCost := fmul (al_GPUCost a) (numAt c ''gpu''), al_GPUHours := fmul (al_GPUHours a) (numAt c ''gpu'')\<rparr>"

definition filtrateStep :: "aggregationOptions \<Rightarrow> totals \<Rightarrow> string \<times> bool \<Rightarrow> aggState \<Rightarrow> aggState step" where
  "filtrateStep options grouped ke st =
     (case setGet (ag_aggSet st) (fst ke) of
        None \<Rightarrow> None
      | Some r \<Rightarrow>
          (case getIdleId options (ag_heap st ! r) of
             None \<Rightarrow> None
           | Some (_, Some e) \<Rightarrow> Some (Some (MissingIdleId e), st)
           | Some (iid, None) \<Rightarrow>
               ok (case map_of grouped iid of None \<Rightarrow> st | Some c \<Rightarrow> updateCell r (scaleIdle c) st)))"

text \<open>(8) A shared allocation's part for one of the aggregated allocations.\<close>

definition sharedPart :: "string \<Rightarrow> float64 \<Rightarrow> allocation \<Rightarrow> sharedCostBreakdown" where
  "sharedPart name c s =
     \<lparr>scb_Name = name, scb_TotalCost = fmul (TotalCost s) c, scb_CPUCost = fmul (CPUTotalCost s) c,
      scb_GPUCost = fmul (GPUTotalCost s) c, scb_RAMCost = fmul (RAMTotalCost s) c, scb_PVCost = fmul (PVCost s) c,
      scb_NetworkCost = fmul (NetworkTotalCost s) c, scb_LBCost = fmul (LBTotalCost s) c,
      scb_ExternalCost = fmul (al_ExternalCost s) c\<rparr>"

definition addShared :: "aggregationOptions \<Rightarrow> float64 \<Rightarrow> allocation \<Rightarrow> allocation \<Rightarrow> allocation" where
  "addShared options c s a =
     (let name = (if containsStr (al_Name s) SharedSuffix then ''overheadCost''
                  else (case determineSharingName (Some s) (Some options) of Inl _ \<Rightarrow> [] | Inr n \<Rightarrow> n));
          a1 = (if ao_IncludeSharedCostBreakdown options
                then a\<lparr>al_SharedCostBreakdown := Some (scbInsert (sharedPart name c s) (entries (al_SharedCostBreakdown a)))\<rparr>
                else a)
      in a1\<lparr>al_SharedCost := fadd (al_SharedCost a1) (fmul (TotalCost s) c)\<rparr>)"

definition shareOne :: "aggregationOptions \<Rightarrow> ref \<Rightarrow> string \<times> ref \<Rightarrow> aggState \<Rightarrow> aggState" where
  "shareOne options r ks st =
     (case map_of (ag_shareCoefficients st) (al_Name (ag_heap st ! r)) of
        None \<Rightarrow> st
      | Some c \<Rightarrow> updateCell r (addShared options c (ag_heap st ! snd ks)) st)"

definition distributeShared :: "aggregationOptions \<Rightarrow> aggState \<Rightarrow> aggState" where
  "distributeShared options st =
     fold (\<lambda>(_, r). fold (shareOne options r) (refsOf (ag_shareSet st))) (refsOf (ag_aggSet st)) st"

text \<open>(9)\<close>

definition externalStep ::
  "string list option \<Rightarrow> aggregationOptions \<Rightarrow> allocation option matcher \<Rightarrow> string \<times> ref \<Rightarrow> aggState \<Rightarrow> aggState step" where
  "externalStep aggregateBy options m kr st =
     (let r = snd kr
      in case Matches m (Some (ag_heap st ! r)) of
           None \<Rightarrow> None
         | Some b \<Rightarrow>
             ok (if b then insertAgg r (updateCell r (\<lambda>a. a\<lparr>al_Name := keyOf options aggregateBy a\<rparr>) st) else st))"

text \<open>(10) Idle costs of a resource that nobody uses stay idle.\<close>

definition undistributable :: "float64 gomap \<Rightarrow> (allocation \<Rightarrow> float64) \<Rightarrow> string \<Rightarrow> allocation \<Rightarrow> bool" where
  "undistributable tot f res a = (flt (Fin 0) (f a) \<and> feq (numAt tot res) (Fin 0))"

definition keepUndistributed :: "float64 gomap \<Rightarrow> allocation \<Rightarrow> allocation \<times> bool" where
  "keepUndistributed tot a =
     (let cpu = undistributable tot al_CPUCost ''cpu'' a; gpu = undistributable tot al_GPUCost ''gpu'' a;
          ram = undistributable tot al_RAMCost ''ram'' a
      in (a\<lparr>al_CPUCost := (if cpu then al_CPUCost a else Fin 0), al_GPUCost := (if gpu then al_GPUCost a else Fin 0),
            al_RAMCost := (if ram then al_RAMCost a else Fin 0)\<rparr>, cpu \<or> gpu \<or> ram))"

definition undistributedStep ::
  "aggregationOptions \<Rightarrow> allocation option matcher \<Rightarrow> string \<times> ref \<Rightarrow> aggState \<Rightarrow> aggState step" where
  "undistributedStep options m kr st =
     (let r = snd kr; a = ag_heap st ! r
      in case Matches m (Some a) of
           None \<Rightarrow> None
         | Some b \<Rightarrow>
             if \<not> b then ok st
             else (case getIdleId options a of
                     None \<Rightarrow> None
                   | Some (_, Some _) \<Rightarrow> ok st
                   | Some (idleId, None) \<Rightarrow>
                       (let (a', has) = keepUndistributed (mapAt (ag_allocatedTotals st) idleId) a;
                            st1 = updateCell r (\<lambda>_. a') st
                        in ok (if has
                               then insertAgg r (updateCell r (\<lambda>a. a\<lparr>al_Name := idleId @ ''/'' @ IdleSuffix\<rparr>) st1)
                               else st1))))"

text \<open>(11) Clones of the idle allocations replace them under one name.\<close>

definition mergeIdle :: "aggState \<Rightarrow> aggState" where
  "mergeIdle st =
     (let (h, idle) = IdleAllocations (ag_heap st) (Some (ag_aggSet st))
      in fold (\<lambda>(_, r) st. insertAgg r (updateCell r (\<lambda>a. a\<lparr>al_Name := IdleSuffix\<rparr>)
                 (st\<lparr>ag_aggSet := setDelete (ag_aggSet st) (al_Name (ag_heap st ! r))\<rparr>)))
           idle (st\<lparr>ag_heap := h\<rparr>))"

section \<open>AggregateBy\<close>

text \<open>The options after the call has set their defaults; the caller's options are changed.\<close>

definition settleOptions :: "aggregationOptions option \<Rightarrow> aggregationOptions" where
  "settleOptions options =
     (let opts = (case options of None \<Rightarrow> zeroOptions | Some op \<Rightarrow> op)
      in opts\<lparr>ao_LabelConfig := (if ao_LabelConfig opts = None then Some NewLabelConfig else ao_LabelConfig opts),
              ao_ShareIdle := (if ao_ShareIdle opts \<noteq> ShareWeighted then ShareNone else ao_ShareIdle opts)\<rparr>)"

definition compileSharer ::
  "aggregationOptions \<Rightarrow> (compileError + allocation option matcher option) option" where
  "compileSharer options =
     (case ao_Share options of
        None \<Rightarrow> Some (Inr None)
      | Some n \<Rightarrow> map_option (map_sum id Some) (compileWith (ao_LabelConfig options) (Some n)))"

text \<open>Steps (2) to (11), when allocations are left to aggregate.\<close>

definition prepare ::
  "(float64 \<Rightarrow> int) \<Rightarrow> (string \<Rightarrow> gotime) \<Rightarrow> string list option \<Rightarrow> aggregationOptions \<Rightarrow> bool \<Rightarrow> aggState \<Rightarrow> aggState step" where
  "prepare other now aggregateBy options shouldFilter st =
     andThen (andThen (andThen (idleStep options st) (parcStep options)) (filtrationStep options shouldFilter))
       (\<lambda>st. shareStep aggregateBy options (fold (overheadStep other now) (ao_SharedHourlyCosts options) st))"

definition collectStep ::
  "string list option \<Rightarrow> aggregationOptions \<Rightarrow> allocation option matcher \<Rightarrow> aggState \<Rightarrow> aggState step" where
  "collectStep aggregateBy options m st =
     andThen (forEach (aggregateStep aggregateBy options m) (refsOf (ag_as st)) st)
       (\<lambda>st. if refsOf (ag_idleSet st) \<noteq> [] \<and> refsOf (ag_shareSet st) \<noteq> []
             then forEach (sharedIdleStep options) (refsOf (ag_shareSet st)) st else ok st)"

definition filtrateAll :: "aggregationOptions \<Rightarrow> aggState \<Rightarrow> aggState step" where
  "filtrateAll options st =
     (case ag_idleFiltration st of
        None \<Rightarrow> ok st
      | Some c \<Rightarrow> forEach (filtrateStep options (groupFiltration c)) (entries (as_IdleKeys (ag_aggSet st))) st)"

definition finish ::
  "string list option \<Rightarrow> aggregationOptions \<Rightarrow> allocation option matcher \<Rightarrow> aggState \<Rightarrow> aggState step" where
  "finish aggregateBy options m st =
     andThen (forEach (externalStep aggregateBy options m) (refsOf (ag_externalSet st)) (distributeShared options st))
       (\<lambda>st. andThen (forEach (undistributedStep options m) (refsOf (ag_idleSet st)) st)
          (\<lambda>st. let st1 = (if ao_SplitIdle options then st else mergeIdle st)
                in ok (st1\<lparr>ag_as := (ag_as st1)\<lparr>as_Allocations := as_Allocations (ag_aggSet st1)\<rparr>\<rparr>)))"

definition aggregateAll ::
  "(float64 \<Rightarrow> int) \<Rightarrow> (string \<Rightarrow> gotime) \<Rightarrow> string list option \<Rightarrow> aggregationOptions \<Rightarrow> allocation option matcher \<Rightarrow>
     allocation option matcher option \<Rightarrow> allocHeap \<Rightarrow> allocationSet \<Rightarrow> aggState step" where
  "aggregateAll other now aggregateBy options m sharer h as =
     andThen (partition' options sharer (startState h as))
       (\<lambda>st. if refsOf (ag_as st) = [] then ok (st\<lparr>ag_as := (ag_as st)\<lparr>as_Allocations := None\<rparr>\<rparr>)
             else andThen (prepare other now aggregateBy options (\<not> isFilterEmpty m) st)
               (\<lambda>st. andThen (collectStep aggregateBy options m st)
                  (\<lambda>st. andThen (filtrateAll options st) (finish aggregateBy options m))))"

text \<open>Nothing to do but to mark the metadata.\<close>

definition nothingToDo :: "string list option \<Rightarrow> aggregationOptions \<Rightarrow> allocation option matcher \<Rightarrow> bool \<Rightarrow> bool" where
  "nothingToDo aggregateBy options m sharing =
     (aggregateBy = None \<and> isFilterEmpty m \<and> \<not> (ao_SharedHourlyCosts options \<noteq> [] \<or> sharing) \<and>
      ao_ShareIdle options = ShareNone \<and> \<not> ao_IncludeProportionalAssetResourceCosts options)"

definition markMetadata :: "string \<times> ref \<Rightarrow> allocHeap \<Rightarrow> allocHeap option" where
  "markMetadata kr h =
     map_option (\<lambda>p. h[snd kr := (h ! snd kr)\<lparr>al_Properties := Some (p\<lparr>pr_AggregatedMetadata := True\<rparr>)\<rparr>])
       (al_Properties (h ! snd kr))"

text \<open>The error, the heap, the set and the options after the call.\<close>

definition AggregateBy ::
  "(float64 \<Rightarrow> int) \<Rightarrow> (string \<Rightarrow> gotime) \<Rightarrow> allocHeap \<Rightarrow> allocationSet option \<Rightarrow> string list option \<Rightarrow>
     aggregationOptions option \<Rightarrow>
     (aggError option \<times> allocHeap \<times> allocationSet option \<times> aggregationOptions option) option" where
  "AggregateBy other now h as aggregateBy options0 =
     (case as of
        None \<Rightarrow> Some (None, h, as, options0)
      | Some s \<Rightarrow>
          if refsOf s = [] then Some (None, h, as, options0)
          else (let options = settleOptions options0; opts' = map_option (\<lambda>_. options) options0
                in case compileWith (ao_LabelConfig options) (ao_Filter options) of
                     None \<Rightarrow> None
                   | Some (Inl e) \<Rightarrow> Some (Some (CompilingFilter e), h, as, opts')
                   | Some (Inr m) \<Rightarrow>
                       (case compileSharer options of
                          None \<Rightarrow> None
                        | Some (Inl e) \<Rightarrow> Some (Some (CompilingSharer e), h, as, opts')
                        | Some (Inr sharer) \<Rightarrow>
                            if nothingToDo aggregateBy options m (sharer \<noteq> None)
                            then (if ao_IncludeAggregatedMetadata options
                                  then map_option (\<lambda>h'. (None, h', as, opts')) (foldOpt markMetadata (refsOf s) h)
                                  else Some (None, h, as, opts'))
                            else map_option (\<lambda>(err, st). (err, ag_heap st, Some (ag_as st), opts'))
                                   (aggregateAll other now aggregateBy options m sharer h s))))"

section \<open>Steps\<close>

lemma step_simps [simp]:
  "andThen (ok st) f = f st" "andThen None f = None" "andThen (Some (Some e, st)) f = Some (Some e, st)"
  by (simp_all add: andThen_def ok_def)

lemma andThen_ok [simp]: "andThen s ok = s"
  by (auto simp: andThen_def ok_def split: option.splits)

lemma ok_eq [simp]: "ok st = ok st' \<longleftrightarrow> st = st'"
  by (simp add: ok_def)

section \<open>The plain case\<close>

text \<open>
  Without anything shared, the call groups the allocations: each one that passes the filter is
  added to the entry of its key. A field that is summed and that neither the name nor the
  properties matter for has under each name the sum over the group, in the order of the entries.
\<close>

locale grouped_field = summed_field f for f :: "allocation \<Rightarrow> float64" +
  assumes f_name: "f (a\<lparr>al_Name := n\<rparr>) = f a"
    and f_props: "f (a\<lparr>al_Properties := p\<rparr>) = f a"

lemma grouped_fields: "list_all grouped_field summedFields"
  using summed_fieldI by (simp add: summedFields_def grouped_field_def grouped_field_axioms_def)

lemma grouped_fieldI: "f \<in> set summedFields \<Longrightarrow> grouped_field f"
  using grouped_fields by (simp add: list_all_iff)

interpretation groupedCost: grouped_field al_CPUCost
  by (rule grouped_fieldI) (simp add: summedFields_def)

text \<open>The first loop sets the metadata flag of every allocation.\<close>

definition marked :: "aggregationOptions \<Rightarrow> allocation \<Rightarrow> allocation" where
  "marked options a =
     a\<lparr>al_Properties := map_option (\<lambda>p. p\<lparr>pr_AggregatedMetadata := ao_IncludeAggregatedMetadata options\<rparr>) (al_Properties a)\<rparr>"

lemma marked_simps [simp]:
  "al_Name (marked options a) = al_Name a" "al_Properties (marked options a) = None \<longleftrightarrow> al_Properties a = None"
  by (simp_all add: marked_def)

lemma updateCell_simps [simp]:
  "ag_heap (updateCell r g st) = (ag_heap st)[r := g (ag_heap st ! r)]"
  "ag_as (updateCell r g st) = ag_as st" "ag_aggSet (updateCell r g st) = ag_aggSet st"
  "ag_idleSet (updateCell r g st) = ag_idleSet st" "ag_shareSet (updateCell r g st) = ag_shareSet st"
  "ag_externalSet (updateCell r g st) = ag_externalSet st" "ag_idleFiltration (updateCell r g st) = ag_idleFiltration st"
  by (simp_all add: updateCell_def)

definition markAll :: "aggregationOptions \<Rightarrow> ref list \<Rightarrow> allocHeap \<Rightarrow> allocHeap" where
  "markAll options rs h = fold (\<lambda>r h. h[r := marked options (h ! r)]) rs h"

lemma markAll_simps:
  "length (markAll options rs h) = length h"
  "distinct rs \<Longrightarrow> x < length h \<Longrightarrow> markAll options rs h ! x = (if x \<in> set rs then marked options (h ! x) else h ! x)"
proof -
  show len: "length (markAll options rs h) = length h" for h
    by (induction rs arbitrary: h) (simp_all add: markAll_def)
  show "distinct rs \<Longrightarrow> x < length h \<Longrightarrow> markAll options rs h ! x = (if x \<in> set rs then marked options (h ! x) else h ! x)"
  proof (induction rs arbitrary: h)
    case (Cons a rs)
    then have "x \<noteq> a" if "x \<in> set rs" using that by auto
    with Cons show ?case by (cases "x = a") (simp_all add: markAll_def)
  qed (simp add: markAll_def)
qed

text \<open>An allocation that stays in the set.\<close>

definition plainCell :: "allocation \<Rightarrow> bool" where
  "plainCell a \<longleftrightarrow> al_Properties a \<noteq> None \<and> \<not> IsExternal a \<and> \<not> IsIdle a"

lemma partition_plain:
  assumes "\<not> ao_IncludeProportionalAssetResourceCosts options" and "distinct (map snd es)"
    and "\<forall>e \<in> set es. plainCell (ag_heap st ! snd e)"
  shows "forEach (partitionStep options None) es st = ok (st\<lparr>ag_heap := markAll options (map snd es) (ag_heap st)\<rparr>)"
  using assms(2,3)
proof (induction es arbitrary: st)
  case (Cons e es)
  let ?st = "st\<lparr>ag_heap := (ag_heap st)[snd e := marked options (ag_heap st ! snd e)]\<rparr>"
  have "partitionStep options None e st = ok ?st"
    using Cons.prems(2) assms(1) by (auto simp: partitionStep_def plainCell_def updateCell_def marked_def Let_def)
  moreover have "forEach (partitionStep options None) es ?st =
    ok (?st\<lparr>ag_heap := markAll options (map snd es) (ag_heap ?st)\<rparr>)"
  proof (rule Cons.IH)
    show "\<forall>x \<in> set es. plainCell (ag_heap ?st ! snd x)"
    proof
      fix x assume x: "x \<in> set es"
      then have "snd e \<noteq> snd x" using Cons.prems(1) by auto
      with x Cons.prems(2) show "plainCell (ag_heap ?st ! snd x)" by simp
    qed
  qed (use Cons.prems(1) in simp)
  ultimately show ?case by (simp add: markAll_def)
qed (simp add: markAll_def)

text \<open>The loop that aggregates, over the cells of the entries that are left.\<close>

lemma aggregateStep_plain:
  assumes "refsOf (ag_idleSet st) = []" and "al_Properties (ag_heap st ! snd e) \<noteq> None"
    and "Matches m (Some (ag_heap st ! snd e)) = Some b"
  shows "\<exists>F. aggregateStep by' options m e st =
    ok (if b then insertAgg (snd e) (updateCell (snd e) (nameByKey by' options) st) else st\<lparr>ag_idleFiltration := F\<rparr>) \<and>
    (ag_idleFiltration st = None \<longrightarrow> F = None)"
  using assms
  by (auto simp: aggregateStep_def Let_def idleIdOf_def getIdleId_def idleFor_def dropFiltration_def)

definition groupSum ::
  "(allocation \<Rightarrow> float64) \<Rightarrow> (allocation \<Rightarrow> string) \<Rightarrow> (allocation \<Rightarrow> bool) \<Rightarrow> string \<Rightarrow> allocation list \<Rightarrow>
     float64 option \<Rightarrow> float64 option" where
  "groupSum f key keep name as z =
     fold (\<lambda>a z. if keep a \<and> key a = name then plusOpt z (Some (f a)) else z) as z"

lemma groupSum_simps [simp]:
  "groupSum f key keep name [] z = z"
  "groupSum f key keep name (a # as) z =
     groupSum f key keep name as (if keep a \<and> key a = name then plusOpt z (Some (f a)) else z)"
  by (simp_all add: groupSum_def)

lemma groupSum_None:
  "(\<forall>a \<in> set as. keep a \<longrightarrow> key a \<noteq> name) \<Longrightarrow> groupSum f key keep name as z = z"
  by (induction as arbitrary: z) auto

lemma setOk_local:
  assumes "setOk h s" and "length h \<le> length h'" and "\<forall>x \<in> refs s. h' ! x = h ! x"
  shows "setOk h' s"
proof -
  have "r \<in> refs s" if "(k, r) \<in> set (refsOf s)" for k r using that by (force simp: refs_def)
  with assms show ?thesis by (fastforce simp: setOk_def)
qed

lemma insertAgg_eq:
  "insertAgg r st = st\<lparr>ag_heap := fst (setInsert (ag_heap st) (ag_aggSet st) r),
     ag_aggSet := snd (setInsert (ag_heap st) (ag_aggSet st) r)\<rparr>"
  by (simp add: insertAgg_def case_prod_unfold Let_def)

lemma nameByKey_only: "nameByKey by' options a = a\<lparr>al_Name := al_Name (nameByKey by' options a)\<rparr>"
  by (simp add: nameByKey_def Let_def)

text \<open>One allocation is renamed and inserted.\<close>

lemma renamed_insert:
  fixes n :: string
  assumes ok: "setOk h acc" and r: "r < length h" "r \<notin> refs acc"
  defines "h1 \<equiv> h[r := (h ! r)\<lparr>al_Name := n\<rparr>]"
  shows "setOk h1 acc" and "setOk (fst (setInsert h1 acc r)) (snd (setInsert h1 acc r))"
    and "length (fst (setInsert h1 acc r)) = length h" and "refs (snd (setInsert h1 acc r)) \<subseteq> insert r (refs acc)"
    and "x \<noteq> r \<Longrightarrow> x \<notin> refs acc \<Longrightarrow> fst (setInsert h1 acc r) ! x = h ! x"
proof -
  have "h1 ! x = h ! x" if "x \<in> refs acc" for x using r(2) that by (cases "x = r") (simp_all add: h1_def)
  then show ok1: "setOk h1 acc" by (intro setOk_local [OF ok]) (simp_all add: h1_def)
  then show "setOk (fst (setInsert h1 acc r)) (snd (setInsert h1 acc r))"
    by (rule setInsert_ok) (use r(1) in \<open>simp add: h1_def\<close>)
  show "length (fst (setInsert h1 acc r)) = length h" by (simp add: h1_def)
  show "refs (snd (setInsert h1 acc r)) \<subseteq> insert r (refs acc)" by (rule insert_refs_subset)
  assume x: "x \<noteq> r" "x \<notin> refs acc"
  have "x \<noteq> target h1 acc r"
    using x setGet_name [OF ok1] by (auto simp: target_def split: option.split)
  with x(1) have "fst (setInsert h1 acc r) ! x = h1 ! x" by (intro setInsert_frame)
  with x(1) show "fst (setInsert h1 acc r) ! x = h ! x" by (simp add: h1_def)
qed

context grouped_field
begin

lemma renamed_insert_field:
  fixes n :: string
  assumes ok: "setOk h acc" and r: "r < length h" "r \<notin> refs acc"
  defines "h1 \<equiv> h[r := (h ! r)\<lparr>al_Name := n\<rparr>]"
  shows "fieldOf f (fst (setInsert h1 acc r)) (snd (setInsert h1 acc r)) name =
    (if name = n then plusOpt (fieldOf f h acc name) (Some (f (h ! r))) else fieldOf f h acc name)"
proof -
  have "fieldOf f h1 acc name = fieldOf f h acc name"
  proof -
    have "f (h1 ! x) = f (h ! x)" for x
      by (cases "x = r") (simp_all add: h1_def f_name r(1))
    then show ?thesis by (simp add: fieldOf_def)
  qed
  moreover have "h1 ! r = (h ! r)\<lparr>al_Name := n\<rparr>" "r < length h1" using r(1) by (simp_all add: h1_def)
  ultimately show ?thesis
    using insert_fieldOf [OF renamed_insert(1) [OF ok r, where n = n, folded h1_def], of r name] by (auto simp: f_name)
qed

lemma collect_plain:
  assumes "refsOf (ag_idleSet st) = []" and "setOk (ag_heap st) (ag_aggSet st)" and "distinct (map snd es)"
    and "\<forall>e \<in> set es. snd e < length (ag_heap st) \<and> snd e \<notin> refs (ag_aggSet st) \<and>
      al_Properties (ag_heap st ! snd e) \<noteq> None \<and> Matches m (Some (ag_heap st ! snd e)) \<noteq> None"
  shows "\<exists>h acc F. forEach (aggregateStep by' options m) es st =
      ok (st\<lparr>ag_heap := h, ag_aggSet := acc, ag_idleFiltration := F\<rparr>) \<and> setOk h acc \<and>
    (ag_idleFiltration st = None \<longrightarrow> F = None) \<and>
    fieldOf f h acc name = groupSum f (\<lambda>a. al_Name (nameByKey by' options a)) (\<lambda>a. Matches m (Some a) = Some True) name
      (map (\<lambda>e. ag_heap st ! snd e) es) (fieldOf f (ag_heap st) (ag_aggSet st) name)"
  using assms
proof (induction es arbitrary: st)
  case Nil
  then show ?case
    by (intro exI [of _ "ag_heap st"] exI [of _ "ag_aggSet st"] exI [of _ "ag_idleFiltration st"]) simp
next
  case (Cons e es)
  let ?r = "snd e" and ?h = "ag_heap st" and ?acc = "ag_aggSet st"
  let ?key = "\<lambda>a. al_Name (nameByKey by' options a)" and ?keep = "\<lambda>a. Matches m (Some a) = Some True"
  obtain b where b: "Matches m (Some (?h ! ?r)) = Some b" using Cons.prems(4) by auto
  obtain F where step: "aggregateStep by' options m e st =
      ok (if b then insertAgg ?r (updateCell ?r (nameByKey by' options) st) else st\<lparr>ag_idleFiltration := F\<rparr>)"
    and F: "ag_idleFiltration st = None \<longrightarrow> F = None"
    using aggregateStep_plain [OF Cons.prems(1), of e m b by' options] Cons.prems(4) b by auto
  show ?case
  proof (cases b)
    case False
    let ?st = "st\<lparr>ag_idleFiltration := F\<rparr>"
    from Cons.IH [of ?st] Cons.prems obtain h acc F' where
      ih: "forEach (aggregateStep by' options m) es ?st = ok (?st\<lparr>ag_heap := h, ag_aggSet := acc, ag_idleFiltration := F'\<rparr>)"
      "setOk h acc" "F = None \<longrightarrow> F' = None"
      "fieldOf f h acc name = groupSum f ?key ?keep name (map (\<lambda>e. ?h ! snd e) es) (fieldOf f ?h ?acc name)"
      by auto
    with step False b F show ?thesis
      by (intro exI [of _ h] exI [of _ acc] exI [of _ F']) simp
  next
    case True
    let ?n = "?key (?h ! ?r)"
    let ?h1 = "?h[?r := (?h ! ?r)\<lparr>al_Name := ?n\<rparr>]"
    let ?st = "st\<lparr>ag_heap := fst (setInsert ?h1 ?acc ?r), ag_aggSet := snd (setInsert ?h1 ?acc ?r)\<rparr>"
    have r: "?r < length ?h" "?r \<notin> refs ?acc" using Cons.prems(4) by simp_all
    note ins = renamed_insert [OF Cons.prems(2) r, where n = ?n]
    note fld = renamed_insert_field [OF Cons.prems(2) r, where n = ?n and name = name]
    have "insertAgg ?r (updateCell ?r (nameByKey by' options) st) = ?st"
      using nameByKey_only [of by' options "?h ! ?r"] by (simp add: insertAgg_eq updateCell_def)
    with step True have step': "aggregateStep by' options m e st = ok ?st" by simp
    have same: "fst (setInsert ?h1 ?acc ?r) ! snd e' = ?h ! snd e'" if "e' \<in> set es" for e'
    proof (rule ins(5))
      have "snd e' \<in> set (map snd es)" using that by simp
      then show "snd e' \<noteq> ?r" using Cons.prems(3) by (metis distinct.simps(2) list.map(2))
    qed (use that Cons.prems(4) in simp)
    have "\<exists>h acc F. forEach (aggregateStep by' options m) es ?st =
        ok (?st\<lparr>ag_heap := h, ag_aggSet := acc, ag_idleFiltration := F\<rparr>) \<and> setOk h acc \<and>
      (ag_idleFiltration ?st = None \<longrightarrow> F = None) \<and>
      fieldOf f h acc name = groupSum f ?key ?keep name
        (map (\<lambda>e. ag_heap ?st ! snd e) es) (fieldOf f (ag_heap ?st) (ag_aggSet ?st) name)"
    proof (rule Cons.IH)
      show "\<forall>e \<in> set es. snd e < length (ag_heap ?st) \<and> snd e \<notin> refs (ag_aggSet ?st) \<and>
        al_Properties (ag_heap ?st ! snd e) \<noteq> None \<and> Matches m (Some (ag_heap ?st ! snd e)) \<noteq> None"
      proof
        fix e' assume e': "e' \<in> set es"
        then have "snd e' \<in> set (map snd es)" by simp
        then have "snd e' \<noteq> ?r" using Cons.prems(3) by (metis distinct.simps(2) list.map(2))
        with e' Cons.prems(4) ins(3,4) same [OF e'] show "snd e' < length (ag_heap ?st) \<and> snd e' \<notin> refs (ag_aggSet ?st) \<and>
          al_Properties (ag_heap ?st ! snd e') \<noteq> None \<and> Matches m (Some (ag_heap ?st ! snd e')) \<noteq> None" by auto
      qed
    qed (use Cons.prems ins(2) in simp_all)
    then obtain h acc F' where
      ih: "forEach (aggregateStep by' options m) es ?st = ok (?st\<lparr>ag_heap := h, ag_aggSet := acc, ag_idleFiltration := F'\<rparr>)"
      "setOk h acc" "ag_idleFiltration st = None \<longrightarrow> F' = None"
      "fieldOf f h acc name = groupSum f ?key ?keep name (map (\<lambda>e. ag_heap ?st ! snd e) es)
         (fieldOf f (ag_heap ?st) (ag_aggSet ?st) name)" by auto
    have "map (\<lambda>e. ag_heap ?st ! snd e) es = map (\<lambda>e. ?h ! snd e) es" using same by simp
    with ih step' b True fld show ?thesis
      by (intro exI [of _ h] exI [of _ acc] exI [of _ F']) (auto simp del: map_eq_conv)
  qed
qed

end

text \<open>The other steps have nothing to do.\<close>

definition plainOptions :: "aggregationOptions \<Rightarrow> bool" where
  "plainOptions options \<longleftrightarrow> ao_Share options = None \<and> ao_SharedHourlyCosts options = [] \<and>
     \<not> ao_IncludeProportionalAssetResourceCosts options \<and> ao_ShareIdle options \<noteq> ShareWeighted"

lemma refsOf_windowSet [simp]: "refsOf (windowSet w) = []" "refs (windowSet w) = {}" "setOk h (windowSet w)"
  by (simp_all add: windowSet_def refsOf_def refs_def setOk_def setKeysOk_def)

lemma fieldOf_windowSet [simp]: "fieldOf f h (windowSet w) name = None"
  by (simp add: fieldOf_def setGet_def)

lemma foldOpt_defined: "(\<And>x st. x \<in> set xs \<Longrightarrow> f x st \<noteq> None) \<Longrightarrow> foldOpt f xs st \<noteq> None"
  by (induction xs arbitrary: st) (auto simp: Option.bind_eq_None_conv)

lemma recordIdle_defined: "al_Properties a \<noteq> None \<Longrightarrow> recordIdle options a ct \<noteq> None"
  by (auto simp: recordIdle_def idleIdOf_def getIdleId_def simp del: not_None_eq)

lemma computeIdleCoeffs_defined:
  assumes "\<forall>e \<in> set (refsOf as @ refsOf share). al_Properties (h ! snd e) \<noteq> None"
  shows "computeIdleCoeffs options h as share \<noteq> None"
proof -
  have "foldOpt (\<lambda>(_, r). recordIdle options (h ! r)) (refsOf as @ refsOf share) ([], []) \<noteq> None"
    by (rule foldOpt_defined) (use assms in \<open>auto simp: case_prod_unfold simp del: not_None_eq intro!: recordIdle_defined\<close>)
  then show ?thesis by (auto simp: computeIdleCoeffs_def)
qed

definition quiet :: "aggState \<Rightarrow> bool" where
  "quiet st \<longleftrightarrow> refsOf (ag_idleSet st) = [] \<and> refsOf (ag_shareSet st) = [] \<and> refsOf (ag_externalSet st) = []"

lemma prepare_plain:
  assumes "plainOptions options" and "quiet st"
    and "\<forall>e \<in> set (refsOf (ag_as st)). al_Properties (ag_heap st ! snd e) \<noteq> None"
  shows "\<exists>F. prepare other now by' options b st = ok (st\<lparr>ag_idleFiltration := F\<rparr>)"
proof -
  have "\<exists>c t. computeIdleCoeffs options (ag_heap st) (ag_as st) (ag_shareSet st) = Some (c, t)"
    using computeIdleCoeffs_defined [of "ag_as st" "ag_shareSet st" "ag_heap st" options] assms(2,3)
    by (auto simp: quiet_def)
  then obtain c t where "computeIdleCoeffs options (ag_heap st) (ag_as st) (ag_shareSet st) = Some (c, t)" by blast
  then have "\<exists>F. filtrationStep options b st = ok (st\<lparr>ag_idleFiltration := F\<rparr>)"
    unfolding filtrationStep_def
    by (cases "b \<and> ao_ShareIdle options = ShareNone") (auto intro: exI [of _ "ag_idleFiltration st"])
  then obtain F where "filtrationStep options b st = ok (st\<lparr>ag_idleFiltration := F\<rparr>)" by blast
  moreover have "idleStep options st = ok st" "parcStep options st = ok st"
    using assms(1,2) by (simp_all add: idleStep_def parcStep_def quiet_def plainOptions_def)
  moreover have "shareStep by' options (st\<lparr>ag_idleFiltration := F\<rparr>) = ok (st\<lparr>ag_idleFiltration := F\<rparr>)" for F
    using assms(2) by (simp add: shareStep_def quiet_def)
  ultimately show ?thesis using assms(1) by (auto simp: prepare_def plainOptions_def)
qed

lemma finish_plain:
  assumes "quiet st" and "entries (as_IdleKeys (ag_aggSet st)) = []"
  shows "andThen (filtrateAll options st) (finish by' options m) =
    ok (st\<lparr>ag_as := (ag_as st)\<lparr>as_Allocations := as_Allocations (ag_aggSet st)\<rparr>\<rparr>)"
proof -
  have "filtrateAll options st = ok st" using assms(2) by (simp add: filtrateAll_def split: option.split)
  moreover have "mergeIdle st = st"
    using assms(2) by (simp add: mergeIdle_def IdleAllocations_def keyedClones_def map_filter_simps)
  moreover have "fold (\<lambda>p. id) es s = s" for es :: "ref gomap" and s :: aggState
    by (induction es) auto
  then have "distributeShared options st = st"
    using assms(1) by (simp add: distributeShared_def quiet_def case_prod_unfold)
  ultimately show ?thesis using assms(1) by (simp add: finish_def quiet_def)
qed

lemma setKeysOk_none:
  assumes "setKeysOk suf as m" and "\<And>k. k \<in> fst ` set (refsOf as) \<Longrightarrow> \<not> containsStr k suf"
  shows "entries m = []"
proof (cases "entries m")
  case (Cons e es)
  then have "fst e \<in> fst ` set (entries m)" by simp
  with assms(1) [unfolded setKeysOk_def, rule_format, of "fst e"] assms(2) [of "fst e"] show ?thesis by blast
qed

context grouped_field
begin

lemma aggregateAll_plain:
  assumes s: "setOk h s" and opts: "plainOptions options" and ne: "refsOf s \<noteq> []"
    and cells: "\<forall>r \<in> refs s. plainCell (h ! r) \<and> Matches m (Some (marked options (h ! r))) \<noteq> None \<and>
      \<not> containsStr (al_Name (nameByKey by' options (marked options (h ! r)))) IdleSuffix"
  shows "\<exists>st. aggregateAll other now by' options m None h s = ok st \<and>
    fieldOf f (ag_heap st) (ag_as st) name =
      groupSum f (\<lambda>a. al_Name (nameByKey by' options a)) (\<lambda>a. Matches m (Some a) = Some True) name
        (map (\<lambda>e. marked options (h ! snd e)) (refsOf s)) None"
proof -
  let ?key = "\<lambda>a. al_Name (nameByKey by' options a)" and ?keep = "\<lambda>a. Matches m (Some a) = Some True"
  let ?h = "markAll options (map snd (refsOf s)) h"
  let ?st1 = "(startState h s)\<lparr>ag_heap := ?h\<rparr>"
  have dist: "distinct (map snd (refsOf s))" using s by (auto simp: setOk_def intro: distinct_map_snd)
  have inr: "snd e \<in> refs s" if "e \<in> set (refsOf s)" for e using that by (simp add: refs_def)
  have low: "snd e < length h" if "e \<in> set (refsOf s)" for e using setOk_refs [OF s] inr [OF that] by blast
  have cell: "?h ! snd e = marked options (h ! snd e)" if "e \<in> set (refsOf s)" for e
    using markAll_simps(2) [OF dist low [OF that]] that by simp
  have start: "ag_heap (startState h s) = h" "ag_as (startState h s) = s" "quiet (startState h s)"
    "ag_aggSet (startState h s) = windowSet (as_Window s)"
    by (simp_all add: startState_def quiet_def Let_def)
  have part: "partition' options None (startState h s) = ok ?st1"
    using partition_plain [of options "refsOf s" "startState h s"] opts dist cells inr start
    by (auto simp: partition'_def plainOptions_def)
  have q1: "quiet ?st1" using start(3) by (simp add: quiet_def)
  have "\<forall>e \<in> set (refsOf s). al_Properties (?h ! snd e) \<noteq> None" using cell cells inr by (auto simp: plainCell_def)
  with start(2) have "\<forall>e \<in> set (refsOf (ag_as ?st1)). al_Properties (ag_heap ?st1 ! snd e) \<noteq> None" by simp
  from prepare_plain [OF opts q1 this] obtain F where
    prep: "prepare other now by' options (\<not> isFilterEmpty m) ?st1 = ok (?st1\<lparr>ag_idleFiltration := F\<rparr>)" by blast
  let ?st2 = "?st1\<lparr>ag_idleFiltration := F\<rparr>"
  have all: "\<exists>h1 acc F. forEach (aggregateStep by' options m) (refsOf s) ?st2 =
      ok (?st2\<lparr>ag_heap := h1, ag_aggSet := acc, ag_idleFiltration := F\<rparr>) \<and> setOk h1 acc \<and>
    (ag_idleFiltration ?st2 = None \<longrightarrow> F = None) \<and>
    fieldOf f h1 acc n = groupSum f ?key ?keep n (map (\<lambda>e. ag_heap ?st2 ! snd e) (refsOf s))
      (fieldOf f (ag_heap ?st2) (ag_aggSet ?st2) n)" for n
  proof (rule collect_plain)
    show "\<forall>e \<in> set (refsOf s). snd e < length (ag_heap ?st2) \<and> snd e \<notin> refs (ag_aggSet ?st2) \<and>
      al_Properties (ag_heap ?st2 ! snd e) \<noteq> None \<and> Matches m (Some (ag_heap ?st2 ! snd e)) \<noteq> None"
    proof
      fix e assume e: "e \<in> set (refsOf s)"
      with low start cell [OF e] cells inr [OF e] show "snd e < length (ag_heap ?st2) \<and> snd e \<notin> refs (ag_aggSet ?st2) \<and>
        al_Properties (ag_heap ?st2 ! snd e) \<noteq> None \<and> Matches m (Some (ag_heap ?st2 ! snd e)) \<noteq> None"
        by (simp add: markAll_simps plainCell_def)
    qed
  qed (use start q1 dist in \<open>simp_all add: quiet_def\<close>)
  have cells1: "map (\<lambda>e. ag_heap ?st2 ! snd e) (refsOf s) = map (\<lambda>e. marked options (h ! snd e)) (refsOf s)"
    using cell by simp
  have none: "fieldOf f (ag_heap ?st2) (ag_aggSet ?st2) n = None" for n using start(4) by simp
  let ?sum = "\<lambda>n. groupSum f ?key ?keep n (map (\<lambda>e. marked options (h ! snd e)) (refsOf s)) None"
  from all [of name] obtain h1 acc F1 where loop: "forEach (aggregateStep by' options m) (refsOf s) ?st2 =
      ok (?st2\<lparr>ag_heap := h1, ag_aggSet := acc, ag_idleFiltration := F1\<rparr>)" and acc: "setOk h1 acc"
    by blast
  have sum: "fieldOf f h1 acc n = ?sum n" for n
  proof -
    from all [of n] obtain h2 acc2 F2 where l2: "forEach (aggregateStep by' options m) (refsOf s) ?st2 =
      ok (?st2\<lparr>ag_heap := h2, ag_aggSet := acc2, ag_idleFiltration := F2\<rparr>)" and "fieldOf f h2 acc2 n = ?sum n"
      unfolding cells1 none by blast
    moreover from loop l2 have "?st2\<lparr>ag_heap := h1, ag_aggSet := acc, ag_idleFiltration := F1\<rparr> =
      ?st2\<lparr>ag_heap := h2, ag_aggSet := acc2, ag_idleFiltration := F2\<rparr>" by simp
    from arg_cong [OF this, of ag_heap] arg_cong [OF this, of ag_aggSet] have "h1 = h2" "acc = acc2" by simp_all
    ultimately show ?thesis by simp
  qed
  let ?st3 = "?st2\<lparr>ag_heap := h1, ag_aggSet := acc, ag_idleFiltration := F1\<rparr>"
  have q3: "quiet ?st3" using q1 by (simp add: quiet_def)
  have "\<not> containsStr k IdleSuffix" if "k \<in> fst ` set (refsOf acc)" for k
  proof
    assume k: "containsStr k IdleSuffix"
    have "fieldOf f h1 acc k = None"
      unfolding sum by (rule groupSum_None) (use k cells inr in auto)
    with that show False by (simp add: fieldOf_def setGet_None)
  qed
  then have "entries (as_IdleKeys acc) = []" by (intro setKeysOk_none [of IdleSuffix acc]) (use acc in \<open>simp_all add: setOk_def\<close>)
  then have "entries (as_IdleKeys (ag_aggSet ?st3)) = []" by simp
  note fin = finish_plain [OF q3 this, of options by' m]
  have coll: "collectStep by' options m ?st2 = ok ?st3"
    using loop start(2) q1 by (simp add: collectStep_def quiet_def)
  let ?st4 = "?st3\<lparr>ag_as := (ag_as ?st3)\<lparr>as_Allocations := as_Allocations (ag_aggSet ?st3)\<rparr>\<rparr>"
  have ne1: "refsOf (ag_as ?st1) \<noteq> []" using ne start(2) by simp
  have "aggregateAll other now by' options m None h s = ok ?st4"
    unfolding aggregateAll_def part step_simps if_not_P [OF ne1] prep coll by (rule fin)
  moreover have "fieldOf f (ag_heap ?st4) (ag_as ?st4) name = fieldOf f h1 acc name"
    by (simp add: fieldOf_def setGet_def refsOf_def)
  ultimately show ?thesis using sum [of name] by (intro exI [of _ ?st4]) simp
qed

end

text \<open>The whole call, for any options that share nothing.\<close>

definition groupTotals ::
  "allocHeap \<Rightarrow> allocationSet \<Rightarrow> string list option \<Rightarrow> aggregationOptions \<Rightarrow> allocation option matcher \<Rightarrow>
     (allocation \<Rightarrow> float64) \<Rightarrow> string \<Rightarrow> float64 option" where
  "groupTotals h s by' options m f name =
     groupSum f (\<lambda>a. al_Name (nameByKey by' options a)) (\<lambda>a. Matches m (Some a) = Some True) name
       (map (\<lambda>e. marked options (h ! snd e)) (refsOf s)) None"

definition plainSet ::
  "allocHeap \<Rightarrow> allocationSet \<Rightarrow> string list option \<Rightarrow> aggregationOptions \<Rightarrow> allocation option matcher \<Rightarrow> bool" where
  "plainSet h s by' options m \<longleftrightarrow> setOk h s \<and>
     (\<forall>r \<in> refs s. plainCell (h ! r) \<and> Matches m (Some (marked options (h ! r))) \<noteq> None \<and>
       \<not> containsStr (al_Name (nameByKey by' options (marked options (h ! r)))) IdleSuffix)"

section \<open>Coefficients are shares\<close>

lemma foldOpt_invariant:
  assumes "foldOpt g xs st = Some st'" and "I st" and "\<And>x s s'. x \<in> set xs \<Longrightarrow> I s \<Longrightarrow> g x s = Some s' \<Longrightarrow> I s'"
  shows "I st'"
  using assms
proof (induction xs arbitrary: st)
  case (Cons x xs)
  from Cons.prems(1) obtain s where s: "g x st = Some s" "foldOpt g xs s = Some st'" by (auto simp: bind_eq_Some_conv)
  show ?case by (rule Cons.IH [OF s(2)]) (use Cons.prems s(1) in auto)
qed simp

lemma numAt_addNum: "numAt (addNum k x m) j = (if j = k then fadd (numAt m k) x else numAt m j)"
  by (simp add: addNum_def numAt_def update_conv')

lemma mapAt_atKey: "mapAt (atKey k f m) j = (if j = k then f (mapAt m k) else mapAt m j)"
  by (simp add: atKey_def mapAt_def update_conv')

text \<open>A part and a total that grow by the same amount.\<close>

definition partOf :: "float64 \<Rightarrow> float64 \<Rightarrow> bool" where
  "partOf c t \<longleftrightarrow> nonneg c \<and> nonneg t \<and> isFloat t \<and> fle c t"

lemma partOf_zero: "partOf (Fin 0) (Fin 0)"
  by (simp add: partOf_def nonneg_def fle_def isFloat_def)

lemma partOf_both: "partOf c t \<Longrightarrow> nonneg w \<Longrightarrow> partOf (fadd c w) (fadd t w)"
  by (simp add: partOf_def nonneg_fadd isFloat_fadd fadd_mono)

lemma partOf_total: "partOf c t \<Longrightarrow> nonneg w \<Longrightarrow> partOf c (fadd t w)"
  unfolding partOf_def using fadd_above fle_trans by (blast intro: nonneg_fadd isFloat_fadd)

lemma partOf_share:
  assumes "partOf c t"
  shows "isShare (if flt (Fin 0) c \<and> flt (Fin 0) t then fdiv c t else c)"
proof (cases "flt (Fin 0) c \<and> flt (Fin 0) t")
  case True
  with assms show ?thesis by (simp add: fdiv_share partOf_def)
next
  case False
  with assms have "c = Fin 0" by (auto simp: partOf_def nonneg_cases fle_def)
  then show ?thesis by (simp add: isShare_def fle_def)
qed

text \<open>Shared costs: every part is a part of the total.\<close>

definition sharesOk :: "float64 gomap \<times> float64 \<Rightarrow> bool" where
  "sharesOk ct \<longleftrightarrow> (\<forall>k. partOf (numAt (fst ct) k) (snd ct))"

lemma recordShare_ok:
  assumes "sharesOk ct" and "nonneg (shareWeight a)" and "ao_ShareSplit options \<noteq> ShareEven"
    and "recordShare by' options m a ct = Some ct'"
  shows "sharesOk ct'"
  using assms
  by (auto simp: recordShare_def Let_def case_prod_unfold sharesOk_def numAt_addNum partOf_both partOf_total split: if_splits option.splits)

definition evenOk :: "float64 gomap \<times> float64 \<Rightarrow> bool" where
  "evenOk ct \<longleftrightarrow> (\<forall>e \<in> set (fst ct). snd e = Fin 1) \<and> snd ct = fOfInt (int (length (fst ct)))"

lemma recordShare_even:
  assumes "evenOk ct" and "ao_ShareSplit options = ShareEven" and "recordShare by' options m a ct = Some ct'"
  shows "evenOk ct'"
proof -
  have "\<forall>e \<in> set (AList.update n (Fin 1) c). snd e = Fin 1" if "\<forall>e \<in> set c. snd e = Fin 1" for n and c :: "float64 gomap"
    using that by (induction c) (auto split: if_splits)
  moreover have "\<forall>e \<in> set (fst ct). snd e = Fin 1" using assms(1) by (simp add: evenOk_def)
  ultimately have "\<forall>e \<in> set (AList.update n (Fin 1) (fst ct)). snd e = Fin 1" for n .
  then have "evenOk (AList.update n (Fin 1) (fst ct), fOfInt (int (length (AList.update n (Fin 1) (fst ct)))))" for n
    unfolding evenOk_def fst_conv snd_conv by (rule conjI [OF _ refl])
  with assms show ?thesis by (auto simp: recordShare_def Let_def case_prod_unfold split: if_splits option.splits)
qed

lemma computeShareCoeffs_shares:
  assumes "computeShareCoeffs by' options h as = Some (Inr c)"
    and "ao_ShareSplit options = ShareEven \<or> (\<forall>r \<in> refs as. nonneg (shareWeight (h ! r)))"
    and "map_of c name = Some v"
  shows "isShare v"
proof -
  obtain m ct where ct: "foldOpt (\<lambda>(_, r). recordShare by' options m (h ! r)) (refsOf as) ([], Fin 0) = Some ct"
    and c: "c = normalizeShares ct"
    using assms(1) by (auto simp: computeShareCoeffs_def split: option.splits sum.splits)
  from assms(3) obtain x where x: "map_of (fst ct) name = Some x"
    and v: "v = (if flt (Fin 0) x \<and> flt (Fin 0) (snd ct) then fdiv x (snd ct) else Fin 0)"
    by (auto simp: c normalizeShares_def map_of_map)
  have zero: "isShare (Fin 0)" by (simp add: isShare_def fle_def)
  show ?thesis
  proof (cases "ao_ShareSplit options = ShareEven")
    case True
    have "evenOk ct"
    proof (rule foldOpt_invariant [OF ct])
      show "evenOk ([], Fin 0)" by (simp add: evenOk_def fOfInt_def)
      fix e s s'
      assume "evenOk s" "(case e of (_, r) \<Rightarrow> recordShare by' options m (h ! r)) s = Some s'"
      with recordShare_even [OF _ True] show "evenOk s'" by (simp add: case_prod_unfold)
    qed
    moreover from x have n: "(name, x) \<in> set (fst ct)" by (rule map_of_SomeD)
    ultimately have ct1: "x = Fin 1" "snd ct = fl (of_int (int (length (fst ct))))" by (auto simp: evenOk_def fOfInt_def)
    from n have "1 \<le> length (fst ct)" by (cases "fst ct") auto
    then have "fle (fl 1) (fl (of_int (int (length (fst ct)))))" by (intro fle_fl) simp
    then show ?thesis using v zero fdiv_share [of "Fin 1" "snd ct"] by (simp add: ct1)
  next
    case False
    have "sharesOk ct"
    proof (rule foldOpt_invariant [OF ct])
      show "sharesOk ([], Fin 0)" by (simp add: sharesOk_def numAt_def partOf_zero)
      fix e s s'
      assume e: "e \<in> set (refsOf as)" and s: "sharesOk s" "(case e of (_, r) \<Rightarrow> recordShare by' options m (h ! r)) s = Some s'"
      from e have "snd e \<in> refs as" by (simp add: refs_def)
      with s show "sharesOk s'" using assms(2) False recordShare_ok [of s "h ! snd e" options by' m s'] by (auto simp: case_prod_unfold)
    qed
    then have "partOf (numAt (fst ct) name) (snd ct)" by (simp add: sharesOk_def)
    then show ?thesis using partOf_share [of x "snd ct"] x v zero by (auto simp: numAt_def)
  qed
qed

text \<open>Idle costs: the costs of an allocation are a part of the total of their identifier and resource.\<close>

definition costsOk :: "coeffs \<times> totals \<Rightarrow> bool" where
  "costsOk ct \<longleftrightarrow> (\<forall>idleId name res. partOf (coeffOf (fst ct) idleId name res) (numAt (mapAt (snd ct) idleId) res))"

lemma addCost_ok:
  assumes "costsOk ct" and "nonneg (snd rx)"
  shows "costsOk (addCost idleId name rx ct)"
  using assms
  by (auto simp: costsOk_def addCost_def coeffOf_def mapAt_atKey numAt_addNum partOf_both partOf_total)

definition nonnegCosts :: "allocation \<Rightarrow> bool" where
  "nonnegCosts a \<longleftrightarrow> nonneg (CPUTotalCost a) \<and> nonneg (GPUTotalCost a) \<and> nonneg (RAMTotalCost a)"

lemma recordIdle_ok:
  assumes "costsOk ct" and "nonnegCosts a" and "recordIdle options a ct = Some ct'"
  shows "costsOk ct'"
  using assms by (auto simp: recordIdle_def nodeCosts_def nonnegCosts_def addCost_ok split: if_splits)

lemma numAt_normalizeOne:
  "numAt (normalizeOne tot m) r =
     (if r \<in> {''cpu'', ''gpu'', ''ram''} \<and> flt (Fin 0) (numAt m r) \<and> flt (Fin 0) (numAt tot r)
      then fdiv (numAt m r) (numAt tot r) else numAt m r)"
proof -
  have one: "numAt (if b then AList.update k x n else n) j = (if b \<and> j = k then x else numAt n j)" for b k x n j
    by (simp add: numAt_def update_conv')
  show ?thesis by (simp add: normalizeOne_def one) auto
qed

lemma map_of_map_key: "map_of (map (\<lambda>(k, v). (k, g k v)) xs) k = map_option (g k) (map_of xs k)"
  by (induction xs) auto

lemma coeffOf_normalize:
  "coeffOf (normalizeCoeffs tot c) idleId name r = numAt (normalizeOne (mapAt tot idleId) (mapAt (mapAt c idleId) name)) r"
proof -
  have none: "numAt [] k = Fin 0" for k by (simp add: numAt_def)
  have empty: "numAt (normalizeOne t []) k = Fin 0" for t k unfolding numAt_normalizeOne by (simp add: none)
  have inner: "mapAt (normalizeCoeffs tot c) idleId =
      map (\<lambda>(name, rs). (name, normalizeOne (mapAt tot idleId) rs)) (mapAt c idleId)"
    unfolding normalizeCoeffs_def mapAt_def [of _ idleId] map_of_map_key by (simp split: option.split)
  show ?thesis
    unfolding coeffOf_def inner mapAt_def [of _ name] map_of_map_key
    by (cases "map_of (mapAt c idleId) name") (simp_all add: none empty)
qed

lemma computeIdleCoeffs_shares:
  assumes "computeIdleCoeffs options h as share = Some (c, tot)"
    and "\<forall>r \<in> refs as \<union> refs share. nonnegCosts (h ! r)"
    and "res \<in> {''cpu'', ''gpu'', ''ram''}"
  shows "isShare (coeffOf c idleId name res)"
proof -
  obtain ct where ct: "foldOpt (\<lambda>(_, r). recordIdle options (h ! r)) (refsOf as @ refsOf share) ([], []) = Some ct"
    and c: "c = normalizeCoeffs (snd ct) (fst ct)" "tot = snd ct"
    using assms(1) by (auto simp: computeIdleCoeffs_def)
  have "costsOk ct"
  proof (rule foldOpt_invariant [OF ct])
    show "costsOk ([], [])" by (simp add: costsOk_def coeffOf_def numAt_def mapAt_def partOf_zero)
    fix e s s'
    assume e: "e \<in> set (refsOf as @ refsOf share)" and s: "costsOk s" "(case e of (_, r) \<Rightarrow> recordIdle options (h ! r)) s = Some s'"
    from e have "snd e \<in> refs as \<union> refs share" by (auto simp: refs_def)
    with s show "costsOk s'" using recordIdle_ok [of s "h ! snd e" options s'] assms(2) by (auto simp: case_prod_unfold)
  qed
  then have "partOf (coeffOf (fst ct) idleId name res) (numAt (mapAt tot idleId) res)" by (simp add: costsOk_def c)
  from partOf_share [OF this] show ?thesis
    using assms(3) unfolding c coeffOf_normalize numAt_normalizeOne coeffOf_def [of "fst ct"] by simp
qed

end
