(* ===== verification/Window_Calendar.thy ===== *)
theory Window_Calendar
  imports Window
begin

text \<open>
  Windows on the calendar (\<^verbatim>\<open>GetAccumulateWindow\<close> and \<^verbatim>\<open>GetAccumulateWindows\<close> of
  \<^verbatim>\<open>core/pkg/opencost/window.go\<close>): a window rounded to hours, days, weeks, months or quarters,
  and cut into them. The functions on start and end are only called on closed windows.
\<close>

section \<open>Rounding to the calendar\<close>

definition getHourlyWindow :: "gotime \<Rightarrow> gotime \<Rightarrow> window" where
  "getHourlyWindow s e =
     (let roundedStart = timeDate (timeYear s) (timeMonth s) (timeDay s) (timeHour s) 0 0 (tm_off s);
          roundedEnd = timeDate (timeYear e) (timeMonth e) (timeDay e) (timeHour e + 1) 0 0 (tm_off e)
      in NewClosedWindow roundedStart
           (if timeMinute e = 0 \<and> timeSecond e = 0 then e else roundedEnd))"

definition getDailyWindow :: "gotime \<Rightarrow> gotime \<Rightarrow> window" where
  "getDailyWindow s e =
     (let roundedStart = timeDate (timeYear s) (timeMonth s) (timeDay s) 0 0 0 (tm_off s);
          roundedEnd = timeDate (timeYear e) (timeMonth e) (timeDay e + 1) 0 0 0 (tm_off e)
      in NewClosedWindow roundedStart
           (if timeMinute e = 0 \<and> timeSecond e = 0 \<and> timeHour e = 0 then e else roundedEnd))"

definition getWeeklyWindow :: "gotime \<Rightarrow> gotime \<Rightarrow> window" where
  "getWeeklyWindow s e =
     (let s1 = timeAdd s (- 1 * timeWeekday s * Day);
          roundedStart = timeDate (timeYear s1) (timeMonth s1) (timeDay s1) 0 0 0 (tm_off e);
          e1 = timeAdd e ((6 - timeWeekday e) * Day);
          roundedEnd = timeDate (timeYear e1) (timeMonth e1) (timeDay e1 + 1) 0 0 0 (tm_off e)
      in NewClosedWindow roundedStart
           (if timeWeekday e = 0 \<and> timeSecond e = 0 \<and> timeHour e = 0 then e else roundedEnd))"

definition getMonthlyWindow :: "gotime \<Rightarrow> gotime \<Rightarrow> window" where
  "getMonthlyWindow s e =
     (let roundedStart = timeDate (timeYear s) (timeMonth s) 1 0 0 0 (tm_off s);
          roundedEnd = timeDate (timeYear e) (timeMonth e + 1) 1 0 0 0 (tm_off e)
      in NewClosedWindow roundedStart
           (if timeDay e = 1 \<and> timeHour e = 0 \<and> timeMinute e = 0 \<and> timeSecond e = 0 then e else roundedEnd))"

text \<open>\<^verbatim>\<open>int(math.Ceil(float64(month) / 3.0))\<close> on the months \<open>1\<close> to \<open>12\<close>.\<close>

definition quarterOf :: "int \<Rightarrow> int" where
  "quarterOf m = (m + 2) div 3"

definition getQuarterlyWindow :: "gotime \<Rightarrow> gotime \<Rightarrow> window" where
  "getQuarterlyWindow s e =
     (let startQuarterNum = quarterOf (timeMonth s); endQuarterNum = quarterOf (timeMonth e);
          roundedStart = timeDate (timeYear s) (startQuarterNum * 3 - 2) 1 0 0 0 (tm_off s);
          roundedEnd = timeDate (timeYear e) ((endQuarterNum + 1) * 3 - 2) 1 0 0 0 (tm_off e)
      in NewClosedWindow roundedStart
           (if timeMonth e = endQuarterNum * 3 - 2 \<and> timeDay e = 1 \<and> timeHour e = 0 \<and> timeMinute e = 0 \<and> timeSecond e = 0
            then e else roundedEnd))"

section \<open>Cutting into calendar windows\<close>

datatype accumulateOption =
    AccumulateOptionNone | AccumulateOptionAll | AccumulateOptionHour | AccumulateOptionDay
  | AccumulateOptionWeek | AccumulateOptionMonth | AccumulateOptionQuarter

text \<open>
  The end of the window that starts at a time, as each of the loops computes it. The loop of
  each function only differs in this step.
\<close>

fun nextBoundary :: "accumulateOption \<Rightarrow> gotime \<Rightarrow> gotime" where
  "nextBoundary AccumulateOptionHour t = timeDate (timeYear t) (timeMonth t) (timeDay t) (timeHour t + 1) 0 0 (tm_off t)"
| "nextBoundary AccumulateOptionDay t = timeDate (timeYear t) (timeMonth t) (timeDay t + 1) 0 0 0 (tm_off t)"
| "nextBoundary AccumulateOptionWeek t = timeDate (timeYear t) (timeMonth t) (timeDay t + 7) 0 0 0 (tm_off t)"
| "nextBoundary AccumulateOptionMonth t = timeDate (timeYear t) (timeMonth t + 1) 1 0 0 0 (tm_off t)"
| "nextBoundary _ t = timeDate (timeYear t) (timeMonth t + 3) 1 0 0 0 (tm_off t)"

lemma hour_of_time: "localNs t = localDay t * Day + timeHour t * Hour + localNs t mod Hour"
proof -
  have "localNs t mod Day mod Hour = localNs t mod Hour" by (rule mod_mod_cancel) (simp add: Day_def)
  then show ?thesis
    using div_mult_mod_eq [of "localNs t" Day] div_mult_mod_eq [of "localNs t mod Day" Hour]
    unfolding localDay_def timeHour_def by linarith
qed

lemma dayNumber_future:
  assumes "0 < k"
  shows "localDay t < dayNumber (timeYear t) (timeMonth t + k) 1"
proof (cases "k = 1")
  case False
  with assms have "dayNumber (timeYear t) (timeMonth t + 1) 1 < dayNumber (timeYear t) (timeMonth t + k) 1"
    by (intro dayNumber_month_mono) simp
  with month_of_day(2) [of t] show ?thesis by simp
qed (use month_of_day(2) in simp)

text \<open>The next boundary is later, so the loops end.\<close>

lemma nextBoundary_later: "tm_ns t < tm_ns (nextBoundary opt t)"
proof -
  have up: "tm_ns t < tm_ns (midnight (tm_off t) d)" if "localDay t < d" for d
    using midnight_of_day(2) [of t] midnight_le [of "tm_off t" "localDay t + 1" d] that by simp
  have month: "tm_ns t < tm_ns (timeDate (timeYear t) (timeMonth t + k) 1 0 0 0 (tm_off t))" if "0 < k" for k
    using up dayNumber_future [OF that] by (simp add: timeDate_midnight)
  have day: "tm_ns t < tm_ns (timeDate (timeYear t) (timeMonth t) (timeDay t + k) 0 0 0 (tm_off t))" if "0 < k" for k
    using up [of "localDay t + k"] that by (simp add: timeDate_midnight dayNumber_add date_day)
  have "localNs t < localDay t * Day + (timeHour t + 1) * Hour"
    using hour_of_time [of t] pos_mod_bound [of Hour "localNs t"] by (simp add: algebra_simps durations)
  then have "tm_ns t < tm_ns (nextBoundary AccumulateOptionHour t)"
    by (simp add: timeDate_def date_day localNs_def)
  with month day show ?thesis by (cases opt) simp_all
qed

function calendarLoop :: "accumulateOption \<Rightarrow> gotime \<Rightarrow> gotime \<Rightarrow> gotime \<Rightarrow> window list \<Rightarrow> window list" where
  "calendarLoop opt roundedEnd currStart currEnd wins =
     (if timeBefore currEnd roundedEnd \<or> timeEqual currEnd roundedEnd
      then calendarLoop opt roundedEnd currEnd (nextBoundary opt currEnd)
             (wins @ [NewClosedWindow currStart currEnd])
      else wins)"
  by pat_completeness auto
termination
proof (relation "measure (\<lambda>(opt, roundedEnd, _, currEnd, _). nat (tm_ns roundedEnd + 1 - tm_ns currEnd))", goal_cases)
  case (2 opt roundedEnd currStart currEnd wins)
  then show ?case using nextBoundary_later [of currEnd opt] by (auto simp: time_order)
qed simp

declare calendarLoop.simps [simp del]

definition calendarWindows :: "accumulateOption \<Rightarrow> window \<Rightarrow> window list option" where
  "calendarWindows opt rounded = do {
     s \<leftarrow> wn_start rounded;
     e \<leftarrow> wn_end rounded;
     Some (calendarLoop opt e s (nextBoundary opt s) []) }"

text \<open>The loops of the five functions, each after its own rounding.\<close>

definition getHourlyWindows :: "gotime \<Rightarrow> gotime \<Rightarrow> window list option" where
  "getHourlyWindows s e = calendarWindows AccumulateOptionHour (getHourlyWindow s e)"

definition getDailyWindows :: "gotime \<Rightarrow> gotime \<Rightarrow> window list option" where
  "getDailyWindows s e = calendarWindows AccumulateOptionDay (getDailyWindow s e)"

definition getWeeklyWindows :: "gotime \<Rightarrow> gotime \<Rightarrow> window list option" where
  "getWeeklyWindows s e = calendarWindows AccumulateOptionWeek (getWeeklyWindow s e)"

definition getMonthlyWindows :: "gotime \<Rightarrow> gotime \<Rightarrow> window list option" where
  "getMonthlyWindows s e = calendarWindows AccumulateOptionMonth (getMonthlyWindow s e)"

definition getQuarterlyWindows :: "gotime \<Rightarrow> gotime \<Rightarrow> window list option" where
  "getQuarterlyWindows s e = calendarWindows AccumulateOptionQuarter (getQuarterlyWindow s e)"

lemmas calendar_windows_defs =
  getHourlyWindows_def getDailyWindows_def getWeeklyWindows_def getMonthlyWindows_def getQuarterlyWindows_def

datatype accumulateError = OpenWindow | CannotRound accumulateOption | NoCoverage

text \<open>The outer option is \<open>None\<close> if a nil time is read.\<close>

definition GetAccumulateWindow :: "accumulateOption \<Rightarrow> window \<Rightarrow> (accumulateError + window)" where
  "GetAccumulateWindow opt w =
     (case (wn_start w, wn_end w) of
        (Some s, Some e) \<Rightarrow>
          (case opt of
             AccumulateOptionAll \<Rightarrow> Inr (windowClone w)
           | AccumulateOptionHour \<Rightarrow> Inr (getHourlyWindow s e)
           | AccumulateOptionDay \<Rightarrow> Inr (getDailyWindow s e)
           | AccumulateOptionWeek \<Rightarrow> Inr (getWeeklyWindow s e)
           | AccumulateOptionMonth \<Rightarrow> Inr (getMonthlyWindow s e)
           | AccumulateOptionQuarter \<Rightarrow> Inr (getQuarterlyWindow s e)
           | AccumulateOptionNone \<Rightarrow> Inl (CannotRound opt))
      | _ \<Rightarrow> Inl OpenWindow)"

definition GetAccumulateWindows :: "accumulateOption \<Rightarrow> window \<Rightarrow> (accumulateError + window list) option" where
  "GetAccumulateWindows opt w =
     (case (wn_start w, wn_end w) of
        (Some s, Some e) \<Rightarrow>
          (case opt of
             AccumulateOptionAll \<Rightarrow> Some (Inr [windowClone w])
           | AccumulateOptionDay \<Rightarrow> map_option Inr (getDailyWindows s e)
           | AccumulateOptionWeek \<Rightarrow> map_option Inr (getWeeklyWindows s e)
           | AccumulateOptionMonth \<Rightarrow> map_option Inr (getMonthlyWindows s e)
           | AccumulateOptionHour \<Rightarrow> map_option Inr (getHourlyWindows s e)
           | AccumulateOptionQuarter \<Rightarrow> map_option Inr (getQuarterlyWindows s e)
           | AccumulateOptionNone \<Rightarrow> Some (Inl NoCoverage))
      | _ \<Rightarrow> Some (Inl OpenWindow))"

section \<open>Boundaries as a grid\<close>

text \<open>
  The boundaries of a kind of window are numbered: \<open>grid n\<close> is the local time of the \<open>n\<close>th one,
  and the loop steps from one to the next.
\<close>

lemma tm_off_nextBoundary [simp]: "tm_off (nextBoundary opt t) = tm_off t"
  by (cases opt) (simp_all add: timeDate_def)

locale time_grid =
  fixes opt :: accumulateOption and grid :: "int \<Rightarrow> int"
  assumes grid_mono: "i < j \<Longrightarrow> grid i < grid j"
    and grid_next: "localNs t = grid n \<Longrightarrow> localNs (nextBoundary opt t) = grid (n + 1)"
begin

lemma grid_le: "i \<le> j \<Longrightarrow> grid i \<le> grid j"
  using grid_mono [of i j] by (cases "i = j") auto

lemma grid_less_iff: "grid i < grid j \<longleftrightarrow> i < j"
  using grid_mono [of i j] grid_le [of j i] by linarith

text \<open>From boundary to boundary the loop cuts the range completely.\<close>

lemma loop_tiles:
  assumes "tiles a (tm_ns t) ws" and "localNs t = grid n" and "localNs e = grid m" and "n \<le> m" and "tm_off e = tm_off t"
  shows "tiles a (tm_ns e) (calendarLoop opt e t (nextBoundary opt t) ws)"
  using assms
proof (induction "nat (m - n)" arbitrary: t n ws rule: less_induct)
  case less
  let ?u = "nextBoundary opt t"
  have u: "localNs ?u = grid (n + 1)" using less.prems(2) by (rule grid_next)
  have cmp: "tm_ns v \<le> tm_ns e \<longleftrightarrow> localNs v \<le> localNs e" if "tm_off v = tm_off t" for v
    using that less.prems(5) by (simp add: localNs_def)
  show ?case
  proof (cases "n = m")
    case True
    then have "localNs t = localNs e" using less.prems by simp
    then have "tm_ns t = tm_ns e" using less.prems(5) by (simp add: localNs_def)
    moreover have "\<not> tm_ns ?u \<le> tm_ns e" using nextBoundary_later [of t opt] calculation by simp
    then have "calendarLoop opt e t ?u ws = ws"
      by (subst calendarLoop.simps) (simp add: time_order)
    ultimately show ?thesis using less.prems by simp
  next
    case False
    then have m: "n + 1 \<le> m" using less.prems(4) by simp
    then have "tm_ns ?u \<le> tm_ns e" using cmp [of ?u] u less.prems(3) grid_le by simp
    then have "calendarLoop opt e t ?u ws = calendarLoop opt e ?u (nextBoundary opt ?u) (ws @ [NewClosedWindow t ?u])"
      by (subst calendarLoop.simps) (auto simp: time_order)
    moreover have "tiles a (tm_ns ?u) (ws @ [NewClosedWindow t ?u])"
      using tiles_snoc [OF less.prems(1) nextBoundary_later [of t opt]] by (simp add: NewClosedWindow_def NewWindow_def)
    moreover have "nat (m - (n + 1)) < nat (m - n)" using m by simp
    ultimately show ?thesis using less.hyps [of "n + 1" ?u] u less.prems(3,5) m by simp
  qed
qed

text \<open>
  A window rounded to boundaries contains the original one and is cut completely.
\<close>

definition rounds :: "gotime \<Rightarrow> gotime \<Rightarrow> window \<Rightarrow> bool" where
  "rounds s e w \<longleftrightarrow> (\<exists>s' e' n m. w = NewClosedWindow s' e' \<and> tm_off s' = tm_off e \<and> tm_off e' = tm_off e \<and>
     localNs s' = grid n \<and> localNs e' = grid m \<and> tm_ns s' \<le> tm_ns s \<and> tm_ns e \<le> tm_ns e')"

lemma rounds_tiles:
  assumes "rounds s e w" and "tm_ns s \<le> tm_ns e"
  shows "\<exists>s' e' ws. w = NewClosedWindow s' e' \<and> tm_ns s' \<le> tm_ns s \<and> tm_ns e \<le> tm_ns e' \<and>
    calendarWindows opt w = Some ws \<and> tiles (tm_ns s') (tm_ns e') ws"
proof -
  from assms(1) obtain s' e' n m where r: "w = NewClosedWindow s' e'" "tm_off s' = tm_off e" "tm_off e' = tm_off e"
    "localNs s' = grid n" "localNs e' = grid m" "tm_ns s' \<le> tm_ns s" "tm_ns e \<le> tm_ns e'"
    unfolding rounds_def by blast
  from r assms(2) have "localNs s' \<le> localNs e'" by (simp add: localNs_def)
  with r have "n \<le> m" using grid_less_iff [of m n] by linarith
  have "tiles (tm_ns s') (tm_ns e') (calendarLoop opt e' s' (nextBoundary opt s') [])"
    by (rule loop_tiles [OF _ r(4,5) \<open>n \<le> m\<close>]) (use r in simp_all)
  with r show ?thesis by (simp add: calendarWindows_def NewClosedWindow_def)
qed

end

lemma midnight_eq: "localNs t = d * Day \<Longrightarrow> t = midnight (tm_off t) d"
  by (simp add: midnight_def localNs_def)

interpretation hours: time_grid AccumulateOptionHour "\<lambda>n. n * Hour"
proof
  show "i < j \<Longrightarrow> i * Hour < j * Hour" for i j by (simp add: durations)
  show "localNs (nextBoundary AccumulateOptionHour t) = (n + 1) * Hour" if "localNs t = n * Hour" for t n
  proof -
    have "localNs t mod Hour = 0" using that by simp
    with hour_of_time [of t] that have "localDay t * Day + timeHour t * Hour = n * Hour" by simp
    then show ?thesis by (simp add: timeDate_def date_day localNs_def algebra_simps)
  qed
qed

lemma localNs_timeDate: "localNs (timeDate y m d 0 0 0 off) = dayNumber y m d * Day"
  by (simp add: timeDate_midnight)

interpretation days: time_grid AccumulateOptionDay "\<lambda>n. n * Day"
proof
  show "i < j \<Longrightarrow> i * Day < j * Day" for i j by (simp add: durations)
  show "localNs (nextBoundary AccumulateOptionDay t) = (n + 1) * Day" if "localNs t = n * Day" for t n
  proof -
    have "localDay t = n" using that by (simp add: localDay_def durations)
    then show ?thesis by (simp add: localNs_timeDate dayNumber_add date_day)
  qed
qed

text \<open>Sundays are the days whose successor is a multiple of seven.\<close>

interpretation weeks: time_grid AccumulateOptionWeek "\<lambda>n. (7 * n - 1) * Day"
proof
  show "i < j \<Longrightarrow> (7 * i - 1) * Day < (7 * j - 1) * Day" for i j by (simp add: durations)
  show "localNs (nextBoundary AccumulateOptionWeek t) = (7 * (n + 1) - 1) * Day" if "localNs t = (7 * n - 1) * Day" for t n
  proof -
    have "localDay t = 7 * n - 1" using that by (simp add: localDay_def durations)
    then show ?thesis by (simp add: localNs_timeDate dayNumber_add date_day)
  qed
qed

text \<open>Months are counted from the year 0 on, so that month \<open>12 * y + m\<close> is month \<open>m\<close> of year \<open>y\<close>.\<close>

lemma dayNumber_index: "dayNumber y m d = dayNumber 0 (12 * y + m) d"
proof -
  have "(12 * y + m - 1) div 12 = y + (m - 1) div 12" "(12 * y + m - 1) mod 12 = (m - 1) mod 12"
    using div_mult_self4 [of 12 y "m - 1"] mod_mult_self4 [of 12 y "m - 1"] by (simp_all add: algebra_simps)
  then show ?thesis by (simp add: dayNumber_def Let_def)
qed

lemma month_index:
  assumes "localDay t = dayNumber 0 n 1"
  shows "12 * timeYear t + timeMonth t = n"
proof -
  let ?y = "(n - 1) div 12" and ?m = "(n - 1) mod 12 + 1"
  have n: "12 * ?y + ?m = n" using mult_div_mod_eq [of 12 "n - 1"] by linarith
  have m: "1 \<le> ?m" "?m \<le> 12" using pos_mod_bound [of 12 "n - 1"] by auto
  have "localDay t = dayNumber ?y ?m 1" using assms dayNumber_index [of ?y ?m 1] n by simp
  with month_unique [OF m, of ?y t] dayNumber_month_step [OF m, of ?y] n show ?thesis by simp
qed

lemma nextMonths: "localNs (timeDate (timeYear t) (timeMonth t + k) 1 0 0 0 off) = dayNumber 0 (n + k) 1 * Day"
  if "localNs t = dayNumber 0 n 1 * Day"
proof -
  have "localDay t = dayNumber 0 n 1" using that by (simp add: localDay_def durations)
  from month_index [OF this] show ?thesis
    by (simp add: localNs_timeDate dayNumber_index [of "timeYear t"] algebra_simps)
qed

interpretation months: time_grid AccumulateOptionMonth "\<lambda>n. dayNumber 0 n 1 * Day"
proof
  show "i < j \<Longrightarrow> dayNumber 0 i 1 * Day < dayNumber 0 j 1 * Day" for i j
    using dayNumber_month_mono [of i j 0] by (simp add: durations)
qed (simp add: nextMonths)

interpretation quarters: time_grid AccumulateOptionQuarter "\<lambda>n. dayNumber 0 (3 * n + 1) 1 * Day"
proof
  show "i < j \<Longrightarrow> dayNumber 0 (3 * i + 1) 1 * Day < dayNumber 0 (3 * j + 1) 1 * Day" for i j
    using dayNumber_month_mono [of "3 * i + 1" "3 * j + 1" 0] by (simp add: durations)
  show "localNs (nextBoundary AccumulateOptionQuarter t) = dayNumber 0 (3 * (n + 1) + 1) 1 * Day"
    if "localNs t = dayNumber 0 (3 * n + 1) 1 * Day" for t n
    using nextMonths [OF that, of 3] by (simp add: algebra_simps)
qed

section \<open>Rounding reaches the grid\<close>

text \<open>An end of which the code looks at no more than hours, minutes and seconds has no fraction of a second.\<close>

definition wholeSecond :: "gotime \<Rightarrow> bool" where
  "wholeSecond t = (tm_ns t mod Second = 0)"

lemma minute_of_time: "localNs t mod Hour = timeMinute t * Minute + timeSecond t * Second + tm_ns t mod Second"
proof -
  have 1: "localNs t mod Hour mod Minute = localNs t mod Minute" by (rule mod_mod_cancel) (simp add: Hour_def)
  have 2: "localNs t mod Minute mod Second = localNs t mod Second" by (rule mod_mod_cancel) (simp add: Minute_def)
  have 3: "localNs t mod Second = tm_ns t mod Second" by (simp add: localNs_def)
  show ?thesis
    using 1 2 3 div_mult_mod_eq [of "localNs t mod Hour" Minute] div_mult_mod_eq [of "localNs t mod Minute" Second]
    unfolding timeMinute_def timeSecond_def by linarith
qed

lemma wholeSecond_hour:
  "wholeSecond t \<Longrightarrow> timeMinute t = 0 \<Longrightarrow> timeSecond t = 0 \<Longrightarrow> localNs t = localDay t * Day + timeHour t * Hour"
  using hour_of_time [of t] minute_of_time [of t] by (simp add: wholeSecond_def)

lemma wholeSecond_day:
  "wholeSecond t \<Longrightarrow> timeHour t = 0 \<Longrightarrow> timeMinute t = 0 \<Longrightarrow> timeSecond t = 0 \<Longrightarrow> localNs t = localDay t * Day"
  using wholeSecond_hour by simp

lemma localNs_order: "tm_off t = tm_off u \<Longrightarrow> tm_ns t \<le> tm_ns u \<longleftrightarrow> localNs t \<le> localNs u"
  by (simp add: localNs_def)

lemma day_floor: "localDay t * Day \<le> localNs t" and day_ceil: "localNs t < (localDay t + 1) * Day"
  using midnight_of_day [of t] by (simp_all add: midnight_def localNs_def)

lemma day_le: "d \<le> d' \<Longrightarrow> d * Day \<le> d' * Day"
  by (simp add: durations)

lemma getHourlyWindow_rounds:
  assumes "tm_off s = tm_off e" and "wholeSecond e"
  shows "hours.rounds s e (getHourlyWindow s e)"
proof -
  define s' where "s' = timeDate (timeYear s) (timeMonth s) (timeDay s) (timeHour s) 0 0 (tm_off s)"
  define e' where "e' = (if timeMinute e = 0 \<and> timeSecond e = 0 then e
    else timeDate (timeYear e) (timeMonth e) (timeDay e) (timeHour e + 1) 0 0 (tm_off e))"
  have off: "tm_off s' = tm_off e" "tm_off e' = tm_off e" using assms(1) by (simp_all add: s'_def e'_def timeDate_def)
  have s': "localNs s' = (localDay s * 24 + timeHour s) * Hour"
    by (simp add: s'_def timeDate_def localNs_def date_day Day_def algebra_simps)
  have le: "tm_ns s' \<le> tm_ns s"
    using hour_of_time [of s] s' pos_mod_sign [of Hour "localNs s"] off assms(1) localNs_order [of s' s]
    by (simp add: Day_def algebra_simps durations)
  have e': "\<exists>m. localNs e' = m * Hour \<and> tm_ns e \<le> tm_ns e'"
  proof (cases "timeMinute e = 0 \<and> timeSecond e = 0")
    case True
    then have "localNs e = (localDay e * 24 + timeHour e) * Hour"
      using wholeSecond_hour [OF assms(2)] by (simp add: Day_def algebra_simps)
    with True show ?thesis by (auto simp: e'_def)
  next
    case False
    then have "e' = timeDate (timeYear e) (timeMonth e) (timeDay e) (timeHour e + 1) 0 0 (tm_off e)"
      by (simp only: e'_def if_False)
    then have "localNs e' = (localDay e * 24 + timeHour e + 1) * Hour"
      by (simp add: timeDate_def localNs_def date_day Day_def algebra_simps)
    moreover from this have "tm_ns e \<le> tm_ns e'"
      using hour_of_time [of e] pos_mod_bound [of Hour "localNs e"] off localNs_order [of e e']
      by (simp add: Day_def algebra_simps durations)
    ultimately show ?thesis by blast
  qed
  have "getHourlyWindow s e = NewClosedWindow s' e'" by (simp add: getHourlyWindow_def s'_def e'_def Let_def)
  with off s' le e' show ?thesis unfolding hours.rounds_def by blast
qed

text \<open>
  The other roundings end at a midnight: the start is the midnight of a boundary day not after
  the first day, the end is the given end, if that is a boundary, or a later boundary's midnight.
\<close>

lemma midnight_order:
  "tm_off t = off \<Longrightarrow> d \<le> localDay t \<Longrightarrow> tm_ns (midnight off d) \<le> tm_ns t"
  "tm_off t = off \<Longrightarrow> localDay t < d \<Longrightarrow> tm_ns t \<le> tm_ns (midnight off d)"
  using midnight_of_day [of t] midnight_le [of off d "localDay t"] midnight_le [of off "localDay t + 1" d] by auto

lemma getDailyWindow_rounds:
  assumes "tm_off s = tm_off e" and "wholeSecond e"
  shows "days.rounds s e (getDailyWindow s e)"
proof -
  define e' where "e' = (if timeMinute e = 0 \<and> timeSecond e = 0 \<and> timeHour e = 0 then e else midnight (tm_off e) (localDay e + 1))"
  have "getDailyWindow s e = NewClosedWindow (midnight (tm_off e) (localDay s)) e'"
    using assms(1) by (simp add: getDailyWindow_def e'_def Let_def timeDate_midnight dayNumber_add date_day)
  moreover have "tm_off e' = tm_off e" "tm_ns e \<le> tm_ns e'" using midnight_order(2) [of e] by (simp_all add: e'_def)
  moreover have "\<exists>m. localNs e' = m * Day" using wholeSecond_day [OF assms(2)] by (auto simp: e'_def)
  moreover have "tm_ns (midnight (tm_off e) (localDay s)) \<le> tm_ns s" using midnight_order(1) [of s] assms(1) by simp
  ultimately show ?thesis unfolding days.rounds_def
    by (metis midnight_simps(1) midnight_simps(3))
qed

lemma week_floor: "\<exists>n. d - (d + 1) mod 7 = 7 * n - (1 :: int)"
  by (rule exI [of _ "(d + 1) div 7"]) (use mult_div_mod_eq [of 7 "d + 1"] in linarith)

lemma getWeeklyWindow_rounds:
  assumes "tm_off s = tm_off e" and "wholeSecond e"
    and "timeWeekday e = 0 \<and> timeHour e = 0 \<and> timeSecond e = 0 \<longrightarrow> timeMinute e = 0"
  shows "weeks.rounds s e (getWeeklyWindow s e)"
proof -
  define e' where "e' = (if timeWeekday e = 0 \<and> timeSecond e = 0 \<and> timeHour e = 0 then e
    else midnight (tm_off e) (localDay e + (6 - timeWeekday e) + 1))"
  let ?d = "localDay s - timeWeekday s"
  have "getWeeklyWindow s e = NewClosedWindow (midnight (tm_off e) ?d) e'"
    using localDay_add [of s "- timeWeekday s"] localDay_add [of e "6 - timeWeekday e"]
    by (simp add: getWeeklyWindow_def e'_def Let_def timeDate_midnight dayNumber_add date_day)
  moreover have "0 \<le> timeWeekday s" "timeWeekday e \<le> 6" "0 \<le> timeWeekday e"
    using pos_mod_bound [of 7 "localDay e + 1"] by (simp_all add: timeWeekday_def)
  then have "tm_ns (midnight (tm_off e) ?d) \<le> tm_ns s" "tm_off e' = tm_off e" "tm_ns e \<le> tm_ns e'"
    using midnight_order(1) [of s] midnight_order(2) [of e] assms(1) by (simp_all add: e'_def)
  moreover have "\<exists>n. localNs (midnight (tm_off e) ?d) = (7 * n - 1) * Day"
    using week_floor [of "localDay s"] by (auto simp: timeWeekday_def)
  moreover have "\<exists>m. localNs e' = (7 * m - 1) * Day"
  proof (cases "timeWeekday e = 0 \<and> timeSecond e = 0 \<and> timeHour e = 0")
    case True
    with assms(3) wholeSecond_day [OF assms(2)] have "localNs e = localDay e * Day" by blast
    with week_floor [of "localDay e"] True show ?thesis by (auto simp: e'_def timeWeekday_def)
  next
    case False
    obtain n where "localDay e - timeWeekday e = 7 * n - 1" using week_floor by (auto simp: timeWeekday_def)
    then have d: "localDay e + (6 - timeWeekday e) + 1 = 7 * (n + 1) - 1" by simp
    have "localNs e' = (localDay e + (6 - timeWeekday e) + 1) * Day" by (simp only: e'_def False if_False midnight_simps)
    then show ?thesis unfolding d by blast
  qed
  ultimately show ?thesis unfolding weeks.rounds_def by (metis midnight_simps(1))
qed

text \<open>Months and quarters: the start is the first of a month, the end the first of a later one.\<close>

lemma months_rounds:
  assumes off: "tm_off s = tm_off e" and whole: "wholeSecond e"
    and k: "k \<le> 12 * timeYear s + timeMonth s" "12 * timeYear e + timeMonth e < l"
    and w: "w = NewClosedWindow (midnight (tm_off e) (dayNumber 0 k 1)) e'"
    and e': "e' = (if b \<and> timeDay e = 1 \<and> timeHour e = 0 \<and> timeMinute e = 0 \<and> timeSecond e = 0
      then e else midnight (tm_off e) (dayNumber 0 l 1))"
  shows "w = NewClosedWindow (midnight (tm_off e) (dayNumber 0 k 1)) e'" "tm_off e' = tm_off e"
    "tm_ns (midnight (tm_off e) (dayNumber 0 k 1)) \<le> tm_ns s" "tm_ns e \<le> tm_ns e'"
    "localNs e' = dayNumber 0 l 1 * Day \<or> (b \<and> localNs e' = dayNumber 0 (12 * timeYear e + timeMonth e) 1 * Day)"
proof -
  have mono: "dayNumber 0 i 1 \<le> dayNumber 0 j 1" if "i \<le> j" for i j
    using dayNumber_month_mono [of i j 0] that by (cases "i = j") auto
  have "dayNumber 0 k 1 \<le> localDay s"
    using mono [OF k(1)] month_of_day(1) [of s] by (simp add: dayNumber_index [of "timeYear s"])
  then show "tm_ns (midnight (tm_off e) (dayNumber 0 k 1)) \<le> tm_ns s" using midnight_order(1) off by simp
  have "localDay e < dayNumber 0 l 1"
    using mono [of "12 * timeYear e + timeMonth e + 1" l] k(2) month_of_day(2) [of e]
    by (simp add: dayNumber_index [of "timeYear e"] add.assoc)
  then show "tm_ns e \<le> tm_ns e'" using midnight_order(2) [of e] by (simp add: e')
  show "tm_off e' = tm_off e" by (simp add: e')
  have "localDay e = dayNumber 0 (12 * timeYear e + timeMonth e) 1" if "timeDay e = 1"
    using date_day [of e] that by (simp add: dayNumber_index [of "timeYear e"])
  then show "localNs e' = dayNumber 0 l 1 * Day \<or> (b \<and> localNs e' = dayNumber 0 (12 * timeYear e + timeMonth e) 1 * Day)"
    using wholeSecond_day [OF whole] by (auto simp: e')
qed (rule w)

lemma getMonthlyWindow_rounds:
  assumes "tm_off s = tm_off e" and "wholeSecond e"
  shows "months.rounds s e (getMonthlyWindow s e)"
proof -
  define e' where "e' = (if True \<and> timeDay e = 1 \<and> timeHour e = 0 \<and> timeMinute e = 0 \<and> timeSecond e = 0
    then e else midnight (tm_off e) (dayNumber 0 (12 * timeYear e + timeMonth e + 1) 1))"
  have w: "getMonthlyWindow s e = NewClosedWindow (midnight (tm_off e) (dayNumber 0 (12 * timeYear s + timeMonth s) 1)) e'"
    using assms(1)
    by (simp add: getMonthlyWindow_def e'_def Let_def timeDate_midnight dayNumber_index [of "timeYear s"]
        dayNumber_index [of "timeYear e"] add.assoc)
  note r = months_rounds [OF assms order.refl zless_add1_eq [THEN iffD2, OF disjI2, OF refl] w e'_def]
  show ?thesis unfolding months.rounds_def using r by (metis midnight_simps(1) midnight_simps(3))
qed

lemma quarter_index:
  assumes "1 \<le> m" "m \<le> 12"
  shows "12 * y + (quarterOf m * 3 - 2) = 3 * (4 * y + quarterOf m - 1) + 1"
    "12 * y + ((quarterOf m + 1) * 3 - 2) = 3 * (4 * y + quarterOf m) + 1"
    "quarterOf m * 3 - 2 \<le> m" "m < (quarterOf m + 1) * 3 - 2"
proof -
  define r q where "r = (m + 2) mod 3" and "q = quarterOf m"
  have "m + 2 = 3 * q + r" "0 \<le> r" "r < 3" by (simp_all add: quarterOf_def r_def q_def)
  then show "12 * y + (quarterOf m * 3 - 2) = 3 * (4 * y + quarterOf m - 1) + 1"
    "12 * y + ((quarterOf m + 1) * 3 - 2) = 3 * (4 * y + quarterOf m) + 1"
    "quarterOf m * 3 - 2 \<le> m" "m < (quarterOf m + 1) * 3 - 2" unfolding q_def [symmetric] by simp_all
qed

lemma getQuarterlyWindow_rounds:
  assumes "tm_off s = tm_off e" and "wholeSecond e"
  shows "quarters.rounds s e (getQuarterlyWindow s e)"
proof -
  let ?qs = "quarterOf (timeMonth s)" and ?qe = "quarterOf (timeMonth e)"
  define e' where "e' = (if timeMonth e = ?qe * 3 - 2 \<and> timeDay e = 1 \<and> timeHour e = 0 \<and> timeMinute e = 0 \<and> timeSecond e = 0
    then e else midnight (tm_off e) (dayNumber 0 (12 * timeYear e + ((?qe + 1) * 3 - 2)) 1))"
  have w: "getQuarterlyWindow s e = NewClosedWindow (midnight (tm_off e) (dayNumber 0 (12 * timeYear s + (?qs * 3 - 2)) 1)) e'"
    using assms(1)
    by (simp only: getQuarterlyWindow_def e'_def Let_def timeDate_midnight dayNumber_index [of "timeYear s"]
        dayNumber_index [of "timeYear e"])
  have k: "12 * timeYear s + (?qs * 3 - 2) \<le> 12 * timeYear s + timeMonth s"
    "12 * timeYear e + timeMonth e < 12 * timeYear e + ((?qe + 1) * 3 - 2)"
    using quarter_index(3,4) timeMonth_range by simp_all
  note r = months_rounds [OF assms k w e'_def]
  note q = quarter_index(1,2) [OF timeMonth_range]
  have "\<exists>n. localNs e' = dayNumber 0 (3 * n + 1) 1 * Day"
    using r(5) unfolding q(2) by (metis q(1))
  moreover have "\<exists>n. localNs (midnight (tm_off e) (dayNumber 0 (12 * timeYear s + (?qs * 3 - 2)) 1)) = dayNumber 0 (3 * n + 1) 1 * Day"
    unfolding q(1) midnight_simps by blast
  ultimately show ?thesis unfolding quarters.rounds_def using r(1-4) by (metis midnight_simps(1))
qed

text \<open>
  All kinds together: rounding covers the window, and cutting tiles the rounded one. An end on a
  Sunday between 00:01 and 00:59 o'clock with no seconds is the exception for weeks.
\<close>

definition accumulable :: "accumulateOption \<Rightarrow> gotime \<Rightarrow> bool" where
  "accumulable opt e =
     (wholeSecond e \<and> opt \<noteq> AccumulateOptionNone \<and> opt \<noteq> AccumulateOptionAll \<and>
      (opt = AccumulateOptionWeek \<and> timeWeekday e = 0 \<and> timeHour e = 0 \<and> timeSecond e = 0 \<longrightarrow> timeMinute e = 0))"

lemma accumulate_tiles:
  assumes "tm_off s = tm_off e" and "tm_ns s \<le> tm_ns e" and "accumulable opt e"
  shows "\<exists>s' e' ws. GetAccumulateWindow opt (NewClosedWindow s e) = Inr (NewClosedWindow s' e') \<and>
    tm_ns s' \<le> tm_ns s \<and> tm_ns e \<le> tm_ns e' \<and>
    GetAccumulateWindows opt (NewClosedWindow s e) = Some (Inr ws) \<and> tiles (tm_ns s') (tm_ns e') ws"
proof -
  note o = assms(1) and l = assms(2)
  from assms(3) have w: "wholeSecond e" by (simp add: accumulable_def)
  note simps = GetAccumulateWindow_def GetAccumulateWindows_def calendar_windows_defs
  have c: "wn_start (NewClosedWindow s e) = Some s" "wn_end (NewClosedWindow s e) = Some e"
    by (simp_all add: NewClosedWindow_def)
  show ?thesis
  proof (cases opt)
    case AccumulateOptionHour
    with hours.rounds_tiles [OF getHourlyWindow_rounds [OF o w] l] show ?thesis by (auto simp: simps c)
  next
    case AccumulateOptionDay
    with days.rounds_tiles [OF getDailyWindow_rounds [OF o w] l] show ?thesis by (auto simp: simps c)
  next
    case AccumulateOptionWeek
    with assms(3) have "timeWeekday e = 0 \<and> timeHour e = 0 \<and> timeSecond e = 0 \<longrightarrow> timeMinute e = 0"
      by (simp add: accumulable_def)
    from weeks.rounds_tiles [OF getWeeklyWindow_rounds [OF o w this] l] AccumulateOptionWeek
    show ?thesis by (auto simp: simps c)
  next
    case AccumulateOptionMonth
    with months.rounds_tiles [OF getMonthlyWindow_rounds [OF o w] l] show ?thesis by (auto simp: simps c)
  next
    case AccumulateOptionQuarter
    with quarters.rounds_tiles [OF getQuarterlyWindow_rounds [OF o w] l] show ?thesis by (auto simp: simps c)
  qed (use assms(3) in \<open>simp_all add: accumulable_def\<close>)
qed

end
