(* ===== verification/Alloc_Range.thy ===== *)
theory Alloc_Range
  imports Alloc_Set Window_Calendar
begin

text \<open>
  Ranges of allocation sets (\<^verbatim>\<open>core/pkg/opencost/allocation.go\<close>, \<^verbatim>\<open>AllocationSetRange\<close>): their
  times and costs, the insertion of one range into another, and the accumulation of hourly or
  daily sets into one set per day, week, month or quarter. The sets of a range are values here,
  so a range is taken to hold no set twice.
\<close>

record allocationSetRange =
  asr_Allocations :: "allocationSet option list"
  asr_FromStore :: string

definition NewAllocationSetRange :: "allocationSet option list \<Rightarrow> allocationSetRange" where
  "NewAllocationSetRange allocs = \<lparr>asr_Allocations = allocs, asr_FromStore = []\<rparr>"

section \<open>Reading a range\<close>

definition rangeGet :: "allocationSetRange \<Rightarrow> int \<Rightarrow> string + allocationSet option" where
  "rangeGet asr i =
     (if i < 0 \<or> int (length (asr_Allocations asr)) \<le> i
      then Inl (''AllocationSetRange: index out of range: '' @ showInt i)
      else Inr (asr_Allocations asr ! nat i))"

definition rangeAppend :: "allocationSetRange \<Rightarrow> allocationSet option \<Rightarrow> allocationSetRange" where
  "rangeAppend asr that' = asr\<lparr>asr_Allocations := asr_Allocations asr @ [that']\<rparr>"

definition rangeLength :: "allocationSetRange option \<Rightarrow> nat" where
  "rangeLength asr = (case asr of None \<Rightarrow> 0 | Some r \<Rightarrow> length (asr_Allocations r))"

definition rangeString :: "allocationSetRange option \<Rightarrow> string" where
  "rangeString asr =
     (case asr of
        None \<Rightarrow> ''<nil>''
      | Some r \<Rightarrow> ''AllocationSetRange{length: '' @ showInt (int (rangeLength asr)) @ ''}'')"

definition rangeWindow :: "allocationSetRange option \<Rightarrow> window" where
  "rangeWindow asr =
     (case asr of
        None \<Rightarrow> NewWindow None None
      | Some r \<Rightarrow>
          if asr_Allocations r = [] then NewWindow None None
          else NewWindow (Some (setStart (hd (asr_Allocations r)))) (Some (setEnd (last (asr_Allocations r)))))"

definition rangeUTCOffset :: "allocationSetRange option \<Rightarrow> duration" where
  "rangeUTCOffset asr =
     (case asr of
        None \<Rightarrow> 0
      | Some r \<Rightarrow> (case asr_Allocations r of [] \<Rightarrow> 0 | as # _ \<Rightarrow> setUTCOffset as))"

text \<open>The allocations a loop over all sets visits; \<open>None\<close> is the panic at a nil set.\<close>

fun rangeAllocs :: "allocHeap \<Rightarrow> allocationSet option list \<Rightarrow> allocation list option" where
  "rangeAllocs h [] = Some []"
| "rangeAllocs h (None # ass) = None"
| "rangeAllocs h (Some as # ass) =
     map_option (\<lambda>rest. map (\<lambda>(_, r). h ! r) (refsOf as) @ rest) (rangeAllocs h ass)"

definition earliest :: "allocation list \<Rightarrow> gotime option" where
  "earliest as =
     fold (\<lambda>a start. Some (case start of
             None \<Rightarrow> al_Start a
           | Some s \<Rightarrow> if timeBefore (al_Start a) s then al_Start a else s)) as None"

definition latest :: "allocation list \<Rightarrow> gotime option" where
  "latest as =
     fold (\<lambda>a end'. Some (case end' of
             None \<Rightarrow> al_End a
           | Some e \<Rightarrow> if timeAfter (al_End a) e then al_End a else e)) as None"

definition rangeStart :: "allocHeap \<Rightarrow> allocationSetRange option \<Rightarrow> (string + gotime) option" where
  "rangeStart h asr =
     (case asr of
        None \<Rightarrow> Some (Inl ''had no data to compute a start from'')
      | Some r \<Rightarrow>
          map_option (\<lambda>as. case earliest as of None \<Rightarrow> Inl ''had no data to compute a start from'' | Some t \<Rightarrow> Inr t)
            (rangeAllocs h (asr_Allocations r)))"

definition rangeEnd :: "allocHeap \<Rightarrow> allocationSetRange option \<Rightarrow> (string + gotime) option" where
  "rangeEnd h asr =
     (case asr of
        None \<Rightarrow> Some (Inl ''had no data to compute an end from'')
      | Some r \<Rightarrow>
          map_option (\<lambda>as. case latest as of None \<Rightarrow> Inl ''had no data to compute an end from'' | Some t \<Rightarrow> Inr t)
            (rangeAllocs h (asr_Allocations r)))"

definition StartAndEnd :: "allocHeap \<Rightarrow> allocationSetRange option \<Rightarrow> (string + gotime \<times> gotime) option" where
  "StartAndEnd h asr =
     (case asr of
        None \<Rightarrow> Some (Inl ''had no data to compute a start and end from'')
      | Some r \<Rightarrow>
          map_option (\<lambda>as. case (earliest as, latest as) of
                             (Some s, Some e) \<Rightarrow> Inr (s, e)
                           | (None, _) \<Rightarrow> Inl ''had no data to compute a start from''
                           | _ \<Rightarrow> Inl ''had no data to compute an end from'')
            (rangeAllocs h (asr_Allocations r)))"

definition rangeMinutes :: "allocHeap \<Rightarrow> allocationSetRange option \<Rightarrow> float64 option" where
  "rangeMinutes h asr =
     (case asr of
        None \<Rightarrow> Some (Fin 0)
      | Some r \<Rightarrow>
          map_option (\<lambda>res. case res of Inl _ \<Rightarrow> Fin 0 | Inr (s, e) \<Rightarrow> durMinutes (timeSub e s))
            (StartAndEnd h asr))"

definition rangeTotalCost :: "allocHeap \<Rightarrow> allocationSetRange option \<Rightarrow> float64" where
  "rangeTotalCost h asr =
     (case asr of
        None \<Rightarrow> Fin 0
      | Some r \<Rightarrow> fold (\<lambda>as tc. fadd tc (setTotalCost h as)) (asr_Allocations r) (Fin 0))"

section \<open>Copies\<close>

fun cloneSets :: "allocHeap \<Rightarrow> allocationSet option list \<Rightarrow> allocHeap \<times> allocationSet option list" where
  "cloneSets h [] = (h, [])"
| "cloneSets h (as # ass) =
     (let (h1, c) = setClonePtr h as; (h2, cs) = cloneSets h1 ass in (h2, c # cs))"

definition rangeSlice :: "allocHeap \<Rightarrow> allocationSetRange option \<Rightarrow> allocHeap \<times> allocationSet option list" where
  "rangeSlice h asr = (case asr of None \<Rightarrow> (h, []) | Some r \<Rightarrow> cloneSets h (asr_Allocations r))"

definition rangeClone :: "allocHeap \<Rightarrow> allocationSetRange \<Rightarrow> allocHeap \<times> allocationSetRange" where
  "rangeClone h asr =
     (let (h', ass) = cloneSets h (asr_Allocations asr)
      in (h', \<lparr>asr_Allocations = ass, asr_FromStore = asr_FromStore asr\<rparr>))"

section \<open>Inserting a range\<close>

text \<open>A time in the layout \<^verbatim>\<open>2006-01-02T15:04:05-0700\<close>, and windows as strings.\<close>

definition padInt :: "nat \<Rightarrow> int \<Rightarrow> string" where
  "padInt width n =
     (let s = showNat \<bar>n\<bar> in (if n < 0 then ''-'' else []) @ replicate (width - length s) (CHR ''0'') @ s)"

definition formatTime :: "gotime \<Rightarrow> string" where
  "formatTime t =
     (let zone = tquot (tm_off t) 60
      in padInt 4 (timeYear t) @ ''-'' @ padInt 2 (timeMonth t) @ ''-'' @ padInt 2 (timeDay t) @ ''T'' @
         padInt 2 (timeHour t) @ '':'' @ padInt 2 (timeMinute t) @ '':'' @ padInt 2 (timeSecond t) @
         (if zone < 0 then ''-'' else ''+'') @ padInt 2 (\<bar>zone\<bar> div 60) @ padInt 2 (\<bar>zone\<bar> mod 60))"

definition windowString :: "window \<Rightarrow> string" where
  "windowString w =
     (let show' = (\<lambda>t. case t of None \<Rightarrow> ''nil'' | Some t \<Rightarrow> formatTime t)
      in ''['' @ show' (wn_start w) @ '', '' @ show' (wn_end w) @ '')'')"

fun windowKeys :: "nat \<Rightarrow> nat gomap \<Rightarrow> allocationSet option list \<Rightarrow> nat gomap" where
  "windowKeys i keys [] = keys"
| "windowKeys i keys (None # ass) = windowKeys (Suc i) keys ass"
| "windowKeys i keys (Some as # ass) =
     windowKeys (Suc i) (AList.update (windowString (as_Window as)) i keys) ass"

text \<open>
  The sets before the first one whose window is unknown are inserted, the others are not. The
  error variable of the loop's body is another one, so only an unknown window is reported.
\<close>

fun insertSets :: "nat gomap \<Rightarrow> allocHeap \<Rightarrow> allocationSet option list \<Rightarrow> string option \<Rightarrow>
    allocationSet option list \<Rightarrow> allocHeap \<times> allocationSet option list \<times> string option" where
  "insertSets keys h ass err [] = (h, ass, err)"
| "insertSets keys h ass err (None # that') = insertSets keys h ass err that'"
| "insertSets keys h ass err (Some t # that') =
     (if err \<noteq> None then insertSets keys h ass err that'
      else (case map_of keys (windowString (as_Window t)) of
              None \<Rightarrow>
                insertSets keys h ass
                  (Some (''cannot merge AllocationSet into window that does not exist: '' @ windowString (as_Window t)))
                  that'
            | Some i \<Rightarrow>
                (case ass ! i of
                   None \<Rightarrow> insertSets keys h ass err that'
                 | Some s \<Rightarrow>
                     (let (h', s') = setInsertAll h s (map snd (refsOf t))
                      in insertSets keys h' (ass[i := Some s']) err that'))))"

definition InsertRange ::
  "allocHeap \<Rightarrow> allocationSetRange option \<Rightarrow> allocationSetRange option \<Rightarrow>
     allocHeap \<times> allocationSetRange option \<times> string option" where
  "InsertRange h asr that' =
     (case asr of
        None \<Rightarrow> (h, None, Some ''cannot insert range into nil AllocationSetRange'')
      | Some r \<Rightarrow>
          (case that' of
             None \<Rightarrow> (h, asr, None)
           | Some t \<Rightarrow>
               (let keys = windowKeys 0 [] (asr_Allocations r)
                in if keys = [] then (h, asr, None)
                   else (let (h', ass, err) = insertSets keys h (asr_Allocations r) None (asr_Allocations t)
                         in (h', Some (r\<lparr>asr_Allocations := ass\<rparr>), err)))))"

section \<open>Accumulation\<close>

datatype accError =
    NilRange
  | EmptyRange
  | AccumulatingAll accError
  | WrongDuration duration duration
  | NotOneSet nat

fun accumulateSets ::
  "allocHeap \<Rightarrow> allocationSet option \<Rightarrow> allocationSet option list \<Rightarrow> allocHeap \<times> allocationSet option" where
  "accumulateSets h acc [] = (h, acc)"
| "accumulateSets h acc (as # ass) =
     (let (h', acc') = setAccumulate h acc as in accumulateSets h' acc' ass)"

definition rangeAccumulate :: "allocHeap \<Rightarrow> allocationSetRange \<Rightarrow> allocHeap \<times> allocationSet option" where
  "rangeAccumulate h asr = accumulateSets h None (asr_Allocations asr)"

text \<open>Here every set is cloned before it is accumulated.\<close>

fun accumulateClones ::
  "allocHeap \<Rightarrow> allocationSet option \<Rightarrow> allocationSet option list \<Rightarrow> allocHeap \<times> allocationSet option" where
  "accumulateClones h acc [] = (h, acc)"
| "accumulateClones h acc (as # ass) =
     (let (h1, c) = setClonePtr h as
      in case acc of
           None \<Rightarrow> accumulateClones h1 c ass
         | Some _ \<Rightarrow> (let (h2, acc') = setAccumulate h1 acc c in accumulateClones h2 acc' ass))"

definition newAccumulation ::
  "allocHeap \<Rightarrow> allocationSetRange option \<Rightarrow> allocHeap \<times> (accError + allocationSet option)" where
  "newAccumulation h asr =
     (case asr of
        None \<Rightarrow> (h, Inl NilRange)
      | Some r \<Rightarrow>
          if asr_Allocations r = [] then (h, Inl EmptyRange)
          else (let (h', acc) = accumulateClones h None (asr_Allocations r) in (h', Inr acc)))"

type_synonym accResult = "(allocHeap \<times> (accError + allocationSetRange)) option"

definition accumulateByAll :: "allocHeap \<Rightarrow> allocationSetRange \<Rightarrow> accResult" where
  "accumulateByAll h asr =
     (case newAccumulation h (Some asr) of
        (h', Inl e) \<Rightarrow> Some (h', Inl (AccumulatingAll e))
      | (h', Inr as) \<Rightarrow> Some (h', Inr (NewAllocationSetRange [as])))"

definition accumulateByNone :: "allocHeap \<Rightarrow> allocationSetRange \<Rightarrow> accResult" where
  "accumulateByNone h asr = (let (h', c) = rangeClone h asr in Some (h', Inr c))"

text \<open>The duration of the first set, if there is one; a nil set panics.\<close>

definition firstDuration :: "(float64 \<Rightarrow> int) \<Rightarrow> allocationSetRange \<Rightarrow> duration option option" where
  "firstDuration other asr =
     (case asr_Allocations asr of
        [] \<Rightarrow> Some None
      | None # _ \<Rightarrow> None
      | Some as # _ \<Rightarrow> Some (Some (windowDuration other (as_Window as))))"

definition accumulateByHour :: "(float64 \<Rightarrow> int) \<Rightarrow> allocHeap \<Rightarrow> allocationSetRange \<Rightarrow> accResult" where
  "accumulateByHour other h asr =
     (case firstDuration other asr of
        None \<Rightarrow> None
      | Some d \<Rightarrow>
          if d \<noteq> None \<and> d \<noteq> Some Hour then Some (h, Inl (WrongDuration Hour (the d)))
          else accumulateByNone h asr)"

text \<open>
  The loop of the other accumulations: sets are collected until one closes the period or is the
  last, the first of a period as a clone.
\<close>

fun accumulateLoop ::
  "(float64 \<Rightarrow> int) \<Rightarrow> duration \<Rightarrow> (gotime \<Rightarrow> bool) \<Rightarrow> allocHeap \<Rightarrow> allocationSet option list option \<Rightarrow>
     allocationSet option list \<Rightarrow> allocationSet option list \<Rightarrow> accResult" where
  "accumulateLoop other d closes h toAccumulate result [] = Some (h, Inr (NewAllocationSetRange result))"
| "accumulateLoop other d closes h toAccumulate result (None # ass) = None"
| "accumulateLoop other d closes h toAccumulate result (Some as # ass) =
     (if windowDuration other (as_Window as) \<noteq> d
      then Some (h, Inl (WrongDuration d (windowDuration other (as_Window as))))
      else (case wn_start (as_Window as) of
              None \<Rightarrow> None
            | Some start \<Rightarrow>
                (let (h0, as0) = (if toAccumulate = None then setClone h as else (h, as));
                     (h1, acc) = accumulateSets h0 None ((case toAccumulate of None \<Rightarrow> [] | Some sets \<Rightarrow> sets) @ [Some as0]);
                     toAccumulate' = [acc]
                 in if closes start \<or> ass = []
                    then if length toAccumulate' \<noteq> 1 then Some (h1, Inl (NotOneSet (length toAccumulate')))
                         else accumulateLoop other d closes h1 None (result @ [toAccumulate' ! 0]) ass
                    else accumulateLoop other d closes h1 (Some toAccumulate') result ass)))"

definition closesDay :: "gotime \<Rightarrow> bool" where
  "closesDay start = (timeHour start = 23)"

definition closesWeek :: "gotime \<Rightarrow> bool" where
  "closesWeek start = (timeWeekday start = 6)"

definition closesMonth :: "gotime \<Rightarrow> bool" where
  "closesMonth start = (timeMonth start \<noteq> timeMonth (timeAdd start (24 * Hour)))"

definition closesQuarter :: "gotime \<Rightarrow> bool" where
  "closesQuarter start =
     (let nextDay = timeAdd start (24 * Hour)
      in tquot (timeMonth start - 1) 3 \<noteq> tquot (timeMonth nextDay - 1) 3 \<or> timeYear start \<noteq> timeYear nextDay)"

text \<open>A range of days is returned as it is when days are asked for, and a range of weeks for weeks.\<close>

definition accumulateByDay :: "(float64 \<Rightarrow> int) \<Rightarrow> allocHeap \<Rightarrow> allocationSetRange \<Rightarrow> accResult" where
  "accumulateByDay other h asr =
     (case firstDuration other asr of
        None \<Rightarrow> None
      | Some d \<Rightarrow>
          if d = Some (24 * Hour) then Some (h, Inr asr)
          else accumulateLoop other Hour closesDay h None [] (asr_Allocations asr))"

definition accumulateByWeek :: "(float64 \<Rightarrow> int) \<Rightarrow> allocHeap \<Rightarrow> allocationSetRange \<Rightarrow> accResult" where
  "accumulateByWeek other h asr =
     (case firstDuration other asr of
        None \<Rightarrow> None
      | Some d \<Rightarrow>
          if d = Some Week then Some (h, Inr asr)
          else accumulateLoop other (24 * Hour) closesWeek h None [] (asr_Allocations asr))"

definition accumulateByMonth :: "(float64 \<Rightarrow> int) \<Rightarrow> allocHeap \<Rightarrow> allocationSetRange \<Rightarrow> accResult" where
  "accumulateByMonth other h asr =
     accumulateLoop other (24 * Hour) closesMonth h None [] (asr_Allocations asr)"

definition accumulateByQuarter :: "(float64 \<Rightarrow> int) \<Rightarrow> allocHeap \<Rightarrow> allocationSetRange \<Rightarrow> accResult" where
  "accumulateByQuarter other h asr =
     accumulateLoop other (24 * Hour) closesQuarter h None [] (asr_Allocations asr)"

definition rangeAccumulateBy ::
  "(float64 \<Rightarrow> int) \<Rightarrow> accumulateOption \<Rightarrow> allocHeap \<Rightarrow> allocationSetRange \<Rightarrow> accResult" where
  "rangeAccumulateBy other accumulateBy h asr =
     (case accumulateBy of
        AccumulateOptionNone \<Rightarrow> accumulateByNone h asr
      | AccumulateOptionAll \<Rightarrow> accumulateByAll h asr
      | AccumulateOptionHour \<Rightarrow> accumulateByHour other h asr
      | AccumulateOptionDay \<Rightarrow> accumulateByDay other h asr
      | AccumulateOptionWeek \<Rightarrow> accumulateByWeek other h asr
      | AccumulateOptionMonth \<Rightarrow> accumulateByMonth other h asr
      | AccumulateOptionQuarter \<Rightarrow> accumulateByQuarter other h asr)"

text \<open>\<^verbatim>\<open>ParseAccumulate\<close> (\<^verbatim>\<open>query.go\<close>).\<close>

definition ParseAccumulate :: "(nat \<Rightarrow> nat) \<Rightarrow> string \<Rightarrow> accumulateOption" where
  "ParseAccumulate lowers acc =
     (let s = toLower lowers acc
      in if s = ''quarter'' then AccumulateOptionQuarter
         else if s = ''month'' then AccumulateOptionMonth
         else if s = ''week'' then AccumulateOptionWeek
         else if s = ''day'' then AccumulateOptionDay
         else if s = ''hour'' then AccumulateOptionHour
         else if s = ''true'' then AccumulateOptionAll
         else AccumulateOptionNone)"

section \<open>One step of the accumulation\<close>

text \<open>A range of sets that share no allocation.\<close>

fun disjointSets :: "allocationSet list \<Rightarrow> bool" where
  "disjointSets [] = True"
| "disjointSets (s # ss) = ((\<forall>t \<in> set ss. refs s \<inter> refs t = {}) \<and> disjointSets ss)"

definition allRefs :: "allocationSet list \<Rightarrow> ref set" where
  "allRefs ss = (\<Union>s \<in> set ss. refs s)"

lemma allRefs_simps [simp]: "allRefs [] = {}" "allRefs (s # ss) = refs s \<union> allRefs ss"
  by (simp_all add: allRefs_def)

lemma disjoint_rest: "disjointSets (s # ss) \<Longrightarrow> refs s \<inter> allRefs ss = {}"
  by (auto simp: allRefs_def)

text \<open>The heap and the accumulated set after a set is collected.\<close>

definition collect ::
  "allocHeap \<Rightarrow> allocationSet option list option \<Rightarrow> allocationSet \<Rightarrow> allocHeap \<times> allocationSet option" where
  "collect h toAccumulate as =
     (let (h0, as0) = (if toAccumulate = None then setClone h as else (h, as))
      in accumulateSets h0 None ((case toAccumulate of None \<Rightarrow> [] | Some sets \<Rightarrow> sets) @ [Some as0]))"

lemma collect_simps:
  "collect h None as = setClonePtr (fst (setClone h as)) (Some (snd (setClone h as)))"
  "collect h (Some [p]) as = setAccumulate (fst (setClonePtr h p)) (snd (setClonePtr h p)) (Some as)"
  by (simp_all add: collect_def case_prod_unfold Let_def accumulate_cases)

lemma accumulateLoop_collect:
  "accumulateLoop other d closes h toAccumulate result (Some as # ass) =
     (if windowDuration other (as_Window as) \<noteq> d
      then Some (h, Inl (WrongDuration d (windowDuration other (as_Window as))))
      else (case wn_start (as_Window as) of
              None \<Rightarrow> None
            | Some start \<Rightarrow>
                (let (h1, acc) = collect h toAccumulate as
                 in if closes start \<or> ass = []
                    then accumulateLoop other d closes h1 None (result @ [acc]) ass
                    else accumulateLoop other d closes h1 (Some [acc]) result ass)))"
  by (simp add: collect_def case_prod_unfold Let_def split: option.split)

definition prevSet :: "allocationSet option list option \<Rightarrow> allocationSet option" where
  "prevSet toAccumulate = (case toAccumulate of Some (p # _) \<Rightarrow> p | _ \<Rightarrow> None)"

definition oneOrNone :: "allocationSet option list option \<Rightarrow> bool" where
  "oneOrNone toAccumulate = (case toAccumulate of None \<Rightarrow> True | Some ps \<Rightarrow> length ps = 1)"

text \<open>A set is untouched while none of its cells is.\<close>

definition extends :: "allocHeap \<Rightarrow> ref set \<Rightarrow> allocHeap \<Rightarrow> bool" where
  "extends h R h' \<longleftrightarrow> length h \<le> length h' \<and>
     (\<forall>x < length h. al_Name (h' ! x) = al_Name (h ! x) \<and> (x \<notin> R \<longrightarrow> h' ! x = h ! x))"

lemma touches_extends: "touches h R h' a \<longleftrightarrow> okPtr h' a \<and> refsPtr a \<subseteq> R \<union> {length h..} \<and> extends h R h'"
  by (auto simp: touches_def extends_def)

lemma extends_trans: "extends h R h1 \<Longrightarrow> extends h1 R' h2 \<Longrightarrow> R' \<inter> {..<length h} \<subseteq> R \<Longrightarrow> extends h R h2"
  unfolding extends_def by (smt (verit, best) IntI in_mono lessThan_iff order_le_less_trans order_less_le_trans order_trans)

lemma okPtr_refs: "okPtr h p \<Longrightarrow> r \<in> refsPtr p \<Longrightarrow> r < length h"
  by (cases p) (auto dest: setOk_refs)

lemma okPtr_extends: "okPtr h p \<Longrightarrow> extends h R h' \<Longrightarrow> okPtr h' p"
  by (cases p) (auto simp: extends_def intro: setOk_cong)

lemma fieldPtr_same:
  assumes "okPtr h p" and "\<And>r. r \<in> refsPtr p \<Longrightarrow> f (h' ! r) = f (h ! r)"
  shows "fieldPtr f h' p name = fieldPtr f h p name"
proof (cases p)
  case (Some s)
  with assms show ?thesis
    using setGet_name [of h s name] by (cases "setGet s name") (simp_all add: fieldOf_def)
qed simp

lemma fresh_only: "A \<subseteq> {n..} \<Longrightarrow> (A \<union> B) \<inter> {..<n} \<subseteq> (B :: nat set)"
  by auto

lemma widen: "X \<subseteq> C \<union> R \<union> M \<Longrightarrow> C \<subseteq> N \<Longrightarrow> M \<subseteq> N \<Longrightarrow> X \<subseteq> R \<union> N"
  by blast

lemma collect_touches:
  assumes p: "oneOrNone toAcc" "okPtr h (prevSet toAcc)" and s: "setOk h as"
  shows "touches h (refs as) (fst (collect h toAcc as)) (snd (collect h toAcc as))"
proof (cases toAcc)
  case None
  let ?h1 = "fst (setClone h as)" and ?c = "snd (setClone h as)"
  have 1: "touches h {} ?h1 (Some ?c)" using clonePtr_touches [of h "Some as"] s
    by (simp add: setClonePtr_def case_prod_unfold Let_def)
  then have "touches ?h1 {} (fst (setClonePtr ?h1 (Some ?c))) (snd (setClonePtr ?h1 (Some ?c)))"
    by (intro clonePtr_touches) (simp add: touches_def)
  with 1 show ?thesis
    unfolding None collect_simps touches_extends
    using extends_trans [of h "{}" ?h1 "{}"] by (auto simp: extends_def)
next
  case (Some ps)
  with p obtain q where q: "toAcc = Some [q]" by (cases ps) (auto simp: oneOrNone_def)
  let ?h1 = "fst (setClonePtr h q)" and ?c = "snd (setClonePtr h q)"
  have 1: "touches h {} ?h1 ?c" using p q by (intro clonePtr_touches) (simp add: prevSet_def)
  then have e: "extends h {} ?h1" and c: "okPtr ?h1 ?c" "refsPtr ?c \<subseteq> {length h..}" by (simp_all add: touches_extends)
  have s1: "okPtr ?h1 (Some as)" using okPtr_extends [OF _ e, of "Some as"] s by simp
  have "refsPtr ?c \<inter> refs as = {}" using c(2) setOk_refs [OF s] by force
  then have "touches ?h1 (refsPtr ?c \<union> refs as) (fst (setAccumulate ?h1 ?c (Some as))) (snd (setAccumulate ?h1 ?c (Some as)))"
    using accumulate_touches [OF c(1) s1] by simp
  then have 2: "okPtr (fst (setAccumulate ?h1 ?c (Some as))) (snd (setAccumulate ?h1 ?c (Some as)))"
    "refsPtr (snd (setAccumulate ?h1 ?c (Some as))) \<subseteq> refsPtr ?c \<union> refs as \<union> {length ?h1..}"
    "extends ?h1 (refsPtr ?c \<union> refs as) (fst (setAccumulate ?h1 ?c (Some as)))"
    by (simp_all add: touches_extends)
  have "extends h (refs as) ?h1" using e by (simp add: extends_def)
  then have "extends h (refs as) (fst (setAccumulate ?h1 ?c (Some as)))"
    by (rule extends_trans [OF _ 2(3) fresh_only [OF c(2)]])
  moreover have "{length ?h1..} \<subseteq> {length h..}" using e by (auto simp: extends_def)
  then have "refsPtr (snd (setAccumulate ?h1 ?c (Some as))) \<subseteq> refs as \<union> {length h..}" by (rule widen [OF 2(2) c(2)])
  ultimately show ?thesis unfolding q collect_simps touches_extends using 2(1) by (intro conjI)
qed


context summed_field
begin

lemma insertAll_keeps:
  assumes "setOk h as" and "\<forall>r \<in> set rs. r < length h" and "distinct (map (\<lambda>r. al_Name (h ! r)) rs)"
    and "\<forall>r \<in> set rs. setGet as (al_Name (h ! r)) \<noteq> Some x"
  shows "f (fst (setInsertAll h as rs) ! x) = f (h ! x)"
  using assms
proof (induction rs arbitrary: h as)
  case (Cons r rs)
  let ?h = "fst (setInsert h as r)" and ?as = "snd (setInsert h as r)"
  have names: "al_Name (?h ! r') = al_Name (h ! r')" if "r' \<in> set rs" for r' using Cons.prems(2) that by simp
  have "f (fst (setInsertAll ?h ?as rs) ! x) = f (?h ! x)"
  proof (rule Cons.IH)
    show "setOk ?h ?as" using setInsert_ok Cons.prems by simp
    show "\<forall>r \<in> set rs. r < length ?h" using Cons.prems by simp
    have same: "map (\<lambda>r. al_Name (?h ! r)) rs = map (\<lambda>r. al_Name (h ! r)) rs" using names by simp
    show "distinct (map (\<lambda>r. al_Name (?h ! r)) rs)" using Cons.prems(3) unfolding same by simp
    show "\<forall>r' \<in> set rs. setGet ?as (al_Name (?h ! r')) \<noteq> Some x"
    proof
      fix r' assume r': "r' \<in> set rs"
      then have "al_Name (h ! r') \<noteq> al_Name (h ! r)" using Cons.prems(3) by (auto simp: image_iff)
      with r' Cons.prems(4) show "setGet ?as (al_Name (?h ! r')) \<noteq> Some x"
        by (simp add: names setGet_def setInsert_refs update_conv')
    qed
  qed
  moreover have "f (?h ! x) = f (h ! x)" using Cons.prems by (simp add: setInsert_field)
  ultimately show ?case unfolding insertAll_Cons by simp
qed simp

lemma insert_set_keeps:
  assumes "setOk h acc" and t: "setOk h t" and x: "x \<notin> refs acc"
  shows "f (fst (setInsertAll h acc (map snd (refsOf t))) ! x) = f (h ! x)"
proof (rule insertAll_keeps [OF assms(1)])
  show "\<forall>r \<in> set (map snd (refsOf t)). r < length h" using setOk_refs [OF t] by (simp only: set_map_refs) blast
  have same: "map (\<lambda>r. al_Name (h ! r)) (map snd (refsOf t)) = map fst (refsOf t)"
    using t by (auto simp: setOk_def)
  show "distinct (map (\<lambda>r. al_Name (h ! r)) (map snd (refsOf t)))" unfolding same using t by (simp add: setOk_def)
  show "\<forall>r \<in> set (map snd (refsOf t)). setGet acc (al_Name (h ! r)) \<noteq> Some x"
    using x setGet_name [OF assms(1)] by blast
qed

lemma merge_keeps:
  assumes s: "setOk h s" and t: "setOk h t" and disj: "refs s \<inter> refs t = {}" and x: "x \<notin> refs s"
  shows "f (fst (merge h s t) ! x) = f (h ! x)"
proof -
  note m = merge_parts [OF s t disj]
  have "x \<notin> refs (snd (setInsertAll h (emptySet (hullWindow s t)) (map snd (refsOf s))))" using m(4) x by blast
  from insert_set_keeps [OF m(1) m(7) this] m(6,9) x show ?thesis by simp
qed

lemma clonePtr_keeps: "okPtr h t \<Longrightarrow> x < length h \<Longrightarrow> f (fst (setClonePtr h t) ! x) = f (h ! x)"
  using clonePtr_touches [of h t] by (simp add: touches_def)

lemma accumulate_keeps:
  assumes "okPtr h s" and "okPtr h t" and "refsPtr s \<inter> refsPtr t = {}" and "x < length h" and "x \<notin> refsPtr s"
  shows "f (fst (setAccumulate h s t) ! x) = f (h ! x)"
proof (cases s)
  case None
  with assms show ?thesis by (simp add: accumulate_cases clonePtr_keeps)
next
  case (Some s')
  note s = this
  show ?thesis
  proof (cases t)
    case None
    with assms s show ?thesis by (simp add: accumulate_cases clonePtr_keeps)
  next
    case (Some t')
    with assms s show ?thesis by (simp add: accumulate_cases clonePtr_keeps merge_keeps)
  qed
qed

lemma collect_field:
  assumes p: "oneOrNone toAcc" "okPtr h (prevSet toAcc)" and s: "setOk h as"
  shows "fieldPtr f (fst (collect h toAcc as)) (snd (collect h toAcc as)) name =
      plusOpt (fieldPtr f h (prevSet toAcc) name) (fieldOf f h as name) \<and>
    (\<forall>x < length h. f (fst (collect h toAcc as) ! x) = f (h ! x))"
proof (cases toAcc)
  case None
  let ?h1 = "fst (setClone h as)" and ?c = "snd (setClone h as)"
  have 1: "?h1 = fst (setClonePtr h (Some as))" "Some ?c = snd (setClonePtr h (Some as))"
    by (simp_all add: setClonePtr_def case_prod_unfold Let_def)
  have c: "okPtr ?h1 (Some ?c)" "length h \<le> length ?h1" using clonePtr_touches [of h "Some as"] s
    unfolding 1 touches_def by simp_all
  have k: "f (?h1 ! x) = f (h ! x)" if "x < length h" for x
    unfolding 1 by (rule clonePtr_keeps) (use s that in simp_all)
  have "fieldPtr f ?h1 (Some ?c) name = fieldOf f h as name" using clonePtr_field [of h "Some as"] s unfolding 1 by simp
  then show ?thesis
    unfolding None collect_simps using clonePtr_field [OF c(1)] clonePtr_keeps [OF c(1)] k c(2)
    by (simp add: prevSet_def)
next
  case (Some ps)
  with p obtain q where q: "toAcc = Some [q]" by (cases ps) (auto simp: oneOrNone_def)
  let ?h1 = "fst (setClonePtr h q)" and ?c = "snd (setClonePtr h q)"
  have okq: "okPtr h q" using p q by (simp add: prevSet_def)
  have "touches h {} ?h1 ?c" using okq by (rule clonePtr_touches)
  then have e: "extends h {} ?h1" and c: "okPtr ?h1 ?c" "refsPtr ?c \<subseteq> {length h..}" by (simp_all add: touches_extends)
  have s1: "okPtr ?h1 (Some as)" using okPtr_extends [OF _ e, of "Some as"] s by simp
  have d: "refsPtr ?c \<inter> refsPtr (Some as) = {}" using c(2) setOk_refs [OF s] by force
  have fq: "fieldPtr f ?h1 ?c name = fieldPtr f h q name" using okq by (rule clonePtr_field)
  have fs: "fieldPtr f ?h1 (Some as) name = fieldPtr f h (Some as) name"
    by (rule fieldPtr_same) (use s setOk_refs [OF s] clonePtr_keeps [OF okq] in simp_all)
  have "f (fst (setAccumulate ?h1 ?c (Some as)) ! x) = f (h ! x)" if "x < length h" for x
  proof -
    have "x \<notin> refsPtr ?c" "x < length ?h1" using c(2) that e by (auto simp: extends_def)
    from accumulate_keeps [OF c(1) s1 d this(2,1)] clonePtr_keeps [OF okq that] show ?thesis by simp
  qed
  with accumulate_field [OF c(1) s1 d, of name] fq fs show ?thesis
    unfolding q collect_simps by (simp add: prevSet_def)
qed

end

section \<open>Periods\<close>

definition setCloses :: "(gotime \<Rightarrow> bool) \<Rightarrow> allocationSet \<Rightarrow> bool" where
  "setCloses closes s = (case wn_start (as_Window s) of None \<Rightarrow> False | Some t \<Rightarrow> closes t)"

text \<open>The sets cut after each one that closes a period.\<close>

fun periods :: "(gotime \<Rightarrow> bool) \<Rightarrow> allocationSet list \<Rightarrow> allocationSet list list" where
  "periods closes [] = []"
| "periods closes (s # ss) =
     (if setCloses closes s then [s] # periods closes ss
      else (case periods closes ss of [] \<Rightarrow> [[s]] | g # gs \<Rightarrow> (s # g) # gs))"

lemma periods_concat: "concat (periods closes ss) = ss"
  by (induction ss) (auto split: list.split)

text \<open>The total of a field under a name over the sets of a period, in order.\<close>

definition groupField ::
  "(allocation \<Rightarrow> float64) \<Rightarrow> allocHeap \<Rightarrow> allocationSet list \<Rightarrow> string \<Rightarrow> float64 option \<Rightarrow> float64 option" where
  "groupField f h g name z = fold (\<lambda>s acc. plusOpt acc (fieldOf f h s name)) g z"

lemma groupField_Cons [simp]:
  "groupField f h [] name z = z"
  "groupField f h (s # g) name z = groupField f h g name (plusOpt z (fieldOf f h s name))"
  by (simp_all add: groupField_def)

text \<open>A set of the result holds the totals of its period.\<close>

definition holds_period ::
  "(allocation \<Rightarrow> float64) \<Rightarrow> allocHeap \<Rightarrow> allocHeap \<Rightarrow> float64 option \<Rightarrow> string \<Rightarrow> allocationSet list \<Rightarrow> allocationSet option \<Rightarrow> bool" where
  "holds_period f h h' z name g a \<longleftrightarrow> okPtr h' a \<and> fieldPtr f h' a name = groupField f h g name z"

definition rangeOk :: "(float64 \<Rightarrow> int) \<Rightarrow> duration \<Rightarrow> allocHeap \<Rightarrow> allocationSet list \<Rightarrow> bool" where
  "rangeOk other d h ss \<longleftrightarrow> disjointSets ss \<and>
     (\<forall>s \<in> set ss. setOk h s \<and> windowDuration other (as_Window s) = d \<and> wn_start (as_Window s) \<noteq> None)"

context summed_field
begin

lemma fieldOf_same:
  "setOk h s \<Longrightarrow> (\<And>r. r < length h \<Longrightarrow> f (h' ! r) = f (h ! r)) \<Longrightarrow> fieldOf f h' s name = fieldOf f h s name"
  using fieldPtr_same [of h "Some s" f h' name] setOk_refs [of h s] by simp

lemma groupField_same:
  assumes "\<forall>s \<in> set g. setOk h s" and "\<And>r. r < length h \<Longrightarrow> f (h' ! r) = f (h ! r)"
  shows "groupField f h' g name z = groupField f h g name z"
  using assms(1)
proof (induction g arbitrary: z)
  case (Cons s g)
  with fieldOf_same [OF _ assms(2), of s name] show ?case by simp
qed simp

lemma loop_periods:
  assumes "rangeOk other d h ss" and "oneOrNone toAcc" and "okPtr h (prevSet toAcc)"
    and "refsPtr (prevSet toAcc) \<inter> allRefs ss = {}"
  shows "\<exists>h' out. accumulateLoop other d closes h toAcc result (map Some ss) =
      Some (h', Inr (NewAllocationSetRange (result @ out))) \<and>
    extends h (allRefs ss) h' \<and> (\<forall>x < length h. f (h' ! x) = f (h ! x)) \<and>
    (case periods closes ss of
       [] \<Rightarrow> out = []
     | g # gs \<Rightarrow> (\<exists>o1 os. out = o1 # os \<and> holds_period f h h' (fieldPtr f h (prevSet toAcc) name) name g o1 \<and>
                    list_all2 (holds_period f h h' None name) gs os))"
  using assms
proof (induction ss arbitrary: h toAcc result)
  case Nil
  then show ?case by (simp add: extends_def)
next
  case (Cons s ss)
  let ?h1 = "fst (collect h toAcc s)" and ?a = "snd (collect h toAcc s)"
  obtain start where start: "wn_start (as_Window s) = Some start" and d: "windowDuration other (as_Window s) = d"
    and s: "setOk h s" and disj: "refs s \<inter> allRefs ss = {}"
    using Cons.prems(1) disjoint_rest [of s ss] by (auto simp: rangeOk_def)
  note t = collect_touches [OF Cons.prems(2,3) s]
  note fld = collect_field [OF Cons.prems(2,3) s, of name]
  have e1: "extends h (refs s) ?h1" and a: "okPtr ?h1 ?a" "refsPtr ?a \<subseteq> refs s \<union> {length h..}"
    using t by (simp_all add: touches_extends)
  have ok1: "setOk ?h1 x" if "x \<in> set ss" for x
    using okPtr_extends [OF _ e1, of "Some x"] Cons.prems(1) that by (simp add: rangeOk_def)
  have r1: "rangeOk other d ?h1 ss" using ok1 Cons.prems(1) by (auto simp: rangeOk_def)
  have low: "allRefs ss \<subseteq> {..<length h}"
    using Cons.prems(1) setOk_refs by (fastforce simp: rangeOk_def allRefs_def)
  have adisj: "refsPtr ?a \<inter> allRefs ss = {}" using a(2) disj low by force
  have groups: "groupField f ?h1 g name z = groupField f h g name z" if "set g \<subseteq> set ss" for g z
    by (rule groupField_same) (use that Cons.prems(1) fld in \<open>auto simp: rangeOk_def\<close>)
  have sub: "set g \<subseteq> set ss" if "g \<in> set (periods closes ss)" for g
    using that periods_concat [of closes ss] by (metis UN_upper set_concat)
  have hp: "holds_period f ?h1 h' z name g x = holds_period f h h' z name g x" if "g \<in> set (periods closes ss)" for g z x h'
    using groups [OF sub [OF that]] by (simp add: holds_period_def)
  have done': "okPtr h' ?a \<and> fieldPtr f h' ?a name = plusOpt (fieldPtr f h (prevSet toAcc) name) (fieldOf f h s name)"
    if "extends ?h1 (allRefs ss) h'" for h'
  proof -
    have "h' ! x = ?h1 ! x" if "x \<in> refsPtr ?a" for x
      using that \<open>extends ?h1 (allRefs ss) h'\<close> okPtr_refs [OF a(1)] adisj by (auto simp: extends_def)
    then have "fieldPtr f h' ?a name = fieldPtr f ?h1 ?a name" by (intro fieldPtr_same [OF a(1)]) simp
    with fld okPtr_extends [OF a(1) that] show ?thesis by simp
  qed
  have ext: "extends h (allRefs (s # ss)) h'" if "extends ?h1 (allRefs ss) h'" for h'
  proof -
    have "extends h (allRefs (s # ss)) ?h1" using e1 by (simp add: extends_def)
    then show ?thesis by (rule extends_trans [OF _ that]) auto
  qed
  have keep: "(\<forall>x < length ?h1. f (h' ! x) = f (?h1 ! x)) \<Longrightarrow> (\<forall>x < length h. f (h' ! x) = f (h ! x))" for h'
    using fld e1 by (simp add: extends_def)
  have step: "accumulateLoop other d closes h toAcc result (map Some (s # ss)) =
    (if closes start \<or> ss = [] then accumulateLoop other d closes ?h1 None (result @ [?a]) (map Some ss)
     else accumulateLoop other d closes ?h1 (Some [?a]) result (map Some ss))"
    by (simp add: accumulateLoop_collect start d case_prod_unfold Let_def del: accumulateLoop.simps)
  show ?case
  proof (cases "closes start \<or> ss = []")
    case True
    have "oneOrNone None" "okPtr ?h1 (prevSet None)" "refsPtr (prevSet None) \<inter> allRefs ss = {}"
      by (simp_all add: oneOrNone_def prevSet_def)
    from Cons.IH [OF r1 this, of "result @ [?a]"] obtain h' out where
      l: "accumulateLoop other d closes ?h1 None (result @ [?a]) (map Some ss) =
        Some (h', Inr (NewAllocationSetRange ((result @ [?a]) @ out)))"
      and e: "extends ?h1 (allRefs ss) h'" and k: "\<forall>x < length ?h1. f (h' ! x) = f (?h1 ! x)"
      and o': "case periods closes ss of [] \<Rightarrow> out = []
        | g # gs \<Rightarrow> (\<exists>o1 os. out = o1 # os \<and> holds_period f ?h1 h' (fieldPtr f ?h1 (prevSet None) name) name g o1 \<and>
                    list_all2 (holds_period f ?h1 h' None name) gs os)" by auto
    have p: "periods closes (s # ss) = [s] # periods closes ss"
      using True start by (auto simp: setCloses_def)
    have "list_all2 (holds_period f ?h1 h' None name) (periods closes ss) out"
      using o' by (cases "periods closes ss") (auto simp: prevSet_def)
    then have "list_all2 (holds_period f h h' None name) (periods closes ss) out"
      using hp by (auto simp: list_all2_conv_all_nth)
    moreover have "holds_period f h h' (fieldPtr f h (prevSet toAcc) name) name [s] ?a"
      using done' [OF e] by (simp add: holds_period_def)
    ultimately show ?thesis using step True l ext [OF e] keep [OF k] p
      by (intro exI [of _ h'] exI [of _ "?a # out"]) simp
  next
    case False
    have "oneOrNone (Some [?a])" "okPtr ?h1 (prevSet (Some [?a]))" "refsPtr (prevSet (Some [?a])) \<inter> allRefs ss = {}"
      using a(1) adisj by (simp_all add: oneOrNone_def prevSet_def)
    from Cons.IH [OF r1 this, of result] obtain h' out where
      l: "accumulateLoop other d closes ?h1 (Some [?a]) result (map Some ss) =
        Some (h', Inr (NewAllocationSetRange (result @ out)))"
      and e: "extends ?h1 (allRefs ss) h'" and k: "\<forall>x < length ?h1. f (h' ! x) = f (?h1 ! x)"
      and o': "case periods closes ss of [] \<Rightarrow> out = []
        | g # gs \<Rightarrow> (\<exists>o1 os. out = o1 # os \<and> holds_period f ?h1 h' (fieldPtr f ?h1 (prevSet (Some [?a])) name) name g o1 \<and>
                    list_all2 (holds_period f ?h1 h' None name) gs os)" by auto
    obtain g gs where g: "periods closes ss = g # gs"
      using False periods_concat [of closes ss] by (cases "periods closes ss") auto
    with o' obtain o1 os where o1: "out = o1 # os" "holds_period f ?h1 h' (fieldPtr f ?h1 ?a name) name g o1"
      "list_all2 (holds_period f ?h1 h' None name) gs os" by (auto simp: prevSet_def)
    have p: "periods closes (s # ss) = (s # g) # gs" using False start g by (simp add: setCloses_def)
    have "list_all2 (holds_period f h h' None name) gs os"
      using o1(3) hp g by (auto simp: list_all2_conv_all_nth)
    moreover have "holds_period f h h' (fieldPtr f h (prevSet toAcc) name) name (s # g) o1"
      using o1(2) hp [of g] g fld by (simp add: holds_period_def)
    ultimately show ?thesis using step False l ext [OF e] keep [OF k] p o1(1)
      by (intro exI [of _ h'] exI [of _ out]) simp
  qed
qed

end

section \<open>Accumulation by period\<close>

text \<open>The duration of the sets an option accumulates, and the sets that close its periods.\<close>

definition accPeriod :: "accumulateOption \<Rightarrow> (duration \<times> (gotime \<Rightarrow> bool)) option" where
  "accPeriod opt =
     (case opt of
        AccumulateOptionDay \<Rightarrow> Some (Hour, closesDay)
      | AccumulateOptionWeek \<Rightarrow> Some (24 * Hour, closesWeek)
      | AccumulateOptionMonth \<Rightarrow> Some (24 * Hour, closesMonth)
      | AccumulateOptionQuarter \<Rightarrow> Some (24 * Hour, closesQuarter)
      | _ \<Rightarrow> None)"

lemma rangeAccumulateBy_loop:
  assumes "accPeriod opt = Some (d, closes)" and "rangeOk other d h ss" and "asr_Allocations r = map Some ss"
  shows "rangeAccumulateBy other opt h r = accumulateLoop other d closes h None [] (map Some ss)"
proof -
  have "firstDuration other r = Some (if ss = [] then None else Some d)"
    using assms(2,3) by (cases ss) (auto simp: firstDuration_def rangeOk_def)
  with assms(1,3) show ?thesis
    by (auto simp: accPeriod_def rangeAccumulateBy_def accumulateByDay_def accumulateByWeek_def
        accumulateByMonth_def accumulateByQuarter_def Hour_def Minute_def Second_def Week_def Day_def split: accumulateOption.splits)
qed

section \<open>Accumulating clones\<close>

text \<open>
  Every set is cloned before it is accumulated, so no allocation of the range is written to, and
  the result holds the totals per name of the whole range.
\<close>

definition cloneStep ::
  "allocHeap \<Rightarrow> allocationSet option \<Rightarrow> allocationSet option \<Rightarrow> allocHeap \<times> allocationSet option" where
  "cloneStep h acc as =
     (let (h1, c) = setClonePtr h as in case acc of None \<Rightarrow> (h1, c) | Some _ \<Rightarrow> setAccumulate h1 acc c)"

lemma accumulateClones_Cons:
  "accumulateClones h acc (as # ass) = accumulateClones (fst (cloneStep h acc as)) (snd (cloneStep h acc as)) ass"
  by (simp add: cloneStep_def case_prod_unfold Let_def split: option.split)

lemma cloneStep_extends:
  assumes acc: "okPtr h acc" and as: "okPtr h as"
  shows "okPtr (fst (cloneStep h acc as)) (snd (cloneStep h acc as)) \<and> extends h (refsPtr acc) (fst (cloneStep h acc as)) \<and>
    refsPtr (snd (cloneStep h acc as)) \<subseteq> refsPtr acc \<union> {length h..}"
proof -
  let ?h1 = "fst (setClonePtr h as)" and ?c = "snd (setClonePtr h as)"
  have "touches h {} ?h1 ?c" using as by (rule clonePtr_touches)
  then have e: "extends h {} ?h1" and c: "okPtr ?h1 ?c" "refsPtr ?c \<subseteq> {length h..}" by (simp_all add: touches_extends)
  show ?thesis
  proof (cases acc)
    case None
    with e c show ?thesis by (simp add: cloneStep_def case_prod_unfold Let_def)
  next
    case (Some a)
    have step: "cloneStep h acc as = setAccumulate ?h1 acc ?c"
      by (simp add: cloneStep_def Some case_prod_unfold Let_def)
    have ok: "okPtr ?h1 acc" by (rule okPtr_extends [OF acc e])
    have low: "refsPtr acc \<subseteq> {..<length h}" using okPtr_refs [OF acc] by blast
    then have "refsPtr acc \<inter> refsPtr ?c = {}" using c(2) by fastforce
    from accumulate_touches [OF ok c(1) this, folded step]
    have t: "okPtr (fst (cloneStep h acc as)) (snd (cloneStep h acc as))"
      "refsPtr (snd (cloneStep h acc as)) \<subseteq> refsPtr ?c \<union> refsPtr acc \<union> {length ?h1..}"
      "extends ?h1 (refsPtr ?c \<union> refsPtr acc) (fst (cloneStep h acc as))"
      by (auto simp: touches_extends Un_commute)
    have "extends h (refsPtr acc) ?h1" using e by (simp add: extends_def)
    then have "extends h (refsPtr acc) (fst (cloneStep h acc as))"
      by (rule extends_trans [OF _ t(3) fresh_only [OF c(2)]])
    moreover have "{length ?h1..} \<subseteq> {length h..}" using e by (auto simp: extends_def)
    then have "refsPtr (snd (cloneStep h acc as)) \<subseteq> refsPtr acc \<union> {length h..}" by (rule widen [OF t(2) c(2)])
    ultimately show ?thesis using t(1) by simp
  qed
qed

lemma accumulateClones_frame:
  assumes "okPtr h acc" and "\<forall>as \<in> set ass. okPtr h as" and "refsPtr acc \<subseteq> {n..}" and "n \<le> length h"
  shows "okPtr (fst (accumulateClones h acc ass)) (snd (accumulateClones h acc ass)) \<and>
    (\<forall>x < n. fst (accumulateClones h acc ass) ! x = h ! x) \<and> n \<le> length (fst (accumulateClones h acc ass)) \<and>
    refsPtr (snd (accumulateClones h acc ass)) \<subseteq> {n..}"
  using assms
proof (induction ass arbitrary: h acc)
  case (Cons as ass)
  let ?h = "fst (cloneStep h acc as)" and ?a = "snd (cloneStep h acc as)"
  have e: "okPtr ?h ?a" "extends h (refsPtr acc) ?h" "refsPtr ?a \<subseteq> refsPtr acc \<union> {length h..}"
    using cloneStep_extends [OF Cons.prems(1), of as] Cons.prems(2) by simp_all
  have ok: "\<forall>s \<in> set ass. okPtr ?h s" using okPtr_extends [OF _ e(2)] Cons.prems(2) by simp
  have "refsPtr ?a \<subseteq> {n..}" "n \<le> length ?h" using e(2,3) Cons.prems(3,4) by (auto simp: extends_def)
  from Cons.IH [OF e(1) ok this] have ih: "okPtr (fst (accumulateClones ?h ?a ass)) (snd (accumulateClones ?h ?a ass))"
    "\<forall>x < n. fst (accumulateClones ?h ?a ass) ! x = ?h ! x" "n \<le> length (fst (accumulateClones ?h ?a ass))"
    "refsPtr (snd (accumulateClones ?h ?a ass)) \<subseteq> {n..}" by blast+
  have "?h ! x = h ! x" if "x < n" for x
  proof -
    have "x < length h" "x \<notin> refsPtr acc" using Cons.prems(3,4) that by auto
    with e(2) show ?thesis by (simp add: extends_def)
  qed
  with ih show ?case unfolding accumulateClones_Cons by simp
qed simp

context summed_field
begin

lemma cloneStep_field:
  assumes acc: "okPtr h acc" and as: "okPtr h as"
  shows "fieldPtr f (fst (cloneStep h acc as)) (snd (cloneStep h acc as)) name =
    plusOpt (fieldPtr f h acc name) (fieldPtr f h as name)"
proof -
  let ?h1 = "fst (setClonePtr h as)" and ?c = "snd (setClonePtr h as)"
  have "touches h {} ?h1 ?c" using as by (rule clonePtr_touches)
  then have e: "extends h {} ?h1" and c: "okPtr ?h1 ?c" "refsPtr ?c \<subseteq> {length h..}" by (simp_all add: touches_extends)
  note fc = clonePtr_field [OF as, of name]
  show ?thesis
  proof (cases acc)
    case None
    with fc show ?thesis by (simp add: cloneStep_def case_prod_unfold Let_def)
  next
    case (Some a)
    have step: "cloneStep h acc as = setAccumulate ?h1 acc ?c"
      by (simp add: cloneStep_def Some case_prod_unfold Let_def)
    have low: "refsPtr acc \<subseteq> {..<length h}" using okPtr_refs [OF acc] by blast
    then have "refsPtr acc \<inter> refsPtr ?c = {}" using c(2) by fastforce
    from accumulate_field [OF okPtr_extends [OF acc e] c(1) this, of name, folded step]
    have "fieldPtr f (fst (cloneStep h acc as)) (snd (cloneStep h acc as)) name =
      plusOpt (fieldPtr f ?h1 acc name) (fieldPtr f h as name)" by (simp add: fc)
    moreover have "fieldPtr f ?h1 acc name = fieldPtr f h acc name"
      by (rule fieldPtr_same [OF acc]) (use clonePtr_keeps [OF as] low in auto)
    ultimately show ?thesis by simp
  qed
qed

lemma accumulateClones_field:
  assumes "okPtr h acc" and "\<forall>as \<in> set ass. okPtr h as" and "\<forall>as \<in> set ass. refsPtr as \<inter> refsPtr acc = {}"
  shows "fieldPtr f (fst (accumulateClones h acc ass)) (snd (accumulateClones h acc ass)) name =
    fold (\<lambda>s z. plusOpt z (fieldPtr f h s name)) ass (fieldPtr f h acc name)"
  using assms
proof (induction ass arbitrary: h acc)
  case (Cons as ass)
  let ?h = "fst (cloneStep h acc as)" and ?a = "snd (cloneStep h acc as)"
  have e: "okPtr ?h ?a" "extends h (refsPtr acc) ?h" "refsPtr ?a \<subseteq> refsPtr acc \<union> {length h..}"
    using cloneStep_extends [OF Cons.prems(1), of as] Cons.prems(2) by simp_all
  have ok: "\<forall>s \<in> set ass. okPtr ?h s" using okPtr_extends [OF _ e(2)] Cons.prems(2) by simp
  have low: "refsPtr s \<subseteq> {..<length h}" if "s \<in> set ass" for s
    using okPtr_refs [of h s] Cons.prems(2) that by auto
  have disj: "refsPtr s \<inter> refsPtr ?a = {}" if "s \<in> set ass" for s
    using e(3) Cons.prems(3) low [OF that] that by fastforce
  have keep: "?h ! x = h ! x" if "s \<in> set ass" "x \<in> refsPtr s" for s x
  proof -
    have "x < length h" "x \<notin> refsPtr acc" using low [OF that(1)] Cons.prems(3) that by auto
    with e(2) show ?thesis by (simp add: extends_def)
  qed
  have same: "fieldPtr f ?h s name = fieldPtr f h s name" if "s \<in> set ass" for s
    by (rule fieldPtr_same) (use Cons.prems(2) keep [OF that] that in auto)
  have "fieldPtr f (fst (accumulateClones ?h ?a ass)) (snd (accumulateClones ?h ?a ass)) name =
    fold (\<lambda>s z. plusOpt z (fieldPtr f ?h s name)) ass (fieldPtr f ?h ?a name)"
    by (rule Cons.IH [OF e(1) ok]) (use disj in blast)
  also have "\<dots> = fold (\<lambda>s z. plusOpt z (fieldPtr f h s name)) ass (fieldPtr f ?h ?a name)"
    by (rule fold_cong) (simp_all add: same)
  finally show ?case
    using cloneStep_field [OF Cons.prems(1), of as name] Cons.prems(2) by (simp add: accumulateClones_Cons del: accumulateClones.simps)
qed simp

end

end
