(* ===== verification/Config_Controller.thy ===== *)
theory Config_Controller
  imports Prelude "HOL-Library.AList"
begin

text \<open>
  The controller of cloud billing configurations, \<^verbatim>\<open>pkg/cloud/config/controller.go\<close>, with its
  statuses (\<^verbatim>\<open>statuses.go\<close>) and sources (\<^verbatim>\<open>watcher.go\<close>). Every exported method takes the
  lock for its whole body, so a method is one step on the controller's state.

  The interface \<^verbatim>\<open>cloud.KeyedConfig\<close> is the record \<open>configOps\<close> of its methods on a type
  \<open>'c\<close> of configurations; an observer is the map of the configurations it was given. Go
  iterates over maps in an unspecified order: the watchers and the configurations of a watcher
  are passed as lists, in the order of the run, and the statuses are listed in the order of
  their association list. The JSON text a storage keeps is represented by the statuses it
  encodes.
\<close>

section \<open>Sources and statuses\<close>

datatype configSource =
    UnknownSource | ConfigControllerSource | MultiCloudSource | ConfigFileSource | HelmSource

definition GetConfigSource :: "string \<Rightarrow> configSource" where
  "GetConfigSource s =
     (if s = ''configController'' then ConfigControllerSource
      else if s = ''configfile'' then ConfigFileSource
      else if s = ''helm'' then HelmSource
      else if s = ''multicloud'' then MultiCloudSource
      else UnknownSource)"

fun configSourceString :: "configSource \<Rightarrow> string" where
  "configSourceString ConfigControllerSource = ''configController''"
| "configSourceString ConfigFileSource = ''configfile''"
| "configSourceString HelmSource = ''helm''"
| "configSourceString MultiCloudSource = ''multicloud''"
| "configSourceString UnknownSource = ''unknown''"

text \<open>
  The methods of a configuration: key, validation, comparison, and the type name that
  \<^verbatim>\<open>ConfigTypeFromConfig\<close> finds for the configurations it knows.
\<close>

record 'c configOps =
  kc_Key :: "'c \<Rightarrow> string"
  kc_Validate :: "'c \<Rightarrow> bool"
  kc_Equals :: "'c \<Rightarrow> 'c \<Rightarrow> bool"
  kc_Type :: "'c \<Rightarrow> string option"

record 'c status =
  st_Source :: configSource
  st_Key :: string
  st_Active :: bool
  st_Valid :: bool
  st_ConfigType :: string
  st_Config :: 'c

type_synonym 'c statuses = "((configSource \<times> string) \<times> 'c status) list"

definition statusGet :: "string \<Rightarrow> configSource \<Rightarrow> 'c statuses \<Rightarrow> 'c status option" where
  "statusGet key source s = map_of s (source, key)"

definition statusInsert :: "'c status \<Rightarrow> 'c statuses \<Rightarrow> 'c statuses" where
  "statusInsert st s = AList.update (st_Source st, st_Key st) st s"

definition statusList :: "'c statuses \<Rightarrow> 'c status list" where
  "statusList s = map snd s"

text \<open>\<^verbatim>\<open>delete(statuses[source], key)\<close> and \<^verbatim>\<open>status.Active = b\<close> through a pointer into the map.\<close>

definition statusDelete :: "string \<Rightarrow> configSource \<Rightarrow> 'c statuses \<Rightarrow> 'c statuses" where
  "statusDelete key source s = AList.delete (source, key) s"

definition setActive :: "bool \<Rightarrow> string \<Rightarrow> configSource \<Rightarrow> 'c statuses \<Rightarrow> 'c statuses" where
  "setActive b key source s =
     (case map_of s (source, key) of
        None \<Rightarrow> s | Some st \<Rightarrow> AList.update (source, key) (st\<lparr>st_Active := b\<rparr>) s)"

section \<open>Storage, observers and the controller\<close>

text \<open>
  Both storages: the file may be missing, and writing it may fail. A memory storage starts
  without bytes, which load as no statuses.
\<close>

datatype 'c storage = MemoryStorage "'c statuses option" | FileStorage bool "'c statuses option"

datatype storageError = FailedToLoad | FailedToSave

fun storageLoad :: "'c storage \<Rightarrow> storageError + 'c statuses" where
  "storageLoad (MemoryStorage None) = Inr []"
| "storageLoad (MemoryStorage (Some s)) = Inr s"
| "storageLoad (FileStorage w None) = Inl FailedToLoad"
| "storageLoad (FileStorage w (Some s)) = Inr s"

fun storageSave :: "'c statuses \<Rightarrow> 'c storage \<Rightarrow> storageError option \<times> 'c storage" where
  "storageSave s (MemoryStorage _) = (None, MemoryStorage (Some s))"
| "storageSave s (FileStorage w old) =
     (if w then (None, FileStorage w (Some s)) else (Some FailedToSave, FileStorage w old))"

record 'c controller =
  ct_storage :: "'c storage"
  ct_observers :: "(string \<rightharpoonup> 'c) list"

definition broadcastRemoveConfig :: "string \<Rightarrow> 'c controller \<Rightarrow> 'c controller" where
  "broadcastRemoveConfig key c = c\<lparr>ct_observers := map (\<lambda>obs. obs(key := None)) (ct_observers c)\<rparr>"

definition broadcastAddConfig :: "'c configOps \<Rightarrow> 'c \<Rightarrow> 'c controller \<Rightarrow> 'c controller" where
  "broadcastAddConfig ops conf c =
     c\<lparr>ct_observers := map (\<lambda>obs. obs(kc_Key ops conf \<mapsto> conf)) (ct_observers c)\<rparr>"

text \<open>\<^verbatim>\<open>c.storage.save(statuses)\<close>, with the error value where the caller looks at it.\<close>

definition saveStatuses :: "'c statuses \<Rightarrow> 'c controller \<Rightarrow> storageError option \<times> 'c controller" where
  "saveStatuses s c =
     (let (err, st) = storageSave s (ct_storage c) in (err, c\<lparr>ct_storage := st\<rparr>))"

datatype controlError =
    InvalidConfig
  | LoadStatuses storageError
  | SaveStatuses storageError
  | AlreadyExists string configSource
  | UnknownConfigType
  | DoesNotExist string configSource
  | AlreadyActive string configSource
  | AlreadyDisabled string configSource
  | NotOwned string configSource

section \<open>Operations\<close>

definition deleteConfig' ::
  "string \<Rightarrow> configSource \<Rightarrow> 'c statuses \<times> 'c controller \<Rightarrow>
    controlError option \<times> 'c statuses \<times> 'c controller" where
  "deleteConfig' key source = (\<lambda>(s, c).
     case statusGet key source s of
       None \<Rightarrow> (Some (DoesNotExist key source), s, c)
     | Some is \<Rightarrow>
         (let c1 = (if st_Active is then broadcastRemoveConfig key c else c);
              s1 = statusDelete key source s;
              (_, c2) = saveStatuses s1 c1
          in (None, s1, c2)))"

text \<open>
  The loops that switch other configurations off. \<open>off\<close> says which statuses an iteration
  disables; it is read from the status as it was listed.
\<close>

definition disableWhere ::
  "('c status \<Rightarrow> bool) \<Rightarrow> 'c statuses \<times> 'c controller \<Rightarrow> 'c statuses \<times> 'c controller" where
  "disableWhere off = (\<lambda>(s, c).
     fold (\<lambda>st (s', c').
             if off st
             then (setActive False (st_Key st) (st_Source st) s', broadcastRemoveConfig (st_Key st) c')
             else (s', c'))
       (statusList s) (s, c))"

definition nonMultiCloud :: "configSource \<Rightarrow> bool" where
  "nonMultiCloud source = (source = HelmSource \<or> source = ConfigFileSource)"

text \<open>
  The body of the loop over a watcher's configurations in \<^verbatim>\<open>pullWatchers\<close>, from the
  validation on. A status that both conditions select is removed from the observers twice, the
  second time without effect.
\<close>

definition pullNew ::
  "'c configOps \<Rightarrow> configSource \<Rightarrow> string \<Rightarrow> 'c \<Rightarrow> 'c statuses \<times> 'c controller \<Rightarrow>
    'c statuses \<times> 'c controller" where
  "pullNew ops source key conf sc =
     (let valid = kc_Validate ops conf
      in case kc_Type ops conf of
           None \<Rightarrow> sc
         | Some configType \<Rightarrow>
             (let status = \<lparr>st_Source = source, st_Key = key, st_Active = valid, st_Valid = valid,
                            st_ConfigType = configType, st_Config = conf\<rparr>;
                  (s1, c1) = (if valid
                              then disableWhere (\<lambda>st. st_Active st \<and>
                                     (nonMultiCloud source \<and> nonMultiCloud (st_Source st) \<or> st_Key st = key)) sc
                              else sc);
                  s2 = statusInsert status s1;
                  c2 = (if valid then broadcastAddConfig ops conf c1 else c1);
                  (_, c3) = saveStatuses s2 c2
              in (s2, c3)))"

definition pullConfig ::
  "'c configOps \<Rightarrow> configSource \<Rightarrow> string \<times> 'c \<Rightarrow> 'c statuses \<times> 'c controller \<Rightarrow>
    'c statuses \<times> 'c controller" where
  "pullConfig ops source kc sc =
     (let (key, conf) = kc
      in case statusGet key source (fst sc) of
           Some existing \<Rightarrow>
             if kc_Equals ops (st_Config existing) conf then sc
             else pullNew ops source key conf (snd (deleteConfig' key source sc))
         | None \<Rightarrow> pullNew ops source key conf sc)"

definition confsByKey :: "'c configOps \<Rightarrow> 'c list \<Rightarrow> 'c gomap" where
  "confsByKey ops confs = fold (\<lambda>conf m. AList.update (kc_Key ops conf) conf m) confs []"

definition pullWatcher ::
  "'c configOps \<Rightarrow> configSource \<times> 'c list \<Rightarrow> 'c statuses \<times> 'c controller \<Rightarrow>
    'c statuses \<times> 'c controller" where
  "pullWatcher ops sw sc =
     (let (source, confs) = sw;
          byKey = confsByKey ops confs;
          sc1 = fold (\<lambda>st sc'. if st_Source st = source \<and> map_of byKey (st_Key st) = None
                               then snd (deleteConfig' (st_Key st) (st_Source st) sc') else sc')
                  (statusList (fst sc)) sc
      in fold (pullConfig ops source) byKey sc1)"

definition pullWatchers ::
  "'c configOps \<Rightarrow> (configSource \<times> 'c list) list \<Rightarrow> 'c controller \<Rightarrow> 'c controller" where
  "pullWatchers ops watchers c =
     (let sc = (case storageLoad (ct_storage c) of
                  Inr s \<Rightarrow> (s, c)
                | Inl _ \<Rightarrow> ([], snd (saveStatuses [] c)))
      in snd (fold (pullWatcher ops) watchers sc))"

text \<open>The methods of the HTTP interface; \<open>None\<close> is a nil error.\<close>

definition CreateConfig ::
  "'c configOps \<Rightarrow> 'c \<Rightarrow> 'c controller \<Rightarrow> controlError option \<times> 'c controller" where
  "CreateConfig ops conf c =
     (if \<not> kc_Validate ops conf then (Some InvalidConfig, c)
      else case storageLoad (ct_storage c) of
             Inl err \<Rightarrow> (Some (LoadStatuses err), c)
           | Inr s \<Rightarrow>
               (let source = ConfigControllerSource; key = kc_Key ops conf
                in if statusGet key source s \<noteq> None then (Some (AlreadyExists key source), c)
                   else case kc_Type ops conf of
                          None \<Rightarrow> (Some UnknownConfigType, c)
                        | Some configType \<Rightarrow>
                            (let s1 = statusInsert \<lparr>st_Source = source, st_Key = key, st_Active = True,
                                        st_Valid = True, st_ConfigType = configType, st_Config = conf\<rparr> s;
                                 (s2, c1) = disableWhere (\<lambda>st. st_Key st = key \<and> st_Source st \<noteq> source \<and>
                                              st_Active st) (s1, c);
                                 (err, c2) = saveStatuses s2 (broadcastAddConfig ops conf c1)
                             in (map_option SaveStatuses err, c2))))"

definition UpdateConfig ::
  "'c configOps \<Rightarrow> 'c \<Rightarrow> 'c controller \<Rightarrow> controlError option \<times> 'c controller" where
  "UpdateConfig ops conf c =
     (if \<not> kc_Validate ops conf then (Some InvalidConfig, c)
      else case storageLoad (ct_storage c) of
             Inl err \<Rightarrow> (Some (LoadStatuses err), c)
           | Inr s \<Rightarrow>
               (let source = ConfigControllerSource; key = kc_Key ops conf
                in if statusGet key source s = None then (Some (DoesNotExist key source), c)
                   else case kc_Type ops conf of
                          None \<Rightarrow> (Some UnknownConfigType, c)
                        | Some configType \<Rightarrow>
                            (let (s1, c1) = disableWhere (\<lambda>st. st_Key st = key \<and>
                                              st_Source st = ConfigControllerSource \<and> st_Active st) (s, c);
                                 s2 = statusInsert \<lparr>st_Source = source, st_Key = key, st_Active = True,
                                        st_Valid = True, st_ConfigType = configType, st_Config = conf\<rparr> s1;
                                 (err, c2) = saveStatuses s2 (broadcastAddConfig ops conf c1)
                             in (map_option SaveStatuses err, c2))))"

definition EnableConfig ::
  "'c configOps \<Rightarrow> string \<Rightarrow> string \<Rightarrow> 'c controller \<Rightarrow> controlError option \<times> 'c controller" where
  "EnableConfig ops key sourceStr c =
     (case storageLoad (ct_storage c) of
        Inl err \<Rightarrow> (Some (LoadStatuses err), c)
      | Inr s \<Rightarrow>
          (let source = GetConfigSource sourceStr
           in case statusGet key source s of
                None \<Rightarrow> (Some (DoesNotExist key source), c)
              | Some cs \<Rightarrow>
                  if st_Active cs then (Some (AlreadyActive key source), c)
                  else (let (s1, c1) = disableWhere (\<lambda>st. st_Key st = key \<and> st_Source st \<noteq> source \<and>
                                         st_Active st) (s, c);
                            s2 = setActive True key source s1;
                            (_, c2) = saveStatuses s2 (broadcastAddConfig ops (st_Config cs) c1)
                        in (None, c2))))"

definition DisableConfig :: "string \<Rightarrow> string \<Rightarrow> 'c controller \<Rightarrow> controlError option \<times> 'c controller" where
  "DisableConfig key sourceStr c =
     (case storageLoad (ct_storage c) of
        Inl err \<Rightarrow> (Some (LoadStatuses err), c)
      | Inr s \<Rightarrow>
          (let source = GetConfigSource sourceStr
           in case statusGet key source s of
                None \<Rightarrow> (Some (DoesNotExist key source), c)
              | Some is \<Rightarrow>
                  if \<not> st_Active is then (Some (AlreadyDisabled key source), c)
                  else (let s1 = setActive False key source s;
                            (_, c1) = saveStatuses s1 (broadcastRemoveConfig key c)
                        in (None, c1))))"

definition DeleteConfig :: "string \<Rightarrow> string \<Rightarrow> 'c controller \<Rightarrow> controlError option \<times> 'c controller" where
  "DeleteConfig key sourceStr c =
     (let source = GetConfigSource sourceStr
      in if source \<noteq> ConfigControllerSource then (Some (NotOwned key source), c)
         else case storageLoad (ct_storage c) of
                Inl err \<Rightarrow> (Some (LoadStatuses err), c)
              | Inr s \<Rightarrow>
                  (let (err, _, c1) = deleteConfig' key source (s, c) in (err, c1)))"

text \<open>A failed load yields a nil map of statuses, which lists nothing.\<close>

definition loadedStatuses :: "'c controller \<Rightarrow> 'c statuses" where
  "loadedStatuses c = (case storageLoad (ct_storage c) of Inr s \<Rightarrow> s | Inl _ \<Rightarrow> [])"

definition getActiveConfigs :: "'c controller \<Rightarrow> string \<rightharpoonup> 'c" where
  "getActiveConfigs c =
     fold (\<lambda>cs m. if st_Active cs then m(st_Key cs \<mapsto> st_Config cs) else m)
       (statusList (loadedStatuses c)) Map.empty"

definition RegisterObserver :: "'c controller \<Rightarrow> 'c controller" where
  "RegisterObserver c = c\<lparr>ct_observers := ct_observers c @ [getActiveConfigs c]\<rparr>"

definition GetStatus :: "'c controller \<Rightarrow> 'c status list" where
  "GetStatus c = statusList (loadedStatuses c)"

section \<open>The invariant\<close>

text \<open>
  \<open>activeAt s src k conf\<close>: the status of \<open>k\<close> from \<open>src\<close> is active with \<open>conf\<close>. The
  invariant of the controller: statuses are filed under their own source and key, at most one
  configuration of a key is active, and every observer holds exactly the active ones.
\<close>

definition activeAt :: "'c statuses \<Rightarrow> configSource \<Rightarrow> string \<Rightarrow> 'c \<Rightarrow> bool" where
  "activeAt s src k conf \<longleftrightarrow> (\<exists>st. map_of s (src, k) = Some st \<and> st_Active st \<and> st_Config st = conf)"

definition statusesOk :: "'c configOps \<Rightarrow> 'c statuses \<Rightarrow> bool" where
  "statusesOk ops s \<longleftrightarrow> distinct (map fst s) \<and>
     (\<forall>src k st. map_of s (src, k) = Some st \<longrightarrow>
        st_Source st = src \<and> st_Key st = k \<and> kc_Key ops (st_Config st) = k)"

definition oneActive :: "'c statuses \<Rightarrow> bool" where
  "oneActive s \<longleftrightarrow> (\<forall>k src src' conf conf'. activeAt s src k conf \<longrightarrow> activeAt s src' k conf' \<longrightarrow> src = src')"

definition mirrors :: "'c statuses \<Rightarrow> 'c controller \<Rightarrow> bool" where
  "mirrors s c \<longleftrightarrow>
     (\<forall>obs \<in> set (ct_observers c). \<forall>k conf. obs k = Some conf \<longleftrightarrow> (\<exists>src. activeAt s src k conf))"

definition ctlInv :: "'c configOps \<Rightarrow> 'c statuses \<times> 'c controller \<Rightarrow> bool" where
  "ctlInv ops sc \<longleftrightarrow> statusesOk ops (fst sc) \<and> oneActive (fst sc) \<and> mirrors (fst sc) (snd sc)"

fun writable :: "'c storage \<Rightarrow> bool" where
  "writable (MemoryStorage _) = True"
| "writable (FileStorage w _) = w"

lemma activeAt_unique: "activeAt s src k conf \<Longrightarrow> activeAt s src k conf' \<Longrightarrow> conf = conf'"
  by (auto simp: activeAt_def)

lemma statusList_iff:
  assumes "statusesOk ops s"
  shows "st \<in> set (statusList s) \<longleftrightarrow> map_of s (st_Source st, st_Key st) = Some st"
proof
  assume "st \<in> set (statusList s)"
  then obtain src k where e: "((src, k), st) \<in> set s" by (auto simp: statusList_def)
  with assms have "map_of s (src, k) = Some st" by (simp add: statusesOk_def)
  with assms show "map_of s (st_Source st, st_Key st) = Some st" by (auto simp: statusesOk_def)
next
  assume "map_of s (st_Source st, st_Key st) = Some st"
  from map_of_SomeD [OF this] show "st \<in> set (statusList s)" by (force simp: statusList_def)
qed

lemma map_of_setActive:
  "map_of (setActive b k src s) =
     (\<lambda>x. if x = (src, k) then map_option (\<lambda>st. st\<lparr>st_Active := b\<rparr>) (map_of s x) else map_of s x)"
  by (auto simp: setActive_def update_conv' split: option.splits)

lemma distinct_setActive: "distinct (map fst s) \<Longrightarrow> distinct (map fst (setActive b k src s))"
  by (auto simp: setActive_def distinct_update split: option.splits)

lemma map_of_statusInsert:
  "map_of (statusInsert st s) = (map_of s)((st_Source st, st_Key st) \<mapsto> st)"
  by (simp add: statusInsert_def update_conv')

lemma map_of_statusDelete: "map_of (statusDelete k src s) = (map_of s)((src, k) := None)"
  by (auto simp: statusDelete_def delete_conv')

section \<open>Switching configurations off\<close>

lemma disable_fold:
  assumes ok: "statusesOk ops s" and "\<forall>x \<in> set xs. map_of s (st_Source x, st_Key x) = Some x"
  shows "\<exists>s' c'. fold (\<lambda>st (s', c').
      if off st then (setActive False (st_Key st) (st_Source st) s', broadcastRemoveConfig (st_Key st) c')
      else (s', c')) xs (s, c) = (s', c') \<and>
    map_of s' = (\<lambda>x. map_option (\<lambda>st. if off st \<and> st \<in> set xs then st\<lparr>st_Active := False\<rparr> else st) (map_of s x)) \<and>
    (distinct (map fst s) \<longrightarrow> distinct (map fst s')) \<and> ct_storage c' = ct_storage c \<and>
    ct_observers c' = map (\<lambda>obs k. if \<exists>st \<in> set xs. off st \<and> st_Key st = k then None else obs k) (ct_observers c)"
  (is "\<exists>s' c'. fold ?f xs (s, c) = (s', c') \<and> ?post xs s' c'")
  using assms(2)
proof (induction xs rule: rev_induct)
  case Nil
  have "map_of s = (\<lambda>x. map_option (\<lambda>st. st) (map_of s x))" by (simp add: option.map_ident)
  then show ?case by simp
next
  case (snoc y ys)
  then obtain s1 c1 where f: "fold ?f ys (s, c) = (s1, c1)" and post: "?post ys s1 c1" by auto
  from snoc.prems have y: "map_of s (st_Source y, st_Key y) = Some y" by simp
  show ?case
  proof (cases "off y")
    case True
    let ?s = "setActive False (st_Key y) (st_Source y) s1"
    let ?c = "broadcastRemoveConfig (st_Key y) c1"
    have "map_of ?s = (\<lambda>x. map_option (\<lambda>st. if off st \<and> st \<in> set (ys @ [y]) then st\<lparr>st_Active := False\<rparr> else st) (map_of s x))"
    proof
      fix x
      show "map_of ?s x = map_option (\<lambda>st. if off st \<and> st \<in> set (ys @ [y]) then st\<lparr>st_Active := False\<rparr> else st) (map_of s x)"
      proof (cases "x = (st_Source y, st_Key y)")
        case True
        with post y \<open>off y\<close> show ?thesis by (simp add: map_of_setActive)
      next
        case False
        have "map_of s x \<noteq> Some y" using ok False by (cases x) (auto simp: statusesOk_def)
        with post False show ?thesis by (cases "map_of s x") (auto simp: map_of_setActive)
      qed
    qed
    moreover have "ct_observers ?c =
        map (\<lambda>obs k. if \<exists>st \<in> set (ys @ [y]). off st \<and> st_Key st = k then None else obs k) (ct_observers c)"
      using post True by (auto simp: broadcastRemoveConfig_def fun_eq_iff)
    moreover have "ct_storage ?c = ct_storage c" using post by (simp add: broadcastRemoveConfig_def)
    moreover have "distinct (map fst s) \<longrightarrow> distinct (map fst ?s)" using post by (simp add: distinct_setActive)
    moreover have "fold ?f (ys @ [y]) (s, c) = (?s, ?c)" using f True by simp
    ultimately show ?thesis by blast
  next
    case False
    with f post have "fold ?f (ys @ [y]) (s, c) = (s1, c1)" by simp
    moreover have "(off st \<and> st \<in> set (ys @ [y])) = (off st \<and> st \<in> set ys)"
      "(\<exists>st \<in> set (ys @ [y]). off st \<and> st_Key st = k) = (\<exists>st \<in> set ys. off st \<and> st_Key st = k)" for st k
      using False by auto
    with post have "?post (ys @ [y]) s1 c1" by simp
    ultimately show ?thesis by blast
  qed
qed

lemma disableWhere_result:
  assumes "statusesOk ops s"
  obtains s' c' where "disableWhere off (s, c) = (s', c')"
    and "\<And>x. map_of s' x = map_option (\<lambda>st. if off st then st\<lparr>st_Active := False\<rparr> else st) (map_of s x)"
    and "distinct (map fst s')" and "ct_storage c' = ct_storage c"
    and "ct_observers c' = map (\<lambda>obs k. if \<exists>src st. map_of s (src, k) = Some st \<and> off st then None else obs k) (ct_observers c)"
proof -
  have "\<forall>x \<in> set (statusList s). map_of s (st_Source x, st_Key x) = Some x"
    using statusList_iff [OF assms] by blast
  from disable_fold [OF assms this, of off c] obtain s' c' where
    f: "disableWhere off (s, c) = (s', c')" and
    m: "map_of s' = (\<lambda>x. map_option (\<lambda>st. if off st \<and> st \<in> set (statusList s) then st\<lparr>st_Active := False\<rparr> else st) (map_of s x))" and
    d: "distinct (map fst s')" and st: "ct_storage c' = ct_storage c" and
    o: "ct_observers c' = map (\<lambda>obs k. if \<exists>st \<in> set (statusList s). off st \<and> st_Key st = k then None else obs k) (ct_observers c)"
    using assms unfolding disableWhere_def statusesOk_def by auto
  have listed: "st \<in> set (statusList s)" if "map_of s (src, k) = Some st" for src k st
    using that assms statusList_iff [OF assms] by (auto simp: statusesOk_def)
  have "map_of s' x = map_option (\<lambda>st. if off st then st\<lparr>st_Active := False\<rparr> else st) (map_of s x)" for x
    using m listed by (cases x; cases "map_of s x") auto
  moreover have "(\<exists>st \<in> set (statusList s). off st \<and> st_Key st = k) \<longleftrightarrow> (\<exists>src st. map_of s (src, k) = Some st \<and> off st)" for k
  proof
    assume "\<exists>st \<in> set (statusList s). off st \<and> st_Key st = k"
    then show "\<exists>src st. map_of s (src, k) = Some st \<and> off st" using statusList_iff [OF assms] by blast
  next
    assume "\<exists>src st. map_of s (src, k) = Some st \<and> off st"
    then obtain src st where "map_of s (src, k) = Some st" "off st" by blast
    with listed assms show "\<exists>st \<in> set (statusList s). off st \<and> st_Key st = k"
      by (auto simp: statusesOk_def)
  qed
  ultimately show thesis using that f d st o by simp
qed

section \<open>Each change keeps the invariant\<close>

lemma inv_disable:
  assumes inv: "ctlInv ops (s, c)" and off: "\<And>st. off st \<Longrightarrow> st_Active st"
  obtains s' c' where "disableWhere off (s, c) = (s', c')" and "ctlInv ops (s', c')"
    and "ct_storage c' = ct_storage c"
    and "\<And>src k conf. activeAt s' src k conf \<longleftrightarrow>
      (\<exists>st. map_of s (src, k) = Some st \<and> st_Active st \<and> \<not> off st \<and> st_Config st = conf)"
    and "\<And>x. map_of s' x = map_option (\<lambda>st. if off st then st\<lparr>st_Active := False\<rparr> else st) (map_of s x)"
proof -
  from inv have ok: "statusesOk ops s" and one: "oneActive s" and mir: "mirrors s c" by (simp_all add: ctlInv_def)
  obtain s' c' where
    f: "disableWhere off (s, c) = (s', c')" and
    m: "\<And>x. map_of s' x = map_option (\<lambda>st. if off st then st\<lparr>st_Active := False\<rparr> else st) (map_of s x)" and
    d: "distinct (map fst s')" and st: "ct_storage c' = ct_storage c" and
    o: "ct_observers c' = map (\<lambda>obs k. if \<exists>src st. map_of s (src, k) = Some st \<and> off st then None else obs k) (ct_observers c)"
    by (rule disableWhere_result [OF ok, of off c]) (rule that)
  have act: "activeAt s' src k conf \<longleftrightarrow>
      (\<exists>st. map_of s (src, k) = Some st \<and> st_Active st \<and> \<not> off st \<and> st_Config st = conf)" for src k conf
    by (cases "map_of s (src, k)") (simp_all add: activeAt_def m)
  have "statusesOk ops s'" using ok d by (auto simp: statusesOk_def m)
  moreover have "activeAt s src k conf" if "activeAt s' src k conf" for src k conf
    using that by (auto simp: act) (auto simp: activeAt_def)
  then have "oneActive s'" using one unfolding oneActive_def by blast
  moreover have "mirrors s' c'"
    unfolding mirrors_def
  proof (intro ballI allI)
    fix obs' k conf
    assume "obs' \<in> set (ct_observers c')"
    then obtain obs where obs: "obs \<in> set (ct_observers c)"
      "obs' = (\<lambda>k. if \<exists>src st. map_of s (src, k) = Some st \<and> off st then None else obs k)" by (auto simp: o)
    have only: "\<not> off st'" if "map_of s (src, k) = Some st" "st_Active st" "\<not> off st"
      "map_of s (src', k) = Some st'" for src st src' st'
    proof
      assume "off st'"
      with that one off have "src' = src" by (auto simp: oneActive_def activeAt_def)
      with that \<open>off st'\<close> show False by simp
    qed
    from mir obs(1) have "obs k = Some conf \<longleftrightarrow> (\<exists>src. activeAt s src k conf)" by (simp add: mirrors_def)
    moreover have "activeAt s' src k conf \<longleftrightarrow> activeAt s src k conf"
      if "\<not> (\<exists>src st. map_of s (src, k) = Some st \<and> off st)" for src
      using that unfolding act by (auto simp: activeAt_def)
    moreover have "\<not> activeAt s' src k conf" if "\<exists>src st. map_of s (src, k) = Some st \<and> off st" for src
      using that only by (auto simp: act)
    ultimately show "obs' k = Some conf \<longleftrightarrow> (\<exists>src. activeAt s' src k conf)"
      by (simp add: obs(2))
  qed
  ultimately have "ctlInv ops (s', c')" by (simp add: ctlInv_def)
  with f st act m that show thesis by blast
qed

text \<open>Inserting an active status, and telling the observers.\<close>

lemma inv_insert_active:
  assumes inv: "ctlInv ops (s, c)" and only: "\<And>src conf. activeAt s src (st_Key st) conf \<Longrightarrow> src = st_Source st"
    and st: "st_Active st" "kc_Key ops (st_Config st) = st_Key st"
  shows "ctlInv ops (statusInsert st s, broadcastAddConfig ops (st_Config st) c)"
proof -
  let ?s = "statusInsert st s"
  from inv have ok: "statusesOk ops s" and one: "oneActive s" and mir: "mirrors s c" by (simp_all add: ctlInv_def)
  have act: "activeAt ?s src k conf \<longleftrightarrow>
      (if (src, k) = (st_Source st, st_Key st) then conf = st_Config st else activeAt s src k conf)" for src k conf
    using st by (auto simp: activeAt_def map_of_statusInsert)
  have "statusesOk ops ?s"
    using ok st by (auto simp: statusesOk_def map_of_statusInsert statusInsert_def [symmetric])
      (simp add: statusInsert_def distinct_update)
  moreover have "oneActive ?s" using one only by (auto simp: oneActive_def act split: if_splits)
  moreover have "mirrors ?s (broadcastAddConfig ops (st_Config st) c)"
    using mir only st by (auto simp: mirrors_def broadcastAddConfig_def act split: if_splits)
  ultimately show ?thesis by (simp add: ctlInv_def)
qed

text \<open>Filing an inactive status where none is active.\<close>

lemma inv_insert_inactive:
  assumes inv: "ctlInv ops (s, c)" and only: "\<And>conf. \<not> activeAt s (st_Source st) (st_Key st) conf"
    and st: "\<not> st_Active st" "kc_Key ops (st_Config st) = st_Key st"
  shows "ctlInv ops (statusInsert st s, c)"
proof -
  let ?s = "statusInsert st s"
  from inv have ok: "statusesOk ops s" by (simp add: ctlInv_def)
  have act: "activeAt ?s src k conf \<longleftrightarrow> activeAt s src k conf" for src k conf
    using st only by (auto simp: activeAt_def map_of_statusInsert)
  have "statusesOk ops ?s"
    using ok st by (auto simp: statusesOk_def map_of_statusInsert)
      (simp add: statusInsert_def distinct_update)
  with inv show ?thesis by (simp add: ctlInv_def oneActive_def mirrors_def act)
qed

text \<open>A status that leaves the active ones, deleted or switched off, leaves the observers.\<close>

lemma inv_remove:
  assumes inv: "ctlInv ops (s, c)" and ok: "statusesOk ops s'"
    and act: "\<And>src' k' conf. activeAt s' src' k' conf \<longleftrightarrow> activeAt s src' k' conf \<and> (src', k') \<noteq> (src, k)"
    and c': "c' = (if \<exists>conf. activeAt s src k conf then broadcastRemoveConfig k c else c)"
  shows "ctlInv ops (s', c')"
proof -
  from inv have one: "oneActive s" and mir: "mirrors s c" by (simp_all add: ctlInv_def)
  have only: "src' = src" if "activeAt s src k conf" "activeAt s src' k conf'" for src' conf conf'
    using one that unfolding oneActive_def by blast
  have "mirrors s' c'"
  proof (cases "\<exists>conf. activeAt s src k conf")
    case True
    with mir only show ?thesis
      by (auto simp: mirrors_def c' act broadcastRemoveConfig_def)
  next
    case False
    with mir show ?thesis by (auto simp: mirrors_def c' act)
  qed
  moreover have "oneActive s'" using one by (auto simp: oneActive_def act)
  ultimately show ?thesis using ok by (simp add: ctlInv_def)
qed

lemma saveStatuses_simps [simp]:
  "ct_observers (snd (saveStatuses s c)) = ct_observers c"
  "writable (ct_storage (snd (saveStatuses s c))) = writable (ct_storage c)"
  "writable (ct_storage c) \<Longrightarrow> loadedStatuses (snd (saveStatuses s c)) = s"
  "writable (ct_storage c) \<Longrightarrow> storageLoad (ct_storage (snd (saveStatuses s c))) = Inr s"
  "writable (ct_storage c) \<Longrightarrow> fst (saveStatuses s c) = None"
  by (cases "ct_storage c"; simp add: saveStatuses_def loadedStatuses_def split_def Let_def)+

lemma ctlInv_observers: "ct_observers c' = ct_observers c \<Longrightarrow> ctlInv ops (s, c') = ctlInv ops (s, c)"
  by (simp add: ctlInv_def mirrors_def)

text \<open>
  The state between two steps of \<^verbatim>\<open>pullWatchers\<close>: the invariant holds of the statuses in hand,
  and they are the ones the storage holds.
\<close>

definition synced :: "'c configOps \<Rightarrow> 'c statuses \<times> 'c controller \<Rightarrow> bool" where
  "synced ops sc \<longleftrightarrow> ctlInv ops sc \<and> writable (ct_storage (snd sc)) \<and> storageLoad (ct_storage (snd sc)) = Inr (fst sc)"

lemma synced_save:
  assumes "ctlInv ops (s, c)" and "writable (ct_storage c)"
  shows "synced ops (s, snd (saveStatuses s c))"
  using assms ctlInv_observers [of "snd (saveStatuses s c)" c ops s] by (simp add: synced_def)

lemma synced_delete:
  assumes "synced ops (s, c)"
  shows "synced ops (snd (deleteConfig' key source (s, c)))"
proof (cases "map_of s (source, key)")
  case None
  with assms show ?thesis by (simp add: deleteConfig'_def statusGet_def)
next
  case (Some st)
  let ?s = "statusDelete key source s"
  let ?c = "if st_Active st then broadcastRemoveConfig key c else c"
  from assms have inv: "ctlInv ops (s, c)" and w: "writable (ct_storage c)" by (simp_all add: synced_def)
  have "ctlInv ops (?s, ?c)"
  proof (rule inv_remove [OF inv])
    show "statusesOk ops ?s"
      using inv by (auto simp: ctlInv_def statusesOk_def map_of_statusDelete)
        (simp add: statusDelete_def distinct_delete)
    show "activeAt ?s src k conf \<longleftrightarrow> activeAt s src k conf \<and> (src, k) \<noteq> (source, key)" for src k conf
      by (auto simp: activeAt_def map_of_statusDelete)
    show "?c = (if \<exists>conf. activeAt s source key conf then broadcastRemoveConfig key c else c)"
      using Some by (simp add: activeAt_def)
  qed
  moreover have "writable (ct_storage ?c)" using w by (simp add: broadcastRemoveConfig_def)
  ultimately have "synced ops (?s, snd (saveStatuses ?s ?c))" by (rule synced_save)
  with Some show ?thesis
    by (cases "st_Active st") (simp_all add: deleteConfig'_def statusGet_def Let_def split_def)
qed

lemma deleteConfig_absent:
  "map_of (fst (snd (deleteConfig' key source (s, c)))) (source, key) = None"
  by (auto simp: deleteConfig'_def statusGet_def Let_def split_def map_of_statusDelete split: option.splits)

section \<open>The operations keep the invariant\<close>

lemma synced_pullNew:
  assumes "synced ops (s, c)" and "map_of s (source, key) = None" and "kc_Key ops conf = key"
  shows "synced ops (pullNew ops source key conf (s, c))"
proof (cases "kc_Type ops conf")
  case None
  with assms(1) show ?thesis by (simp add: pullNew_def)
next
  case (Some ty)
  from assms(1) have inv: "ctlInv ops (s, c)" and w: "writable (ct_storage c)" by (simp_all add: synced_def)
  let ?st = "\<lambda>v. \<lparr>st_Source = source, st_Key = key, st_Active = v, st_Valid = v, st_ConfigType = ty, st_Config = conf\<rparr>"
  show ?thesis
  proof (cases "kc_Validate ops conf")
    case False
    have "ctlInv ops (statusInsert (?st False) s, c)"
      by (rule inv_insert_inactive [OF inv]) (use assms in \<open>auto simp: activeAt_def\<close>)
    from synced_save [OF this w] False Some show ?thesis by (simp add: pullNew_def split_def Let_def)
  next
    case True
    let ?off = "\<lambda>st. st_Active st \<and> (nonMultiCloud source \<and> nonMultiCloud (st_Source st) \<or> st_Key st = key)"
    obtain s' c' where d: "disableWhere ?off (s, c) = (s', c')" and inv': "ctlInv ops (s', c')"
      and st: "ct_storage c' = ct_storage c" and act: "\<And>src k conf. activeAt s' src k conf \<longleftrightarrow>
        (\<exists>st. map_of s (src, k) = Some st \<and> st_Active st \<and> \<not> ?off st \<and> st_Config st = conf)"
      by (rule inv_disable [OF inv, of ?off]) auto
    have "\<not> activeAt s' src key conf'" for src conf'
      using inv by (auto simp: act ctlInv_def statusesOk_def)
    then have "ctlInv ops (statusInsert (?st True) s', broadcastAddConfig ops (st_Config (?st True)) c')"
      by (intro inv_insert_active [OF inv']) (use assms in auto)
    moreover have "writable (ct_storage (broadcastAddConfig ops conf c'))" using w st
      by (simp add: broadcastAddConfig_def)
    ultimately have "synced ops (statusInsert (?st True) s',
        snd (saveStatuses (statusInsert (?st True) s') (broadcastAddConfig ops conf c')))"
      by (simp add: synced_save)
    with True Some d show ?thesis by (simp add: pullNew_def split_def Let_def)
  qed
qed

lemma synced_pullConfig:
  assumes "synced ops sc" and "kc_Key ops (snd kc) = fst kc"
  shows "synced ops (pullConfig ops source kc sc)"
proof -
  obtain key conf s c where kc: "kc = (key, conf)" "sc = (s, c)" by (cases kc; cases sc)
  show ?thesis
  proof (cases "map_of s (source, key)")
    case None
    with assms kc synced_pullNew [of ops s c source key conf] show ?thesis
      by (simp add: pullConfig_def statusGet_def)
  next
    case (Some st)
    obtain s1 c1 where sc1: "snd (deleteConfig' key source (s, c)) = (s1, c1)" by fastforce
    with synced_delete [of ops s c key source] assms(1) kc have "synced ops (s1, c1)" by simp
    moreover have "map_of s1 (source, key) = None" using deleteConfig_absent [of key source s c] sc1 by simp
    ultimately show ?thesis
      using assms kc Some sc1 synced_pullNew [of ops s1 c1 source key conf]
      by (simp add: pullConfig_def statusGet_def)
  qed
qed

lemma synced_fold:
  assumes "\<And>x sc. x \<in> set xs \<Longrightarrow> synced ops sc \<Longrightarrow> synced ops (f x sc)" and "synced ops sc"
  shows "synced ops (fold f xs sc)"
  using assms by (induction xs arbitrary: sc) auto

lemma confsByKey_keys: "(k, conf) \<in> set (confsByKey ops confs) \<Longrightarrow> kc_Key ops conf = k"
proof -
  have "(\<forall>(k, conf) \<in> set m. kc_Key ops conf = k) \<Longrightarrow>
    \<forall>(k, conf) \<in> set (fold (\<lambda>conf m. AList.update (kc_Key ops conf) conf m) confs m). kc_Key ops conf = k" for m
  proof (induction confs arbitrary: m)
    case (Cons conf confs)
    have "\<forall>(k, c) \<in> set (AList.update (kc_Key ops conf) conf m). kc_Key ops c = k"
      using Cons.prems by (induction m) auto
    from Cons.IH [OF this] show ?case by simp
  qed simp
  from this [of "[]"] show "(k, conf) \<in> set (confsByKey ops confs) \<Longrightarrow> kc_Key ops conf = k"
    by (fastforce simp: confsByKey_def)
qed

lemma synced_pullWatcher: "synced ops sc \<Longrightarrow> synced ops (pullWatcher ops sw sc)"
  unfolding pullWatcher_def Let_def split_def
proof (rule synced_fold)
  fix x sc'
  assume "x \<in> set (confsByKey ops (snd sw))" and "synced ops sc'"
  then show "synced ops (pullConfig ops (fst sw) x sc')"
    using synced_pullConfig [of ops sc' x] confsByKey_keys [of "fst x" "snd x" ops "snd sw"] by simp
next
  assume "synced ops sc"
  then show "synced ops (fold (\<lambda>st sc'. if st_Source st = fst sw \<and> map_of (confsByKey ops (snd sw)) (st_Key st) = None
      then snd (deleteConfig' (st_Key st) (st_Source st) sc') else sc') (statusList (fst sc)) sc)"
    by (rule synced_fold [rotated]) (auto simp: synced_delete split: prod.splits)
qed

text \<open>The invariant of the controller between two method calls.\<close>

definition ctlOk :: "'c configOps \<Rightarrow> 'c controller \<Rightarrow> bool" where
  "ctlOk ops c \<longleftrightarrow> writable (ct_storage c) \<and> ctlInv ops (loadedStatuses c, c)"

lemma ctlOk_synced: "synced ops (s, c) \<Longrightarrow> ctlOk ops c"
  by (simp add: synced_def ctlOk_def loadedStatuses_def)

lemma ctlOk_loaded: "ctlOk ops c \<Longrightarrow> storageLoad (ct_storage c) = Inr s \<Longrightarrow> synced ops (s, c)"
  by (simp add: synced_def ctlOk_def loadedStatuses_def)

lemma ctlOk_save: "ctlInv ops (s, c) \<Longrightarrow> writable (ct_storage c) \<Longrightarrow> ctlOk ops (snd (saveStatuses s c))"
  using synced_save ctlOk_synced by blast

lemma pull_start:
  fixes c :: "'c controller"
  defines "sc \<equiv> (case storageLoad (ct_storage c) of Inr s \<Rightarrow> (s, c) | Inl _ \<Rightarrow> ([], snd (saveStatuses [] c)))"
  assumes "ctlOk ops c"
  shows "synced ops sc" and "fst sc = loadedStatuses c"
proof -
  have "synced ops sc \<and> fst sc = loadedStatuses c"
  proof (cases "storageLoad (ct_storage c)")
    case (Inl err)
    with assms(2) have "ctlInv ops ([], c)" "writable (ct_storage c)" by (simp_all add: ctlOk_def loadedStatuses_def)
    with Inl synced_save show ?thesis by (simp add: sc_def loadedStatuses_def)
  next
    case (Inr s)
    with ctlOk_loaded [OF assms(2)] show ?thesis by (simp add: sc_def loadedStatuses_def)
  qed
  then show "synced ops sc" and "fst sc = loadedStatuses c" by blast+
qed

lemma pullWatchers_ok:
  assumes "ctlOk ops c"
  shows "ctlOk ops (pullWatchers ops watchers c)"
proof -
  let ?sc = "case storageLoad (ct_storage c) of Inr s \<Rightarrow> (s, c) | Inl _ \<Rightarrow> ([], snd (saveStatuses [] c))"
  have "synced ops (fold (pullWatcher ops) watchers ?sc)"
    by (rule synced_fold [OF _ pull_start(1) [OF assms]]) (rule synced_pullWatcher)
  then show ?thesis
    by (cases "fold (pullWatcher ops) watchers ?sc") (simp add: pullWatchers_def ctlOk_synced Let_def)
qed

lemma ctlOk_cases:
  assumes "ctlOk ops c"
  obtains (err) e where "storageLoad (ct_storage c) = Inl e"
  | (ok) s where "storageLoad (ct_storage c) = Inr s" and "ctlInv ops (s, c)" and "writable (ct_storage c)"
  using assms by (cases "storageLoad (ct_storage c)") (auto simp: ctlOk_def loadedStatuses_def)

lemma writable_broadcast [simp]:
  "ct_storage (broadcastAddConfig ops conf c) = ct_storage c"
  "ct_storage (broadcastRemoveConfig key c) = ct_storage c"
  by (simp_all add: broadcastAddConfig_def broadcastRemoveConfig_def)

text \<open>
  Making one configuration of a key the active one: after the others of the key are switched
  off, the new status is filed and announced.
\<close>

lemma ctlOk_activate:
  assumes inv: "ctlInv ops (s, c)" and w: "writable (ct_storage c)"
    and only: "\<And>src conf. activeAt s src (st_Key st) conf \<Longrightarrow> src = st_Source st"
    and st: "st_Active st" "kc_Key ops (st_Config st) = st_Key st"
  shows "ctlOk ops (snd (saveStatuses (statusInsert st s) (broadcastAddConfig ops (st_Config st) c)))"
  by (rule ctlOk_save [OF inv_insert_active [OF inv only st]]) (use w in auto)

lemma setActive_insert:
  assumes "map_of s (src, k) = Some st" and "st_Source st = src" and "st_Key st = k"
  shows "setActive b k src s = statusInsert (st\<lparr>st_Active := b\<rparr>) s"
  using assms by (simp add: setActive_def statusInsert_def)

text \<open>
  \<^verbatim>\<open>CreateConfig\<close> files the new status before it switches the others off. The outcome is the
  same as in the opposite order, since the new status is not one of those.
\<close>

lemma disable_insert_commute:
  assumes "statusesOk ops s" and st: "kc_Key ops (st_Config st) = st_Key st" "\<not> off st"
    and new: "map_of s (st_Source st, st_Key st) = None"
  shows "\<exists>s1 s2 c1. disableWhere off (statusInsert st s, c) = (s1, c1) \<and> disableWhere off (s, c) = (s2, c1) \<and>
    map_of s1 = map_of (statusInsert st s2) \<and> distinct (map fst s1)"
proof -
  let ?s = "statusInsert st s"
  have ok': "statusesOk ops ?s"
    using assms(1) st by (auto simp: statusesOk_def map_of_statusInsert)
      (simp add: statusInsert_def distinct_update)
  obtain s1 c1 where 1: "disableWhere off (?s, c) = (s1, c1)"
    "\<And>x. map_of s1 x = map_option (\<lambda>st. if off st then st\<lparr>st_Active := False\<rparr> else st) (map_of ?s x)"
    "distinct (map fst s1)" "ct_storage c1 = ct_storage c"
    "ct_observers c1 = map (\<lambda>obs k. if \<exists>src st. map_of ?s (src, k) = Some st \<and> off st then None else obs k) (ct_observers c)"
    by (rule disableWhere_result [OF ok', of off c]) (rule that)
  obtain s2 c2 where 2: "disableWhere off (s, c) = (s2, c2)"
    "\<And>x. map_of s2 x = map_option (\<lambda>st. if off st then st\<lparr>st_Active := False\<rparr> else st) (map_of s x)"
    "distinct (map fst s2)" "ct_storage c2 = ct_storage c"
    "ct_observers c2 = map (\<lambda>obs k. if \<exists>src st. map_of s (src, k) = Some st \<and> off st then None else obs k) (ct_observers c)"
    by (rule disableWhere_result [OF assms(1), of off c]) (rule that)
  have "(\<exists>src st'. map_of ?s (src, k) = Some st' \<and> off st') \<longleftrightarrow> (\<exists>src st'. map_of s (src, k) = Some st' \<and> off st')" for k
    using st(2) new by (auto simp: map_of_statusInsert split: if_splits) (metis option.distinct(1))+
  with 1(4,5) 2(4,5) have "c1 = c2" by (cases c1; cases c2) simp
  moreover have "map_of s1 = map_of (statusInsert st s2)"
    using 1(2) 2(2) st(2) by (intro ext) (simp add: map_of_statusInsert)
  ultimately show ?thesis using 1(1,3) 2(1) by blast
qed

text \<open>The invariant reads the statuses through their map.\<close>

lemma ctlInv_cong:
  assumes "map_of s = map_of s'" and "distinct (map fst s)" and "ctlInv ops (s', c)"
  shows "ctlInv ops (s, c)"
proof -
  have "activeAt s = activeAt s'" by (intro ext) (simp add: activeAt_def assms(1))
  with assms show ?thesis by (simp add: ctlInv_def statusesOk_def oneActive_def mirrors_def)
qed

lemma CreateConfig_ok:
  assumes "ctlOk ops c"
  shows "ctlOk ops (snd (CreateConfig ops conf c))"
  using assms
proof (cases rule: ctlOk_cases)
  case (err e)
  with assms show ?thesis by (simp add: CreateConfig_def)
next
  case (ok s)
  let ?key = "kc_Key ops conf"
  show ?thesis
  proof (cases "kc_Validate ops conf \<and> map_of s (ConfigControllerSource, ?key) = None \<and> kc_Type ops conf \<noteq> None")
    case False
    with assms ok(1) show ?thesis by (auto simp: CreateConfig_def statusGet_def Let_def split: option.splits)
  next
    case True
    then obtain ty where ty: "kc_Type ops conf = Some ty" by blast
    let ?st = "\<lparr>st_Source = ConfigControllerSource, st_Key = ?key, st_Active = True, st_Valid = True,
      st_ConfigType = ty, st_Config = conf\<rparr>"
    let ?off = "\<lambda>st. st_Key st = ?key \<and> st_Source st \<noteq> ConfigControllerSource \<and> st_Active st"
    have "statusesOk ops s" using ok(2) by (simp add: ctlInv_def)
    from disable_insert_commute [OF this, of ?st ?off c] True obtain s1 s2 c1 where
      d: "disableWhere ?off (statusInsert ?st s, c) = (s1, c1)" "disableWhere ?off (s, c) = (s2, c1)"
      "map_of s1 = map_of (statusInsert ?st s2)" "distinct (map fst s1)" by auto
    obtain s' c' where d': "disableWhere ?off (s, c) = (s', c')" and inv': "ctlInv ops (s', c')"
      and st: "ct_storage c' = ct_storage c" and act: "\<And>src k conf. activeAt s' src k conf \<longleftrightarrow>
        (\<exists>st. map_of s (src, k) = Some st \<and> st_Active st \<and> \<not> ?off st \<and> st_Config st = conf)"
      by (rule inv_disable [OF ok(2), of ?off]) auto
    from d(2) d' have e: "s' = s2" "c' = c1" by simp_all
    have "src = ConfigControllerSource" if "activeAt s2 src ?key conf'" for src conf'
      using that ok(2) by (auto simp: act [unfolded e] ctlInv_def statusesOk_def)
    then have "ctlInv ops (statusInsert ?st s2, broadcastAddConfig ops conf c1)"
      using inv_insert_active [of ops s2 c1 ?st] inv' e by simp
    from ctlInv_cong [OF d(3,4) this]
    have "ctlOk ops (snd (saveStatuses s1 (broadcastAddConfig ops conf c1)))"
      by (rule ctlOk_save) (use ok(3) st e in simp)
    with True ty ok(1) d(1) show ?thesis by (simp add: CreateConfig_def statusGet_def Let_def split_def)
  qed
qed

lemma EnableConfig_ok:
  assumes "ctlOk ops c"
  shows "ctlOk ops (snd (EnableConfig ops key sourceStr c))"
  using assms
proof (cases rule: ctlOk_cases)
  case (err e)
  with assms show ?thesis by (simp add: EnableConfig_def)
next
  case (ok s)
  let ?source = "GetConfigSource sourceStr"
  show ?thesis
  proof (cases "\<exists>cs. map_of s (?source, key) = Some cs \<and> \<not> st_Active cs")
    case False
    with assms ok(1) show ?thesis by (auto simp: EnableConfig_def statusGet_def Let_def split: option.splits)
  next
    case True
    then obtain cs where cs: "map_of s (?source, key) = Some cs" "\<not> st_Active cs" by blast
    let ?off = "\<lambda>st. st_Key st = key \<and> st_Source st \<noteq> ?source \<and> st_Active st"
    obtain s' c' where d: "disableWhere ?off (s, c) = (s', c')" and inv': "ctlInv ops (s', c')"
      and st: "ct_storage c' = ct_storage c" and act: "\<And>src k conf. activeAt s' src k conf \<longleftrightarrow>
        (\<exists>st. map_of s (src, k) = Some st \<and> st_Active st \<and> \<not> ?off st \<and> st_Config st = conf)"
      and m: "\<And>x. map_of s' x = map_option (\<lambda>st. if ?off st then st\<lparr>st_Active := False\<rparr> else st) (map_of s x)"
      by (rule inv_disable [OF ok(2), of ?off]) auto
    have fields: "st_Source cs = ?source" "st_Key cs = key" "kc_Key ops (st_Config cs) = key"
      using cs(1) ok(2) by (auto simp: ctlInv_def statusesOk_def)
    have here: "map_of s' (?source, key) = Some cs" using cs by (simp add: m)
    have "src = ?source" if "activeAt s' src key conf'" for src conf'
      using that ok(2) by (auto simp: act ctlInv_def statusesOk_def)
    then have "ctlOk ops (snd (saveStatuses (statusInsert (cs\<lparr>st_Active := True\<rparr>) s')
        (broadcastAddConfig ops (st_Config (cs\<lparr>st_Active := True\<rparr>)) c')))"
      by (intro ctlOk_activate [OF inv']) (use ok(3) st fields in auto)
    with setActive_insert [OF here fields(1,2), of True] cs ok(1) d show ?thesis
      by (simp add: EnableConfig_def statusGet_def Let_def split_def)
  qed
qed

lemma DisableConfig_ok:
  assumes "ctlOk ops c"
  shows "ctlOk ops (snd (DisableConfig key sourceStr c))"
  using assms
proof (cases rule: ctlOk_cases)
  case (err e)
  with assms show ?thesis by (simp add: DisableConfig_def)
next
  case (ok s)
  let ?source = "GetConfigSource sourceStr"
  show ?thesis
  proof (cases "\<exists>st. map_of s (?source, key) = Some st \<and> st_Active st")
    case False
    with assms ok(1) show ?thesis by (auto simp: DisableConfig_def statusGet_def Let_def split: option.splits)
  next
    case True
    then obtain st where st: "map_of s (?source, key) = Some st" "st_Active st" by blast
    let ?s = "setActive False key ?source s"
    have "ctlInv ops (?s, broadcastRemoveConfig key c)"
    proof (rule inv_remove [OF ok(2)])
      show "statusesOk ops ?s"
        using ok(2) st by (auto simp: ctlInv_def statusesOk_def map_of_setActive distinct_setActive)
      show "activeAt ?s src k conf \<longleftrightarrow> activeAt s src k conf \<and> (src, k) \<noteq> (?source, key)" for src k conf
        by (auto simp: activeAt_def map_of_setActive)
      show "broadcastRemoveConfig key c =
          (if \<exists>conf. activeAt s ?source key conf then broadcastRemoveConfig key c else c)"
        using st by (simp add: activeAt_def)
    qed
    then have "ctlOk ops (snd (saveStatuses ?s (broadcastRemoveConfig key c)))"
      by (rule ctlOk_save) (use ok(3) in simp)
    with st ok(1) show ?thesis by (simp add: DisableConfig_def statusGet_def Let_def split_def)
  qed
qed

lemma DeleteConfig_ok:
  assumes "ctlOk ops c"
  shows "ctlOk ops (snd (DeleteConfig key sourceStr c))"
proof (cases "storageLoad (ct_storage c)")
  case (Inl e)
  with assms show ?thesis by (simp add: DeleteConfig_def Let_def)
next
  case (Inr s)
  obtain err s1 c1 where d: "deleteConfig' key ConfigControllerSource (s, c) = (err, s1, c1)"
    by (cases "deleteConfig' key ConfigControllerSource (s, c)") auto
  with synced_delete [OF ctlOk_loaded [OF assms Inr], of key ConfigControllerSource] ctlOk_synced
  have "ctlOk ops c1" by auto
  with assms Inr d show ?thesis by (simp add: DeleteConfig_def Let_def)
qed

text \<open>\<^verbatim>\<open>UpdateConfig\<close> keeps the invariant if no other source has the key active.\<close>

lemma UpdateConfig_ok:
  assumes "ctlOk ops c"
    and foreign: "\<And>src conf'. activeAt (loadedStatuses c) src (kc_Key ops conf) conf' \<Longrightarrow> src = ConfigControllerSource"
  shows "ctlOk ops (snd (UpdateConfig ops conf c))"
  using assms(1)
proof (cases rule: ctlOk_cases)
  case (err e)
  with assms show ?thesis by (simp add: UpdateConfig_def)
next
  case (ok s)
  let ?key = "kc_Key ops conf"
  show ?thesis
  proof (cases "kc_Validate ops conf \<and> map_of s (ConfigControllerSource, ?key) \<noteq> None \<and> kc_Type ops conf \<noteq> None")
    case False
    with assms ok(1) show ?thesis by (auto simp: UpdateConfig_def statusGet_def Let_def split: option.splits)
  next
    case True
    then obtain ty old where ty: "kc_Type ops conf = Some ty" and old: "map_of s (ConfigControllerSource, ?key) = Some old"
      by blast
    let ?st = "\<lparr>st_Source = ConfigControllerSource, st_Key = ?key, st_Active = True, st_Valid = True,
      st_ConfigType = ty, st_Config = conf\<rparr>"
    let ?off = "\<lambda>st. st_Key st = ?key \<and> st_Source st = ConfigControllerSource \<and> st_Active st"
    obtain s' c' where d: "disableWhere ?off (s, c) = (s', c')" and inv': "ctlInv ops (s', c')"
      and st: "ct_storage c' = ct_storage c" and act: "\<And>src k conf. activeAt s' src k conf \<longleftrightarrow>
        (\<exists>st. map_of s (src, k) = Some st \<and> st_Active st \<and> \<not> ?off st \<and> st_Config st = conf)"
      by (rule inv_disable [OF ok(2), of ?off]) auto
    have "src = ConfigControllerSource" if "activeAt s' src ?key conf'" for src conf'
    proof -
      from that have "activeAt s src ?key conf'" unfolding act by (auto simp: activeAt_def)
      with foreign ok(1) show ?thesis by (simp add: loadedStatuses_def)
    qed
    then have "ctlOk ops (snd (saveStatuses (statusInsert ?st s') (broadcastAddConfig ops (st_Config ?st) c')))"
      by (intro ctlOk_activate [OF inv']) (use ok(3) st in auto)
    with True ty old ok(1) d show ?thesis by (simp add: UpdateConfig_def statusGet_def Let_def split_def)
  qed
qed

text \<open>A new observer starts with the active configurations.\<close>

lemma getActiveConfigs_iff:
  assumes "ctlInv ops (loadedStatuses c, c')"
  shows "getActiveConfigs c k = Some conf \<longleftrightarrow> (\<exists>src. activeAt (loadedStatuses c) src k conf)"
proof -
  let ?s = "loadedStatuses c"
  from assms have ok: "statusesOk ops ?s" and one: "oneActive ?s" by (simp_all add: ctlInv_def)
  have unique: "st_Config a = st_Config b" if "a \<in> set (statusList ?s)" "b \<in> set (statusList ?s)"
    "st_Active a" "st_Active b" "st_Key a = st_Key b" for a b
  proof -
    from that statusList_iff [OF ok] have m: "map_of ?s (st_Source a, st_Key a) = Some a"
      "map_of ?s (st_Source b, st_Key b) = Some b" by blast+
    then have "activeAt ?s (st_Source a) (st_Key a) (st_Config a)" "activeAt ?s (st_Source b) (st_Key a) (st_Config b)"
      using that by (auto simp: activeAt_def)
    with one have "st_Source a = st_Source b" unfolding oneActive_def by blast
    with m that(5) have "Some a = Some b" by metis
    then show ?thesis by simp
  qed
  have "fold (\<lambda>cs m. if st_Active cs then m(st_Key cs \<mapsto> st_Config cs) else m) xs Map.empty k = Some conf \<longleftrightarrow>
      (\<exists>st \<in> set xs. st_Active st \<and> st_Key st = k \<and> st_Config st = conf)" if "set xs \<subseteq> set (statusList ?s)" for xs
    using that
  proof (induction xs rule: rev_induct)
    case (snoc x xs)
    show ?case
    proof (cases "st_Active x \<and> st_Key x = k")
      case True
      have "st_Config y = st_Config x" if "y \<in> set xs" "st_Active y" "st_Key y = k" for y
        using unique [of y x] that True snoc.prems by auto
      with True show ?thesis by auto
    next
      case False
      with snoc show ?thesis by auto
    qed
  qed simp
  then have "getActiveConfigs c k = Some conf \<longleftrightarrow>
      (\<exists>st \<in> set (statusList ?s). st_Active st \<and> st_Key st = k \<and> st_Config st = conf)"
    by (simp add: getActiveConfigs_def)
  also have "\<dots> \<longleftrightarrow> (\<exists>src. activeAt ?s src k conf)"
  proof
    assume "\<exists>st \<in> set (statusList ?s). st_Active st \<and> st_Key st = k \<and> st_Config st = conf"
    then show "\<exists>src. activeAt ?s src k conf" unfolding Bex_def statusList_iff [OF ok] activeAt_def by blast
  next
    assume "\<exists>src. activeAt ?s src k conf"
    then obtain src st where st: "map_of ?s (src, k) = Some st" "st_Active st" "st_Config st = conf"
      unfolding activeAt_def by blast
    with ok have "st_Source st = src" "st_Key st = k" by (auto simp: statusesOk_def)
    with st show "\<exists>st \<in> set (statusList ?s). st_Active st \<and> st_Key st = k \<and> st_Config st = conf"
      unfolding Bex_def statusList_iff [OF ok] by blast
  qed
  finally show ?thesis .
qed

lemma RegisterObserver_ok:
  assumes "ctlOk ops c"
  shows "ctlOk ops (RegisterObserver c)"
proof -
  have s: "loadedStatuses (RegisterObserver c) = loadedStatuses c"
    by (simp add: RegisterObserver_def loadedStatuses_def)
  from assms have inv: "ctlInv ops (loadedStatuses c, c)" by (simp add: ctlOk_def)
  from getActiveConfigs_iff [OF inv] inv assms show ?thesis
    by (auto simp: ctlOk_def ctlInv_def mirrors_def s) (auto simp: RegisterObserver_def)
qed

end
