(* ===== verification/Config_Reach.thy ===== *)
theory Config_Reach
  imports Config_Controller
begin

text \<open>
  The cloud configuration controller as a transition system: the calls of
  \<^verbatim>\<open>src/pkg/cloud/config/controller.go\<close> in any order, the states they reach, and what a
  pull of one watcher leaves in the statuses.
\<close>

section \<open>Reachable controllers\<close>

text \<open>
  One call on the controller. The lock makes a call one step; the watchers of a pull are listed
  in the order in which Go happens to range over them.
\<close>

datatype 'c call =
    PullCall "(configSource \<times> 'c list) list"
  | CreateCall 'c
  | UpdateCall 'c
  | EnableCall string string
  | DisableCall string string
  | DeleteCall string string
  | RegisterCall

fun callStep :: "'c configOps \<Rightarrow> 'c call \<Rightarrow> 'c controller \<Rightarrow> 'c controller" where
  "callStep ops (PullCall ws) c = pullWatchers ops ws c"
| "callStep ops (CreateCall conf) c = snd (CreateConfig ops conf c)"
| "callStep ops (UpdateCall conf) c = snd (UpdateConfig ops conf c)"
| "callStep ops (EnableCall key src) c = snd (EnableConfig ops key src c)"
| "callStep ops (DisableCall key src) c = snd (DisableConfig key src c)"
| "callStep ops (DeleteCall key src) c = snd (DeleteConfig key src c)"
| "callStep ops RegisterCall c = RegisterObserver c"

text \<open>
  \<^verbatim>\<open>NewController\<close> and \<^verbatim>\<open>NewMemoryController\<close>: a controller without observers, on its
  storage, which pulls its watchers once before it is returned (\<^verbatim>\<open>start\<close>).
\<close>

definition startController :: "'c configOps \<Rightarrow> (configSource \<times> 'c list) list \<Rightarrow> 'c storage \<Rightarrow> 'c controller" where
  "startController ops ws storage = pullWatchers ops ws \<lparr>ct_storage = storage, ct_observers = []\<rparr>"

text \<open>
  The update of a key that another source holds active is left out of the steps: it is the one
  call that breaks the invariant.
\<close>

definition updateGuard :: "'c configOps \<Rightarrow> 'c call \<Rightarrow> 'c controller \<Rightarrow> bool" where
  "updateGuard ops call c \<longleftrightarrow>
     (case call of
        UpdateCall conf \<Rightarrow> \<forall>st \<in> set (GetStatus c).
          st_Active st \<and> st_Key st = kc_Key ops conf \<longrightarrow> st_Source st = ConfigControllerSource
      | _ \<Rightarrow> True)"

inductive reachable :: "'c configOps \<Rightarrow> 'c controller \<Rightarrow> bool" for ops where
  memory: "reachable ops (startController ops ws (MemoryStorage None))"
| stateFile: "reachable ops (startController ops ws (FileStorage True None))"
| call: "reachable ops c \<Longrightarrow> updateGuard ops call c \<Longrightarrow> reachable ops (callStep ops call c)"

lemma start_ok: "writable storage \<Longrightarrow> (\<And>s. storageLoad storage = Inr s \<Longrightarrow> s = []) \<Longrightarrow>
    ctlOk ops (startController ops ws storage)"
  unfolding startController_def
  by (rule pullWatchers_ok)
    (auto simp: ctlOk_def loadedStatuses_def ctlInv_def statusesOk_def oneActive_def mirrors_def activeAt_def
      split: sum.splits)

lemma callStep_ok:
  assumes ok: "ctlOk ops c" and guard: "updateGuard ops call c"
  shows "ctlOk ops (callStep ops call c)"
proof (cases call)
  case (UpdateCall conf)
  have "src = ConfigControllerSource" if "activeAt (loadedStatuses c) src (kc_Key ops conf) conf'" for src conf'
  proof -
    from ok have s: "statusesOk ops (loadedStatuses c)" by (simp add: ctlOk_def ctlInv_def)
    from that obtain st where st: "map_of (loadedStatuses c) (src, kc_Key ops conf) = Some st" "st_Active st"
      by (auto simp: activeAt_def)
    with s have k: "st_Source st = src" "st_Key st = kc_Key ops conf" by (simp_all add: statusesOk_def)
    with st have "st \<in> set (GetStatus c)" by (simp add: GetStatus_def statusList_iff [OF s])
    with guard st k UpdateCall show ?thesis by (simp add: updateGuard_def)
  qed
  with UpdateCall UpdateConfig_ok [OF ok] show ?thesis by simp
qed (use ok in \<open>simp_all add: pullWatchers_ok CreateConfig_ok EnableConfig_ok DisableConfig_ok
      DeleteConfig_ok RegisterObserver_ok\<close>)

lemma reachable_ok: "reachable ops c \<Longrightarrow> ctlOk ops c"
proof (induction rule: reachable.induct)
  case (memory ws)
  show ?case by (rule start_ok) simp_all
next
  case (stateFile ws)
  show ?case by (rule start_ok) simp_all
next
  case (call c call)
  then show ?case by (simp add: callStep_ok)
qed

lemma ctlOk_statuses:
  assumes "ctlOk ops c"
  shows "st \<in> set (GetStatus c) \<longleftrightarrow> map_of (loadedStatuses c) (st_Source st, st_Key st) = Some st"
proof -
  from assms have "statusesOk ops (loadedStatuses c)" by (simp add: ctlOk_def ctlInv_def)
  then show ?thesis unfolding GetStatus_def by (rule statusList_iff)
qed

lemma ctlOk_one_active:
  assumes ok: "ctlOk ops c" and "a \<in> set (GetStatus c)" "b \<in> set (GetStatus c)"
    and "st_Active a" "st_Active b" "st_Key a = st_Key b"
  shows "a = b"
proof -
  let ?s = "loadedStatuses c"
  from assms have m: "map_of ?s (st_Source a, st_Key a) = Some a" "map_of ?s (st_Source b, st_Key a) = Some b"
    by (simp_all add: ctlOk_statuses [OF ok])
  with assms have "activeAt ?s (st_Source a) (st_Key a) (st_Config a)" "activeAt ?s (st_Source b) (st_Key a) (st_Config b)"
    by (auto simp: activeAt_def)
  moreover from ok have "oneActive ?s" by (simp add: ctlOk_def ctlInv_def)
  ultimately have "st_Source a = st_Source b" unfolding oneActive_def by blast
  with m have "Some a = Some b" by metis
  then show ?thesis by simp
qed

lemma ctlOk_observer:
  assumes ok: "ctlOk ops c" and "obs \<in> set (ct_observers c)"
  shows "obs k = Some conf \<longleftrightarrow> (\<exists>st \<in> set (GetStatus c). st_Active st \<and> st_Key st = k \<and> st_Config st = conf)"
proof -
  from ok have s: "statusesOk ops (loadedStatuses c)" and "mirrors (loadedStatuses c) c"
    by (simp_all add: ctlOk_def ctlInv_def)
  with assms(2) have "obs k = Some conf \<longleftrightarrow> (\<exists>src. activeAt (loadedStatuses c) src k conf)"
    by (simp add: mirrors_def)
  also have "\<dots> \<longleftrightarrow> (\<exists>st. st \<in> set (GetStatus c) \<and> st_Active st \<and> st_Key st = k \<and> st_Config st = conf)"
  proof
    assume "\<exists>src. activeAt (loadedStatuses c) src k conf"
    then obtain src st where st: "map_of (loadedStatuses c) (src, k) = Some st" "st_Active st" "st_Config st = conf"
      unfolding activeAt_def by blast
    with s have "st_Source st = src" "st_Key st = k" by (simp_all add: statusesOk_def)
    with st show "\<exists>st. st \<in> set (GetStatus c) \<and> st_Active st \<and> st_Key st = k \<and> st_Config st = conf"
      unfolding ctlOk_statuses [OF ok] by blast
  next
    assume "\<exists>st. st \<in> set (GetStatus c) \<and> st_Active st \<and> st_Key st = k \<and> st_Config st = conf"
    then show "\<exists>src. activeAt (loadedStatuses c) src k conf"
      unfolding ctlOk_statuses [OF ok] activeAt_def by blast
  qed
  finally show ?thesis by blast
qed

section \<open>What a pull leaves\<close>

text \<open>The keys filed under a source.\<close>

definition filed :: "'c statuses \<Rightarrow> configSource \<Rightarrow> string set" where
  "filed s src = {k. map_of s (src, k) \<noteq> None}"

lemma filed_delete:
  "filed (fst (snd (deleteConfig' key source (s, c)))) src = filed s src - (if src = source then {key} else {})"
  by (auto simp: deleteConfig'_def statusGet_def Let_def split_def filed_def map_of_statusDelete split: option.splits)

lemma filed_insert:
  "filed (statusInsert st s) src = (if src = st_Source st then insert (st_Key st) (filed s src) else filed s src)"
  by (auto simp: filed_def map_of_statusInsert)

lemma filed_disable:
  assumes "statusesOk ops s"
  shows "filed (fst (disableWhere off (s, c))) src = filed s src"
proof -
  obtain s' c' where "disableWhere off (s, c) = (s', c')"
    and "\<And>x. map_of s' x = map_option (\<lambda>st. if off st then st\<lparr>st_Active := False\<rparr> else st) (map_of s x)"
    by (rule disableWhere_result [OF assms, of off c]) (rule that)
  then show ?thesis by (auto simp: filed_def)
qed

lemma synced_statusesOk: "synced ops sc \<Longrightarrow> statusesOk ops (fst sc)"
  by (simp add: synced_def ctlInv_def)

lemma filed_pullNew:
  assumes "statusesOk ops (fst sc)" and "kc_Type ops conf \<noteq> None"
  shows "filed (fst (pullNew ops source key conf sc)) src = (if src = source then insert key (filed (fst sc) src) else filed (fst sc) src)"
  using assms filed_disable [of ops "fst sc" _ "snd sc"]
  by (auto simp: pullNew_def Let_def split_def filed_insert)

lemma filed_pullConfig:
  assumes "synced ops sc" and "kc_Key ops (snd kc) = fst kc" and "kc_Type ops (snd kc) \<noteq> None"
  shows "filed (fst (pullConfig ops source kc sc)) src =
    (if src = source then insert (fst kc) (filed (fst sc) src) else filed (fst sc) src)"
proof -
  obtain key conf s c where kc: "kc = (key, conf)" "sc = (s, c)" by (cases kc; cases sc)
  from synced_delete [of ops s c key source] assms(1) kc
  have "statusesOk ops (fst (snd (deleteConfig' key source (s, c))))" by (auto intro: synced_statusesOk)
  moreover have "key \<in> filed s source" if "map_of s (source, key) = Some st" for st
    using that by (simp add: filed_def)
  ultimately show ?thesis
    using kc assms synced_statusesOk [OF assms(1)]
    by (auto simp: pullConfig_def statusGet_def filed_pullNew filed_delete split: option.splits)
qed

lemma filed_pullConfigs:
  assumes "synced ops sc" and "\<And>kc. kc \<in> set kcs \<Longrightarrow> kc_Key ops (snd kc) = fst kc \<and> kc_Type ops (snd kc) \<noteq> None"
  shows "filed (fst (fold (pullConfig ops source) kcs sc)) src =
    (if src = source then fst ` set kcs \<union> filed (fst sc) src else filed (fst sc) src)"
  using assms
proof (induction kcs arbitrary: sc)
  case (Cons kc kcs)
  from Cons.prems have "synced ops (pullConfig ops source kc sc)" by (simp add: synced_pullConfig)
  with Cons filed_pullConfig [of ops sc kc source] show ?case by simp
qed simp

lemma filed_deletes:
  "filed (fst (fold (\<lambda>st sc'. if st_Source st = source \<and> gone (st_Key st)
      then snd (deleteConfig' (st_Key st) (st_Source st) sc') else sc') sts sc)) src =
    filed (fst sc) src - {st_Key st | st. st \<in> set sts \<and> st_Source st = source \<and> src = source \<and> gone (st_Key st)}"
proof (induction sts arbitrary: sc)
  case (Cons st sts)
  obtain s c where "sc = (s, c)" by (cases sc)
  with Cons show ?case by (auto simp: filed_delete)
qed simp

lemma confsByKey_dom: "map_of (confsByKey ops confs) k \<noteq> None \<longleftrightarrow> k \<in> kc_Key ops ` set confs"
proof -
  have "map_of (fold (\<lambda>conf m. AList.update (kc_Key ops conf) conf m) confs m) k \<noteq> None \<longleftrightarrow>
      k \<in> kc_Key ops ` set confs \<or> map_of m k \<noteq> None" for m
    by (induction confs arbitrary: m) (auto simp: update_conv')
  from this [of "[]"] show ?thesis by (simp add: confsByKey_def)
qed

lemma confsByKey_set: "(k, conf) \<in> set (confsByKey ops confs) \<Longrightarrow> conf \<in> set confs"
proof -
  have sub: "snd ` set (AList.update k c m) \<subseteq> insert c (snd ` set m)" for k :: string and c :: 'a and m
    by (induction m) auto
  have "snd ` set (fold (\<lambda>conf m. AList.update (kc_Key ops conf) conf m) confs m) \<subseteq> set confs \<union> snd ` set m" for m
  proof (induction confs arbitrary: m)
    case (Cons conf confs)
    from Cons.IH [of "AList.update (kc_Key ops conf) conf m"] sub [of "kc_Key ops conf" conf m] show ?case by auto
  qed simp
  from this [of "[]"] show "(k, conf) \<in> set (confsByKey ops confs) \<Longrightarrow> conf \<in> set confs"
    by (force simp: confsByKey_def)
qed

lemma filed_pullWatcher:
  assumes sync: "synced ops sc" and known: "\<And>conf. conf \<in> set confs \<Longrightarrow> kc_Type ops conf \<noteq> None"
  shows "filed (fst (pullWatcher ops (source, confs) sc)) src =
    (if src = source then kc_Key ops ` set confs else filed (fst sc) src)"
proof -
  let ?by = "confsByKey ops confs"
  let ?del = "\<lambda>st sc'. if st_Source st = source \<and> map_of ?by (st_Key st) = None
    then snd (deleteConfig' (st_Key st) (st_Source st) sc') else sc'"
  let ?sc1 = "fold ?del (statusList (fst sc)) sc"
  have "synced ops ?sc1"
    by (rule synced_fold [OF _ sync]) (auto simp: synced_delete split: prod.splits)
  then have pulled: "filed (fst (fold (pullConfig ops source) ?by ?sc1)) src =
      (if src = source then fst ` set ?by \<union> filed (fst ?sc1) src else filed (fst ?sc1) src)"
    by (rule filed_pullConfigs) (metis prod.collapse confsByKey_keys confsByKey_set known)
  have keys: "fst ` set ?by = kc_Key ops ` set confs"
    using confsByKey_dom [of ops confs] by (auto simp: map_of_eq_None_iff)
  have listed: "\<exists>st \<in> set (statusList (fst sc)). st_Source st = source \<and> st_Key st = k" if "k \<in> filed (fst sc) source" for k
  proof -
    note ok = synced_statusesOk [OF sync]
    from that obtain st where st: "map_of (fst sc) (source, k) = Some st" by (auto simp: filed_def)
    with ok have k: "st_Source st = source" "st_Key st = k" unfolding statusesOk_def by blast+
    with st statusList_iff [OF ok, of st] show ?thesis by blast
  qed
  have gone: "filed (fst ?sc1) src = filed (fst sc) src - {st_Key st | st. st \<in> set (statusList (fst sc)) \<and>
      st_Source st = source \<and> src = source \<and> map_of ?by (st_Key st) = None}"
    by (rule filed_deletes)
  have "filed (fst ?sc1) src \<subseteq> kc_Key ops ` set confs" if "src = source"
  proof
    fix k
    assume k: "k \<in> filed (fst ?sc1) src"
    with gone that have "k \<in> filed (fst sc) source" by simp
    from listed [OF this] obtain st where st: "st \<in> set (statusList (fst sc))" "st_Source st = source" "st_Key st = k" by blast
    have "map_of ?by k \<noteq> None"
    proof
      assume "map_of ?by k = None"
      with st that gone have "k \<notin> filed (fst ?sc1) src" by (simp only: Diff_iff mem_Collect_eq) blast
      with k show False by contradiction
    qed
    then show "k \<in> kc_Key ops ` set confs" by (simp only: confsByKey_dom)
  qed
  with pulled keys gone show ?thesis by (auto simp: pullWatcher_def Let_def)
qed

text \<open>Pulling all watchers, each source at most once.\<close>

lemma filed_pulls:
  assumes "synced ops sc" and "distinct (map fst ws)"
    and "\<And>src confs conf. (src, confs) \<in> set ws \<Longrightarrow> conf \<in> set confs \<Longrightarrow> kc_Type ops conf \<noteq> None"
  shows "filed (fst (fold (pullWatcher ops) ws sc)) src =
    (case map_of ws src of Some confs \<Rightarrow> kc_Key ops ` set confs | None \<Rightarrow> filed (fst sc) src)"
  using assms
proof (induction ws arbitrary: sc)
  case (Cons w ws)
  obtain src' confs where w: "w = (src', confs)" by (cases w)
  have f: "filed (fst (pullWatcher ops w sc)) src = (if src = src' then kc_Key ops ` set confs else filed (fst sc) src)"
    unfolding w by (rule filed_pullWatcher [OF Cons.prems(1)]) (use Cons.prems(3) w in auto)
  have "filed (fst (fold (pullWatcher ops) ws (pullWatcher ops w sc))) src =
      (case map_of ws src of Some confs \<Rightarrow> kc_Key ops ` set confs | None \<Rightarrow> filed (fst (pullWatcher ops w sc)) src)"
    by (rule Cons.IH [OF synced_pullWatcher [OF Cons.prems(1)]]) (use Cons.prems(2,3) in auto)
  moreover have "map_of ws src' = None" using Cons.prems(2) w by (simp add: map_of_eq_None_iff)
  ultimately show ?case using f w by (auto split: option.splits)
qed simp

lemma filed_keys:
  assumes "ctlOk ops c"
  shows "{st_Key st | st. st \<in> set (GetStatus c) \<and> st_Source st = src} = filed (loadedStatuses c) src"
proof -
  have "statusesOk ops (loadedStatuses c)" using assms by (simp add: ctlOk_def ctlInv_def)
  then show ?thesis
    unfolding ctlOk_statuses [OF assms] filed_def statusesOk_def by (auto, blast)
qed

lemma pull_keys:
  assumes ok: "ctlOk ops c" and ws: "distinct (map fst ws)"
    and known: "\<And>src confs conf. (src, confs) \<in> set ws \<Longrightarrow> conf \<in> set confs \<Longrightarrow> kc_Type ops conf \<noteq> None"
  shows "{st_Key st | st. st \<in> set (GetStatus (pullWatchers ops ws c)) \<and> st_Source st = src} =
    (case map_of ws src of
       Some confs \<Rightarrow> kc_Key ops ` set confs
     | None \<Rightarrow> {st_Key st | st. st \<in> set (GetStatus c) \<and> st_Source st = src})"
proof -
  let ?sc = "case storageLoad (ct_storage c) of Inr s \<Rightarrow> (s, c) | Inl _ \<Rightarrow> ([], snd (saveStatuses [] c))"
  have sc: "synced ops ?sc" "fst ?sc = loadedStatuses c" by (rule pull_start [OF ok])+
  let ?r = "fold (pullWatcher ops) ws ?sc"
  have "synced ops ?r" by (rule synced_fold [OF _ sc(1)]) (rule synced_pullWatcher)
  then have "loadedStatuses (snd ?r) = fst ?r" by (simp add: synced_def loadedStatuses_def)
  then have "loadedStatuses (pullWatchers ops ws c) = fst ?r" by (simp add: pullWatchers_def Let_def)
  moreover have "filed (fst ?r) src =
      (case map_of ws src of Some confs \<Rightarrow> kc_Key ops ` set confs | None \<Rightarrow> filed (fst ?sc) src)"
    by (rule filed_pulls [OF sc(1) ws]) (rule known)
  ultimately show ?thesis
    unfolding filed_keys [OF ok] filed_keys [OF pullWatchers_ok [OF ok]] sc(2) by simp
qed

section \<open>What the methods do\<close>

text \<open>A created configuration is the active one of its key.\<close>

lemma CreateConfig_active:
  assumes ok: "ctlOk ops c" and succ: "fst (CreateConfig ops conf c) = None"
  shows "\<exists>st \<in> set (GetStatus (snd (CreateConfig ops conf c))).
    st_Source st = ConfigControllerSource \<and> st_Key st = kc_Key ops conf \<and> st_Active st \<and> st_Config st = conf"
proof -
  let ?c' = "snd (CreateConfig ops conf c)" and ?key = "kc_Key ops conf"
  have ok': "ctlOk ops ?c'" by (rule CreateConfig_ok [OF ok])
  from succ obtain s ty where s: "storageLoad (ct_storage c) = Inr s" "kc_Validate ops conf"
    "map_of s (ConfigControllerSource, ?key) = None" "kc_Type ops conf = Some ty"
    by (auto simp: CreateConfig_def Let_def statusGet_def split: if_splits sum.splits option.splits)
  let ?st = "\<lparr>st_Source = ConfigControllerSource, st_Key = ?key, st_Active = True, st_Valid = True,
    st_ConfigType = ty, st_Config = conf\<rparr>"
  let ?off = "\<lambda>st. st_Key st = ?key \<and> st_Source st \<noteq> ConfigControllerSource \<and> st_Active st"
  have "statusesOk ops s" "writable (ct_storage c)"
    using ok s(1) by (simp_all add: ctlOk_def ctlInv_def loadedStatuses_def)
  then have ok1: "statusesOk ops (statusInsert ?st s)"
    by (auto simp: statusesOk_def map_of_statusInsert statusInsert_def distinct_update update_conv')
  obtain s' c' where d: "disableWhere ?off (statusInsert ?st s, c) = (s', c')" and
    m: "\<And>x. map_of s' x = map_option (\<lambda>st. if ?off st then st\<lparr>st_Active := False\<rparr> else st) (map_of (statusInsert ?st s) x)" and
    c': "ct_storage c' = ct_storage c"
    by (rule disableWhere_result [OF ok1, of ?off c]) (rule that)
  have "loadedStatuses ?c' = s'"
    using s d c' \<open>writable (ct_storage c)\<close> by (simp add: CreateConfig_def statusGet_def Let_def split_def)
  moreover have "map_of s' (ConfigControllerSource, ?key) = Some ?st" by (simp add: m map_of_statusInsert)
  ultimately have "?st \<in> set (GetStatus ?c')" by (simp add: ctlOk_statuses [OF ok'])
  then show ?thesis by (rule bexI [rotated]) simp
qed

text \<open>A deleted configuration is gone.\<close>

lemma DeleteConfig_gone:
  assumes ok: "ctlOk ops c" and succ: "fst (DeleteConfig key sourceStr c) = None"
    and st: "st \<in> set (GetStatus (snd (DeleteConfig key sourceStr c)))"
  shows "\<not> (st_Source st = ConfigControllerSource \<and> st_Key st = key)"
proof -
  let ?c' = "snd (DeleteConfig key sourceStr c)"
  have ok': "ctlOk ops ?c'" by (rule DeleteConfig_ok [OF ok])
  from succ obtain s where s: "storageLoad (ct_storage c) = Inr s" "GetConfigSource sourceStr = ConfigControllerSource"
    by (auto simp: DeleteConfig_def Let_def split: if_splits sum.splits)
  obtain err s1 c1 where d: "deleteConfig' key ConfigControllerSource (s, c) = (err, s1, c1)"
    by (cases "deleteConfig' key ConfigControllerSource (s, c)") auto
  have "synced ops (s1, c1)" using synced_delete [OF ctlOk_loaded [OF ok s(1)], of key ConfigControllerSource] d by simp
  moreover have "?c' = c1" using s d by (simp add: DeleteConfig_def Let_def)
  ultimately have "loadedStatuses ?c' = s1" by (simp add: synced_def loadedStatuses_def)
  moreover have "map_of s1 (ConfigControllerSource, key) = None"
    using deleteConfig_absent [of key ConfigControllerSource s c] d by simp
  ultimately show ?thesis using st by (auto simp: ctlOk_statuses [OF ok'])
qed

end
