(* ===== verification/Window_Parse.thy ===== *)
theory Window_Parse
  imports Window_Calendar
begin

text \<open>
  Window strings (\<^verbatim>\<open>parseWindow\<close> and its callers in \<^verbatim>\<open>core/pkg/opencost/window.go\<close>): names
  of periods, durations with and without an offset, pairs of timestamps and pairs of dates. The
  regular expressions are written out as functions on the string. The current time is an
  argument.
\<close>

section \<open>The regular expressions\<close>

definition isUnit :: "char \<Rightarrow> bool" where
  "isUnit u \<longleftrightarrow> u = CHR ''m'' \<or> u = CHR ''h'' \<or> u = CHR ''d'' \<or> u = CHR ''w''"

text \<open>\<^verbatim>\<open>^(\d+)(m|h|d|w)$\<close>\<close>

definition matchDuration :: "string \<Rightarrow> (string \<times> char) option" where
  "matchDuration s =
     (let ds = takeWhile isDigit s
      in case dropWhile isDigit s of
           [u] \<Rightarrow> if ds \<noteq> [] \<and> isUnit u then Some (ds, u) else None
         | _ \<Rightarrow> None)"

text \<open>\<^verbatim>\<open>^(\d+)(m|h|d|w) offset (\d+)(m|h|d|w)$\<close>\<close>

definition matchDurationOffset :: "string \<Rightarrow> (string \<times> char \<times> string \<times> char) option" where
  "matchDurationOffset s =
     (let ds = takeWhile isDigit s
      in case dropWhile isDigit s of
           u # rest \<Rightarrow>
             if ds \<noteq> [] \<and> isUnit u \<and> hasPrefix rest '' offset ''
             then map_option (\<lambda>(os, v). (ds, u, os, v)) (matchDuration (drop 8 rest)) else None
         | [] \<Rightarrow> None)"

text \<open>\<^verbatim>\<open>^(\d+)[,|-](\d+)$\<close>\<close>

definition matchTimestampPair :: "string \<Rightarrow> (string \<times> string) option" where
  "matchTimestampPair s =
     (let ds = takeWhile isDigit s
      in case dropWhile isDigit s of
           c # es \<Rightarrow>
             if ds \<noteq> [] \<and> c \<in> {CHR '','', CHR ''|'', CHR ''-''} \<and> es \<noteq> [] \<and> list_all isDigit es
             then Some (ds, es) else None
         | [] \<Rightarrow> None)"

text \<open>In a pattern \<open>#\<close> stands for a digit.\<close>

fun matchPattern :: "string \<Rightarrow> string \<Rightarrow> bool" where
  "matchPattern [] s = True"
| "matchPattern (p # ps) [] = False"
| "matchPattern (p # ps) (c # s) = ((if p = CHR ''#'' then isDigit c else c = p) \<and> matchPattern ps s)"

definition rfcPattern :: string where
  "rfcPattern = ''####-##-##T##:##:##Z''"

text \<open>The expression for two dates is not anchored: the leftmost match counts.\<close>

fun matchRfc :: "string \<Rightarrow> (string \<times> string) option" where
  "matchRfc [] = None"
| "matchRfc (c # s) =
     (if matchPattern (rfcPattern @ '','' @ rfcPattern) (c # s)
      then Some (take 20 (c # s), take 20 (drop 21 (c # s))) else matchRfc s)"

definition daysIn :: "int \<Rightarrow> int \<Rightarrow> int" where
  "daysIn y m = daysBefore (isLeap y) (m + 1) - daysBefore (isLeap y) m"

text \<open>\<^verbatim>\<open>time.Parse(time.RFC3339, s)\<close> on a string of that pattern.\<close>

definition parseRFC3339 :: "string \<Rightarrow> gotime option" where
  "parseRFC3339 s =
     (let y = parseDigits (substr 0 4 s); m = parseDigits (substr 5 7 s); d = parseDigits (substr 8 10 s);
          hh = parseDigits (substr 11 13 s); mm = parseDigits (substr 14 16 s); ss = parseDigits (substr 17 19 s)
      in if 1 \<le> m \<and> m \<le> 12 \<and> 1 \<le> d \<and> d \<le> daysIn y m \<and> hh < 24 \<and> mm < 60 \<and> ss < 60
         then Some (timeDate y m d hh mm ss 0) else None)"

section \<open>Parsing\<close>

definition windowUnit :: "char \<Rightarrow> duration" where
  "windowUnit u = (if u = CHR ''h'' then Hour else if u = CHR ''d'' then 24 * Hour else if u = CHR ''w'' then Week else Minute)"

definition offsetUnit :: "char \<Rightarrow> duration" where
  "offsetUnit u = (if u = CHR ''h'' then Hour else if u = CHR ''d'' then 24 * Hour else if u = CHR ''w'' then 24 * Week else Minute)"

text \<open>The offset of the zone from the hour and minute it shows, and midnight of the current day from it.\<close>

definition shownOffset :: "gotime \<Rightarrow> duration" where
  "shownOffset now =
     (let offHr = timeHour (timeUTC now) - timeHour now;
          offMin = (timeMinute (timeUTC now) - timeMinute now) + offHr * 60
      in offMin * Minute)"

definition startOfToday :: "gotime \<Rightarrow> gotime" where
  "startOfToday now = timeAdd (timeTruncate now (24 * Hour)) (shownOffset now)"

definition parseWindow :: "string \<Rightarrow> gotime \<Rightarrow> string + window" where
  "parseWindow window now =
     (let start0 = startOfToday now
      in if window = ''today'' then Inr (NewClosedWindow start0 (timeAdd start0 (24 * Hour)))
         else if window = ''yesterday''
         then (let start = timeAdd start0 (- 24 * Hour) in Inr (NewClosedWindow start (timeAdd start (24 * Hour))))
         else if window = ''week''
         then Inr (NewClosedWindow (timeAdd start0 (- 24 * Hour * timeWeekday start0)) now)
         else if window = ''lastweek''
         then (let start = timeAdd start0 (- 24 * Hour * (timeWeekday start0 + 7))
               in Inr (NewClosedWindow start (timeAdd start (7 * 24 * Hour))))
         else if window = ''month''
         then Inr (NewClosedWindow (timeAdd start0 (- 24 * Hour * (timeDay start0 - 1))) now)
         else if window = ''lastmonth''
         then (let end' = timeAdd start0 (- 24 * Hour * (timeDay start0 - 1));
                   start = timeAdd end' (- 24 * Hour)
               in Inr (NewClosedWindow (timeAdd start (- 24 * Hour * (timeDay start - 1))) end'))
         else case matchDuration window of
           Some (ds, u) \<Rightarrow>
             (let dur = windowUnit u; num = parseDigits ds; back = wrap64 (wrap64 (- num) * dur)
              in if u = CHR ''w''
                 then Inr (NewClosedWindow (timeAdd (timeTruncate (timeAdd now back) Day) Day)
                        (timeAdd (timeTruncate now Day) Day))
                 else (let end' = timeAdd (timeTruncate now dur) dur
                       in Inr (NewClosedWindow (timeAdd end' back) end')))
         | None \<Rightarrow>
             (case matchDurationOffset window of
                Some (ds, u, os, v) \<Rightarrow>
                  (let end' = timeAdd now (wrap64 (wrap64 (- parseDigits os) * offsetUnit v))
                   in Inr (NewClosedWindow (timeAdd end' (wrap64 (wrap64 (- parseDigits ds) * windowUnit u))) end'))
              | None \<Rightarrow>
                  (case matchTimestampPair window of
                     Some (ds, es) \<Rightarrow> Inr (NewClosedWindow (timeUnix (parseDigits ds)) (timeUnix (parseDigits es)))
                   | None \<Rightarrow>
                       (case matchRfc window of
                          Some (a, b) \<Rightarrow>
                            (let parse = (\<lambda>s. case parseRFC3339 s of Some t \<Rightarrow> t | None \<Rightarrow> zeroTime)
                             in Inr (NewClosedWindow (parse a) (parse b)))
                        | None \<Rightarrow> Inl (''illegal window: '' @ window)))))"

definition ParseWindowUTC :: "gotime \<Rightarrow> string \<Rightarrow> string + window" where
  "ParseWindowUTC now window = parseWindow window (timeUTC now)"

definition ParseWindowWithOffsetString :: "gotime \<Rightarrow> string \<Rightarrow> string \<Rightarrow> string + window" where
  "ParseWindowWithOffsetString now window offset =
     (if offset = ''UTC'' \<or> offset = [] then ParseWindowUTC now window
      else case matchOffset offset of
             None \<Rightarrow> Inl (''illegal UTC offset: '' @ [CHR 0x27] @ offset @ [CHR 0x27] @ ''; should be of form '' @
                          [CHR 0x27] @ ''-07:00'' @ [CHR 0x27])
           | Some (sg, h, m) \<Rightarrow>
               (let sig = (if sg = CHR ''-'' then - 1 else 1)
                in parseWindow window (timeIn now (sig * parseDigits h * 60 * 60 + sig * parseDigits m * 60))))"

definition ParseWindowWithOffset :: "(float64 \<Rightarrow> int) \<Rightarrow> gotime \<Rightarrow> string \<Rightarrow> duration \<Rightarrow> string + window" where
  "ParseWindowWithOffset other now window offset =
     parseWindow window (timeIn now (intOfF other (durSeconds offset)))"

section \<open>Named windows are periods of the local calendar\<close>

lemma minutes_of_day: "timeHour t * 60 + timeMinute t = localNs t mod Day div Minute"
proof -
  let ?x = "localNs t mod Day"
  have "?x mod Hour = localNs t mod Hour" by (rule mod_mod_cancel) (simp add: Day_def)
  then have "timeMinute t = ?x mod Hour div Minute" by (simp add: timeMinute_def)
  moreover have "?x div Minute = (?x div Hour * Hour + ?x mod Hour) div Minute" by simp
  moreover have "(?x div Hour * Hour + ?x mod Hour) div Minute = ?x div Hour * 60 + ?x mod Hour div Minute"
    using div_mult_self3 [of Minute "?x div Hour * 60" "?x mod Hour"] by (simp add: Hour_def algebra_simps durations)
  ultimately show ?thesis by (simp add: timeHour_def)
qed

lemma whole_minutes: "localNs t mod Day div Minute * Minute = localNs t mod Day - localNs t mod Minute"
proof -
  have "localNs t mod Day mod Minute = localNs t mod Minute" by (rule mod_mod_cancel) (simp add: Day_def Hour_def)
  then show ?thesis using div_mult_mod_eq [of "localNs t mod Day" Minute] by linarith
qed

text \<open>In a zone of whole minutes the shown offset finds local midnight, also when the dates differ.\<close>

lemma startOfToday_midnight:
  assumes "tm_off now mod 60 = 0"
  shows "startOfToday now = midnight (tm_off now) (localDay now)"
proof -
  let ?u = "timeUTC now"
  have "localNs ?u mod Minute = localNs now mod Minute"
  proof -
    from assms obtain k where k: "tm_off now = 60 * k" by (auto elim!: dvdE simp flip: dvd_eq_mod_eq_0)
    have "localNs now = localNs ?u + k * Minute" by (simp add: localNs_def timeUTC_def k Minute_def)
    then show ?thesis by simp
  qed
  moreover have "shownOffset now = (timeHour ?u * 60 + timeMinute ?u) * Minute - (timeHour now * 60 + timeMinute now) * Minute"
    by (simp add: shownOffset_def Let_def algebra_simps)
  ultimately have "shownOffset now = localNs ?u mod Day - localNs now mod Day"
    unfolding minutes_of_day whole_minutes by simp
  moreover have "localNs ?u = tm_ns now" by (simp add: localNs_def timeUTC_def)
  moreover have "24 * Hour = Day" "0 < Day" by (simp_all add: durations)
  moreover have "localDay now * Day = localNs now - localNs now mod Day"
    by (simp add: localDay_def minus_mod_eq_div_mult [symmetric])
  ultimately show ?thesis
    by (simp add: startOfToday_def timeAdd_def timeTruncate_def midnight_def localNs_def)
qed

lemma date_localDay:
  assumes "localDay t = localDay u"
  shows "timeYear t = timeYear u" "timeMonth t = timeMonth u" "timeDay t = timeDay u" "timeWeekday t = timeWeekday u"
  using assms by (simp_all add: timeYear_def timeMonth_def timeDay_def timeWeekday_def Let_def)

lemma day_minus: "timeAdd (midnight off d) (- 24 * Hour * k) = midnight off (d - k)"
  using midnight_add [of off d "- k"] by (simp add: Day_def algebra_simps)

lemma day_plus: "timeAdd (midnight off d) (24 * Hour) = midnight off (d + 1)" "timeAdd (midnight off d) (- 24 * Hour) = midnight off (d - 1)"
  "timeAdd (midnight off d) (7 * 24 * Hour) = midnight off (d + 7)"
  using midnight_add [of off d 1] midnight_add [of off d "- 1"] midnight_add [of off d 7] by (simp_all add: Day_def algebra_simps)

lemma first_of_month: "localDay t - (timeDay t - 1) = dayNumber (timeYear t) (timeMonth t) 1"
  using date_day [of t] dayNumber_add [of "timeYear t" "timeMonth t" 1 "timeDay t - 1"] by simp

lemma named_windows:
  assumes "tm_off now mod 60 = 0"
  defines "off \<equiv> tm_off now" and "d \<equiv> localDay now"
    and "sunday \<equiv> localDay now - timeWeekday now" and "first \<equiv> dayNumber (timeYear now) (timeMonth now) 1"
    and "previous \<equiv> dayNumber (timeYear now) (timeMonth now - 1) 1"
  shows "parseWindow ''today'' now = Inr (NewClosedWindow (midnight off d) (midnight off (d + 1)))"
    "parseWindow ''yesterday'' now = Inr (NewClosedWindow (midnight off (d - 1)) (midnight off d))"
    "parseWindow ''week'' now = Inr (NewClosedWindow (midnight off sunday) now)"
    "parseWindow ''lastweek'' now = Inr (NewClosedWindow (midnight off (sunday - 7)) (midnight off sunday))"
    "parseWindow ''month'' now = Inr (NewClosedWindow (midnight off first) now)"
    "parseWindow ''lastmonth'' now = Inr (NewClosedWindow (midnight off previous) (midnight off first))"
proof -
  have s: "startOfToday now = midnight off d" unfolding off_def d_def by (rule startOfToday_midnight [OF assms(1)])
  note date = date_localDay [of "midnight off d" now, unfolded d_def midnight_simps, OF refl, folded d_def]
  have f: "d - (timeDay now - 1) = first" unfolding d_def first_def by (rule first_of_month)
  have p: "first - 1 - (timeDay (midnight off (first - 1)) - 1) = previous"
  proof -
    let ?t = "midnight off (first - 1)"
    define n where "n = 12 * timeYear now + timeMonth now - 1"
    define y m where "y = (n - 1) div 12" and "m = (n - 1) mod 12 + 1"
    have i: "first = dayNumber 0 (n + 1) 1" "previous = dayNumber 0 n 1"
      unfolding first_def previous_def n_def by (simp_all add: dayNumber_index [of "timeYear now"] add_diff_eq)
    have n: "12 * y + m = n" using mult_div_mod_eq [of 12 "n - 1"] by (simp add: y_def m_def)
    have m: "1 \<le> m" "m \<le> 12" using pos_mod_bound [of 12 "n - 1"] by (auto simp: m_def)
    have "dayNumber y m 1 = previous" "dayNumber y (m + 1) 1 = first"
      unfolding i dayNumber_index [of y] n [symmetric] by (simp_all add: add.assoc)
    moreover have "previous < first" unfolding i by (rule dayNumber_month_mono) simp
    ultimately have "timeDay ?t = first - 1 - previous + 1"
      using month_unique(3) [OF m, of y ?t] by simp
    then show ?thesis by simp
  qed
  have w: "timeWeekday (midnight off d) = timeWeekday now" by (rule date)
  show "parseWindow ''today'' now = Inr (NewClosedWindow (midnight off d) (midnight off (d + 1)))"
    by (simp only: parseWindow_def Let_def s day_plus) simp
  show "parseWindow ''yesterday'' now = Inr (NewClosedWindow (midnight off (d - 1)) (midnight off d))"
    by (simp only: parseWindow_def Let_def s day_plus) simp
  show "parseWindow ''week'' now = Inr (NewClosedWindow (midnight off sunday) now)"
    by (simp only: parseWindow_def Let_def s day_minus w) (simp add: sunday_def d_def)
  show "parseWindow ''lastweek'' now = Inr (NewClosedWindow (midnight off (sunday - 7)) (midnight off sunday))"
    by (simp only: parseWindow_def Let_def s day_minus day_plus w) (simp add: sunday_def d_def algebra_simps)
  show "parseWindow ''month'' now = Inr (NewClosedWindow (midnight off first) now)"
    by (simp only: parseWindow_def Let_def s day_minus date(3) f) simp
  show "parseWindow ''lastmonth'' now = Inr (NewClosedWindow (midnight off previous) (midnight off first))"
    by (simp only: parseWindow_def Let_def s day_minus day_plus date(3) f p) simp
qed

section \<open>Durations\<close>

lemma matchDuration_show:
  assumes "0 \<le> n" and "isUnit u"
  shows "matchDuration (showNat n @ [u]) = Some (showNat n, u)"
proof -
  have "\<not> isDigit u" using assms(2) by (auto simp: isUnit_def isDigit_def)
  moreover have "\<forall>c \<in> set (showNat n). isDigit c" using showNat_digits [OF assms(1)] by blast
  ultimately have "takeWhile isDigit (showNat n @ [u]) = showNat n" "dropWhile isDigit (showNat n @ [u]) = [u]"
    by (simp_all add: takeWhile_append2 dropWhile_append2)
  moreover have "showNat n \<noteq> []" using showNat_head [OF assms(1)] by auto
  ultimately show ?thesis using assms(2) by (simp add: matchDuration_def)
qed

lemma not_named:
  assumes "0 \<le> n"
  shows "showNat n @ s \<notin> {''today'', ''yesterday'', ''week'', ''lastweek'', ''month'', ''lastmonth''}"
proof -
  obtain d t where h: "showNat n = digitChar d # t" "0 \<le> d" "d < 10" using showNat_head [OF assms] by auto
  with digitChar_simps(1) [OF h(2,3)] show ?thesis by (auto simp: isDigit_def)
qed

lemma timeTruncate_next:
  assumes "0 < d"
  shows "tm_ns t < tm_ns (timeAdd (timeTruncate t d) d)" "tm_ns (timeAdd (timeTruncate t d) d) \<le> tm_ns t + d"
    "tm_ns (timeAdd (timeTruncate t d) d) mod d = 0"
  using pos_mod_bound [OF assms, of "tm_ns t"] pos_mod_sign [OF assms, of "tm_ns t"] assms
  by (simp_all add: timeAdd_def timeTruncate_def mod_diff_left_eq [symmetric])

lemma parseWindow_duration:
  assumes "w \<notin> {''today'', ''yesterday'', ''week'', ''lastweek'', ''month'', ''lastmonth''}" and "matchDuration w = Some (ds, u)"
    and "wrap64 (wrap64 (- parseDigits ds) * windowUnit u) = len"
  shows "parseWindow w now =
      (if u = CHR ''w''
       then Inr (NewClosedWindow (timeAdd (timeTruncate (timeAdd now len) Day) Day) (timeAdd (timeTruncate now Day) Day))
       else Inr (NewClosedWindow (timeAdd (timeAdd (timeTruncate now (windowUnit u)) (windowUnit u)) len)
                   (timeAdd (timeTruncate now (windowUnit u)) (windowUnit u))))"
  unfolding assms(3) [symmetric] using assms(1,2) by (simp add: parseWindow_def Let_def)

text \<open>
  A duration string gives a window of that length which ends at the next multiple of its unit,
  for weeks of a day, so that the current time lies in its last unit.
\<close>

lemma duration_window:
  assumes "0 \<le> n" and "isUnit u" and "n * windowUnit u \<le> maxInt64"
  defines "grain \<equiv> (if u = CHR ''w'' then Day else windowUnit u)"
  shows "\<exists>s e. parseWindow (showNat n @ [u]) now = Inr (NewClosedWindow s e) \<and>
    tm_ns e - tm_ns s = n * windowUnit u \<and> tm_ns now < tm_ns e \<and> tm_ns e \<le> tm_ns now + grain \<and> tm_ns e mod grain = 0"
proof -
  have unit: "0 < windowUnit u" by (simp add: windowUnit_def durations)
  then have "n \<le> n * windowUnit u" using assms(1) mult_left_mono [of 1 "windowUnit u" n] by simp
  then have n: "n \<le> maxInt64" using assms(3) by linarith
  have p: "parseDigits (showNat n) = n" using digitsVal_showNat [OF assms(1)] n by (simp add: parseDigits_def)
  have nn: "0 \<le> n * windowUnit u" using assms(1) unit by simp
  have "wrap64 (- n) = - n" by (rule wrap64_id) (use assms(1) n in \<open>simp_all add: minInt64_def maxInt64_def\<close>)
  moreover have "wrap64 (- n * windowUnit u) = - (n * windowUnit u)"
    using wrap64_id [of "- (n * windowUnit u)"] assms(3) nn by (simp add: minInt64_def maxInt64_def)
  ultimately have bk: "wrap64 (wrap64 (- parseDigits (showNat n)) * windowUnit u) = - (n * windowUnit u)" by (simp add: p)
  have pw: "parseWindow (showNat n @ [u]) now =
      (if u = CHR ''w''
       then Inr (NewClosedWindow (timeAdd (timeTruncate (timeAdd now (- (n * windowUnit u))) Day) Day) (timeAdd (timeTruncate now Day) Day))
       else Inr (NewClosedWindow (timeAdd (timeAdd (timeTruncate now (windowUnit u)) (windowUnit u)) (- (n * windowUnit u)))
                   (timeAdd (timeTruncate now (windowUnit u)) (windowUnit u))))"
    by (rule parseWindow_duration [OF not_named [OF assms(1)] matchDuration_show [OF assms(1,2)] bk])
  have g: "0 < grain" using unit by (simp add: grain_def durations)
  note nx = timeTruncate_next [OF g, of now]
  show ?thesis
  proof (cases "u = CHR ''w''")
    case True
    have "(tm_ns now - n * Week) mod Day = tm_ns now mod Day"
      using mod_mult_self1 [of "tm_ns now" "- (n * 7)" Day] by (simp add: Week_def algebra_simps)
    then have "tm_ns (timeAdd (timeTruncate now Day) Day) -
        tm_ns (timeAdd (timeTruncate (timeAdd now (- (n * Week))) Day) Day) = n * Week"
      by (simp add: timeAdd_def timeTruncate_def durations)
    with True nx pw show ?thesis by (intro exI) (auto simp: grain_def windowUnit_def)
  next
    case False
    have "tm_ns e - tm_ns (timeAdd e (- (n * windowUnit u))) = n * windowUnit u" for e by (simp add: timeAdd_def)
    with False nx pw show ?thesis by (intro exI) (auto simp: grain_def)
  qed
qed

end
