(* ===== verification/Scrape_Parser.thy ===== *)
theory Scrape_Parser
  imports Go_Unicode "HOL-Library.AList"
begin

text \<open>
  The parser of the metric text format that scrape targets serve,
  \<^verbatim>\<open>modules/collector-source/pkg/scrape/parser\<close>. The reader is the list of bytes it would
  deliver, so the lexer sees the runes of it and its only failing read is the end of the input.
  \<^verbatim>\<open>strconv.ParseFloat\<close> and \<^verbatim>\<open>strconv.ParseInt\<close> are modelled on the strings the lexer can
  pass; hexadecimal floats need an \<^verbatim>\<open>x\<close>, which is in no value token. The tables of
  \<^verbatim>\<open>unicode.IsLetter\<close> and \<^verbatim>\<open>unicode.IsDigit\<close> above ASCII are the arguments \<open>letters\<close> and
  \<open>digits\<close>.
\<close>

section \<open>Runes\<close>

definition isOneOf :: "nat \<Rightarrow> string \<Rightarrow> bool" where
  "isOneOf r chars = (r \<in> set (map of_char chars))"

definition isAlphaNumeric :: "(nat \<Rightarrow> bool) \<Rightarrow> (nat \<Rightarrow> bool) \<Rightarrow> nat \<Rightarrow> bool" where
  "isAlphaNumeric letters digits r = (isLetterRune letters r \<or> isDigitRune digits r)"

definition isAlphaNumericUnderscore :: "(nat \<Rightarrow> bool) \<Rightarrow> (nat \<Rightarrow> bool) \<Rightarrow> nat \<Rightarrow> bool" where
  "isAlphaNumericUnderscore letters digits r = (isAlphaNumeric letters digits r \<or> r = 0x5F)"

section \<open>The lexer\<close>

datatype scrapeTokenType =
    ScEof | ScComment | ScOpenBracket | ScCloseBracket | ScOpenSquareBracket | ScCloseSquareBracket
  | ScComma | ScEqual | ScString | ScLiteral | ScValue | ScTimestamp

record scrapeToken =
  sct_Type :: scrapeTokenType
  sct_Value :: string

definition scToken :: "scrapeTokenType \<Rightarrow> string \<Rightarrow> scrapeToken" where
  "scToken ty v = \<lparr>sct_Type = ty, sct_Value = v\<rparr>"

fun lexComment :: "nat list \<Rightarrow> string \<times> nat list" where
  "lexComment [] = ([], [])"
| "lexComment (r # rs) =
     (if r = 10 then ([], rs) else (let (s, rest) = lexComment rs in (encodeRune r @ s, rest)))"

text \<open>
  After a backslash the next rune decides; of an unknown escape only the backslash is written.
\<close>

fun lexStr :: "nat list \<Rightarrow> string \<times> nat list" where
  "lexStr [] = ([], [])"
| "lexStr (r # rs) =
     (if r = 0x5C
      then (case rs of
              [] \<Rightarrow> ([], [])
            | n # rs' \<Rightarrow>
                (let (s, rest) = lexStr rs'
                 in if n = 110 then (encodeRune 10 @ s, rest)
                    else if n = 0x5C then (encodeRune 0x5C @ s, rest)
                    else if n = 0x22 then (encodeRune 0x22 @ s, rest)
                    else (encodeRune r @ s, rest)))
      else if r \<noteq> 0x22 then (let (s, rest) = lexStr rs in (encodeRune r @ s, rest))
      else ([], rs))"

fun lexLiteral :: "(nat \<Rightarrow> bool) \<Rightarrow> (nat \<Rightarrow> bool) \<Rightarrow> nat list \<Rightarrow> string \<times> nat list" where
  "lexLiteral letters digits [] = ([], [])"
| "lexLiteral letters digits (r # rs) =
     (if isAlphaNumericUnderscore letters digits r
      then (let (s, rest) = lexLiteral letters digits rs in (encodeRune r @ s, rest))
      else ([], r # rs))"

text \<open>The rune that ends a number is read and not put back.\<close>

fun lexFloat :: "(nat \<Rightarrow> bool) \<Rightarrow> nat list \<Rightarrow> string \<times> nat list" where
  "lexFloat digits [] = ([], [])"
| "lexFloat digits (r # rs) =
     (if isOneOf r ''NaInf+-._eE'' \<or> isDigitRune digits r
      then (let (s, rest) = lexFloat digits rs in (encodeRune r @ s, rest))
      else ([], rs))"

fun lexNext :: "(nat \<Rightarrow> bool) \<Rightarrow> (nat \<Rightarrow> bool) \<Rightarrow> nat list \<Rightarrow> scrapeToken \<times> nat list" where
  "lexNext letters digits [] = (scToken ScEof [], [])"
| "lexNext letters digits (r # rs) =
     (if r = 0x23 then (let (v, rest) = lexComment rs in (scToken ScComment v, rest))
      else if r = 0x7B then (scToken ScOpenBracket ''{'', rs)
      else if r = 0x7D then (scToken ScCloseBracket ''}'', rs)
      else if r = 0x2C then (scToken ScComma '','', rs)
      else if r = 0x3D then (scToken ScEqual ''='', rs)
      else if r = 0x22 then (let (v, rest) = lexStr rs in (scToken ScString v, rest))
      else if isSpaceRune r then lexNext letters digits rs
      else if isLetterRune letters r
      then (let (lit, rest) = lexLiteral letters digits (r # rs)
            in if lit = ''NaN'' \<or> lit = ''Inf'' then (scToken ScValue lit, rest)
               else (scToken ScLiteral lit, rest))
      else if isDigitRune digits r \<or> r = 0x2E \<or> r = 0x2B \<or> r = 0x2D
      then (let (v, rest) = lexFloat digits (r # rs) in (scToken ScValue v, rest))
      else lexNext letters digits rs)"

section \<open>Numbers\<close>

text \<open>
  \<^verbatim>\<open>strconv.ParseFloat\<close>: \<open>None\<close> is an error, of syntax or of range. An exponent stops growing
  once it has reached 10000, as in the library.
\<close>

definition lowerAscii :: "char \<Rightarrow> char" where
  "lowerAscii c = (let n = of_char c :: nat in if 65 \<le> n \<and> n \<le> 90 then char_of (n + 32) else c)"

definition specialFloat :: "string \<Rightarrow> float64 option" where
  "specialFloat s =
     (let l = map lowerAscii s
      in if l = ''nan'' then Some NaN
         else if l \<in> {''inf'', ''infinity'', ''+inf'', ''+infinity''} then Some PosInf
         else if l \<in> {''-inf'', ''-infinity''} then Some NegInf
         else None)"

text \<open>An underscore stands between two digits.\<close>

fun underscoreOK :: "bool \<Rightarrow> string \<Rightarrow> bool" where
  "underscoreOK afterDigit [] = True"
| "underscoreOK afterDigit (c # s) =
     (if c = CHR ''_'' then afterDigit \<and> (case s of [] \<Rightarrow> False | d # _ \<Rightarrow> isDigit d) \<and> underscoreOK False s
      else underscoreOK (isDigit c) s)"

definition isDigitOrUnderscore :: "char \<Rightarrow> bool" where
  "isDigitOrUnderscore c = (isDigit c \<or> c = CHR ''_'')"

definition isSign :: "char \<Rightarrow> bool" where
  "isSign c = (c = CHR ''+'' \<or> c = CHR ''-'')"

fun cappedExponent :: "int \<Rightarrow> string \<Rightarrow> int" where
  "cappedExponent e [] = e"
| "cappedExponent e (c # s) = cappedExponent (if e < 10000 then e * 10 + digitVal c else e) s"

definition pow10 :: "int \<Rightarrow> rat" where
  "pow10 e = (if 0 \<le> e then 10 ^ nat e else 1 / 10 ^ nat (- e))"

text \<open>The exponent part after the mantissa: \<open>None\<close> if it is not well formed.\<close>

definition readExponent :: "string \<Rightarrow> int option" where
  "readExponent s =
     (case s of
        [] \<Rightarrow> Some 0
      | c # t \<Rightarrow>
          if c \<noteq> CHR ''e'' \<and> c \<noteq> CHR ''E'' then None
          else (let neg = (t \<noteq> [] \<and> hd t = CHR ''-'');
                    ds = (if t \<noteq> [] \<and> isSign (hd t) then tl t else t)
                in if ds = [] \<or> \<not> isDigit (hd ds) \<or> \<not> list_all isDigitOrUnderscore ds then None
                   else (let e = cappedExponent 0 (filter isDigit ds) in Some (if neg then - e else e))))"

definition parseDecimal :: "string \<Rightarrow> rat option" where
  "parseDecimal s =
     (let whole = takeWhile isDigitOrUnderscore s;
          rest = dropWhile isDigitOrUnderscore s;
          dot = (rest \<noteq> [] \<and> hd rest = CHR ''.'');
          frac = (if dot then takeWhile isDigitOrUnderscore (tl rest) else []);
          ex = (if dot then dropWhile isDigitOrUnderscore (tl rest) else rest);
          wd = filter isDigit whole; fd = filter isDigit frac
      in if wd @ fd = [] \<or> \<not> underscoreOK False s then None
         else map_option (\<lambda>e. of_int (digitsVal 0 (wd @ fd)) * pow10 (e - int (length fd))) (readExponent ex))"

definition ParseFloat :: "string \<Rightarrow> float64 option" where
  "ParseFloat s =
     (case specialFloat s of
        Some f \<Rightarrow> Some f
      | None \<Rightarrow>
          (let neg = (s \<noteq> [] \<and> hd s = CHR ''-'');
               body = (if s \<noteq> [] \<and> isSign (hd s) then tl s else s)
           in case parseDecimal body of
                None \<Rightarrow> None
              | Some x \<Rightarrow> (case fl (if neg then - x else x) of Fin q \<Rightarrow> Some (Fin q) | _ \<Rightarrow> None)))"

text \<open>\<^verbatim>\<open>strconv.ParseInt(s, 10, 64)\<close>\<close>

definition ParseInt :: "string \<Rightarrow> int option" where
  "ParseInt s =
     (let neg = (s \<noteq> [] \<and> hd s = CHR ''-'');
          ds = (if s \<noteq> [] \<and> isSign (hd s) then tl s else s)
      in if ds = [] \<or> \<not> list_all isDigit ds then None
         else (let n = (if neg then - digitsVal 0 ds else digitsVal 0 ds)
               in if minInt64 \<le> n \<and> n \<le> maxInt64 then Some n else None))"

section \<open>The parser\<close>

text \<open>A timestamp is kept as the nanoseconds since the epoch, whatever zone it is shown in.\<close>

record metricRecord =
  mr_Name :: string
  mr_Labels :: "string gomap"
  mr_Value :: float64
  mr_Timestamp :: "int option"

datatype scrapeError =
    ExpectedLiteral scrapeToken
  | ExpectedValue scrapeToken
  | BadValue string
  | BadTimestamp string
  | ExpectedLabelName scrapeToken
  | ExpectedEqual scrapeToken
  | ExpectedString scrapeToken

record scrapeParser =
  scp_lex :: "nat list"
  scp_current :: scrapeToken

definition scpAdvance :: "(nat \<Rightarrow> bool) \<Rightarrow> (nat \<Rightarrow> bool) \<Rightarrow> scrapeParser \<Rightarrow> scrapeParser" where
  "scpAdvance letters digits p =
     (let (t, rest) = lexNext letters digits (scp_lex p) in p\<lparr>scp_lex := rest, scp_current := t\<rparr>)"

definition scpType :: "scrapeParser \<Rightarrow> scrapeTokenType" where
  "scpType p = sct_Type (scp_current p)"

definition scpValue :: "scrapeParser \<Rightarrow> string" where
  "scpValue p = sct_Value (scp_current p)"

definition parseValueAndTimestamp ::
  "(nat \<Rightarrow> bool) \<Rightarrow> (nat \<Rightarrow> bool) \<Rightarrow> scrapeParser \<Rightarrow> scrapeError + (float64 \<times> int option \<times> scrapeParser)" where
  "parseValueAndTimestamp letters digits p =
     (if scpType p \<noteq> ScValue then Inl (ExpectedValue (scp_current p))
      else case ParseFloat (scpValue p) of
             None \<Rightarrow> Inl (BadValue (scpValue p))
           | Some v \<Rightarrow>
               (let p1 = scpAdvance letters digits p
                in if scpType p1 = ScValue
                   then (case ParseInt (scpValue p1) of
                           None \<Rightarrow> Inl (BadTimestamp (scpValue p1))
                         | Some t \<Rightarrow> Inr (v, Some (wrap64 (t * 1000000)), scpAdvance letters digits p1))
                   else Inr (v, None, p1)))"

definition parseLabelValuePair ::
  "(nat \<Rightarrow> bool) \<Rightarrow> (nat \<Rightarrow> bool) \<Rightarrow> scrapeParser \<Rightarrow> scrapeError + (string \<times> string \<times> scrapeParser)" where
  "parseLabelValuePair letters digits p =
     (if scpType p \<noteq> ScLiteral then Inl (ExpectedLabelName (scp_current p))
      else (let p1 = scpAdvance letters digits p
            in if scpType p1 \<noteq> ScEqual then Inl (ExpectedEqual (scp_current p1))
               else (let p2 = scpAdvance letters digits p1
                     in if scpType p2 \<noteq> ScString then Inl (ExpectedString (scp_current p2))
                        else Inr (scpValue p, scpValue p2, scpAdvance letters digits p2))))"

text \<open>Every token but the end of the input consumes runes, so the loops end.\<close>

definition scpLeft :: "scrapeParser \<Rightarrow> nat" where
  "scpLeft p = length (scp_lex p) + (if scpType p = ScEof then 0 else 1)"

lemma lexer_shorter:
  "length (snd (lexComment rs)) \<le> length rs" "length (snd (lexStr rs)) \<le> length rs"
  "length (snd (lexLiteral letters digits rs)) \<le> length rs" "length (snd (lexFloat digits rs)) \<le> length rs"
proof -
  show "length (snd (lexComment rs)) \<le> length rs" by (induction rs) (simp_all add: case_prod_unfold Let_def)
  show "length (snd (lexStr rs)) \<le> length rs"
  proof (induction rs rule: lexStr.induct)
    case (2 r rs)
    show ?case
    proof (cases rs)
      case (Cons n rs')
      show ?thesis
      proof (cases "r = 0x5C")
        case True
        with Cons have "length (snd (lexStr (r # rs))) = length (snd (lexStr rs'))"
          by (simp add: case_prod_unfold Let_def)
        with "2.IH"(1) [OF True Cons] Cons show ?thesis by simp
      next
        case False
        with "2.IH"(2) show ?thesis by (auto simp: case_prod_unfold Let_def)
      qed
    qed simp
  qed simp
  show "length (snd (lexLiteral letters digits rs)) \<le> length rs" by (induction rs) (simp_all add: case_prod_unfold Let_def)
  show "length (snd (lexFloat digits rs)) \<le> length rs" by (induction rs) (simp_all add: case_prod_unfold Let_def)
qed

lemma lexNext_left:
  "length (snd (lexNext letters digits rs)) + (if sct_Type (fst (lexNext letters digits rs)) = ScEof then 0 else 1)
     \<le> length rs"
proof (induction rs)
  case (Cons r rs)
  have lit: "length (snd (lexLiteral letters digits (r # rs))) \<le> length rs" if "isLetterRune letters r"
    using lexer_shorter(3) [of letters digits rs] that
    by (simp add: isAlphaNumericUnderscore_def isAlphaNumeric_def case_prod_unfold Let_def)
  have num: "length (snd (lexFloat digits (r # rs))) \<le> length rs"
    using lexer_shorter(4) [of digits rs] by (simp add: case_prod_unfold Let_def)
  show ?case
    using Cons lit num lexer_shorter(1,2) [of rs]
    by (auto simp: scToken_def case_prod_unfold Let_def simp del: lexLiteral.simps lexFloat.simps)
qed (simp add: scToken_def)

lemma scpAdvance_left: "scpType p \<noteq> ScEof \<Longrightarrow> scpLeft (scpAdvance letters digits p) < scpLeft p"
  using lexNext_left [of letters digits "scp_lex p"]
  by (auto simp: scpLeft_def scpAdvance_def scpType_def case_prod_unfold Let_def split: if_splits)

lemma parseLabelValuePair_left:
  "parseLabelValuePair letters digits p = Inr (n, v, p') \<Longrightarrow> scpLeft p' < scpLeft p"
  using scpAdvance_left [of p letters digits] scpAdvance_left [of "scpAdvance letters digits p" letters digits]
    scpAdvance_left [of "scpAdvance letters digits (scpAdvance letters digits p)" letters digits]
  by (auto simp: parseLabelValuePair_def Let_def split: if_splits)

lemma parseValueAndTimestamp_left:
  "parseValueAndTimestamp letters digits p = Inr (v, ts, p') \<Longrightarrow> scpLeft p' < scpLeft p"
  using scpAdvance_left [of p letters digits] scpAdvance_left [of "scpAdvance letters digits p" letters digits]
  by (auto simp: parseValueAndTimestamp_def Let_def split: if_splits option.splits)

function parseLabels ::
  "(nat \<Rightarrow> bool) \<Rightarrow> (nat \<Rightarrow> bool) \<Rightarrow> string gomap \<Rightarrow> scrapeParser \<Rightarrow> scrapeError + (string gomap \<times> scrapeParser)" where
  "parseLabels letters digits m p =
     (if scpType p = ScComma then parseLabels letters digits m (scpAdvance letters digits p)
      else if scpType p = ScCloseBracket then Inr (m, p)
      else case parseLabelValuePair letters digits p of
             Inl err \<Rightarrow> Inl err
           | Inr (n, v, p1) \<Rightarrow> parseLabels letters digits (AList.update n v m) p1)"
  by pat_completeness auto
termination
proof (relation "measure (\<lambda>(letters, digits, m, p). scpLeft p)", goal_cases)
  case (2 letters digits m p)
  then show ?case using scpAdvance_left [of p letters digits] by simp
next
  case (3 letters digits m p a n b v p1)
  then show ?case using parseLabelValuePair_left [of letters digits p n v p1] by simp
qed simp

declare parseLabels.simps [simp del]

definition parseMetric ::
  "(nat \<Rightarrow> bool) \<Rightarrow> (nat \<Rightarrow> bool) \<Rightarrow> scrapeParser \<Rightarrow> scrapeError + (metricRecord \<times> scrapeParser)" where
  "parseMetric letters digits p =
     (if scpType p \<noteq> ScLiteral then Inl (ExpectedLiteral (scp_current p))
      else (let p1 = scpAdvance letters digits p;
                record' = (\<lambda>m v ts. \<lparr>mr_Name = scpValue p, mr_Labels = m, mr_Value = v, mr_Timestamp = ts\<rparr>)
            in if scpType p1 \<noteq> ScOpenBracket
               then (case parseValueAndTimestamp letters digits p1 of
                       Inl err \<Rightarrow> Inl err
                     | Inr (v, ts, p2) \<Rightarrow> Inr (record' [] v ts, p2))
               else (case parseLabels letters digits [] (scpAdvance letters digits p1) of
                       Inl err \<Rightarrow> Inl err
                     | Inr (m, p2) \<Rightarrow>
                         (case parseValueAndTimestamp letters digits (scpAdvance letters digits p2) of
                            Inl err \<Rightarrow> Inl err
                          | Inr (v, ts, p3) \<Rightarrow> Inr (record' m v ts, p3)))))"

lemma scpAdvance_le: "scpLeft (scpAdvance letters digits p) \<le> scpLeft p"
  using lexNext_left [of letters digits "scp_lex p"]
  by (auto simp: scpLeft_def scpAdvance_def scpType_def case_prod_unfold Let_def split: if_splits)

lemma parseLabels_left: "parseLabels letters digits m p = Inr (m', p') \<Longrightarrow> scpLeft p' \<le> scpLeft p"
proof (induction letters digits m p rule: parseLabels.induct)
  case (1 letters digits m p)
  from "1.prems" show ?case
  proof (subst (asm) parseLabels.simps, cases "scpType p = ScComma", goal_cases)
    case 1
    then show ?case using "1.IH"(1) [OF 1(3)] scpAdvance_le [of letters digits p] by simp
  next
    case 2
    show ?case
    proof (cases "scpType p = ScCloseBracket")
      case False
      with 2 obtain n v p1 where q: "parseLabelValuePair letters digits p = Inr (n, v, p1)"
        "parseLabels letters digits (AList.update n v m) p1 = Inr (m', p')"
        by (auto split: sum.splits)
      from "1.IH"(2) [OF 2(3) False q(1) refl refl q(2)] parseLabelValuePair_left [OF q(1)] show ?thesis by simp
    qed (use 2 in simp)
  qed
qed

lemma parseMetric_left: "parseMetric letters digits p = Inr (r, p') \<Longrightarrow> scpLeft p' < scpLeft p"
proof -
  assume a: "parseMetric letters digits p = Inr (r, p')"
  let ?a = "scpAdvance letters digits"
  from a have lit: "scpType p = ScLiteral" by (auto simp: parseMetric_def split: if_splits)
  then have p1: "scpLeft (?a p) < scpLeft p" using scpAdvance_left [of p letters digits] by simp
  show ?thesis
  proof (cases "scpType (?a p) = ScOpenBracket")
    case False
    with a lit obtain v ts where "parseValueAndTimestamp letters digits (?a p) = Inr (v, ts, p')"
      by (auto simp: parseMetric_def Let_def split: sum.splits)
    with p1 parseValueAndTimestamp_left show ?thesis by fastforce
  next
    case True
    with a lit obtain m p2 v ts where "parseLabels letters digits [] (?a (?a p)) = Inr (m, p2)"
      "parseValueAndTimestamp letters digits (?a p2) = Inr (v, ts, p')"
      by (auto simp: parseMetric_def Let_def split: sum.splits)
    with p1 parseLabels_left parseValueAndTimestamp_left scpAdvance_le show ?thesis
      by (meson le_less_trans less_le_trans order_less_imp_le)
  qed
qed

function parseLoop ::
  "(nat \<Rightarrow> bool) \<Rightarrow> (nat \<Rightarrow> bool) \<Rightarrow> metricRecord list \<Rightarrow> scrapeParser \<Rightarrow> scrapeError + metricRecord list" where
  "parseLoop letters digits metrics p =
     (if scpType p = ScEof then Inr metrics
      else if scpType p = ScComment then parseLoop letters digits metrics (scpAdvance letters digits p)
      else case parseMetric letters digits p of
             Inl err \<Rightarrow> Inl err
           | Inr (m, p1) \<Rightarrow> parseLoop letters digits (metrics @ [m]) p1)"
  by pat_completeness auto
termination
proof (relation "measure (\<lambda>(letters, digits, metrics, p). scpLeft p)", goal_cases)
  case (2 letters digits metrics p)
  then show ?case using scpAdvance_left [of p letters digits] by simp
next
  case (3 letters digits metrics p a m p1)
  then show ?case using parseMetric_left [of letters digits p m p1] by simp
qed simp

declare parseLoop.simps [simp del]

text \<open>A new parser has the zero token, which is the end token, until the first advance.\<close>

definition scrapeParse ::
  "(nat \<Rightarrow> bool) \<Rightarrow> (nat \<Rightarrow> bool) \<Rightarrow> string \<Rightarrow> scrapeError + metricRecord list" where
  "scrapeParse letters digits s =
     parseLoop letters digits []
       (scpAdvance letters digits \<lparr>scp_lex = runesOf s, scp_current = scToken ScEof []\<rparr>)"

end
