(* ===== verification/Scrape_Text.thy ===== *)
theory Scrape_Text
  imports Scrape_Parser
begin

text \<open>
  The text format as its grammar describes it, and that the parser reads it back: lines that are
  comments or samples, with escaped label values of arbitrary runes, are parsed to their
  records.
\<close>

section \<open>The text of samples\<close>

definition ascii :: "string \<Rightarrow> nat list" where
  "ascii s = map of_char s"

definition encodeRunes :: "nat list \<Rightarrow> string" where
  "encodeRunes rs = concat (map encodeRune rs)"

definition validRune :: "nat \<Rightarrow> bool" where
  "validRune r \<longleftrightarrow> r < 0xD800 \<or> 0xDFFF < r \<and> r \<le> 0x10FFFF"

definition escapeRune :: "nat \<Rightarrow> nat list" where
  "escapeRune r =
     (if r = 10 then [0x5C, 110] else if r = 0x5C then [0x5C, 0x5C] else if r = 0x22 then [0x5C, 0x22] else [r])"

datatype expoLine =
    CommentLine "nat list"
  | SampleLine string "(string \<times> nat list) list" string "int option"

definition labelText :: "string \<times> nat list \<Rightarrow> nat list" where
  "labelText l = ascii (fst l) @ [0x3D, 0x22] @ concat (map escapeRune (snd l)) @ [0x22]"

fun labelsText :: "(string \<times> nat list) list \<Rightarrow> nat list" where
  "labelsText [] = []"
| "labelsText [l] = labelText l"
| "labelsText (l # ls) = labelText l @ 0x2C # labelsText ls"

fun lineText :: "expoLine \<Rightarrow> nat list" where
  "lineText (CommentLine c) = 0x23 # c @ [10]"
| "lineText (SampleLine name labels value ts) =
     ascii name @ (if labels = [] then [] else 0x7B # labelsText labels @ [0x7D]) @
     0x20 # ascii value @ (case ts of None \<Rightarrow> [] | Some t \<Rightarrow> 0x20 # ascii (showInt t)) @ [10]"

definition exposition :: "expoLine list \<Rightarrow> nat list" where
  "exposition ls = concat (map lineText ls)"

definition asciiAlnum :: "char \<Rightarrow> bool" where
  "asciiAlnum c \<longleftrightarrow> isAlphaNumericUnderscore (\<lambda>_. False) (\<lambda>_. False) (of_char c)"

definition wfName :: "string \<Rightarrow> bool" where
  "wfName n \<longleftrightarrow> n \<noteq> [] \<and> isLetterRune (\<lambda>_. False) (of_char (hd n)) \<and> list_all asciiAlnum n \<and> n \<noteq> ''NaN'' \<and> n \<noteq> ''Inf''"

definition floatChar :: "char \<Rightarrow> bool" where
  "floatChar c \<longleftrightarrow> c \<in> set ''NaInf+-._eE'' \<or> isDigit c"

definition wfValue :: "string \<Rightarrow> bool" where
  "wfValue w \<longleftrightarrow> ParseFloat w \<noteq> None \<and>
     (w = ''NaN'' \<or> w = ''Inf'' \<or>
      w \<noteq> [] \<and> (isDigit (hd w) \<or> hd w = CHR ''.'' \<or> isSign (hd w)) \<and> list_all floatChar w)"

fun wfLine :: "expoLine \<Rightarrow> bool" where
  "wfLine (CommentLine c) \<longleftrightarrow> list_all validRune c \<and> 10 \<notin> set c"
| "wfLine (SampleLine name labels value ts) \<longleftrightarrow>
     wfName name \<and> list_all (\<lambda>(n, v). wfName n \<and> list_all validRune v) labels \<and> distinct (map fst labels) \<and>
     wfValue value \<and> (case ts of None \<Rightarrow> True | Some t \<Rightarrow> minInt64 \<le> t \<and> t \<le> maxInt64)"

fun lineRecords :: "expoLine \<Rightarrow> metricRecord list" where
  "lineRecords (CommentLine c) = []"
| "lineRecords (SampleLine name labels value ts) =
     [\<lparr>mr_Name = name, mr_Labels = map (\<lambda>(n, v). (n, encodeRunes v)) labels,
       mr_Value = the (ParseFloat value), mr_Timestamp = map_option (\<lambda>t. wrap64 (t * 1000000)) ts\<rparr>]"

section \<open>Runes and bytes\<close>

lemma encodeRune_ascii: "(of_char c :: nat) < 0x80 \<Longrightarrow> encodeRune (of_char c) = [c]"
  by (simp add: encodeRune_def)

lemma of_char_char_of: "n < 256 \<Longrightarrow> (of_char (char_of (n :: nat)) :: nat) = n"
  by (simp add: of_char_of)

lemma low_bits:
  "a < 64 \<Longrightarrow> (0x80 + a) mod 64 = (a :: nat)" "a < 32 \<Longrightarrow> (0xC0 + a) mod 32 = (a :: nat)"
  "a < 16 \<Longrightarrow> (0xE0 + a) mod 16 = (a :: nat)" "a < 8 \<Longrightarrow> (0xF0 + a) mod 8 = (a :: nat)"
  by (simp_all add: mod_add_left_eq [symmetric] del: mod_add_left_eq)

lemma decode_two:
  assumes "2 \<le> a" and "a < 32" and "b < 64"
  shows "decodeRune (map char_of [0xC0 + a, 0x80 + b] @ s) = (a * 64 + b, 2)"
proof -
  have "utf8First (0xC0 + a) = Some (2, 0x80, 0xBF)" using assms by (simp add: utf8First_def)
  with assms low_bits(1) [of b] low_bits(2) [of a] show ?thesis
    by (simp add: decodeRune_def of_char_char_of decodeTail_def Let_def)
qed

lemma decode_three:
  assumes "a < 16" and "b < 64" and "c < 64" and "a = 0 \<Longrightarrow> 32 \<le> b" and "a = 13 \<Longrightarrow> b < 32"
  shows "decodeRune (map char_of [0xE0 + a, 0x80 + b, 0x80 + c] @ s) = (a * 4096 + b * 64 + c, 3)"
proof -
  have "\<exists>lo hi. utf8First (0xE0 + a) = Some (3, lo, hi) \<and> lo \<le> 0x80 + b \<and> 0x80 + b \<le> hi"
    using assms by (cases "a = 0"; cases "a = 13") (auto simp: utf8First_def)
  then obtain lo hi where "utf8First (0xE0 + a) = Some (3, lo, hi)" "\<not> 0x80 + b < lo" "\<not> hi < 0x80 + b"
    by (meson linorder_not_le)
  with assms low_bits(1) [of b] low_bits(1) [of c] low_bits(3) [of a] show ?thesis
    by (simp add: decodeRune_def of_char_char_of decodeTail_def Let_def contByte_def)
qed

lemma decode_four:
  assumes "a < 5" and "b < 64" and "c < 64" and "d < 64" and "a = 0 \<Longrightarrow> 16 \<le> b" and "a = 4 \<Longrightarrow> b < 16"
  shows "decodeRune (map char_of [0xF0 + a, 0x80 + b, 0x80 + c, 0x80 + d] @ s) =
    (a * 262144 + b * 4096 + c * 64 + d, 4)"
proof -
  have "\<exists>lo hi. utf8First (0xF0 + a) = Some (4, lo, hi) \<and> lo \<le> 0x80 + b \<and> 0x80 + b \<le> hi"
    using assms by (cases "a = 0"; cases "a = 4") (auto simp: utf8First_def)
  then obtain lo hi where "utf8First (0xF0 + a) = Some (4, lo, hi)" "\<not> 0x80 + b < lo" "\<not> hi < 0x80 + b"
    by (meson linorder_not_le)
  with assms low_bits(1) [of b] low_bits(1) [of c] low_bits(1) [of d] low_bits(4) [of a] show ?thesis
    by (simp add: decodeRune_def of_char_char_of decodeTail_def Let_def contByte_def)
qed

text \<open>The digits of a rune to base 64.\<close>

lemma base64: "(r :: nat) = r div 64 * 64 + r mod 64" "r div 64 = r div 4096 * 64 + r div 64 mod 64"
  "r div 4096 = r div 262144 * 64 + r div 4096 mod 64"
  using div_mult_mod_eq [of r 64] div_mult_mod_eq [of "r div 64" 64] div_mult_mod_eq [of "r div 4096" 64]
  by (simp_all add: div_mult2_eq [symmetric])

lemma decode_encode:
  assumes "validRune r"
  shows "decodeRune (encodeRune r @ s) = (r, length (encodeRune r)) \<and> encodeRune r \<noteq> []"
proof -
  define q1 m0 where q1: "q1 = r div 64" and m0: "m0 = r mod 64"
  define q2 m1 where q2: "q2 = r div 4096" and m1: "m1 = r div 64 mod 64"
  define q3 m2 where q3: "q3 = r div 262144" and m2: "m2 = r div 4096 mod 64"
  have r: "r = q1 * 64 + m0" "q1 = q2 * 64 + m1" "q2 = q3 * 64 + m2"
    using base64 [of r] by (simp_all add: q1 q2 q3 m0 m1 m2)
  have m: "m0 < 64" "m1 < 64" "m2 < 64" by (simp_all add: m0 m1 m2)
  note enc = encodeRune_def [of r, folded q1 m1 q2 q3 m0 m1 m2]
  consider "r < 0x80" | "0x80 \<le> r" "r < 0x800" | "0x800 \<le> r" "r < 0x10000" | "0x10000 \<le> r" by linarith
  then show ?thesis
  proof cases
    case 1
    then show ?thesis by (simp add: encodeRune_def decodeRune_def of_char_char_of)
  next
    case 2
    with r m have "2 \<le> q1" "q1 < 32" by linarith+
    from decode_two [OF this m(1), of s] 2 r(1) [symmetric] show ?thesis by (simp add: enc)
  next
    case 3
    with r m have "q2 < 16" by linarith
    moreover have "32 \<le> m1" if "q2 = 0" using 3 r m that by linarith
    moreover have "m1 < 32" if "q2 = 13" using 3 r m that assms unfolding validRune_def by linarith
    ultimately have "decodeRune (map char_of [0xE0 + q2, 0x80 + m1, 0x80 + m0] @ s) = (q2 * 4096 + m1 * 64 + m0, 3)"
      using m by (intro decode_three) auto
    moreover have "q2 * 4096 + m1 * 64 + m0 = r" using r by linarith
    ultimately show ?thesis using 3 by (simp add: enc)
  next
    case 4
    with assms have le: "r \<le> 0x10FFFF" by (simp add: validRune_def)
    with r m have "q3 < 5" by linarith
    moreover have "16 \<le> m2" if "q3 = 0" using 4 r m that by linarith
    moreover have "m2 < 16" if "q3 = 4" using le r m that by linarith
    ultimately have "decodeRune (map char_of [0xF0 + q3, 0x80 + m2, 0x80 + m1, 0x80 + m0] @ s) =
        (q3 * 262144 + m2 * 4096 + m1 * 64 + m0, 4)"
      using m by (intro decode_four) auto
    moreover have "q3 * 262144 + m2 * 4096 + m1 * 64 + m0 = r" using r by linarith
    ultimately show ?thesis using 4 by (simp add: enc)
  qed
qed

lemma runesOf_encode: "validRune r \<Longrightarrow> runesOf (encodeRune r @ s) = r # runesOf s"
proof -
  assume "validRune r"
  note d = decode_encode [OF this, of s]
  then obtain c t where "encodeRune r = c # t" by (cases "encodeRune r") auto
  with d show ?thesis by (simp add: runesOf_def)
qed

lemma runesOf_encodeRunes: "list_all validRune rs \<Longrightarrow> runesOf (encodeRunes rs) = rs"
  by (induction rs) (simp_all add: encodeRunes_def runesOf_encode, simp add: runesOf_def)

section \<open>Tokens\<close>

lemma ascii_runes: "list_all (\<lambda>c. (of_char c :: nat) < 0x80) s \<Longrightarrow> encodeRunes (ascii s) = s"
  by (induction s) (simp_all add: ascii_def encodeRunes_def encodeRune_ascii)

lemma alnum_ascii: "asciiAlnum c \<Longrightarrow> (of_char c :: nat) < 0x80"
  by (auto simp: asciiAlnum_def isAlphaNumericUnderscore_def isAlphaNumeric_def isLetterRune_def isDigitRune_def
    split: if_splits)

lemma alnum_tables:
  "r < 0x80 \<Longrightarrow> isAlphaNumericUnderscore letters digits r = isAlphaNumericUnderscore letters' digits' r"
  by (simp add: isAlphaNumericUnderscore_def isAlphaNumeric_def isLetterRune_def isDigitRune_def)

lemma alnum_rune: "asciiAlnum c \<Longrightarrow> isAlphaNumericUnderscore letters digits (of_char c)"
  using alnum_tables [OF alnum_ascii] unfolding asciiAlnum_def by blast

lemma lexLiteral_ascii:
  assumes "list_all asciiAlnum n" and "\<not> isAlphaNumericUnderscore letters digits r"
  shows "lexLiteral letters digits (ascii n @ r # rest) = (n, r # rest)"
  using assms
  by (induction n) (simp_all add: ascii_def alnum_rune encodeRune_ascii alnum_ascii)

lemma lexNext_name:
  assumes "wfName n" and "\<not> isAlphaNumericUnderscore letters digits r"
  shows "lexNext letters digits (ascii n @ r # rest) = (scToken ScLiteral n, r # rest)"
proof -
  from assms(1) obtain c t where n: "n = c # t" and l: "isLetterRune (\<lambda>_. False) (of_char c)"
    by (cases n) (auto simp: wfName_def)
  from l have c: "65 \<le> (of_char c :: nat)" "(of_char c :: nat) \<le> 122" "(of_char c :: nat) < 0x80"
    "isLetterRune letters (of_char c)"
    by (auto simp: isLetterRune_def split: if_splits)
  moreover from c have "\<not> isSpaceRune (of_char c)" by (simp add: isSpaceRune_def)
  moreover have "lexLiteral letters digits (of_char c # ascii t @ r # rest) = (n, r # rest)"
    using lexLiteral_ascii [OF _ assms(2), of n rest] assms(1) n by (simp add: wfName_def ascii_def)
  ultimately show ?thesis
    using assms(1) n by (auto simp: ascii_def wfName_def simp del: lexLiteral.simps)
qed

lemma float_ascii: "floatChar c \<Longrightarrow> (of_char c :: nat) < 0x80"
  by (auto simp: floatChar_def isDigit_def)

lemma float_rune: "floatChar c \<Longrightarrow> isOneOf (of_char c) ''NaInf+-._eE'' \<or> isDigitRune digits (of_char c)"
  by (auto simp: floatChar_def isOneOf_def isDigitRune_def isDigit_def)

lemma lexFloat_ascii:
  assumes "list_all floatChar w" and "r = 0x20 \<or> r = 10"
  shows "lexFloat digits (ascii w @ r # rest) = (w, rest)"
  using assms
proof (induction w)
  case Nil
  then show ?case by (auto simp: ascii_def isOneOf_def isDigitRune_def)
next
  case (Cons c w)
  then show ?case using float_rune [of c digits] float_ascii [of c] by (simp add: ascii_def encodeRune_ascii)
qed

definition spaceOrLine :: "nat \<Rightarrow> bool" where
  "spaceOrLine r \<longleftrightarrow> r = 0x20 \<or> r = 10"

lemma lexNext_number:
  assumes "w \<noteq> []" and "isDigit (hd w) \<or> hd w = CHR ''.'' \<or> isSign (hd w)" and "list_all floatChar w" and "spaceOrLine r"
  shows "lexNext letters digits (ascii w @ r # rest) = (scToken ScValue w, rest)"
proof -
  from assms obtain c t where w: "w = c # t" by (cases w) auto
  from assms(2) w have c: "48 \<le> (of_char c :: nat) \<and> (of_char c :: nat) \<le> 57 \<or> (of_char c :: nat) \<in> {46, 43, 45}"
    by (auto simp: isDigit_def isSign_def)
  then have "\<not> isSpaceRune (of_char c)" "\<not> isLetterRune letters (of_char c)"
    by (auto simp: isSpaceRune_def isLetterRune_def)
  moreover have "isDigitRune digits (of_char c) \<or> (of_char c :: nat) = 46 \<or> (of_char c :: nat) = 43 \<or> (of_char c :: nat) = 45"
    using c by (auto simp: isDigitRune_def)
  moreover have "lexFloat digits (of_char c # ascii t @ r # rest) = (w, rest)"
    using lexFloat_ascii [OF assms(3), of r digits rest] assms(4) w by (simp add: ascii_def spaceOrLine_def)
  ultimately show ?thesis
    using c w by (auto simp: ascii_def simp del: lexFloat.simps)
qed

lemma lexNext_value:
  assumes "wfValue w" and "spaceOrLine r"
  shows "\<exists>pre. set pre \<subseteq> {0x20, 10} \<and> lexNext letters digits (ascii w @ r # rest) = (scToken ScValue w, pre @ rest)"
proof (cases "w = ''NaN'' \<or> w = ''Inf''")
  case True
  have "lexLiteral letters digits (ascii w @ r # rest) = (w, r # rest)"
    by (rule lexLiteral_ascii) (use True assms(2) in \<open>auto simp: spaceOrLine_def asciiAlnum_def
      isAlphaNumericUnderscore_def isAlphaNumeric_def isLetterRune_def isDigitRune_def\<close>)
  with True have "lexNext letters digits (ascii w @ r # rest) = (scToken ScValue w, r # rest)"
    by (auto simp: ascii_def isSpaceRune_def isLetterRune_def simp del: lexLiteral.simps)
  with assms(2) show ?thesis by (intro exI [of _ "[r]"]) (auto simp: spaceOrLine_def)
next
  case False
  with assms have "lexNext letters digits (ascii w @ r # rest) = (scToken ScValue w, rest)"
    by (intro lexNext_number) (auto simp: wfValue_def)
  then show ?thesis by (intro exI [of _ "[]"]) simp
qed

lemma lexNext_space: "spaceOrLine r \<Longrightarrow> lexNext letters digits (r # rest) = lexNext letters digits rest"
proof -
  assume "spaceOrLine r"
  then have "isSpaceRune r" "r \<noteq> 0x23" "r \<noteq> 0x7B" "r \<noteq> 0x7D" "r \<noteq> 0x2C" "r \<noteq> 0x3D" "r \<noteq> 0x22"
    by (auto simp: isSpaceRune_def spaceOrLine_def)
  then show ?thesis by simp
qed

lemma lexNext_spaces: "set pre \<subseteq> {0x20, 10} \<Longrightarrow> lexNext letters digits (pre @ rest) = lexNext letters digits rest"
  by (induction pre) (simp_all add: lexNext_space spaceOrLine_def del: lexNext.simps)

lemma lexStr_escaped: "lexStr (concat (map escapeRune v) @ 0x22 # rest) = (encodeRunes v, rest)"
  by (induction v) (simp_all add: escapeRune_def encodeRunes_def)

lemma lexComment_line: "10 \<notin> set c \<Longrightarrow> lexComment (c @ 10 # rest) = (encodeRunes c, rest)"
  by (induction c) (auto simp: encodeRunes_def)

section \<open>Parsing the text\<close>

text \<open>The parser after an advance: its state is determined by the runes that were left.\<close>

definition scpAt :: "(nat \<Rightarrow> bool) \<Rightarrow> (nat \<Rightarrow> bool) \<Rightarrow> nat list \<Rightarrow> scrapeParser" where
  "scpAt letters digits rs = \<lparr>scp_lex = snd (lexNext letters digits rs), scp_current = fst (lexNext letters digits rs)\<rparr>"

lemma scpAdvance_at: "scpAdvance letters digits p = scpAt letters digits (scp_lex p)"
  by (simp add: scpAdvance_def scpAt_def case_prod_unfold Let_def)

lemma scpAt_token:
  assumes "lexNext letters digits rs = (scToken ty v, rest)"
  shows "scpType (scpAt letters digits rs) = ty" "scpValue (scpAt letters digits rs) = v"
    "scp_lex (scpAt letters digits rs) = rest"
  using assms by (simp_all add: scpAt_def scpType_def scpValue_def scToken_def)

lemma not_alnum:
  "\<not> isAlphaNumericUnderscore letters digits 0x20" "\<not> isAlphaNumericUnderscore letters digits 0x7B"
  "\<not> isAlphaNumericUnderscore letters digits 0x3D"
  by (simp_all add: isAlphaNumericUnderscore_def isAlphaNumeric_def isLetterRune_def isDigitRune_def)

lemma parse_label:
  assumes "wfName n"
  shows "parseLabelValuePair letters digits (scpAt letters digits (labelText (n, v) @ rest)) =
      Inr (n, encodeRunes v, scpAt letters digits rest)"
    and "scpType (scpAt letters digits (labelText (n, v) @ rest)) = ScLiteral"
proof -
  let ?at = "scpAt letters digits"
  note name = lexNext_name [OF assms not_alnum(3), of letters digits "0x22 # concat (map escapeRune v) @ 0x22 # rest"]
  have eq: "lexNext letters digits (0x3D # 0x22 # concat (map escapeRune v) @ 0x22 # rest) =
      (scToken ScEqual ''='', 0x22 # concat (map escapeRune v) @ 0x22 # rest)" by simp
  have str: "lexNext letters digits (0x22 # concat (map escapeRune v) @ 0x22 # rest) = (scToken ScString (encodeRunes v), rest)"
    by (simp add: lexStr_escaped)
  have tx: "labelText (n, v) @ rest = ascii n @ 0x3D # 0x22 # concat (map escapeRune v) @ 0x22 # rest"
    by (simp add: labelText_def)
  show "parseLabelValuePair letters digits (?at (labelText (n, v) @ rest)) = Inr (n, encodeRunes v, ?at rest)"
    unfolding tx parseLabelValuePair_def Let_def scpAdvance_at
    by (simp add: scpAt_token [OF name] scpAt_token [OF eq] scpAt_token [OF str])
  show "scpType (?at (labelText (n, v) @ rest)) = ScLiteral" unfolding tx by (rule scpAt_token [OF name])
qed

lemma update_fresh: "k \<notin> fst ` set m \<Longrightarrow> AList.update k v m = m @ [(k, v)]"
  by (induction m) auto

abbreviation labelMap :: "(string \<times> nat list) list \<Rightarrow> string gomap" where
  "labelMap \<equiv> map (\<lambda>(n, v). (n, encodeRunes v))"

lemma parse_labels:
  assumes "list_all (\<lambda>(n, v). wfName n \<and> list_all validRune v) ls" and "distinct (map fst (m @ labelMap ls))"
  shows "parseLabels letters digits m (scpAt letters digits (labelsText ls @ 0x7D # rest)) =
    Inr (m @ labelMap ls, scpAt letters digits (0x7D # rest))"
  using assms
proof (induction ls arbitrary: m rule: labelsText.induct)
  case 1
  show ?case by (subst parseLabels.simps) (simp add: scpAt_def scpType_def scToken_def)
next
  case (2 l)
  obtain n v where l: "l = (n, v)" by (cases l)
  with 2 have "AList.update n (encodeRunes v) m = m @ labelMap [l]" by (auto intro: update_fresh)
  moreover have "parseLabels letters digits m' (scpAt letters digits (0x7D # rest)) = Inr (m', scpAt letters digits (0x7D # rest))" for m'
    by (subst parseLabels.simps) (simp add: scpAt_def scpType_def scToken_def)
  ultimately show ?case using 2 l by (subst parseLabels.simps) (simp add: parse_label)
next
  case (3 l l' ls)
  let ?rest = "labelsText (l' # ls) @ 0x7D # rest"
  obtain n v where l: "l = (n, v)" by (cases l)
  with 3 have upd: "AList.update n (encodeRunes v) m = m @ [(n, encodeRunes v)]" by (auto intro: update_fresh)
  have comma: "lexNext letters digits (0x2C # ?rest) = (scToken ScComma '','', ?rest)" by simp
  have "parseLabels letters digits m (scpAt letters digits (labelsText (l # l' # ls) @ 0x7D # rest)) =
      parseLabels letters digits (m @ [(n, encodeRunes v)]) (scpAt letters digits (0x2C # ?rest))"
    using 3 l upd by (subst parseLabels.simps) (simp add: parse_label)
  also have "\<dots> = parseLabels letters digits (m @ [(n, encodeRunes v)]) (scpAt letters digits ?rest)"
    by (subst parseLabels.simps) (simp add: scpAt_token [OF comma] scpAdvance_at)
  also have "\<dots> = Inr (m @ labelMap (l # l' # ls), scpAt letters digits (0x7D # rest))"
    using "3.IH" [of "m @ [(n, encodeRunes v)]"] 3(2,3) l by simp
  finally show ?case .
qed

lemma ParseInt_showInt:
  assumes "minInt64 \<le> t" and "t \<le> maxInt64"
  shows "ParseInt (showInt t) = Some t"
proof -
  have sign: "\<not> isSign c \<and> c \<noteq> CHR ''-''" if "isDigit c" for c using that by (auto simp: isSign_def isDigit_def)
  have d: "showNat n \<noteq> [] \<and> isDigit (hd (showNat n)) \<and> list_all isDigit (showNat n)" if "0 \<le> n" for n
    using showNat_head [OF that] digitChar_simps(1) showNat_digits [OF that] by (auto simp: list_all_iff)
  show ?thesis
  proof (cases "t < 0")
    case True
    then have "showInt t = CHR ''-'' # showNat (- t)" "0 \<le> - t" by (simp_all add: showInt_def)
    with True assms d [of "- t"] digitsVal_showNat [of "- t"] show ?thesis
      by (simp add: ParseInt_def isSign_def Let_def)
  next
    case False
    then have "showInt t = showNat t" "0 \<le> t" by (simp_all add: showInt_def)
    with assms d [of t] sign digitsVal_showNat [of t] show ?thesis by (simp add: ParseInt_def Let_def)
  qed
qed

lemma showInt_number:
  "showInt t \<noteq> []" "isDigit (hd (showInt t)) \<or> hd (showInt t) = CHR ''.'' \<or> isSign (hd (showInt t))"
  "list_all floatChar (showInt t)"
proof -
  have d: "showNat n \<noteq> [] \<and> isDigit (hd (showNat n)) \<and> list_all floatChar (showNat n)" if "0 \<le> n" for n
    using showNat_head [OF that] digitChar_simps(1) showNat_digits [OF that] by (auto simp: list_all_iff floatChar_def)
  show "showInt t \<noteq> []" "isDigit (hd (showInt t)) \<or> hd (showInt t) = CHR ''.'' \<or> isSign (hd (showInt t))"
    "list_all floatChar (showInt t)"
    using d [of t] d [of "- t"] by (auto simp: showInt_def isSign_def floatChar_def)
qed

definition timestampText :: "int option \<Rightarrow> nat list" where
  "timestampText ts = (case ts of None \<Rightarrow> [] | Some t \<Rightarrow> 0x20 # ascii (showInt t))"

lemma parse_value:
  assumes "wfValue w" and "case ts of None \<Rightarrow> True | Some t \<Rightarrow> minInt64 \<le> t \<and> t \<le> maxInt64"
    and "scpType (scpAt letters digits rest) \<noteq> ScValue"
  shows "parseValueAndTimestamp letters digits (scpAt letters digits (0x20 # ascii w @ timestampText ts @ 10 # rest)) =
    Inr (the (ParseFloat w), map_option (\<lambda>t. wrap64 (t * 1000000)) ts, scpAt letters digits rest)"
proof -
  let ?at = "scpAt letters digits"
  from assms(1) obtain v where v: "ParseFloat w = Some v" by (auto simp: wfValue_def)
  have sp: "spaceOrLine 0x20" "spaceOrLine 10" by (simp_all add: spaceOrLine_def)
  show ?thesis
  proof (cases ts)
    case None
    from lexNext_value [OF assms(1) sp(2), of letters digits rest] obtain pre where pre: "set pre \<subseteq> {0x20, 10}"
      "lexNext letters digits (0x20 # ascii w @ 10 # rest) = (scToken ScValue w, pre @ rest)"
      by (auto simp: lexNext_space [OF sp(1)] simp del: lexNext.simps)
    have "?at (pre @ rest) = ?at rest" using lexNext_spaces [OF pre(1)] by (simp add: scpAt_def)
    with None v assms(3) show ?thesis
      by (simp add: parseValueAndTimestamp_def timestampText_def scpAt_token [OF pre(2)] scpAdvance_at Let_def)
  next
    case (Some t)
    let ?rest = "ascii (showInt t) @ 10 # rest"
    from lexNext_value [OF assms(1) sp(1), of letters digits ?rest] obtain pre where pre: "set pre \<subseteq> {0x20, 10}"
      "lexNext letters digits (0x20 # ascii w @ 0x20 # ?rest) = (scToken ScValue w, pre @ ?rest)"
      by (auto simp: lexNext_space [OF sp(1)] simp del: lexNext.simps)
    have at: "?at (pre @ ?rest) = ?at ?rest" using lexNext_spaces [OF pre(1)] by (simp add: scpAt_def)
    note num = lexNext_number [OF showInt_number sp(2), of letters digits t rest]
    from Some v assms(2) show ?thesis
      by (simp add: parseValueAndTimestamp_def timestampText_def scpAt_token [OF pre(2)] scpAt_token [OF num]
        scpAdvance_at Let_def at ParseInt_showInt)
  qed
qed

lemma parse_sample:
  assumes "wfLine (SampleLine name labels w ts)" and "scpType (scpAt letters digits rest) \<noteq> ScValue"
  shows "parseMetric letters digits (scpAt letters digits (lineText (SampleLine name labels w ts) @ rest)) =
      Inr (hd (lineRecords (SampleLine name labels w ts)), scpAt letters digits rest)"
    and "scpType (scpAt letters digits (lineText (SampleLine name labels w ts) @ rest)) = ScLiteral"
proof -
  let ?at = "scpAt letters digits" and ?v = "0x20 # ascii w @ timestampText ts @ 10 # rest"
  have wf: "wfName name" "wfValue w" "case ts of None \<Rightarrow> True | Some t \<Rightarrow> minInt64 \<le> t \<and> t \<le> maxInt64"
    "list_all (\<lambda>(n, v). wfName n \<and> list_all validRune v) labels" "distinct (map fst labels)"
    using assms(1) by auto
  have t: "lineText (SampleLine name labels w ts) @ rest =
      ascii name @ (if labels = [] then ?v else 0x7B # labelsText labels @ 0x7D # ?v)"
    by (cases ts) (simp_all add: timestampText_def)
  note val = parse_value [OF wf(2,3) assms(2)]
  have "parseMetric letters digits (?at (lineText (SampleLine name labels w ts) @ rest)) =
      Inr (hd (lineRecords (SampleLine name labels w ts)), ?at rest) \<and>
    scpType (?at (lineText (SampleLine name labels w ts) @ rest)) = ScLiteral"
  proof (cases "labels = []")
    case True
    note name = lexNext_name [OF wf(1) not_alnum(1), of letters digits "ascii w @ timestampText ts @ 10 # rest"]
    obtain x y where "lexNext letters digits ?v = (scToken ScValue x, y)"
      using lexNext_value [OF wf(2), of "10" letters digits rest]
        lexNext_value [OF wf(2), of "0x20" letters digits "ascii (showInt (the ts)) @ 10 # rest"]
      by (cases ts) (auto simp: timestampText_def lexNext_space spaceOrLine_def simp del: lexNext.simps)
    from scpAt_token(1) [OF this] have "scpType (?at ?v) \<noteq> ScOpenBracket" by simp
    then show ?thesis
      unfolding t parseMetric_def Let_def scpAdvance_at
      by (simp add: True scpAt_token [OF name] val)
  next
    case False
    let ?l = "labelsText labels @ 0x7D # ?v"
    note name = lexNext_name [OF wf(1) not_alnum(2), of letters digits ?l]
    have op: "lexNext letters digits (0x7B # ?l) = (scToken ScOpenBracket ''{'', ?l)" by simp
    have cl: "lexNext letters digits (0x7D # ?v) = (scToken ScCloseBracket ''}'', ?v)" by simp
    have d: "distinct (map fst ([] @ labelMap labels))" using wf(5) by (simp add: comp_def case_prod_unfold)
    show ?thesis
      unfolding t parseMetric_def Let_def scpAdvance_at
      by (simp add: False scpAt_token [OF name] scpAt_token [OF op] parse_labels [OF wf(4) d]
        scpAt_token [OF cl] val del: labelsText.simps)
  qed
  then show "parseMetric letters digits (?at (lineText (SampleLine name labels w ts) @ rest)) =
      Inr (hd (lineRecords (SampleLine name labels w ts)), ?at rest)"
    and "scpType (?at (lineText (SampleLine name labels w ts) @ rest)) = ScLiteral" by auto
qed

lemma after_line: "list_all wfLine ls \<Longrightarrow> scpType (scpAt letters digits (exposition ls)) \<noteq> ScValue"
proof (induction ls)
  case (Cons l ls)
  then show ?case
  proof (cases l)
    case (SampleLine name labels w ts)
    with Cons parse_sample(2) [of name labels w ts letters digits "exposition ls"] show ?thesis
      by (simp add: exposition_def del: lineText.simps wfLine.simps)
  qed (simp add: exposition_def scpAt_def scpType_def scToken_def case_prod_unfold Let_def)
qed (simp add: exposition_def scpAt_def scpType_def scToken_def)

lemma parse_lines:
  "list_all wfLine ls \<Longrightarrow>
    parseLoop letters digits ms (scpAt letters digits (exposition ls)) = Inr (ms @ concat (map lineRecords ls))"
proof (induction ls arbitrary: ms)
  case Nil
  show ?case by (subst parseLoop.simps) (simp add: exposition_def scpAt_def scpType_def scToken_def)
next
  case (Cons l ls)
  have tail: "scpType (scpAt letters digits (exposition ls)) \<noteq> ScValue" using Cons.prems after_line by simp
  show ?case
  proof (cases l)
    case (CommentLine c)
    with Cons.prems have "lexNext letters digits (exposition (l # ls)) = (scToken ScComment (encodeRunes c), exposition ls)"
      by (simp add: exposition_def lexComment_line)
    note t = scpAt_token [OF this]
    show ?thesis
      using Cons by (subst parseLoop.simps) (simp add: t scpAdvance_at, simp add: CommentLine)
  next
    case (SampleLine name labels w ts)
    with Cons.prems have wf: "wfLine (SampleLine name labels w ts)" by simp
    have e: "exposition (l # ls) = lineText (SampleLine name labels w ts) @ exposition ls"
      by (simp add: exposition_def SampleLine)
    show ?thesis
      using Cons SampleLine unfolding e
      by (subst parseLoop.simps)
        (simp add: parse_sample [OF wf tail] del: lineText.simps wfLine.simps)
  qed
qed

lemma name_runes: "wfName n \<Longrightarrow> list_all validRune (ascii n)"
  by (auto simp: wfName_def list_all_iff ascii_def validRune_def dest!: alnum_ascii)

lemma float_runes: "list_all floatChar w \<Longrightarrow> list_all validRune (ascii w)"
  by (auto simp: list_all_iff ascii_def validRune_def dest!: float_ascii)

lemma label_runes:
  "list_all (\<lambda>(n, v). wfName n \<and> list_all validRune v) ls \<Longrightarrow> list_all validRune (labelsText ls)"
proof (induction ls rule: labelsText.induct)
  case 1
  then show ?case by simp
next
  have l: "list_all validRune (labelText l)" if "wfName (fst l)" "list_all validRune (snd l)" for l
    using that name_runes
    by (auto simp: labelText_def escapeRune_def validRune_def list_all_iff)
  {
    case (2 l)
    then show ?case using l by (simp add: case_prod_unfold)
  next
    case (3 l l' ls)
    moreover have "validRune 0x2C" by (simp add: validRune_def)
    ultimately show ?case using l by (simp add: case_prod_unfold)
  }
qed

lemma line_runes: "wfLine l \<Longrightarrow> list_all validRune (lineText l)"
proof (cases l)
  case (SampleLine name labels w ts)
  assume "wfLine l"
  with SampleLine have "list_all floatChar w" by (auto simp: wfValue_def floatChar_def)
  with \<open>wfLine l\<close> SampleLine name_runes float_runes label_runes showInt_number(3) show ?thesis
    by (auto simp: validRune_def split: option.splits)
qed (auto simp: validRune_def)

lemma scrapeParse_exposition:
  assumes "list_all wfLine ls"
  shows "scrapeParse letters digits (encodeRunes (exposition ls)) = Inr (concat (map lineRecords ls))"
proof -
  have "list_all validRune (exposition ls)"
    using assms line_runes by (auto simp: exposition_def list_all_iff)
  then have "runesOf (encodeRunes (exposition ls)) = exposition ls" by (rule runesOf_encodeRunes)
  with parse_lines [OF assms, of letters digits "[]"] show ?thesis by (simp add: scrapeParse_def scpAdvance_at)
qed

end
