(* ===== verification/Metric_Aggregator.thy ===== *)
theory Metric_Aggregator
  imports Timeutil
begin

text \<open>
  The aggregators of \<^verbatim>\<open>modules/collector-source/pkg/metric/aggregator\<close>: each keeps a condensed
  form of the samples of one series. A sample is a value, a timestamp and a map of additional
  information. The interface \<^verbatim>\<open>MetricAggregator\<close> is the sum of the seven implementations, and a
  locale states what its clients rely on. The locks are left out: every method holds its lock
  from start to end.
\<close>

record metricValue =
  mv_Value :: float64
  mv_Timestamp :: "gotime option"

definition plainValue :: "float64 \<Rightarrow> metricValue list" where
  "plainValue v = [\<lparr>mv_Value = v, mv_Timestamp = None\<rparr>]"

definition timeIsZero :: "gotime \<Rightarrow> bool" where
  "timeIsZero t = (tm_ns t = 0)"

section \<open>The states\<close>

record averageOverTimeAggregator =
  av_labelValues :: "string list"
  av_total :: float64
  av_count :: int
  av_currentTime :: "gotime option"

record increaseAggregator =
  in_labelValues :: "string list"
  in_currentTime :: gotime
  in_previousTime :: gotime
  in_previous :: float64
  in_current :: float64
  in_increase :: float64

record infoAggregator =
  if_labelValues :: "string list"
  if_additionalInfo :: "string gomap"

record iRateMaxAggregator =
  ir_labelValues :: "string list"
  ir_initialized :: bool
  ir_previousTime :: gotime
  ir_currentTime :: gotime
  ir_previous :: float64
  ir_current :: float64
  ir_max :: float64

record maxOverTimeAggregator =
  mx_labelValues :: "string list"
  mx_max :: float64

record rateAggregator =
  ra_labelValues :: "string list"
  ra_previousTime :: gotime
  ra_previous :: float64
  ra_currentTime :: gotime
  ra_current :: float64
  ra_runningAvg :: float64
  ra_seconds :: float64

record uptimeAggregator =
  up_labelValues :: "string list"
  up_start :: "gotime option"
  up_end :: "gotime option"

section \<open>Averages\<close>

definition averageUpdate :: "float64 \<Rightarrow> gotime \<Rightarrow> averageOverTimeAggregator \<Rightarrow> averageOverTimeAggregator" where
  "averageUpdate v t a =
     (let a1 = a\<lparr>av_total := fadd (av_total a) v\<rparr>
      in if (case av_currentTime a1 of None \<Rightarrow> True | Some u \<Rightarrow> \<not> timeEqual t u)
         then a1\<lparr>av_currentTime := Some t, av_count := av_count a1 + 1\<rparr> else a1)"

definition averageValue :: "averageOverTimeAggregator \<Rightarrow> metricValue list" where
  "averageValue a = plainValue (if av_count a = 0 then Fin 0 else fdiv (av_total a) (fOfInt (av_count a)))"

section \<open>Increases\<close>

definition getIncrease :: "increaseAggregator \<Rightarrow> float64" where
  "getIncrease a =
     (if flt (in_previous a) (in_current a) \<and> \<not> timeIsZero (in_previousTime a)
      then fadd (in_increase a) (fsub (in_current a) (in_previous a)) else in_increase a)"

definition increaseUpdate :: "float64 \<Rightarrow> gotime \<Rightarrow> increaseAggregator \<Rightarrow> increaseAggregator" where
  "increaseUpdate v t a =
     (let a1 = (if timeAfter t (in_currentTime a)
                then a\<lparr>in_increase := getIncrease a, in_previousTime := in_currentTime a, in_currentTime := t,
                       in_previous := in_current a, in_current := Fin 0\<rparr>
                else a)
      in a1\<lparr>in_current := fadd (in_current a1) v\<rparr>)"

definition increaseValue :: "increaseAggregator \<Rightarrow> metricValue list" where
  "increaseValue a = plainValue (getIncrease a)"

section \<open>Rates\<close>

definition iRateUpdate :: "float64 \<Rightarrow> gotime \<Rightarrow> iRateMaxAggregator \<Rightarrow> iRateMaxAggregator" where
  "iRateUpdate v t a =
     (let a1 = (if \<not> ir_initialized a
                then a\<lparr>ir_previousTime := t, ir_currentTime := t, ir_initialized := True\<rparr> else a);
          a2 = (if timeBefore (ir_currentTime a1) t
                then a1\<lparr>ir_previousTime := ir_currentTime a1, ir_previous := ir_current a1,
                        ir_currentTime := t, ir_current := Fin 0\<rparr>
                else a1);
          a3 = a2\<lparr>ir_current := fadd (ir_current a2) v\<rparr>;
          seconds = durSeconds (timeSub (ir_currentTime a3) (ir_previousTime a3))
      in if feq seconds (Fin 0) then a3
         else (let irate = fdiv (fsub (ir_current a3) (ir_previous a3)) seconds
               in if flt (ir_max a3) irate then a3\<lparr>ir_max := irate\<rparr> else a3))"

definition getRunningAvgSeconds :: "rateAggregator \<Rightarrow> float64 \<times> float64" where
  "getRunningAvgSeconds a =
     (if flt (ra_previous a) (ra_current a) \<and> \<not> timeIsZero (ra_previousTime a)
      then (let currentSeconds = durSeconds (timeSub (ra_currentTime a) (ra_previousTime a));
                weightingRatio = fdiv currentSeconds (fadd currentSeconds (ra_seconds a));
                currentRate = fdiv (fsub (ra_current a) (ra_previous a)) currentSeconds
            in (fadd (fmul (ra_runningAvg a) (fsub (Fin 1) weightingRatio)) (fmul currentRate weightingRatio),
                fadd (ra_seconds a) currentSeconds))
      else (ra_runningAvg a, ra_seconds a))"

definition rateUpdate :: "float64 \<Rightarrow> gotime \<Rightarrow> rateAggregator \<Rightarrow> rateAggregator" where
  "rateUpdate v t a =
     (let a1 = (if timeAfter t (ra_currentTime a)
                then (let (avg, secs) = getRunningAvgSeconds a
                      in a\<lparr>ra_runningAvg := avg, ra_seconds := secs, ra_previous := ra_current a,
                           ra_previousTime := ra_currentTime a, ra_currentTime := t, ra_current := Fin 0\<rparr>)
                else a)
      in a1\<lparr>ra_current := fadd (ra_current a1) v\<rparr>)"

definition rateValue :: "rateAggregator \<Rightarrow> metricValue list" where
  "rateValue a =
     (let (average, seconds) = getRunningAvgSeconds a in plainValue (if feq seconds (Fin 0) then Fin 0 else average))"

section \<open>Maxima and uptimes\<close>

definition maxUpdate :: "float64 \<Rightarrow> maxOverTimeAggregator \<Rightarrow> maxOverTimeAggregator" where
  "maxUpdate v a = (if flt (mx_max a) v then a\<lparr>mx_max := v\<rparr> else a)"

definition uptimeUpdate :: "gotime \<Rightarrow> uptimeAggregator \<Rightarrow> uptimeAggregator" where
  "uptimeUpdate t a =
     (case up_start a of
        None \<Rightarrow> a\<lparr>up_start := Some t\<rparr>
      | Some s \<Rightarrow> if timeAfter t s then a\<lparr>up_end := Some t\<rparr> else a)"

definition uptimeValue :: "uptimeAggregator \<Rightarrow> metricValue list" where
  "uptimeValue a =
     (let point = (\<lambda>t. case t of None \<Rightarrow> [] | Some u \<Rightarrow> [\<lparr>mv_Value = Fin 1, mv_Timestamp = Some u\<rparr>])
      in point (up_start a) @ point (up_end a))"

section \<open>The interface\<close>

datatype metricAggregator =
    AverageOverTime averageOverTimeAggregator
  | Increase increaseAggregator
  | Info infoAggregator
  | IRateMax iRateMaxAggregator
  | MaxOverTime maxOverTimeAggregator
  | Rate rateAggregator
  | Uptime uptimeAggregator

datatype aggregatorKind =
    AverageOverTimeKind | IncreaseKind | InfoKind | IRateMaxKind | MaxOverTimeKind | RateKind | UptimeKind

text \<open>The factory functions.\<close>

fun newAggregator :: "aggregatorKind \<Rightarrow> string list \<Rightarrow> metricAggregator" where
  "newAggregator AverageOverTimeKind ls =
     AverageOverTime \<lparr>av_labelValues = ls, av_total = Fin 0, av_count = 0, av_currentTime = None\<rparr>"
| "newAggregator IncreaseKind ls =
     Increase \<lparr>in_labelValues = ls, in_currentTime = zeroTime, in_previousTime = zeroTime,
               in_previous = Fin 0, in_current = Fin 0, in_increase = Fin 0\<rparr>"
| "newAggregator InfoKind ls = Info \<lparr>if_labelValues = ls, if_additionalInfo = []\<rparr>"
| "newAggregator IRateMaxKind ls =
     IRateMax \<lparr>ir_labelValues = ls, ir_initialized = False, ir_previousTime = zeroTime, ir_currentTime = zeroTime,
               ir_previous = Fin 0, ir_current = Fin 0, ir_max = Fin 0\<rparr>"
| "newAggregator MaxOverTimeKind ls = MaxOverTime \<lparr>mx_labelValues = ls, mx_max = Fin 0\<rparr>"
| "newAggregator RateKind ls =
     Rate \<lparr>ra_labelValues = ls, ra_previousTime = zeroTime, ra_previous = Fin 0, ra_currentTime = zeroTime,
           ra_current = Fin 0, ra_runningAvg = Fin 0, ra_seconds = Fin 0\<rparr>"
| "newAggregator UptimeKind ls = Uptime \<lparr>up_labelValues = ls, up_start = None, up_end = None\<rparr>"

type_synonym sample = "float64 \<times> gotime \<times> string gomap"

fun aggUpdate :: "sample \<Rightarrow> metricAggregator \<Rightarrow> metricAggregator" where
  "aggUpdate (v, t, info) (AverageOverTime a) = AverageOverTime (averageUpdate v t a)"
| "aggUpdate (v, t, info) (Increase a) = Increase (increaseUpdate v t a)"
| "aggUpdate (v, t, info) (Info a) = Info (a\<lparr>if_additionalInfo := info\<rparr>)"
| "aggUpdate (v, t, info) (IRateMax a) = IRateMax (iRateUpdate v t a)"
| "aggUpdate (v, t, info) (MaxOverTime a) = MaxOverTime (maxUpdate v a)"
| "aggUpdate (v, t, info) (Rate a) = Rate (rateUpdate v t a)"
| "aggUpdate (v, t, info) (Uptime a) = Uptime (uptimeUpdate t a)"

fun aggValue :: "metricAggregator \<Rightarrow> metricValue list" where
  "aggValue (AverageOverTime a) = averageValue a"
| "aggValue (Increase a) = increaseValue a"
| "aggValue (Info a) = plainValue (Fin 1)"
| "aggValue (IRateMax a) = plainValue (ir_max a)"
| "aggValue (MaxOverTime a) = plainValue (mx_max a)"
| "aggValue (Rate a) = rateValue a"
| "aggValue (Uptime a) = uptimeValue a"

fun aggLabelValues :: "metricAggregator \<Rightarrow> string list" where
  "aggLabelValues (AverageOverTime a) = av_labelValues a"
| "aggLabelValues (Increase a) = in_labelValues a"
| "aggLabelValues (Info a) = if_labelValues a"
| "aggLabelValues (IRateMax a) = ir_labelValues a"
| "aggLabelValues (MaxOverTime a) = mx_labelValues a"
| "aggLabelValues (Rate a) = ra_labelValues a"
| "aggLabelValues (Uptime a) = up_labelValues a"

fun aggAdditionInfo :: "metricAggregator \<Rightarrow> string gomap" where
  "aggAdditionInfo (Info a) = if_additionalInfo a"
| "aggAdditionInfo _ = []"

text \<open>What a collector relies on: a new aggregator has the label values given, and samples keep them.\<close>

locale labelled_aggregator =
  fixes make :: "'k \<Rightarrow> string list \<Rightarrow> 'a" and update :: "sample \<Rightarrow> 'a \<Rightarrow> 'a" and labels :: "'a \<Rightarrow> string list"
  assumes labels_make: "labels (make k ls) = ls"
    and labels_update: "labels (update s a) = labels a"
begin

lemma labels_fold: "labels (fold update ss a) = labels a"
  by (induction ss arbitrary: a) (simp_all add: labels_update)

lemma labels_series: "labels (fold update ss (make k ls)) = ls"
  by (simp add: labels_fold labels_make)

end

interpretation aggs: labelled_aggregator newAggregator aggUpdate aggLabelValues
proof
  show "aggLabelValues (newAggregator k ls) = ls" for k ls by (cases k) simp_all
  show "aggLabelValues (aggUpdate s a) = aggLabelValues a" for s a
    by (cases s; cases a)
      (auto simp: averageUpdate_def increaseUpdate_def iRateUpdate_def rateUpdate_def maxUpdate_def uptimeUpdate_def
        Let_def case_prod_unfold split: option.splits)
qed

section \<open>What the aggregators compute\<close>

text \<open>The maximum starts at zero, so it is the largest of zero and the samples.\<close>

lemma flt_trans: "flt x y \<Longrightarrow> flt y z \<Longrightarrow> flt x z"
  by (cases x; cases y; cases z) auto

lemma flt_max: "flt m v \<Longrightarrow> \<not> flt m u \<Longrightarrow> \<not> flt v u"
  by (cases m; cases v; cases u) auto

lemma flt_linear: "m \<noteq> NaN \<Longrightarrow> \<not> flt x m \<Longrightarrow> \<not> flt m v \<Longrightarrow> \<not> flt x v"
  by (cases m; cases x; cases v) auto

lemma maxUpdate_fold:
  assumes "mx_max a \<noteq> NaN"
  shows "(\<forall>s \<in> set ss. \<not> flt (mx_max (fold maxUpdate ss a)) s) \<and> \<not> flt (mx_max (fold maxUpdate ss a)) (mx_max a) \<and>
    mx_max (fold maxUpdate ss a) \<in> insert (mx_max a) (set ss)"
  using assms
proof (induction ss arbitrary: a)
  case Nil
  then show ?case by (cases "mx_max a") simp_all
next
  case (Cons v ss)
  show ?case
  proof (cases "flt (mx_max a) v")
    case True
    then have u: "mx_max (maxUpdate v a) = v" "v \<noteq> NaN" by (cases "mx_max a"; cases v; simp add: maxUpdate_def)+
    with Cons.IH [of "maxUpdate v a"] flt_trans [OF _ True] show ?thesis by (simp, blast)
  next
    case False
    then have u: "maxUpdate v a = a" by (simp add: maxUpdate_def)
    with Cons.IH [of a] Cons.prems flt_linear [OF _ _ False] show ?thesis by auto
  qed
qed

text \<open>Increases of whole numbers are exact below two to the 53.\<close>

lemma fadd_int: "\<bar>a + b\<bar> \<le> 2 ^ 53 \<Longrightarrow> fadd (Fin (of_int a)) (Fin (of_int b)) = Fin (of_int (a + b))"
  using fl_of_int [of "a + b"] by simp

lemma fsub_int: "\<bar>a - b\<bar> \<le> 2 ^ 53 \<Longrightarrow> fsub (Fin (of_int a)) (Fin (of_int b)) = Fin (of_int (a - b))"
  using fl_of_int [of "a - b"] by (simp add: fsub_def)

text \<open>The total of the rises between neighbours of a list.\<close>

fun rises :: "int list \<Rightarrow> int" where
  "rises (x # y # ys) = max 0 (y - x) + rises (y # ys)"
| "rises _ = 0"

lemma rises_nonneg: "0 \<le> rises xs"
  by (induction xs rule: rises.induct) auto

lemma rises_snoc: "xs \<noteq> [] \<Longrightarrow> rises (xs @ [y]) = rises xs + max 0 (y - last xs)"
  by (induction xs rule: rises.induct) auto

text \<open>
  Samples of one whole number each, at increasing times after the zero time: the increase is the
  sum of the rises from one to the next.
\<close>

definition intSamples :: "(gotime \<times> int) list \<Rightarrow> sample list" where
  "intSamples ss = map (\<lambda>(t, n). (Fin (of_int n), t, [])) ss"

definition increasingFrom :: "int \<Rightarrow> (gotime \<times> int) list \<Rightarrow> bool" where
  "increasingFrom t0 ss = sorted_wrt (<) (t0 # map (tm_ns \<circ> fst) ss)"

definition countersOk :: "int list \<Rightarrow> bool" where
  "countersOk ns \<longleftrightarrow> (\<forall>n \<in> set ns. 0 \<le> n \<and> n \<le> 2 ^ 53) \<and> rises ns \<le> 2 ^ 53"

text \<open>The state after samples whose last two were \<open>p\<close> and \<open>c\<close>.\<close>

lemma increase_fold:
  assumes "ss \<noteq> []" and "increasingFrom 0 ss" and "countersOk (map snd ss)"
  shows "\<exists>a. fold aggUpdate (intSamples ss) (newAggregator IncreaseKind ls) = Increase a \<and>
    in_currentTime a = fst (last ss) \<and> in_current a = Fin (of_int (snd (last ss))) \<and>
    getIncrease a = Fin (of_int (rises (map snd ss)))"
  using assms
proof (induction ss rule: rev_nonempty_induct)
  case (single s)
  obtain t n where s: "s = (t, n)" by (cases s)
  from single s have "0 < tm_ns t" "\<bar>0 + n\<bar> \<le> 2 ^ 53" by (auto simp: increasingFrom_def countersOk_def)
  with fadd_int [of 0 n] s show ?case
    by (simp add: intSamples_def increaseUpdate_def time_order zeroTime_def timeIsZero_def getIncrease_def)
next
  case (snoc s ss)
  obtain t n where s: "s = (t, n)" by (cases s)
  let ?ns = "map snd ss" and ?p = "snd (last ss)"
  have r: "rises (?ns @ [n]) = rises ?ns + max 0 (n - ?p)"
    using snoc.hyps by (simp add: rises_snoc last_map)
  have ok: "countersOk ?ns" "0 \<le> n" "n \<le> 2 ^ 53" "rises ?ns + max 0 (n - ?p) \<le> 2 ^ 53"
    using snoc.prems s r by (auto simp: countersOk_def)
  have inc: "increasingFrom 0 ss" "tm_ns (fst (last ss)) < tm_ns t" "0 < tm_ns (fst (last ss))"
    using snoc.prems s snoc.hyps last_in_set [OF snoc.hyps] by (auto simp: increasingFrom_def sorted_wrt_append)
  from snoc.IH [OF inc(1) ok(1)] obtain a where a: "fold aggUpdate (intSamples ss) (newAggregator IncreaseKind ls) = Increase a"
    "in_currentTime a = fst (last ss)" "in_current a = Fin (of_int ?p)" "getIncrease a = Fin (of_int (rises ?ns))" by blast
  have p: "0 \<le> ?p" "?p \<le> 2 ^ 53" using ok(1) last_in_set [OF snoc.hyps] by (auto simp: countersOk_def)
  let ?b = "increaseUpdate (Fin (of_int n)) t a"
  have b: "in_current ?b = Fin (of_int n)" "in_currentTime ?b = t" "in_previous ?b = Fin (of_int ?p)"
    "in_previousTime ?b = fst (last ss)" "in_increase ?b = Fin (of_int (rises ?ns))"
    using a inc(2) fadd_int [of 0 n] ok by (simp_all add: increaseUpdate_def time_order)
  have "getIncrease ?b = Fin (of_int (rises ?ns + max 0 (n - ?p)))"
  proof (cases "?p < n")
    case True
    then have "fsub (Fin (of_int n)) (Fin (of_int ?p)) = Fin (of_int (n - ?p))"
      using ok p by (intro fsub_int) auto
    moreover have "fadd (Fin (of_int (rises ?ns))) (Fin (of_int (n - ?p))) = Fin (of_int (rises ?ns + (n - ?p)))"
      using True ok rises_nonneg [of ?ns] by (intro fadd_int) auto
    ultimately show ?thesis using True b inc(3) by (simp add: getIncrease_def timeIsZero_def)
  qed (use b in \<open>simp add: getIncrease_def\<close>)
  with a b s r show ?case by (simp add: intSamples_def)
qed

text \<open>Uptime keeps the first timestamp and the last one after it.\<close>

lemma uptime_fold:
  assumes "ts \<noteq> []" and "sorted (map tm_ns ts)"
  shows "up_start (fold uptimeUpdate ts \<lparr>up_labelValues = ls, up_start = None, up_end = None\<rparr>) = Some (hd ts) \<and>
    (\<exists>e. up_end (fold uptimeUpdate ts \<lparr>up_labelValues = ls, up_start = None, up_end = None\<rparr>) = e \<and>
      (if tm_ns (hd ts) < tm_ns (last ts) then map_option tm_ns e = Some (tm_ns (last ts)) else e = None))"
  using assms
proof (induction ts rule: rev_nonempty_induct)
  case (single t)
  show ?case by (simp add: uptimeUpdate_def)
next
  case (snoc t ts)
  then have le: "tm_ns (last ts) \<le> tm_ns t" "sorted (map tm_ns ts)"
    using last_in_set [OF snoc.hyps] by (auto simp: sorted_append)
  moreover have "tm_ns (hd ts) \<le> tm_ns (last ts)" using snoc.hyps le(2) by (cases ts) auto
  ultimately show ?case
    using snoc.IH snoc.hyps by (auto simp: uptimeUpdate_def time_order split: if_splits)
qed

end
