(* ===== verification/Metric_Store.thy ===== *)
theory Metric_Store
  imports Metric_Aggregator "HOL-Library.AList" "HOL-Library.Word"
begin

text \<open>
  Collectors and the in-memory store, \<^verbatim>\<open>modules/collector-source/pkg/metric/collector.go\<close> and
  \<^verbatim>\<open>store.go\<close>. The two maps of a store point to the same collectors; a pointer is modelled by
  the identifier of the collector, which is unique in a store.
\<close>

unbundle bit_operations_syntax

section \<open>Hashes and label maps\<close>

text \<open>The 64-bit FNV-1a hash of \<^verbatim>\<open>hash/fnv\<close>, written to once for every string.\<close>

definition fnvByte :: "char \<Rightarrow> 64 word \<Rightarrow> 64 word" where
  "fnvByte c h = (h XOR of_char c) * 1099511628211"

definition fnvWrite :: "string \<Rightarrow> 64 word \<Rightarrow> 64 word" where
  "fnvWrite s h = fold fnvByte s h"

definition Hash :: "string list \<Rightarrow> 64 word" where
  "Hash ss = fold fnvWrite ss 14695981039346656037"

definition ToMap :: "string list \<Rightarrow> string list \<Rightarrow> string gomap" where
  "ToMap labels values = fold (\<lambda>(k, v). AList.update k v) (zip labels values) []"

section \<open>Collectors\<close>

record metricCollector =
  col_id :: string
  col_metricName :: string
  col_labels :: "string list"
  col_aggregator :: aggregatorKind
  col_metrics :: "(64 word \<times> metricAggregator) list"
  col_filter :: "(string gomap \<Rightarrow> bool) option"

record metricResult =
  res_MetricLabels :: "string gomap"
  res_Values :: "metricValue list"

definition NewMetricCollector ::
  "string \<Rightarrow> string \<Rightarrow> string list \<Rightarrow> aggregatorKind \<Rightarrow> (string gomap \<Rightarrow> bool) option \<Rightarrow> metricCollector" where
  "NewMetricCollector cid metricName labels kind fn =
     \<lparr>col_id = cid, col_metricName = metricName, col_labels = labels, col_aggregator = kind,
      col_metrics = [], col_filter = fn\<rparr>"

definition collectorUpdate :: "string gomap \<Rightarrow> sample \<Rightarrow> metricCollector \<Rightarrow> metricCollector" where
  "collectorUpdate labels smp c =
     (if (case col_filter c of None \<Rightarrow> False | Some f \<Rightarrow> \<not> f labels) then c
      else (let labelValues = map (mapStr labels) (col_labels c);
                key = Hash labelValues;
                agg = (case map_of (col_metrics c) key of
                         None \<Rightarrow> newAggregator (col_aggregator c) labelValues
                       | Some a \<Rightarrow> a)
            in c\<lparr>col_metrics := AList.update key (aggUpdate smp agg) (col_metrics c)\<rparr>))"

definition collectorGet :: "metricCollector \<Rightarrow> metricResult list" where
  "collectorGet c =
     map (\<lambda>(_, a).
            \<lparr>res_MetricLabels = fold (\<lambda>(k, v). AList.update k v) (aggAdditionInfo a) (ToMap (col_labels c) (aggLabelValues a)),
             res_Values = aggValue a\<rparr>)
       (col_metrics c)"

section \<open>The store\<close>

record metricStore =
  ms_byMetricName :: "(string \<times> string list) list"
  ms_byCollectorID :: "(string \<times> metricCollector) list"

datatype storeError = AlreadyRegistered string | NoCollector string

definition NewInMemoryMetricStore :: metricStore where
  "NewInMemoryMetricStore = \<lparr>ms_byMetricName = [], ms_byCollectorID = []\<rparr>"

definition idsFor :: "string \<Rightarrow> metricStore \<Rightarrow> string list" where
  "idsFor name s = (case map_of (ms_byMetricName s) name of None \<Rightarrow> [] | Some ids \<Rightarrow> ids)"

definition Register :: "metricCollector \<Rightarrow> metricStore \<Rightarrow> storeError option \<times> metricStore" where
  "Register c s =
     (if map_of (ms_byCollectorID s) (col_id c) \<noteq> None then (Some (AlreadyRegistered (col_id c)), s)
      else (None,
        s\<lparr>ms_byCollectorID := AList.update (col_id c) c (ms_byCollectorID s),
          ms_byMetricName := AList.update (col_metricName c) (idsFor (col_metricName c) s @ [col_id c]) (ms_byMetricName s)\<rparr>))"

definition Unregister :: "string \<Rightarrow> metricStore \<Rightarrow> bool \<times> metricStore" where
  "Unregister cid s =
     (case map_of (ms_byCollectorID s) cid of
        None \<Rightarrow> (False, s)
      | Some inst \<Rightarrow>
          (True,
           s\<lparr>ms_byMetricName := AList.update (col_metricName inst)
               (filter (\<lambda>i. i \<noteq> cid) (idsFor (col_metricName inst) s)) (ms_byMetricName s),
             ms_byCollectorID := AList.delete cid (ms_byCollectorID s)\<rparr>))"

definition Query :: "string \<Rightarrow> metricStore \<Rightarrow> storeError + metricResult list" where
  "Query cid s =
     (case map_of (ms_byCollectorID s) cid of None \<Rightarrow> Inl (NoCollector cid) | Some c \<Rightarrow> Inr (collectorGet c))"

definition updateAt :: "string gomap \<Rightarrow> sample \<Rightarrow> string \<Rightarrow> metricStore \<Rightarrow> metricStore" where
  "updateAt labels smp cid s =
     (case map_of (ms_byCollectorID s) cid of
        None \<Rightarrow> s
      | Some c \<Rightarrow> s\<lparr>ms_byCollectorID := AList.update cid (collectorUpdate labels smp c) (ms_byCollectorID s)\<rparr>)"

definition storeUpdate :: "string \<Rightarrow> string gomap \<Rightarrow> sample \<Rightarrow> metricStore \<Rightarrow> metricStore" where
  "storeUpdate name labels smp s = fold (updateAt labels smp) (idsFor name s) s"

section \<open>A collector keeps one series per hash\<close>

lemma update_keeps [simp]:
  "col_id (collectorUpdate labels smp c) = col_id c" "col_metricName (collectorUpdate labels smp c) = col_metricName c"
  "col_labels (collectorUpdate labels smp c) = col_labels c" "col_aggregator (collectorUpdate labels smp c) = col_aggregator c"
  "col_filter (collectorUpdate labels smp c) = col_filter c"
  by (simp_all add: collectorUpdate_def Let_def)

text \<open>The samples a collector accepts, with the values of its labels.\<close>

definition accepted :: "metricCollector \<Rightarrow> (string gomap \<times> sample) list \<Rightarrow> (string list \<times> sample) list" where
  "accepted c us =
     map (\<lambda>(labels, smp). (map (mapStr labels) (col_labels c), smp))
       (filter (\<lambda>(labels, _). case col_filter c of None \<Rightarrow> True | Some f \<Rightarrow> f labels) us)"

definition series :: "aggregatorKind \<Rightarrow> (string list \<times> sample) list \<Rightarrow> metricAggregator option" where
  "series kind ss =
     (case ss of [] \<Rightarrow> None | (ls, _) # _ \<Rightarrow> Some (fold aggUpdate (map snd ss) (newAggregator kind ls)))"

lemma series_snoc:
  "series kind (ss @ [(ls, smp)]) =
     Some (aggUpdate smp (case series kind ss of None \<Rightarrow> newAggregator kind ls | Some a \<Rightarrow> a))"
  by (cases ss) (auto simp: series_def)

lemma collector_fold:
  assumes "col_metrics c = []"
  shows "map_of (col_metrics (fold (\<lambda>(labels, smp). collectorUpdate labels smp) us c)) k =
    series (col_aggregator c) (filter (\<lambda>(ls, _). Hash ls = k) (accepted c us))"
  using assms
proof (induction us rule: rev_induct)
  case Nil
  then show ?case by (simp add: accepted_def series_def)
next
  case (snoc u us)
  obtain labels smp where u: "u = (labels, smp)" by (cases u)
  let ?c = "fold (\<lambda>(labels, smp). collectorUpdate labels smp) us c"
  have keep: "col_labels ?c = col_labels c \<and> col_filter ?c = col_filter c \<and> col_aggregator ?c = col_aggregator c"
    by (induction us rule: rev_induct) auto
  show ?case
  proof (cases "case col_filter c of None \<Rightarrow> True | Some f \<Rightarrow> f labels")
    case False
    then have "collectorUpdate labels smp ?c = ?c" "accepted c (us @ [u]) = accepted c us"
      using keep u by (auto simp: collectorUpdate_def accepted_def split: option.splits)
    with snoc u show ?thesis by simp
  next
    case True
    let ?ls = "map (mapStr labels) (col_labels c)"
    have a: "accepted c (us @ [u]) = accepted c us @ [(?ls, smp)]" using True u by (simp add: accepted_def)
    have m: "col_metrics (collectorUpdate labels smp ?c) =
        AList.update (Hash ?ls) (aggUpdate smp (case map_of (col_metrics ?c) (Hash ?ls) of
          None \<Rightarrow> newAggregator (col_aggregator c) ?ls | Some a \<Rightarrow> a)) (col_metrics ?c)"
      using True keep by (auto simp: collectorUpdate_def Let_def split: option.splits)
    show ?thesis
      using snoc u a m by (cases "k = Hash ?ls") (simp_all add: update_conv' series_snoc)
  qed
qed

text \<open>Without collisions among the label values that occur, the series of label values is exactly theirs.\<close>

lemma collector_series:
  assumes "col_metrics c = []" and "inj_on Hash (insert ls (fst ` set (accepted c us)))"
  shows "map_of (col_metrics (fold (\<lambda>(labels, smp). collectorUpdate labels smp) us c)) (Hash ls) =
    series (col_aggregator c) (filter (\<lambda>(ls', _). ls' = ls) (accepted c us))"
proof -
  have "filter (\<lambda>(ls', _). Hash ls' = Hash ls) (accepted c us) = filter (\<lambda>(ls', _). ls' = ls) (accepted c us)"
  proof (rule filter_cong [OF refl])
    fix x assume "x \<in> set (accepted c us)"
    then have "fst x \<in> insert ls (fst ` set (accepted c us))" by simp
    then show "(case x of (ls', _) \<Rightarrow> Hash ls' = Hash ls) = (case x of (ls', _) \<Rightarrow> ls' = ls)"
      using assms(2) by (auto simp: case_prod_unfold inj_on_def)
  qed
  with collector_fold [OF assms(1), of us "Hash ls"] show ?thesis by simp
qed

text \<open>The hash only sees the concatenation of the values.\<close>

lemma Hash_concat: "Hash ss = fnvWrite (concat ss) 14695981039346656037"
proof -
  have "fold fnvWrite ss h = fnvWrite (concat ss) h" for h
    by (induction ss arbitrary: h) (simp_all add: fnvWrite_def)
  then show ?thesis by (simp add: Hash_def)
qed

section \<open>The store routes updates by metric name\<close>

definition storeOk :: "metricStore \<Rightarrow> bool" where
  "storeOk s \<longleftrightarrow>
     (\<forall>cid c. map_of (ms_byCollectorID s) cid = Some c \<longrightarrow> col_id c = cid) \<and>
     (\<forall>name. distinct (idsFor name s) \<and>
        set (idsFor name s) = {cid. \<exists>c. map_of (ms_byCollectorID s) cid = Some c \<and> col_metricName c = name})"

lemma idsFor_update:
  "idsFor name (s\<lparr>ms_byCollectorID := m, ms_byMetricName := AList.update n ids (ms_byMetricName s)\<rparr>) =
     (if name = n then ids else idsFor name s)"
  "idsFor name (s\<lparr>ms_byMetricName := AList.update n ids (ms_byMetricName s), ms_byCollectorID := m\<rparr>) =
     (if name = n then ids else idsFor name s)"
  by (simp_all add: idsFor_def update_conv')

lemma NewInMemoryMetricStore_ok: "storeOk NewInMemoryMetricStore"
  by (simp add: storeOk_def NewInMemoryMetricStore_def idsFor_def)

lemma Register_ok: "storeOk s \<Longrightarrow> storeOk (snd (Register c s))"
  by (auto simp: storeOk_def Register_def idsFor_update update_conv' split: if_splits)

lemma Unregister_ok: "storeOk s \<Longrightarrow> storeOk (snd (Unregister cid s))"
  by (auto simp: storeOk_def Unregister_def idsFor_update delete_conv' split: option.splits if_splits)

lemma updateAt_fold:
  assumes "distinct ids"
  shows "map_of (ms_byCollectorID (fold (updateAt labels smp) ids s)) cid =
      map_option (\<lambda>c. if cid \<in> set ids then collectorUpdate labels smp c else c) (map_of (ms_byCollectorID s) cid) \<and>
    ms_byMetricName (fold (updateAt labels smp) ids s) = ms_byMetricName s"
  using assms
proof (induction ids arbitrary: s)
  case Nil
  show ?case by (cases "map_of (ms_byCollectorID s) cid") simp_all
next
  case (Cons i ids)
  have "ms_byMetricName (updateAt labels smp i s) = ms_byMetricName s" by (simp add: updateAt_def split: option.splits)
  moreover have "map_of (ms_byCollectorID (updateAt labels smp i s)) cid =
      map_option (\<lambda>c. if cid = i then collectorUpdate labels smp c else c) (map_of (ms_byCollectorID s) cid)"
    by (cases "map_of (ms_byCollectorID s) cid"; cases "map_of (ms_byCollectorID s) i")
      (auto simp: updateAt_def update_conv')
  ultimately show ?case
    using Cons.IH [of "updateAt labels smp i s"] Cons.prems by (cases "map_of (ms_byCollectorID s) cid") auto
qed

lemma storeUpdate_lookup:
  assumes "storeOk s"
  shows "map_of (ms_byCollectorID (storeUpdate name labels smp s)) cid =
    map_option (\<lambda>c. if col_metricName c = name then collectorUpdate labels smp c else c) (map_of (ms_byCollectorID s) cid)"
  using assms updateAt_fold [of "idsFor name s" labels smp s cid]
  unfolding storeUpdate_def storeOk_def by (cases "map_of (ms_byCollectorID s) cid") auto

lemma storeUpdate_ok:
  assumes "storeOk s"
  shows "storeOk (storeUpdate name labels smp s)"
proof -
  have "ms_byMetricName (storeUpdate name labels smp s) = ms_byMetricName s"
    using assms updateAt_fold [of "idsFor name s" labels smp s] by (simp add: storeUpdate_def storeOk_def)
  then have "idsFor n (storeUpdate name labels smp s) = idsFor n s" for n by (simp add: idsFor_def)
  with assms show ?thesis
    unfolding storeOk_def storeUpdate_lookup [OF assms] by (auto simp: map_option_case split: option.splits)
qed

text \<open>A collector sees, of a sequence of updates, those with its metric name.\<close>

type_synonym metricUpdate = "string \<times> string gomap \<times> sample"

definition storeRun :: "metricUpdate list \<Rightarrow> metricStore \<Rightarrow> metricStore" where
  "storeRun us s = fold (\<lambda>(name, labels, smp). storeUpdate name labels smp) us s"

definition forMetric :: "string \<Rightarrow> metricUpdate list \<Rightarrow> (string gomap \<times> sample) list" where
  "forMetric name us = map snd (filter (\<lambda>u. fst u = name) us)"

lemma storeRun_lookup:
  assumes "storeOk s" and "map_of (ms_byCollectorID s) cid = Some c"
  shows "storeOk (storeRun us s) \<and>
    map_of (ms_byCollectorID (storeRun us s)) cid =
      Some (fold (\<lambda>(labels, smp). collectorUpdate labels smp) (forMetric (col_metricName c) us) c)"
  using assms
proof (induction us rule: rev_induct)
  case Nil
  then show ?case by (simp add: storeRun_def forMetric_def)
next
  case (snoc u us)
  obtain name labels smp where u: "u = (name, labels, smp)" by (cases u)
  have keep: "col_metricName (fold (\<lambda>(labels, smp). collectorUpdate labels smp) ls c) = col_metricName c" for ls
    by (induction ls rule: rev_induct) auto
  have run: "storeRun (us @ [u]) s = storeUpdate name labels smp (storeRun us s)" using u by (simp add: storeRun_def)
  from snoc u keep storeUpdate_lookup [of "storeRun us s"] storeUpdate_ok [of "storeRun us s"] show ?case
    unfolding run by (simp add: forMetric_def)
qed

end
