(* ===== verification/Metric_Repository.thy ===== *)
theory Metric_Repository
  imports Metric_Store Scrape_Parser
begin

text \<open>
  Intervals, resolutions and the repository of stores per window,
  \<^verbatim>\<open>modules/collector-source/pkg/util\<close> and \<^verbatim>\<open>pkg/metric/repository.go\<close>. The interface
  \<^verbatim>\<open>MetricStore\<close> is a type variable together with its update function, and a locale states
  what the repository needs of it. The current time is an argument of every operation that reads
  the clock; the goroutine that calls \<^verbatim>\<open>clean\<close> is the operation itself.
\<close>

section \<open>Intervals\<close>

datatype interval = DurationInterval duration | WeekInterval int

text \<open>\<^verbatim>\<open>NewInterval\<close>: \<open>None\<close> is the panic on a number that does not fit.\<close>

definition NewInterval :: "string \<Rightarrow> (string + interval) option" where
  "NewInterval def =
     (let ds = takeWhile isDigit def; rest = dropWhile isDigit def
      in if ds = [] \<or> rest \<notin> {''s'', ''m'', ''h'', ''d'', ''w''} then Some (Inl (''failed to parse interval '' @ def))
         else case ParseInt ds of
                None \<Rightarrow> None
              | Some num \<Rightarrow>
                  Some (Inr (if rest = ''s'' then DurationInterval (wrap64 (num * Second))
                             else if rest = ''m'' then DurationInterval (wrap64 (num * Minute))
                             else if rest = ''h'' then DurationInterval (wrap64 (num * Hour))
                             else if rest = ''d'' then DurationInterval (wrap64 (num * Day))
                             else WeekInterval num)))"

fun intervalAdd :: "interval \<Rightarrow> gotime \<Rightarrow> int \<Rightarrow> gotime" where
  "intervalAdd (DurationInterval d) t i = timeAdd t (wrap64 (d * i))"
| "intervalAdd (WeekInterval count) t i = timeAdd t (wrap64 (Week * wrap64 (i * count)))"

fun intervalTruncate :: "interval \<Rightarrow> gotime \<Rightarrow> gotime" where
  "intervalTruncate (DurationInterval d) t = timeTruncate (timeUTC t) d"
| "intervalTruncate (WeekInterval count) t =
     (let t1 = (if timeWeekday (timeUTC t) = 0 then timeAdd (timeUTC t) Day else t)
      in timeAdd (timeTruncate (timeUTC t1) (wrap64 (Week * count))) (- Day))"

section \<open>Resolutions\<close>

record resolution =
  rsl_interval :: interval
  rsl_intervalDef :: string
  rsl_retention :: int

definition NewResolution :: "string \<Rightarrow> int \<Rightarrow> (string + resolution) option" where
  "NewResolution def retention =
     (case NewInterval def of
        None \<Rightarrow> None
      | Some (Inl err) \<Rightarrow> Some (Inl (''failed to create resolution: '' @ err))
      | Some (Inr i) \<Rightarrow> Some (Inr \<lparr>rsl_interval = i, rsl_intervalDef = def, rsl_retention = retention\<rparr>))"

definition resCurrent :: "gotime \<Rightarrow> resolution \<Rightarrow> gotime" where
  "resCurrent now r = intervalTruncate (rsl_interval r) now"

definition resNext :: "gotime \<Rightarrow> resolution \<Rightarrow> gotime" where
  "resNext now r = intervalAdd (rsl_interval r) (intervalTruncate (rsl_interval r) now) 1"

definition resLimit :: "gotime \<Rightarrow> resolution \<Rightarrow> gotime" where
  "resLimit now r =
     intervalAdd (rsl_interval r) (intervalTruncate (rsl_interval r) now) (- (rsl_retention r - 1))"

definition resGet :: "resolution \<Rightarrow> gotime \<Rightarrow> gotime" where
  "resGet r t = intervalTruncate (rsl_interval r) t"

section \<open>The repository\<close>

text \<open>\<^verbatim>\<open>UnixMilli\<close> rounds down to a millisecond.\<close>

definition timeUnixMilli :: "gotime \<Rightarrow> int" where
  "timeUnixMilli t = (tm_ns t - unixToInternal * Second) div 1000000"

definition timeOfUnixMilli :: "int \<Rightarrow> gotime" where
  "timeOfUnixMilli k = \<lparr>tm_ns = k * 1000000 + unixToInternal * Second, tm_off = 0\<rparr>"

record update =
  upd_Name :: string
  upd_Labels :: "string gomap"
  upd_Value :: float64
  upd_AdditionalInfo :: "string gomap"

record updateSet =
  us_Timestamp :: gotime
  us_Updates :: "update list"

record 's resolutionStores =
  rs_resolution :: resolution
  rs_collectors :: "(int \<times> 's) list"
  rs_factory :: 's

datatype repositoryError = NoResolution string | PastLimit gotime | NoWindow gotime

text \<open>All updates of a set, applied to one store.\<close>

definition applyAll ::
  "(string \<Rightarrow> string gomap \<Rightarrow> sample \<Rightarrow> 's \<Rightarrow> 's) \<Rightarrow> updateSet \<Rightarrow> 's \<Rightarrow> 's" where
  "applyAll upd set' s =
     fold (\<lambda>u. upd (upd_Name u) (upd_Labels u) (upd_Value u, us_Timestamp set', upd_AdditionalInfo u)) (us_Updates set') s"

definition newResolutionStores :: "resolution \<Rightarrow> 's \<Rightarrow> 's resolutionStores" where
  "newResolutionStores r factory = \<lparr>rs_resolution = r, rs_collectors = [], rs_factory = factory\<rparr>"

definition resClean :: "gotime \<Rightarrow> 's resolutionStores \<Rightarrow> 's resolutionStores" where
  "resClean now r =
     (let limitKey = timeUnixMilli (resLimit now (rs_resolution r))
      in r\<lparr>rs_collectors := filter (\<lambda>(key, _). \<not> key < limitKey) (rs_collectors r)\<rparr>)"

definition resUpdate ::
  "(string \<Rightarrow> string gomap \<Rightarrow> sample \<Rightarrow> 's \<Rightarrow> 's) \<Rightarrow> gotime \<Rightarrow> updateSet \<Rightarrow> 's resolutionStores \<Rightarrow>
    's resolutionStores" where
  "resUpdate upd now set' r =
     (let ts = us_Timestamp set'
      in if timeBefore ts (resLimit now (rs_resolution r)) then r
         else (let resolutionStart = resGet (rs_resolution r) ts;
                   key = timeUnixMilli resolutionStart;
                   collector = (case map_of (rs_collectors r) key of None \<Rightarrow> rs_factory r | Some s \<Rightarrow> s);
                   m1 = AList.update key (applyAll upd set' collector) (rs_collectors r);
                   m2 = (if timeEqual resolutionStart ts
                         then (let prevKey = timeUnixMilli (resGet (rs_resolution r) (timeAdd ts (- 1)))
                               in case map_of m1 prevKey of
                                    None \<Rightarrow> m1
                                  | Some prev \<Rightarrow> AList.update prevKey (applyAll upd set' prev) m1)
                         else m1)
               in r\<lparr>rs_collectors := m2\<rparr>))"

definition resGetCollector :: "gotime \<Rightarrow> gotime \<Rightarrow> 's resolutionStores \<Rightarrow> repositoryError + 's" where
  "resGetCollector now t r =
     (if timeBefore t (resLimit now (rs_resolution r)) then Inl (PastLimit t)
      else case map_of (rs_collectors r) (timeUnixMilli (resGet (rs_resolution r) t)) of
             None \<Rightarrow> Inl (NoWindow t)
           | Some s \<Rightarrow> Inr s)"

definition resGetKeys :: "'s resolutionStores \<Rightarrow> int list" where
  "resGetKeys r = map fst (rs_collectors r)"

type_synonym 's metricRepository = "(string \<times> 's resolutionStores) list"

definition NewMetricRepository :: "resolution list \<Rightarrow> 's \<Rightarrow> 's metricRepository" where
  "NewMetricRepository resolutions factory =
     fold (\<lambda>r. AList.update (rsl_intervalDef r) (newResolutionStores r factory)) resolutions []"

definition GetCollector :: "gotime \<Rightarrow> string \<Rightarrow> gotime \<Rightarrow> 's metricRepository \<Rightarrow> repositoryError + 's" where
  "GetCollector now def t repo =
     (case map_of repo def of None \<Rightarrow> Inl (NoResolution def) | Some r \<Rightarrow> resGetCollector now t r)"

definition repoUpdate ::
  "(string \<Rightarrow> string gomap \<Rightarrow> sample \<Rightarrow> 's \<Rightarrow> 's) \<Rightarrow> gotime \<Rightarrow> updateSet option \<Rightarrow> 's metricRepository \<Rightarrow> 's metricRepository" where
  "repoUpdate upd now set' repo =
     (case set' of None \<Rightarrow> repo | Some us \<Rightarrow> map (\<lambda>(def, r). (def, resUpdate upd now us r)) repo)"

definition Coverage :: "'s metricRepository \<Rightarrow> (string \<times> gotime list) list" where
  "Coverage repo = map (\<lambda>(def, r). (def, map timeOfUnixMilli (resGetKeys r))) repo"

section \<open>Intervals cut time into a grid\<close>

text \<open>
  Truncating is rounding down to a grid: of multiples of the duration, or of every \<open>count\<close>th
  Sunday.
\<close>

fun gridBase :: "interval \<Rightarrow> int" where
  "gridBase (DurationInterval d) = 0"
| "gridBase (WeekInterval count) = - Day"

fun gridLen :: "interval \<Rightarrow> int" where
  "gridLen (DurationInterval d) = d"
| "gridLen (WeekInterval count) = Week * count"

definition validInterval :: "interval \<Rightarrow> bool" where
  "validInterval i \<longleftrightarrow> 0 < gridLen i \<and> gridLen i \<le> maxInt64"

lemma last_day_of_weeks:
  assumes "0 < c" and "c * 7 * Day - Day \<le> x mod (c * 7 * Day)"
  shows "(x div Day + 1) mod 7 = 0"
proof -
  define q r where "q = x div (c * 7 * Day)" and "r = x mod (c * 7 * Day)"
  have x: "x = q * (c * 7 * Day) + r" unfolding q_def r_def by (simp only: div_mult_mod_eq)
  have d: "0 < Day" by (simp add: durations)
  then have r: "(c * 7 - 1) * Day \<le> r" "r < c * 7 * Day"
    using assms pos_mod_bound [of "c * 7 * Day" x] by (simp_all add: r_def algebra_simps)
  then have "r div Day = c * 7 - 1" by (intro int_div_pos_eq [of _ _ _ "r - (c * 7 - 1) * Day"]) (auto simp: algebra_simps)
  moreover have "x div Day = q * c * 7 + r div Day"
    using d by (simp add: x mult.assoc [symmetric] add.commute)
  ultimately have "x div Day + 1 = (q * c + c) * 7" by (simp add: algebra_simps)
  then show ?thesis by simp
qed

lemma intervalTruncate_grid:
  assumes "validInterval i"
  shows "tm_ns (intervalTruncate i t) = gridBase i + gridLen i * ((tm_ns t - gridBase i) div gridLen i)"
    and "tm_off (intervalTruncate i t) = 0"
proof -
  have mult: "x - x mod m = m * (x div m)" for x m :: int by (simp add: minus_mod_eq_mult_div)
  have "tm_ns (intervalTruncate i t) = gridBase i + gridLen i * ((tm_ns t - gridBase i) div gridLen i) \<and>
    tm_off (intervalTruncate i t) = 0"
  proof (cases i)
    case (DurationInterval d)
    with assms show ?thesis by (simp add: timeTruncate_def validInterval_def mult timeUTC_def)
  next
    case (WeekInterval c)
    let ?w = "Week * c" and ?x = "tm_ns t"
    have w: "0 < ?w" "wrap64 ?w = ?w" using assms WeekInterval by (simp_all add: validInterval_def wrap64_id minInt64_def)
    then have c: "0 < c" by (simp add: durations zero_less_mult_iff)
    have days: "?w = c * 7 * Day" by (simp add: durations)
    have wd: "timeWeekday (timeUTC t) = (?x div Day + 1) mod 7"
      by (simp add: timeWeekday_def localDay_def localNs_def timeUTC_def)
    have same: "(?x + Day) div ?w = ?x div ?w" if "timeWeekday (timeUTC t) \<noteq> 0"
    proof -
      have "\<not> ?w - Day \<le> ?x mod ?w" using last_day_of_weeks [OF c, of ?x] that unfolding days wd by blast
      then have "?x mod ?w < ?w - Day" by simp
      moreover have "0 \<le> ?x mod ?w" using w by simp
      moreover have "0 < Day" by (simp add: durations)
      ultimately show ?thesis
        using mult_div_mod_eq [of ?w ?x] by (intro int_div_pos_eq [of _ _ _ "?x mod ?w + Day"]) linarith+
    qed
    show ?thesis
      using w same WeekInterval by (auto simp: timeTruncate_def timeAdd_def timeUTC_def Let_def mult)
  qed
  then show "tm_ns (intervalTruncate i t) = gridBase i + gridLen i * ((tm_ns t - gridBase i) div gridLen i)"
    and "tm_off (intervalTruncate i t) = 0" by auto
qed

lemma intervalAdd_grid:
  assumes "validInterval i" and "minInt64 \<le> gridLen i * k" and "gridLen i * k \<le> maxInt64"
  shows "tm_ns (intervalAdd i t k) = tm_ns t + gridLen i * k"
proof (cases i)
  case (WeekInterval c)
  have "gridLen i * k = 604800000000000 * (k * c)" by (simp add: WeekInterval durations)
  with assms(2,3) have "- 9223372036854775808 \<le> 604800000000000 * (k * c)" "604800000000000 * (k * c) \<le> 9223372036854775807"
    by (simp_all add: minInt64_def maxInt64_def)
  then have "- 9223372036854775808 \<le> k * c" "k * c \<le> 9223372036854775807" by linarith+
  then have "wrap64 (k * c) = k * c" by (intro wrap64_id) (simp_all add: minInt64_def maxInt64_def)
  with assms WeekInterval show ?thesis by (simp add: timeAdd_def wrap64_id mult.commute mult.left_commute)
qed (use assms in \<open>simp add: timeAdd_def wrap64_id\<close>)

text \<open>The window of a time contains it, and the window of its start is the same one.\<close>

lemma interval_window:
  assumes "validInterval i"
  shows "tm_ns (intervalTruncate i t) \<le> tm_ns t \<and> tm_ns t < tm_ns (intervalAdd i (intervalTruncate i t) 1) \<and>
    intervalTruncate i (intervalTruncate i t) = intervalTruncate i t"
proof -
  let ?l = "gridLen i" and ?x = "tm_ns t - gridBase i"
  have l: "0 < ?l" "?l \<le> maxInt64" using assms by (auto simp: validInterval_def)
  note g = intervalTruncate_grid [OF assms]
  have x: "?l * (?x div ?l) + ?x mod ?l = ?x" "0 \<le> ?x mod ?l" "?x mod ?l < ?l" using l by simp_all
  have "tm_ns (intervalAdd i (intervalTruncate i t) 1) = tm_ns (intervalTruncate i t) + ?l"
    using intervalAdd_grid [OF assms, of 1] l by (simp add: minInt64_def)
  moreover have "intervalTruncate i (intervalTruncate i t) = intervalTruncate i t"
    using g [of t] g [of "intervalTruncate i t"] l by (intro gotime.equality) simp_all
  ultimately show ?thesis using g(1) [of t] x by linarith
qed

lemma week_starts_sunday:
  assumes "validInterval (WeekInterval c)"
  shows "timeWeekday (intervalTruncate (WeekInterval c) t) = 0" "tm_ns (intervalTruncate (WeekInterval c) t) mod Day = 0"
proof -
  define q where "q = (tm_ns t + Day) div (Week * c)"
  have n: "tm_ns (intervalTruncate (WeekInterval c) t) = (7 * (c * q) - 1) * Day"
    using intervalTruncate_grid(1) [OF assms, of t] by (simp add: q_def [symmetric]) (simp add: durations algebra_simps)
  have d: "Day \<noteq> 0" by (simp add: durations)
  show "tm_ns (intervalTruncate (WeekInterval c) t) mod Day = 0" unfolding n by simp
  have "localDay (intervalTruncate (WeekInterval c) t) = 7 * (c * q) - 1"
    using intervalTruncate_grid(2) [OF assms, of t] d unfolding localDay_def localNs_def n by simp
  then show "timeWeekday (intervalTruncate (WeekInterval c) t) = 0" by (simp add: timeWeekday_def)
qed

section \<open>What the repository keeps\<close>

text \<open>
  The windows of a resolution lie on its grid. If no sample comes from the future, cleaning
  leaves at most as many windows as the retention says.
\<close>

definition windowKey :: "interval \<Rightarrow> int \<Rightarrow> int" where
  "windowKey i n = (gridBase i + gridLen i * n - unixToInternal * Second) div 1000000"

definition windowNumber :: "interval \<Rightarrow> gotime \<Rightarrow> int" where
  "windowNumber i t = (tm_ns t - gridBase i) div gridLen i"

lemma key_of_window: "validInterval i \<Longrightarrow> timeUnixMilli (intervalTruncate i t) = windowKey i (windowNumber i t)"
  by (simp add: timeUnixMilli_def windowKey_def windowNumber_def intervalTruncate_grid)

lemma key_of_limit:
  assumes "validInterval (rsl_interval r)"
    and "minInt64 \<le> gridLen (rsl_interval r) * (1 - rsl_retention r)" "gridLen (rsl_interval r) * (1 - rsl_retention r) \<le> maxInt64"
  shows "timeUnixMilli (resLimit now r) =
    windowKey (rsl_interval r) (windowNumber (rsl_interval r) now - (rsl_retention r - 1))"
proof -
  have "tm_ns (resLimit now r) = tm_ns (intervalTruncate (rsl_interval r) now) + gridLen (rsl_interval r) * (1 - rsl_retention r)"
    using intervalAdd_grid [OF assms] by (simp add: resLimit_def)
  then show ?thesis
    by (simp add: timeUnixMilli_def windowKey_def windowNumber_def intervalTruncate_grid [OF assms(1)] algebra_simps)
qed

text \<open>Windows of at least a millisecond have different keys.\<close>

lemma windowKey_mono: "1000000 \<le> gridLen i \<Longrightarrow> a < b \<Longrightarrow> windowKey i a < windowKey i b"
proof -
  assume l: "1000000 \<le> gridLen i" and "a < b"
  then have "gridLen i * a + 1000000 \<le> gridLen i * b"
    using mult_left_mono [of "a + 1" b "gridLen i"] by (simp add: algebra_simps)
  then have "(gridBase i + gridLen i * a - unixToInternal * Second + 1000000) div 1000000 \<le> windowKey i b"
    unfolding windowKey_def by (intro zdiv_mono1) auto
  then show ?thesis by (simp add: windowKey_def)
qed

definition keysOk :: "(int \<Rightarrow> bool) \<Rightarrow> (int \<times> 's) list \<Rightarrow> bool" where
  "keysOk Q m \<longleftrightarrow> distinct (map fst m) \<and> (\<forall>key \<in> fst ` set m. Q key)"

definition repoOk :: "int \<Rightarrow> 's resolutionStores \<Rightarrow> bool" where
  "repoOk latest r \<longleftrightarrow>
     keysOk (\<lambda>key. \<exists>n \<le> latest. key = windowKey (rsl_interval (rs_resolution r)) n) (rs_collectors r)"

lemma keysOk_update: "keysOk Q m \<Longrightarrow> Q key \<Longrightarrow> keysOk Q (AList.update key v m)"
  unfolding keysOk_def dom_update by (auto simp: distinct_update)

lemma keysOk_update_present: "keysOk Q m \<Longrightarrow> map_of m key = Some w \<Longrightarrow> keysOk Q (AList.update key v m)"
  by (rule keysOk_update) (auto simp: keysOk_def dest: map_of_SomeD)

lemma repoOk_new: "repoOk latest (newResolutionStores res factory)"
  by (simp add: repoOk_def keysOk_def newResolutionStores_def)

lemma repoOk_later: "repoOk latest r \<Longrightarrow> latest \<le> latest' \<Longrightarrow> repoOk latest' r"
  unfolding repoOk_def keysOk_def by (meson order.trans)

lemma repoOk_clean: "repoOk latest r \<Longrightarrow> repoOk latest (resClean now r)"
  by (auto simp: repoOk_def keysOk_def resClean_def Let_def distinct_map_filter)

text \<open>The lookup after an update: its own window, the one it closes, and the others.\<close>

definition onBoundary :: "interval \<Rightarrow> gotime \<Rightarrow> bool" where
  "onBoundary i t = timeEqual (intervalTruncate i t) t"

lemma boundary_previous:
  assumes "validInterval i" and "onBoundary i t"
  shows "windowNumber i (timeAdd t (- 1)) = windowNumber i t - 1"
proof -
  let ?l = "gridLen i" and ?n = "windowNumber i t"
  have l: "0 < ?l" using assms(1) by (simp add: validInterval_def)
  have "tm_ns t = gridBase i + ?l * ?n"
    using assms(2) by (simp add: onBoundary_def time_order intervalTruncate_grid [OF assms(1)] windowNumber_def)
  then have "tm_ns t - 1 - gridBase i = ?l * (?n - 1) + (?l - 1)" by (simp add: algebra_simps)
  from int_div_pos_eq [OF this] l have "(tm_ns t - 1 - gridBase i) div ?l = ?n - 1" by simp
  then show ?thesis by (simp add: windowNumber_def timeAdd_def)
qed

definition storeAt :: "'s resolutionStores \<Rightarrow> int \<Rightarrow> 's option" where
  "storeAt r n = map_of (rs_collectors r) (windowKey (rsl_interval (rs_resolution r)) n)"

abbreviation resInterval :: "'s resolutionStores \<Rightarrow> interval" where
  "resInterval r \<equiv> rsl_interval (rs_resolution r)"

lemma resUpdate_resolution [simp]: "rs_resolution (resUpdate upd now us r) = rs_resolution r" "rs_factory (resUpdate upd now us r) = rs_factory r"
  by (simp_all add: resUpdate_def Let_def)

lemma resUpdate_old: "timeBefore (us_Timestamp us) (resLimit now (rs_resolution r)) \<Longrightarrow> resUpdate upd now us r = r"
  by (simp add: resUpdate_def Let_def)

lemma windowKey_eq_iff: "1000000 \<le> gridLen i \<Longrightarrow> windowKey i a = windowKey i b \<longleftrightarrow> a = b"
  using windowKey_mono [of i a b] windowKey_mono [of i b a] by (cases a b rule: linorder_cases) auto

lemma resUpdate_collectors:
  assumes "validInterval (resInterval r)"
    and "\<not> timeBefore (us_Timestamp us) (resLimit now (rs_resolution r))"
  shows "rs_collectors (resUpdate upd now us r) =
    (let n = windowNumber (resInterval r) (us_Timestamp us);
         m1 = AList.update (windowKey (resInterval r) n)
                (applyAll upd us (case storeAt r n of None \<Rightarrow> rs_factory r | Some s \<Rightarrow> s)) (rs_collectors r)
     in if onBoundary (resInterval r) (us_Timestamp us)
        then (case map_of m1 (windowKey (resInterval r) (n - 1)) of
                None \<Rightarrow> m1
              | Some prev \<Rightarrow> AList.update (windowKey (resInterval r) (n - 1)) (applyAll upd us prev) m1)
        else m1)"
proof -
  let ?i = "resInterval r" and ?t = "us_Timestamp us"
  have key: "timeUnixMilli (resGet (rs_resolution r) t) = windowKey ?i (windowNumber ?i t)" for t
    using key_of_window [OF assms(1)] by (simp add: resGet_def)
  have at: "timeEqual (resGet (rs_resolution r) ?t) ?t = onBoundary ?i ?t" by (simp add: onBoundary_def resGet_def)
  show ?thesis
    using assms(2) boundary_previous [OF assms(1), of ?t]
    by (cases "onBoundary ?i ?t") (simp_all add: resUpdate_def Let_def key at storeAt_def split: option.split)
qed

lemma resUpdate_storeAt:
  assumes "validInterval (resInterval r)" and "1000000 \<le> gridLen (resInterval r)"
    and "\<not> timeBefore (us_Timestamp us) (resLimit now (rs_resolution r))"
  shows "storeAt (resUpdate upd now us r) n =
    (let w = windowNumber (resInterval r) (us_Timestamp us)
     in if n = w then Some (applyAll upd us (case storeAt r w of None \<Rightarrow> rs_factory r | Some s \<Rightarrow> s))
        else if n = w - 1 \<and> onBoundary (resInterval r) (us_Timestamp us) then map_option (applyAll upd us) (storeAt r n)
        else storeAt r n)"
  using resUpdate_collectors [OF assms(1,3), of upd]
  by (auto simp: storeAt_def Let_def update_conv' windowKey_eq_iff [OF assms(2)] split: option.splits)

lemma repoOk_update:
  assumes "validInterval (resInterval r)" and "repoOk latest r" and "windowNumber (resInterval r) (us_Timestamp us) \<le> latest"
  shows "repoOk latest (resUpdate upd now us r)"
proof (cases "timeBefore (us_Timestamp us) (resLimit now (rs_resolution r))")
  case False
  let ?Q = "\<lambda>key. \<exists>n \<le> latest. key = windowKey (resInterval r) n"
  let ?m1 = "AList.update (windowKey (resInterval r) (windowNumber (resInterval r) (us_Timestamp us)))
    (applyAll upd us (case storeAt r (windowNumber (resInterval r) (us_Timestamp us)) of None \<Rightarrow> rs_factory r | Some s \<Rightarrow> s))
    (rs_collectors r)"
  have "keysOk ?Q ?m1" using assms(2,3) unfolding repoOk_def by (intro keysOk_update) auto
  then show ?thesis
    unfolding repoOk_def resUpdate_collectors [OF assms(1) False] Let_def resUpdate_resolution
    by (auto split: option.split intro: keysOk_update_present)
qed (use assms(2) in \<open>simp add: resUpdate_old\<close>)

definition retains :: "resolution \<Rightarrow> bool" where
  "retains res \<longleftrightarrow> validInterval (rsl_interval res) \<and> 1000000 \<le> gridLen (rsl_interval res) \<and> 1 \<le> rsl_retention res \<and>
     gridLen (rsl_interval res) * (rsl_retention res - 1) \<le> maxInt64"

lemma retains_limit:
  assumes "retains res"
  shows "timeUnixMilli (resLimit now res) = windowKey (rsl_interval res) (windowNumber (rsl_interval res) now - (rsl_retention res - 1))"
proof (rule key_of_limit)
  have "0 \<le> gridLen (rsl_interval res) * (rsl_retention res - 1)" using assms by (simp add: retains_def)
  moreover have "gridLen (rsl_interval res) * (1 - rsl_retention res) = - (gridLen (rsl_interval res) * (rsl_retention res - 1))"
    by (simp add: algebra_simps)
  moreover have "gridLen (rsl_interval res) * (rsl_retention res - 1) \<le> maxInt64" using assms by (simp add: retains_def)
  moreover have "minInt64 \<le> - maxInt64" "0 \<le> maxInt64" by (simp_all add: minInt64_def maxInt64_def)
  ultimately show "minInt64 \<le> gridLen (rsl_interval res) * (1 - rsl_retention res)"
    "gridLen (rsl_interval res) * (1 - rsl_retention res) \<le> maxInt64"
    by linarith+
qed (use assms in \<open>simp add: retains_def\<close>)

lemma clean_bound:
  assumes "retains (rs_resolution r)" and "repoOk (windowNumber (resInterval r) now) r"
  shows "int (length (rs_collectors (resClean now r))) \<le> rsl_retention (rs_resolution r)"
proof -
  let ?i = "resInterval r" and ?ret = "rsl_retention (rs_resolution r)"
  let ?w = "windowNumber ?i now" and ?ks = "map fst (rs_collectors (resClean now r))"
  have len: "1000000 \<le> gridLen ?i" and ret: "1 \<le> ?ret" using assms(1) by (simp_all add: retains_def)
  note limit = retains_limit [OF assms(1), of now]
  have "set ?ks \<subseteq> windowKey ?i ` {?w - (?ret - 1)..?w}"
  proof
    fix key assume k: "key \<in> set ?ks"
    then have "key \<in> fst ` set (rs_collectors r)" by (auto simp: resClean_def Let_def)
    then obtain n where n: "n \<le> ?w" "key = windowKey ?i n" using assms(2) by (auto simp: repoOk_def keysOk_def)
    from k limit n have "\<not> windowKey ?i n < windowKey ?i (?w - (?ret - 1))" by (auto simp: resClean_def Let_def)
    then have "?w - (?ret - 1) \<le> n" using windowKey_mono [OF len, of n "?w - (?ret - 1)"] by linarith
    with n show "key \<in> windowKey ?i ` {?w - (?ret - 1)..?w}" by auto
  qed
  moreover have "distinct ?ks" using repoOk_clean [OF assms(2), of now] by (simp add: repoOk_def keysOk_def)
  ultimately have "length ?ks \<le> card (windowKey ?i ` {?w - (?ret - 1)..?w})"
    by (metis card_mono distinct_card finite_atLeastAtMost_int finite_imageI)
  also have "\<dots> \<le> nat ?ret" using card_image_le [of "{?w - (?ret - 1)..?w}" "windowKey ?i"] by simp
  finally show ?thesis using ret by simp
qed

section \<open>Histories\<close>

text \<open>
  The clock advances, sets of updates arrive that are not from the future, and expired windows
  are removed, in any order.
\<close>

inductive repoStep ::
  "(string \<Rightarrow> string gomap \<Rightarrow> sample \<Rightarrow> 's \<Rightarrow> 's) \<Rightarrow> gotime \<times> 's resolutionStores \<Rightarrow>
    gotime \<times> 's resolutionStores \<Rightarrow> bool" for upd where
  tick: "tm_ns now \<le> tm_ns now' \<Longrightarrow> repoStep upd (now, r) (now', r)"
| update: "tm_ns (us_Timestamp us) \<le> tm_ns now \<Longrightarrow> repoStep upd (now, r) (now, resUpdate upd now us r)"
| clean: "repoStep upd (now, r) (now, resClean now r)"

inductive_cases repoStepE: "repoStep upd (now, r) nr"

definition repoRuns ::
  "(string \<Rightarrow> string gomap \<Rightarrow> sample \<Rightarrow> 's \<Rightarrow> 's) \<Rightarrow> gotime \<Rightarrow> 's resolutionStores \<Rightarrow> gotime \<Rightarrow>
    's resolutionStores \<Rightarrow> bool" where
  "repoRuns upd now r now' r' = (repoStep upd)\<^sup>*\<^sup>* (now, r) (now', r')"

lemma repoRuns_induct [consumes 1, case_names start step]:
  assumes "repoRuns upd now r now' r'"
    and "P now r"
    and "\<And>now1 r1 now2 r2. P now1 r1 \<Longrightarrow> repoStep upd (now1, r1) (now2, r2) \<Longrightarrow> P now2 r2"
  shows "P now' r'"
  using assms(1) unfolding repoRuns_def
  by (induction "(now', r')" arbitrary: now' r' rule: rtranclp_induct) (use assms(2,3) in auto)

lemma windowNumber_mono: "validInterval i \<Longrightarrow> tm_ns t \<le> tm_ns u \<Longrightarrow> windowNumber i t \<le> windowNumber i u"
  by (simp add: windowNumber_def validInterval_def zdiv_mono1)

lemma resClean_resolution [simp]: "rs_resolution (resClean now r) = rs_resolution r" "rs_factory (resClean now r) = rs_factory r"
  by (simp_all add: resClean_def Let_def)

lemma repo_invariant:
  assumes "repoRuns upd now0 (newResolutionStores res factory) now r" and "validInterval (rsl_interval res)"
  shows "rs_resolution r = res \<and> repoOk (windowNumber (rsl_interval res) now) r"
  using assms(1)
proof (induction rule: repoRuns_induct)
  case start
  show ?case by (simp add: repoOk_new) (simp add: newResolutionStores_def)
next
  case (step now1 r1 now2 r2)
  from step(2) show ?case
  proof (cases rule: repoStep.cases)
    case tick
    with step(1) assms(2) show ?thesis using repoOk_later windowNumber_mono by blast
  next
    case (update us)
    with step(1) assms(2) windowNumber_mono [OF assms(2), of "us_Timestamp us" now1] show ?thesis
      by (auto intro!: repoOk_update)
  next
    case clean
    with step(1) show ?thesis by (simp add: repoOk_clean)
  qed
qed

text \<open>A window that holds a store holds one until it is older than the retention.\<close>

lemma map_of_filter_key: "map_of (filter (\<lambda>(key, _). \<not> key < k) m) key = (if key < k then None else map_of m key)"
  for k :: int
  by (induction m) auto

lemma resClean_storeAt:
  assumes "retains (rs_resolution r)"
  shows "storeAt (resClean now r) n =
    (if n < windowNumber (resInterval r) now - (rsl_retention (rs_resolution r) - 1) then None else storeAt r n)"
proof -
  let ?i = "resInterval r" and ?l = "windowNumber (resInterval r) now - (rsl_retention (rs_resolution r) - 1)"
  have "windowKey ?i n < windowKey ?i ?l \<longleftrightarrow> n < ?l"
    using windowKey_mono [of ?i n ?l] windowKey_mono [of ?i ?l n] assms
    by (cases n ?l rule: linorder_cases) (auto simp: retains_def)
  then show ?thesis
    by (simp add: storeAt_def resClean_def Let_def retains_limit [OF assms] map_of_filter_key)
qed

lemma repo_retention:
  assumes "repoRuns upd now r now' r'" and "retains (rs_resolution r)"
    and "storeAt r n \<noteq> None"
    and "windowNumber (resInterval r) now' - (rsl_retention (rs_resolution r) - 1) \<le> n"
  shows "storeAt r' n \<noteq> None"
proof -
  let ?i = "resInterval r" and ?ret = "rsl_retention (rs_resolution r)"
  have "rs_resolution r' = rs_resolution r \<and> (windowNumber ?i now' - (?ret - 1) \<le> n \<longrightarrow> storeAt r' n \<noteq> None)"
    using assms(1)
  proof (induction rule: repoRuns_induct)
    case start
    with assms(3) show ?case by simp
  next
    case (step now1 r1 now2 r2)
    from step(2) show ?case
    proof (cases rule: repoStep.cases)
      case tick
      then have "windowNumber ?i now1 \<le> windowNumber ?i now2"
        using assms(2) by (intro windowNumber_mono) (simp_all add: retains_def)
      with tick step(1) show ?thesis by auto
    next
      case (update us)
      with step(1) assms(2) resUpdate_storeAt [of r1 us now1 upd n] show ?thesis
        by (cases "timeBefore (us_Timestamp us) (resLimit now1 (rs_resolution r1))")
          (auto simp: resUpdate_old retains_def Let_def)
    next
      case clean
      with step(1) assms(2) show ?thesis by (simp add: resClean_storeAt)
    qed
  qed
  with assms(4) show ?thesis by simp
qed

section \<open>What the repository needs of its stores\<close>

locale metric_store_contract =
  fixes upd :: "string \<Rightarrow> string gomap \<Rightarrow> sample \<Rightarrow> 's \<Rightarrow> 's" and ok :: "'s \<Rightarrow> bool"
  assumes upd_ok: "ok s \<Longrightarrow> ok (upd name labels smp s)"
begin

lemma applyAll_ok: "ok s \<Longrightarrow> ok (applyAll upd us s)"
proof -
  have "ok s \<Longrightarrow> ok (fold (\<lambda>u. upd (upd_Name u) (upd_Labels u) (upd_Value u, t, upd_AdditionalInfo u)) xs s)" for xs t
    by (induction xs arbitrary: s) (simp_all add: upd_ok)
  then show "ok s \<Longrightarrow> ok (applyAll upd us s)" by (simp add: applyAll_def)
qed

lemma resUpdate_ok:
  assumes "\<forall>s \<in> ran (map_of (rs_collectors r)). ok s" and "ok (rs_factory r)"
  shows "\<forall>s \<in> ran (map_of (rs_collectors (resUpdate upd now us r))). ok s"
  using assms by (auto simp: resUpdate_def Let_def update_conv' ran_def split: option.splits if_splits intro!: applyAll_ok)

lemma stores_ok:
  assumes "repoRuns upd now0 (newResolutionStores res factory) now r" and "ok factory"
  shows "rs_factory r = factory \<and> (\<forall>s \<in> ran (map_of (rs_collectors r)). ok s)"
  using assms(1)
proof (induction rule: repoRuns_induct)
  case start
  show ?case by (simp add: newResolutionStores_def ran_def)
next
  case (step now1 r1 now2 r2)
  from step(2) show ?case
  proof (cases rule: repoStep.cases)
    case (update us)
    with step(1) assms(2) resUpdate_ok show ?thesis by auto
  next
    case clean
    with step(1) show ?thesis
      by (auto simp: resClean_def Let_def ran_def map_of_filter_key split: if_splits)
  qed (use step(1) in simp)
qed

end

interpretation mstores: metric_store_contract storeUpdate storeOk
  by standard (rule storeUpdate_ok)

end
