(* ===== verification/Metric_Synthetic.thy ===== *)
theory Metric_Synthetic
  imports Metric_Repository "HOL-Library.Monad_Syntax"
begin

text \<open>
  The synthesizers of container allocation metrics, \<^verbatim>\<open>modules/collector-source/pkg/metric/synthetic\<close>:
  each scrape passes through them, and what they derive from requests and usage is appended to
  it. Maps from pods to containers to samples are nested association lists; a nil pointer is
  \<open>None\<close>, and reading through one is the result \<open>None\<close> of a synthesis.
\<close>

section \<open>Names and labels\<close>

definition ContainerCPUAllocation :: string where "ContainerCPUAllocation = ''container_cpu_allocation''"
definition ContainerMemoryAllocationBytes :: string where
  "ContainerMemoryAllocationBytes = ''container_memory_allocation_bytes''"
definition KubePodContainerResourceRequests :: string where
  "KubePodContainerResourceRequests = ''kube_pod_container_resource_requests''"
definition ContainerCPUUsageSecondsTotal :: string where
  "ContainerCPUUsageSecondsTotal = ''container_cpu_usage_seconds_total''"
definition ContainerMemoryWorkingSetBytes :: string where
  "ContainerMemoryWorkingSetBytes = ''container_memory_working_set_bytes''"
definition ResourceLabel :: string where "ResourceLabel = ''resource''"
definition UnitLabel :: string where "UnitLabel = ''unit''"
definition ContainerLabel :: string where "ContainerLabel = ''container''"
definition NodeLabel :: string where "NodeLabel = ''node''"
definition UIDLabel :: string where "UIDLabel = ''uid''"

lemmas metric_names = KubePodContainerResourceRequests_def ContainerCPUUsageSecondsTotal_def
  ContainerMemoryWorkingSetBytes_def ContainerCPUAllocation_def ContainerMemoryAllocationBytes_def

text \<open>\<^verbatim>\<open>max\<close> and \<^verbatim>\<open>math.IsNaN\<close> on floats.\<close>

definition fmax :: "float64 \<Rightarrow> float64 \<Rightarrow> float64" where
  "fmax x y = (if x = NaN \<or> y = NaN then NaN else if flt x y then y else x)"

definition zeroNaN :: "float64 \<Rightarrow> float64" where
  "zeroNaN x = (if x = NaN then Fin 0 else x)"

definition allocationUpdate :: "string \<Rightarrow> string gomap \<Rightarrow> float64 \<Rightarrow> update" where
  "allocationUpdate name labels v =
     \<lparr>upd_Name = name, upd_Labels = labels, upd_Value = v, upd_AdditionalInfo = []\<rparr>"

definition dropExtraLabels :: "string gomap \<Rightarrow> string gomap" where
  "dropExtraLabels labels = AList.delete UnitLabel (AList.delete ResourceLabel labels)"

definition isValidRequests :: "string \<Rightarrow> string \<Rightarrow> string gomap \<Rightarrow> bool" where
  "isValidRequests resource unit labels \<longleftrightarrow>
     mapStr labels ResourceLabel = resource \<and> mapStr labels UnitLabel = unit \<and>
     mapStr labels ContainerLabel \<noteq> ''POD'' \<and> mapStr labels ContainerLabel \<noteq> [] \<and>
     mapStr labels NodeLabel \<noteq> [] \<and> mapStr labels UIDLabel \<noteq> []"

definition isValidUsage :: "string gomap \<Rightarrow> bool" where
  "isValidUsage labels \<longleftrightarrow>
     mapStr labels ContainerLabel \<noteq> ''POD'' \<and> mapStr labels ContainerLabel \<noteq> [] \<and> mapStr labels UIDLabel \<noteq> []"

text \<open>The entry of a container, looked up and changed through both maps.\<close>

type_synonym 'm byPod = "(string \<times> (string \<times> 'm) list) list"

definition podEntry :: "'m byPod \<Rightarrow> string \<Rightarrow> string \<Rightarrow> 'm option" where
  "podEntry m pod ctr = (case map_of m pod of None \<Rightarrow> None | Some cs \<Rightarrow> map_of cs ctr)"

definition putEntry :: "string \<Rightarrow> string \<Rightarrow> 'm \<Rightarrow> 'm byPod \<Rightarrow> 'm byPod" where
  "putEntry pod ctr v m =
     AList.update pod (AList.update ctr v (case map_of m pod of None \<Rightarrow> [] | Some cs \<Rightarrow> cs)) m"

lemma podEntry_put: "podEntry (putEntry pod ctr v m) p c = (if p = pod \<and> c = ctr then Some v else podEntry m p c)"
  by (auto simp: podEntry_def putEntry_def update_conv' split: option.splits)

section \<open>Memory\<close>

record memoryMetric =
  mm_requestMetric :: "update option"
  mm_usageMetric :: "update option"

fun memorySynthesize :: "memoryMetric \<Rightarrow> update option" where
  "memorySynthesize \<lparr>mm_requestMetric = Some req, mm_usageMetric = Some used\<rparr> =
     Some (allocationUpdate ContainerMemoryAllocationBytes (upd_Labels used)
       (fmax (zeroNaN (upd_Value req)) (zeroNaN (upd_Value used))))"
| "memorySynthesize \<lparr>mm_requestMetric = Some req, mm_usageMetric = None\<rparr> =
     Some (allocationUpdate ContainerMemoryAllocationBytes (dropExtraLabels (upd_Labels req)) (zeroNaN (upd_Value req)))"
| "memorySynthesize \<lparr>mm_requestMetric = None, mm_usageMetric = Some used\<rparr> =
     Some (allocationUpdate ContainerMemoryAllocationBytes (upd_Labels used) (zeroNaN (upd_Value used)))"
| "memorySynthesize \<lparr>mm_requestMetric = None, mm_usageMetric = None\<rparr> = None"

definition memoryAddRequests :: "update \<Rightarrow> memoryMetric byPod \<Rightarrow> memoryMetric byPod" where
  "memoryAddRequests u m =
     (if \<not> isValidRequests ''memory'' ''byte'' (upd_Labels u) then m
      else (let pod = mapStr (upd_Labels u) UIDLabel; ctr = mapStr (upd_Labels u) ContainerLabel
            in case podEntry m pod ctr of
                 None \<Rightarrow> putEntry pod ctr \<lparr>mm_requestMetric = Some u, mm_usageMetric = None\<rparr> m
               | Some e \<Rightarrow> putEntry pod ctr (e\<lparr>mm_requestMetric := Some u\<rparr>) m))"

definition memoryAddUsage :: "update \<Rightarrow> memoryMetric byPod \<Rightarrow> memoryMetric byPod" where
  "memoryAddUsage u m =
     (if \<not> isValidUsage (upd_Labels u) then m
      else (let pod = mapStr (upd_Labels u) UIDLabel; ctr = mapStr (upd_Labels u) ContainerLabel
            in case podEntry m pod ctr of
                 None \<Rightarrow> putEntry pod ctr \<lparr>mm_requestMetric = None, mm_usageMetric = Some u\<rparr> m
               | Some e \<Rightarrow> putEntry pod ctr (e\<lparr>mm_usageMetric := Some u\<rparr>) m))"

definition memoryProcess :: "update \<Rightarrow> memoryMetric byPod \<Rightarrow> memoryMetric byPod" where
  "memoryProcess u m =
     (if upd_Name u = KubePodContainerResourceRequests then memoryAddRequests u m
      else if upd_Name u = ContainerMemoryWorkingSetBytes then memoryAddUsage u m
      else m)"

definition memorySynthesizeAll :: "memoryMetric byPod \<Rightarrow> update list option" where
  "memorySynthesizeAll m = those (map (\<lambda>(_, e). memorySynthesize e) (concat (map snd m)))"

section \<open>Processor time\<close>

record cpuUsageMetric =
  cu_current :: "(gotime \<times> update) option"
  cu_prev :: "(gotime \<times> update) option"

definition NewCpuUsageMetric :: "gotime \<Rightarrow> update \<Rightarrow> cpuUsageMetric" where
  "NewCpuUsageMetric t u = \<lparr>cu_current = Some (t, u), cu_prev = None\<rparr>"

definition usagePush :: "gotime \<Rightarrow> update \<Rightarrow> cpuUsageMetric \<Rightarrow> cpuUsageMetric" where
  "usagePush t u m =
     (if cu_current m = None then m\<lparr>cu_current := Some (t, u)\<rparr>
      else m\<lparr>cu_prev := cu_current m, cu_current := Some (t, u)\<rparr>)"

definition usageLabels :: "cpuUsageMetric \<Rightarrow> string gomap" where
  "usageLabels m =
     (case cu_current m of
        Some (_, u) \<Rightarrow> upd_Labels u
      | None \<Rightarrow> (case cu_prev m of Some (_, u) \<Rightarrow> upd_Labels u | None \<Rightarrow> []))"

definition usageIsValid :: "cpuUsageMetric option \<Rightarrow> bool" where
  "usageIsValid m = (case m of None \<Rightarrow> False | Some u \<Rightarrow> cu_current u \<noteq> None \<and> cu_prev u \<noteq> None)"

definition usageIsEmpty :: "cpuUsageMetric option \<Rightarrow> bool" where
  "usageIsEmpty m = (case m of None \<Rightarrow> True | Some u \<Rightarrow> cu_current u = None \<and> cu_prev u = None)"

definition usageValue :: "cpuUsageMetric \<Rightarrow> float64" where
  "usageValue m =
     (case (cu_current m, cu_prev m) of
        (Some (t1, c), Some (t2, p)) \<Rightarrow>
          (let curr = upd_Value c; prev = upd_Value p; seconds = durSeconds (timeSub t1 t2)
           in if flt curr prev then Fin 0
              else if fle seconds (Fin 0) then Fin 0
              else fmax (Fin 0) (fdiv (fsub curr prev) seconds))
      | _ \<Rightarrow> Fin 0)"

definition usageShift :: "cpuUsageMetric \<Rightarrow> cpuUsageMetric" where
  "usageShift m = m\<lparr>cu_prev := cu_current m, cu_current := None\<rparr>"

record cpuMetric =
  cm_requestMetric :: "update option"
  cm_usageMetric :: "cpuUsageMetric option"

definition cpuIsValid :: "cpuMetric \<Rightarrow> bool" where
  "cpuIsValid e = (cm_requestMetric e \<noteq> None \<or> usageIsValid (cm_usageMetric e))"

definition cpuSynthesize :: "cpuMetric \<Rightarrow> update option" where
  "cpuSynthesize e =
     (case (cm_requestMetric e, cm_usageMetric e) of
        (Some req, Some u) \<Rightarrow>
          if usageIsValid (Some u)
          then Some (allocationUpdate ContainerCPUAllocation (usageLabels u)
                 (fmax (zeroNaN (upd_Value req)) (zeroNaN (usageValue u))))
          else Some (allocationUpdate ContainerCPUAllocation (dropExtraLabels (upd_Labels req)) (zeroNaN (upd_Value req)))
      | (Some req, None) \<Rightarrow>
          Some (allocationUpdate ContainerCPUAllocation (dropExtraLabels (upd_Labels req)) (zeroNaN (upd_Value req)))
      | (None, Some u) \<Rightarrow> Some (allocationUpdate ContainerCPUAllocation (usageLabels u) (zeroNaN (usageValue u)))
      | (None, None) \<Rightarrow> None)"

definition cpuIsEmpty :: "cpuMetric \<Rightarrow> bool" where
  "cpuIsEmpty e = (cm_requestMetric e = None \<and> usageIsEmpty (cm_usageMetric e))"

definition cpuCycle :: "cpuMetric \<Rightarrow> cpuMetric" where
  "cpuCycle e = e\<lparr>cm_requestMetric := None, cm_usageMetric := map_option usageShift (cm_usageMetric e)\<rparr>"

definition cpuAddRequests :: "update \<Rightarrow> cpuMetric byPod \<Rightarrow> cpuMetric byPod" where
  "cpuAddRequests u m =
     (if \<not> isValidRequests ''cpu'' ''core'' (upd_Labels u) then m
      else (let pod = mapStr (upd_Labels u) UIDLabel; ctr = mapStr (upd_Labels u) ContainerLabel
            in case podEntry m pod ctr of
                 None \<Rightarrow> putEntry pod ctr \<lparr>cm_requestMetric = Some u, cm_usageMetric = None\<rparr> m
               | Some e \<Rightarrow> putEntry pod ctr (e\<lparr>cm_requestMetric := Some u\<rparr>) m))"

definition cpuAddUsage :: "gotime \<Rightarrow> update \<Rightarrow> cpuMetric byPod \<Rightarrow> cpuMetric byPod" where
  "cpuAddUsage t u m =
     (if \<not> isValidUsage (upd_Labels u) then m
      else (let pod = mapStr (upd_Labels u) UIDLabel; ctr = mapStr (upd_Labels u) ContainerLabel
            in case podEntry m pod ctr of
                 None \<Rightarrow> putEntry pod ctr \<lparr>cm_requestMetric = None, cm_usageMetric = Some (NewCpuUsageMetric t u)\<rparr> m
               | Some e \<Rightarrow>
                   putEntry pod ctr
                     (e\<lparr>cm_usageMetric := Some (case cm_usageMetric e of
                                               None \<Rightarrow> NewCpuUsageMetric t u
                                             | Some us \<Rightarrow> usagePush t u us)\<rparr>) m))"

definition cpuProcess :: "gotime \<Rightarrow> update \<Rightarrow> cpuMetric byPod \<Rightarrow> cpuMetric byPod" where
  "cpuProcess t u m =
     (if upd_Name u = KubePodContainerResourceRequests then cpuAddRequests u m
      else if upd_Name u = ContainerCPUUsageSecondsTotal then cpuAddUsage t u m
      else m)"

definition cpuSynthesizeAll :: "cpuMetric byPod \<Rightarrow> update list option" where
  "cpuSynthesizeAll m = those (map (\<lambda>(_, e). cpuSynthesize e) (filter (\<lambda>(_, e). cpuIsValid e) (concat (map snd m))))"

definition cpuClear :: "cpuMetric byPod \<Rightarrow> cpuMetric byPod" where
  "cpuClear m =
     filter (\<lambda>(_, cs). cs \<noteq> [])
       (map (\<lambda>(pod, cs). (pod, filter (\<lambda>(_, e). \<not> cpuIsEmpty e) (map (\<lambda>(c, e). (c, cpuCycle e)) cs))) m)"

section \<open>The decorator\<close>

datatype synthesizer = MemorySynthesizer "memoryMetric byPod" | CpuSynthesizer "cpuMetric byPod"

fun synthProcess :: "gotime \<Rightarrow> update \<Rightarrow> synthesizer \<Rightarrow> synthesizer" where
  "synthProcess t u (MemorySynthesizer m) = MemorySynthesizer (memoryProcess u m)"
| "synthProcess t u (CpuSynthesizer m) = CpuSynthesizer (cpuProcess t u m)"

fun synthSynthesize :: "synthesizer \<Rightarrow> update list option" where
  "synthSynthesize (MemorySynthesizer m) = memorySynthesizeAll m"
| "synthSynthesize (CpuSynthesizer m) = cpuSynthesizeAll m"

fun synthClear :: "synthesizer \<Rightarrow> synthesizer" where
  "synthClear (MemorySynthesizer m) = MemorySynthesizer []"
| "synthClear (CpuSynthesizer m) = CpuSynthesizer (cpuClear m)"

text \<open>
  \<^verbatim>\<open>MetricSynthesizers.Update\<close>: the set passed on to the next updater and the synthesizers
  after it.
\<close>

definition synthesizersUpdate :: "updateSet \<Rightarrow> synthesizer list \<Rightarrow> (updateSet \<times> synthesizer list) option" where
  "synthesizersUpdate set' ss = do {
     let ss1 = map (fold (synthProcess (us_Timestamp set')) (us_Updates set')) ss;
     new \<leftarrow> those (map synthSynthesize ss1);
     Some (set'\<lparr>us_Updates := us_Updates set' @ concat new\<rparr>, map synthClear ss1) }"

section \<open>No nil pointer is read\<close>

lemma set_alist_update: "set (AList.update k v m) \<subseteq> insert (k, v) (set m)"
  by (induction m) auto

lemma those_total: "(\<And>x. x \<in> set xs \<Longrightarrow> f x \<noteq> None) \<Longrightarrow> those (map f xs) = Some (map (\<lambda>x. the (f x)) xs)"
proof (induction xs)
  case (Cons x xs)
  from Cons.prems [of x] obtain y where "f x = Some y" by auto
  with Cons show ?case by simp
qed simp

definition allEntries :: "('m \<Rightarrow> bool) \<Rightarrow> 'm byPod \<Rightarrow> bool" where
  "allEntries P m \<longleftrightarrow> (\<forall>x \<in> set m. \<forall>y \<in> set (snd x). P (snd y))"

lemma allEntries_lookup: "allEntries P m \<Longrightarrow> podEntry m pod ctr = Some e \<Longrightarrow> P e"
  by (fastforce simp: allEntries_def podEntry_def split: option.splits dest: map_of_SomeD)

lemma allEntries_put:
  assumes "allEntries P m" and "P e"
  shows "allEntries P (putEntry pod ctr e m)"
proof -
  define es where "es = (case map_of m pod of None \<Rightarrow> [] | Some cs \<Rightarrow> cs)"
  have "\<forall>y \<in> set es. P (snd y)"
  proof (cases "map_of m pod")
    case (Some cs)
    from map_of_SomeD [OF this] assms(1) Some show ?thesis by (auto simp: allEntries_def es_def)
  qed (simp add: es_def)
  then have "\<forall>y \<in> set (AList.update ctr e es). P (snd y)" using set_alist_update [of ctr e es] assms(2) by auto
  then have "\<forall>x \<in> insert (pod, AList.update ctr e es) (set m). \<forall>y \<in> set (snd x). P (snd y)"
    using assms(1) by (auto simp: allEntries_def)
  then have "\<forall>x \<in> set (AList.update pod (AList.update ctr e es) m). \<forall>y \<in> set (snd x). P (snd y)"
    using set_alist_update [of pod "AList.update ctr e es" m] by blast
  then show ?thesis by (simp add: allEntries_def putEntry_def es_def case_prod_unfold)
qed

definition memoryEntryOk :: "memoryMetric \<Rightarrow> bool" where
  "memoryEntryOk e \<longleftrightarrow> mm_requestMetric e \<noteq> None \<or> mm_usageMetric e \<noteq> None"

lemma memoryProcess_ok: "allEntries memoryEntryOk m \<Longrightarrow> allEntries memoryEntryOk (memoryProcess u m)"
  by (auto simp: memoryProcess_def memoryAddRequests_def memoryAddUsage_def Let_def memoryEntryOk_def
    split: option.splits intro!: allEntries_put)

lemma memorySynthesize_ok: "memoryEntryOk e \<Longrightarrow> memorySynthesize e \<noteq> None"
  by (cases e rule: memorySynthesize.cases) (auto simp: memoryEntryOk_def)

lemma cpuSynthesize_ok: "cpuIsValid e \<Longrightarrow> cpuSynthesize e \<noteq> None"
  by (auto simp: cpuIsValid_def cpuSynthesize_def usageIsValid_def split: option.splits)

lemma zeroNaN_number: "zeroNaN x \<noteq> NaN"
  by (simp add: zeroNaN_def)

lemma fmax_number: "x \<noteq> NaN \<Longrightarrow> y \<noteq> NaN \<Longrightarrow> fmax x y \<noteq> NaN"
  by (simp add: fmax_def)

definition derived :: "update \<Rightarrow> bool" where
  "derived a \<longleftrightarrow> upd_Name a \<in> {ContainerCPUAllocation, ContainerMemoryAllocationBytes} \<and> upd_Value a \<noteq> NaN"

lemma memorySynthesize_derived: "memorySynthesize e = Some a \<Longrightarrow> derived a"
  by (cases e rule: memorySynthesize.cases) (auto simp: derived_def allocationUpdate_def zeroNaN_number fmax_number)

lemma cpuSynthesize_derived: "cpuSynthesize e = Some a \<Longrightarrow> derived a"
  by (auto simp: cpuSynthesize_def derived_def allocationUpdate_def zeroNaN_number fmax_number split: option.splits if_splits)

fun synthOk :: "synthesizer \<Rightarrow> bool" where
  "synthOk (MemorySynthesizer m) = allEntries memoryEntryOk m"
| "synthOk (CpuSynthesizer m) = True"

lemma synthProcess_ok: "synthOk s \<Longrightarrow> synthOk (fold (synthProcess t) us s)"
proof (induction us arbitrary: s)
  case (Cons u us)
  from Cons.prems have "synthOk (synthProcess t u s)" by (cases s) (simp_all add: memoryProcess_ok)
  with Cons.IH show ?case by simp
qed simp

lemma synthClear_ok: "synthOk (synthClear s)"
  by (cases s) (simp_all add: allEntries_def)

lemma synthSynthesize_ok:
  assumes "synthOk s"
  shows "\<exists>new. synthSynthesize s = Some new \<and> (\<forall>a \<in> set new. derived a)"
proof (cases s)
  case (MemorySynthesizer m)
  let ?es = "concat (map snd m)"
  have "case x of (_, e) \<Rightarrow> memorySynthesize e \<noteq> None" if "x \<in> set ?es" for x
    using that assms MemorySynthesizer memorySynthesize_ok by (fastforce simp: allEntries_def)
  then have "memorySynthesizeAll m = Some (map (\<lambda>x. the (case x of (_, e) \<Rightarrow> memorySynthesize e)) ?es)"
    unfolding memorySynthesizeAll_def by (intro those_total) (simp add: case_prod_unfold)
  with MemorySynthesizer show ?thesis
    using \<open>\<And>x. x \<in> set ?es \<Longrightarrow> case x of (_, e) \<Rightarrow> memorySynthesize e \<noteq> None\<close> memorySynthesize_derived
    by (fastforce simp: case_prod_unfold)
next
  case (CpuSynthesizer m)
  let ?es = "filter (\<lambda>(_, e). cpuIsValid e) (concat (map snd m))"
  have s: "case x of (_, e) \<Rightarrow> cpuSynthesize e \<noteq> None" if "x \<in> set ?es" for x
    using that cpuSynthesize_ok by auto
  then have "cpuSynthesizeAll m = Some (map (\<lambda>x. the (case x of (_, e) \<Rightarrow> cpuSynthesize e)) ?es)"
    unfolding cpuSynthesizeAll_def by (intro those_total) (simp add: case_prod_unfold)
  with CpuSynthesizer s cpuSynthesize_derived show ?thesis by (fastforce simp: case_prod_unfold)
qed

lemma synthesizersUpdate_ok:
  assumes "list_all synthOk ss"
  shows "\<exists>new ss'. synthesizersUpdate us ss = Some (us\<lparr>us_Updates := us_Updates us @ new\<rparr>, ss') \<and>
    list_all derived new \<and> list_all synthOk ss'"
proof -
  let ?ss = "map (fold (synthProcess (us_Timestamp us)) (us_Updates us)) ss"
  have ok: "synthOk s" if "s \<in> set ?ss" for s using that assms synthProcess_ok by (auto simp: list_all_iff)
  then have "those (map synthSynthesize ?ss) = Some (map (\<lambda>s. the (synthSynthesize s)) ?ss)"
    using synthSynthesize_ok by (intro those_total) blast
  moreover have "list_all derived (concat (map (\<lambda>s. the (synthSynthesize s)) ?ss))"
    using ok synthSynthesize_ok by (fastforce simp: list_all_iff)
  moreover have "list_all synthOk (map synthClear ?ss)" by (simp add: list_all_iff synthClear_ok)
  ultimately show ?thesis by (auto simp: synthesizersUpdate_def Let_def simp del: set_map map_map)
qed

section \<open>The samples of a container\<close>

definition ofContainer :: "string \<Rightarrow> string \<Rightarrow> update \<Rightarrow> bool" where
  "ofContainer pod ctr u \<longleftrightarrow> mapStr (upd_Labels u) UIDLabel = pod \<and> mapStr (upd_Labels u) ContainerLabel = ctr"

definition requestsOf :: "string \<Rightarrow> string \<Rightarrow> string \<Rightarrow> string \<Rightarrow> update list \<Rightarrow> update list" where
  "requestsOf resource unit pod ctr us =
     filter (\<lambda>u. upd_Name u = KubePodContainerResourceRequests \<and> isValidRequests resource unit (upd_Labels u) \<and>
               ofContainer pod ctr u) us"

definition usageOf :: "string \<Rightarrow> string \<Rightarrow> string \<Rightarrow> update list \<Rightarrow> update list" where
  "usageOf name pod ctr us =
     filter (\<lambda>u. upd_Name u = name \<and> isValidUsage (upd_Labels u) \<and> ofContainer pod ctr u) us"

definition lastOpt :: "'a list \<Rightarrow> 'a option" where
  "lastOpt xs = (if xs = [] then None else Some (last xs))"

lemma lastOpt_snoc [simp]: "lastOpt [] = None" "lastOpt (xs @ [x]) = Some x"
  by (simp_all add: lastOpt_def)

text \<open>Of a scrape, the memory synthesizer keeps the last request and the last usage of each container.\<close>

definition memoryEntry :: "string \<Rightarrow> string \<Rightarrow> update list \<Rightarrow> memoryMetric option" where
  "memoryEntry pod ctr us =
     (let r = lastOpt (requestsOf ''memory'' ''byte'' pod ctr us); u = lastOpt (usageOf ContainerMemoryWorkingSetBytes pod ctr us)
      in if r = None \<and> u = None then None else Some \<lparr>mm_requestMetric = r, mm_usageMetric = u\<rparr>)"

lemma memoryProcess_entry:
  "podEntry (memoryProcess u m) pod ctr =
     (if requestsOf ''memory'' ''byte'' pod ctr [u] \<noteq> []
      then Some (case podEntry m pod ctr of
                   None \<Rightarrow> \<lparr>mm_requestMetric = Some u, mm_usageMetric = None\<rparr>
                 | Some e \<Rightarrow> e\<lparr>mm_requestMetric := Some u\<rparr>)
      else if usageOf ContainerMemoryWorkingSetBytes pod ctr [u] \<noteq> []
      then Some (case podEntry m pod ctr of
                   None \<Rightarrow> \<lparr>mm_requestMetric = None, mm_usageMetric = Some u\<rparr>
                 | Some e \<Rightarrow> e\<lparr>mm_usageMetric := Some u\<rparr>)
      else podEntry m pod ctr)"
proof -
  have name: "KubePodContainerResourceRequests \<noteq> ContainerMemoryWorkingSetBytes" by (simp add: metric_names)
  consider (req) "upd_Name u = KubePodContainerResourceRequests" | (used) "upd_Name u = ContainerMemoryWorkingSetBytes"
    | (other) "upd_Name u \<noteq> KubePodContainerResourceRequests" "upd_Name u \<noteq> ContainerMemoryWorkingSetBytes" by blast
  then show ?thesis
  proof cases
    case req
    with name show ?thesis
      by (auto simp: memoryProcess_def memoryAddRequests_def Let_def podEntry_put requestsOf_def usageOf_def ofContainer_def
        split: option.split)
  next
    case used
    with name show ?thesis
      by (auto simp: memoryProcess_def memoryAddUsage_def Let_def podEntry_put requestsOf_def usageOf_def ofContainer_def
        split: option.split)
  qed (simp add: memoryProcess_def requestsOf_def usageOf_def)
qed

lemma samples_append:
  "requestsOf res unit pod ctr (us @ vs) = requestsOf res unit pod ctr us @ requestsOf res unit pod ctr vs"
  "usageOf name pod ctr (us @ vs) = usageOf name pod ctr us @ usageOf name pod ctr vs"
  by (simp_all add: requestsOf_def usageOf_def)

lemma samples_single:
  "requestsOf res unit pod ctr [u] = [] \<or> requestsOf res unit pod ctr [u] = [u]"
  "usageOf name pod ctr [u] = [] \<or> usageOf name pod ctr [u] = [u]"
  "requestsOf res unit pod ctr [u] = [] \<or> usageOf ContainerMemoryWorkingSetBytes pod ctr [u] = []"
  "requestsOf res unit pod ctr [u] = [] \<or> usageOf ContainerCPUUsageSecondsTotal pod ctr [u] = []"
  by (auto simp: requestsOf_def usageOf_def metric_names)

lemma memory_entry: "podEntry (fold memoryProcess us []) pod ctr = memoryEntry pod ctr us"
proof (induction us rule: rev_induct)
  case Nil
  show ?case by (simp add: podEntry_def memoryEntry_def requestsOf_def usageOf_def)
next
  case (snoc u us)
  define rs ws where "rs = requestsOf ''memory'' ''byte'' pod ctr us" and "ws = usageOf ContainerMemoryWorkingSetBytes pod ctr us"
  define r1 w1 where "r1 = requestsOf ''memory'' ''byte'' pod ctr [u]" and "w1 = usageOf ContainerMemoryWorkingSetBytes pod ctr [u]"
  have one: "r1 = [] \<and> w1 = [] \<or> r1 = [u] \<and> w1 = [] \<or> r1 = [] \<and> w1 = [u]"
    using samples_single(1,3) [of "''memory''" "''byte''" pod ctr u]
      samples_single(2) [of ContainerMemoryWorkingSetBytes pod ctr u]
    unfolding r1_def w1_def by blast
  have e: "memoryEntry pod ctr us = (if lastOpt rs = None \<and> lastOpt ws = None then None
      else Some \<lparr>mm_requestMetric = lastOpt rs, mm_usageMetric = lastOpt ws\<rparr>)"
    by (simp add: memoryEntry_def rs_def ws_def Let_def)
  have e': "memoryEntry pod ctr (us @ [u]) = (if lastOpt (rs @ r1) = None \<and> lastOpt (ws @ w1) = None then None
      else Some \<lparr>mm_requestMetric = lastOpt (rs @ r1), mm_usageMetric = lastOpt (ws @ w1)\<rparr>)"
    by (simp add: memoryEntry_def rs_def ws_def r1_def w1_def samples_append Let_def)
  show ?case
    using one unfolding fold_append fold.simps comp_def id_def memoryProcess_entry snoc e e' r1_def [symmetric] w1_def [symmetric]
    by (elim disjE) auto
qed

text \<open>The entries of the maps are their lookups.\<close>

definition wfPods :: "'m byPod \<Rightarrow> bool" where
  "wfPods m \<longleftrightarrow> distinct (map fst m) \<and> (\<forall>x \<in> set m. distinct (map fst (snd x)))"

lemma wfPods_put: "wfPods m \<Longrightarrow> wfPods (putEntry pod ctr e m)"
proof -
  assume wf: "wfPods m"
  define es where "es = (case map_of m pod of None \<Rightarrow> [] | Some cs \<Rightarrow> cs)"
  have "distinct (map fst es)"
  proof (cases "map_of m pod")
    case (Some cs)
    from map_of_SomeD [OF this] wf Some show ?thesis by (auto simp: wfPods_def es_def)
  qed (simp add: es_def)
  then have "\<forall>x \<in> insert (pod, AList.update ctr e es) (set m). distinct (map fst (snd x))"
    using wf by (auto simp: wfPods_def distinct_update)
  then show ?thesis
    using wf set_alist_update [of pod "AList.update ctr e es" m]
    unfolding wfPods_def putEntry_def es_def [symmetric] by (auto simp: distinct_update)
qed

lemma memoryProcess_wf: "wfPods m \<Longrightarrow> wfPods (memoryProcess u m)"
  by (auto simp: memoryProcess_def memoryAddRequests_def memoryAddUsage_def Let_def split: option.splits intro!: wfPods_put)

lemma fold_memory_wf: "wfPods m \<Longrightarrow> wfPods (fold memoryProcess us m)"
  by (induction us arbitrary: m) (simp_all add: memoryProcess_wf)

lemma fold_memory_ok: "allEntries memoryEntryOk m \<Longrightarrow> allEntries memoryEntryOk (fold memoryProcess us m)"
  by (induction us arbitrary: m) (simp_all add: memoryProcess_ok)

lemma wfPods_entries:
  assumes "wfPods m"
  shows "e \<in> snd ` set (concat (map snd m)) \<longleftrightarrow> (\<exists>pod ctr. podEntry m pod ctr = Some e)"
proof
  assume "e \<in> snd ` set (concat (map snd m))"
  then obtain pod cs c where "(pod, cs) \<in> set m" "(c, e) \<in> set cs" by fastforce
  with assms have "podEntry m pod c = Some e" by (fastforce simp: podEntry_def wfPods_def)
  then show "\<exists>pod ctr. podEntry m pod ctr = Some e" by blast
next
  assume "\<exists>pod ctr. podEntry m pod ctr = Some e"
  then show "e \<in> snd ` set (concat (map snd m))"
    by (force simp: podEntry_def split: option.splits dest: map_of_SomeD)
qed

lemma memory_synthesis:
  "\<exists>new. memorySynthesizeAll (fold memoryProcess us []) = Some new \<and>
     (\<forall>a. a \<in> set new \<longleftrightarrow> (\<exists>pod ctr e. memoryEntry pod ctr us = Some e \<and> memorySynthesize e = Some a))"
proof -
  let ?m = "fold memoryProcess us []" and ?f = "\<lambda>x. memorySynthesize (snd x)"
  have "wfPods ([] :: memoryMetric byPod)" "allEntries memoryEntryOk []" by (simp_all add: wfPods_def allEntries_def)
  then have wf: "wfPods ?m" and ok: "allEntries memoryEntryOk ?m"
    using fold_memory_wf fold_memory_ok by auto
  then have "\<And>x. x \<in> set (concat (map snd ?m)) \<Longrightarrow> ?f x \<noteq> None"
    using memorySynthesize_ok by (fastforce simp: allEntries_def)
  then have t: "those (map ?f (concat (map snd ?m))) = Some (map (\<lambda>x. the (?f x)) (concat (map snd ?m)))"
    by (rule those_total)
  let ?new = "map (\<lambda>x. the (?f x)) (concat (map snd ?m))"
  have "memorySynthesizeAll ?m = Some ?new" using t by (simp add: memorySynthesizeAll_def case_prod_unfold)
  moreover have "a \<in> set ?new \<longleftrightarrow> (\<exists>pod ctr e. memoryEntry pod ctr us = Some e \<and> memorySynthesize e = Some a)" for a
  proof -
    have "a \<in> set ?new \<longleftrightarrow> (\<exists>e \<in> snd ` set (concat (map snd ?m)). the (memorySynthesize e) = a)" by auto
    also have "\<dots> \<longleftrightarrow> (\<exists>pod ctr e. podEntry ?m pod ctr = Some e \<and> the (memorySynthesize e) = a)"
      using wfPods_entries [OF wf] by blast
    also have "\<dots> \<longleftrightarrow> (\<exists>pod ctr e. podEntry ?m pod ctr = Some e \<and> memorySynthesize e = Some a)"
      using allEntries_lookup [OF ok] memorySynthesize_ok by fastforce
    finally show ?thesis by (simp only: memory_entry)
  qed
  ultimately show ?thesis by blast
qed

section \<open>Processor time between two scrapes\<close>

definition cpuRequest :: "cpuMetric byPod \<Rightarrow> string \<Rightarrow> string \<Rightarrow> update option" where
  "cpuRequest m pod ctr = Option.bind (podEntry m pod ctr) cm_requestMetric"

definition cpuUsage :: "cpuMetric byPod \<Rightarrow> string \<Rightarrow> string \<Rightarrow> cpuUsageMetric option" where
  "cpuUsage m pod ctr = Option.bind (podEntry m pod ctr) cm_usageMetric"

definition pushSample :: "gotime \<Rightarrow> update \<Rightarrow> cpuUsageMetric option \<Rightarrow> cpuUsageMetric option" where
  "pushSample t u x = Some (case x of None \<Rightarrow> NewCpuUsageMetric t u | Some v \<Rightarrow> usagePush t u v)"

lemma cpuProcess_entry:
  "cpuRequest (cpuProcess t u m) pod ctr =
     (if requestsOf ''cpu'' ''core'' pod ctr [u] \<noteq> [] then Some u else cpuRequest m pod ctr)"
  "cpuUsage (cpuProcess t u m) pod ctr =
     (if usageOf ContainerCPUUsageSecondsTotal pod ctr [u] \<noteq> [] then pushSample t u (cpuUsage m pod ctr) else cpuUsage m pod ctr)"
proof -
  have name: "KubePodContainerResourceRequests \<noteq> ContainerCPUUsageSecondsTotal" by (simp add: metric_names)
  consider (req) "upd_Name u = KubePodContainerResourceRequests" | (used) "upd_Name u = ContainerCPUUsageSecondsTotal"
    | (other) "upd_Name u \<noteq> KubePodContainerResourceRequests" "upd_Name u \<noteq> ContainerCPUUsageSecondsTotal" by blast
  then have "cpuRequest (cpuProcess t u m) pod ctr =
      (if requestsOf ''cpu'' ''core'' pod ctr [u] \<noteq> [] then Some u else cpuRequest m pod ctr) \<and>
    cpuUsage (cpuProcess t u m) pod ctr =
      (if usageOf ContainerCPUUsageSecondsTotal pod ctr [u] \<noteq> [] then pushSample t u (cpuUsage m pod ctr) else cpuUsage m pod ctr)"
  proof cases
    case req
    with name show ?thesis
      by (auto simp: cpuProcess_def cpuAddRequests_def Let_def podEntry_put requestsOf_def usageOf_def ofContainer_def
        cpuRequest_def cpuUsage_def split: option.split)
  next
    case used
    with name show ?thesis
      by (auto simp: cpuProcess_def cpuAddUsage_def Let_def podEntry_put requestsOf_def usageOf_def ofContainer_def
        cpuRequest_def cpuUsage_def pushSample_def split: option.split)
  qed (simp add: cpuProcess_def requestsOf_def usageOf_def)
  then show "cpuRequest (cpuProcess t u m) pod ctr =
      (if requestsOf ''cpu'' ''core'' pod ctr [u] \<noteq> [] then Some u else cpuRequest m pod ctr)"
    "cpuUsage (cpuProcess t u m) pod ctr =
      (if usageOf ContainerCPUUsageSecondsTotal pod ctr [u] \<noteq> [] then pushSample t u (cpuUsage m pod ctr) else cpuUsage m pod ctr)"
    by auto
qed

lemma cpu_fold:
  "cpuRequest (fold (cpuProcess t) us m) pod ctr =
     (case lastOpt (requestsOf ''cpu'' ''core'' pod ctr us) of None \<Rightarrow> cpuRequest m pod ctr | Some r \<Rightarrow> Some r)"
  "cpuUsage (fold (cpuProcess t) us m) pod ctr =
     fold (pushSample t) (usageOf ContainerCPUUsageSecondsTotal pod ctr us) (cpuUsage m pod ctr)"
proof (induction us rule: rev_induct)
  case Nil
  { case 1 show ?case by (simp add: requestsOf_def) next case 2 show ?case by (simp add: usageOf_def) }
next
  case (snoc u us)
  {
    case 1
    show ?case using samples_single(1) [of "''cpu''" "''core''" pod ctr u]
      by (auto simp: cpuProcess_entry snoc.IH samples_append)
  next
    case 2
    show ?case using samples_single(2) [of ContainerCPUUsageSecondsTotal pod ctr u]
      by (auto simp: cpuProcess_entry snoc.IH samples_append)
  }
qed

lemma map_of_filter_map:
  "distinct (map fst cs) \<Longrightarrow>
     map_of (filter (\<lambda>(_, e). Q e) (map (\<lambda>(c, e). (c, g e)) cs)) c =
       (case map_of cs c of None \<Rightarrow> None | Some e \<Rightarrow> if Q (g e) then Some (g e) else None)"
proof (induction cs)
  case (Cons x cs)
  obtain c' e where x: "x = (c', e)" by (cases x)
  with Cons.prems have "map_of cs c' = None" by (simp add: map_of_eq_None_iff)
  with Cons x show ?case by (cases "c = c'") auto
qed simp

lemma cpuClear_entry:
  assumes "wfPods m"
  shows "podEntry (cpuClear m) pod ctr =
    (case podEntry m pod ctr of None \<Rightarrow> None | Some e \<Rightarrow> if cpuIsEmpty (cpuCycle e) then None else Some (cpuCycle e))"
proof -
  let ?g = "\<lambda>cs. filter (\<lambda>(_, e). \<not> cpuIsEmpty e) (map (\<lambda>(c, e). (c, cpuCycle e)) cs)"
  have outer: "map_of (cpuClear m) pod = (case map_of m pod of None \<Rightarrow> None | Some cs \<Rightarrow> if ?g cs \<noteq> [] then Some (?g cs) else None)"
    using assms map_of_filter_map [of m "\<lambda>cs. cs \<noteq> []" ?g pod] unfolding cpuClear_def wfPods_def by simp
  show ?thesis
  proof (cases "map_of m pod")
    case (Some cs)
    with assms have "distinct (map fst cs)" by (auto simp: wfPods_def dest: map_of_SomeD)
    from map_of_filter_map [OF this, of "\<lambda>e. \<not> cpuIsEmpty e" cpuCycle ctr] have
      "map_of (?g cs) ctr = (case map_of cs ctr of None \<Rightarrow> None | Some e \<Rightarrow> if \<not> cpuIsEmpty (cpuCycle e) then Some (cpuCycle e) else None)" .
    with Some outer show ?thesis by (cases "?g cs = []") (auto simp: podEntry_def split: option.splits)
  qed (simp add: podEntry_def outer)
qed

lemma cpuProcess_wf: "wfPods m \<Longrightarrow> wfPods (cpuProcess t u m)"
  by (auto simp: cpuProcess_def cpuAddRequests_def cpuAddUsage_def Let_def split: option.splits intro!: wfPods_put)

lemma fold_cpu_wf: "wfPods m \<Longrightarrow> wfPods (fold (cpuProcess t) us m)"
  by (induction us arbitrary: m) (simp_all add: cpuProcess_wf)

text \<open>After a scrape, the last usage of a container is its previous sample.\<close>

lemma pushSample_current:
  "us \<noteq> [] \<Longrightarrow> \<exists>p. fold (pushSample t) us x = Some \<lparr>cu_current = Some (t, last us), cu_prev = p\<rparr>"
proof (induction us rule: rev_nonempty_induct)
  case (single u)
  show ?case by (cases x; cases "the x") (auto simp: pushSample_def NewCpuUsageMetric_def usagePush_def)
next
  case (snoc u us)
  then show ?case by (auto simp: pushSample_def usagePush_def)
qed

lemma cpu_after_scrape:
  assumes "wfPods m" and "usageOf ContainerCPUUsageSecondsTotal pod ctr us \<noteq> []"
  shows "cpuUsage (cpuClear (fold (cpuProcess t) us m)) pod ctr =
      Some \<lparr>cu_current = None, cu_prev = Some (t, last (usageOf ContainerCPUUsageSecondsTotal pod ctr us))\<rparr>"
    and "cpuRequest (cpuClear (fold (cpuProcess t) us m)) pod ctr = None"
proof -
  let ?m = "fold (cpuProcess t) us m"
  obtain p where "cpuUsage ?m pod ctr = Some \<lparr>cu_current = Some (t, last (usageOf ContainerCPUUsageSecondsTotal pod ctr us)), cu_prev = p\<rparr>"
    using pushSample_current [OF assms(2)] unfolding cpu_fold by blast
  then obtain e where e: "podEntry ?m pod ctr = Some e"
    "cm_usageMetric e = Some \<lparr>cu_current = Some (t, last (usageOf ContainerCPUUsageSecondsTotal pod ctr us)), cu_prev = p\<rparr>"
    by (auto simp: cpuUsage_def bind_eq_Some_conv)
  then have "podEntry (cpuClear ?m) pod ctr = Some (cpuCycle e)"
    using cpuClear_entry [OF fold_cpu_wf [OF assms(1)]]
    by (simp add: cpuIsEmpty_def cpuCycle_def usageIsEmpty_def usageShift_def)
  with e show "cpuUsage (cpuClear ?m) pod ctr =
      Some \<lparr>cu_current = None, cu_prev = Some (t, last (usageOf ContainerCPUUsageSecondsTotal pod ctr us))\<rparr>"
    "cpuRequest (cpuClear ?m) pod ctr = None"
    by (simp_all add: cpuUsage_def cpuRequest_def cpuCycle_def usageShift_def)
qed

text \<open>The rate between two samples, as the code rounds it.\<close>

definition usageRate :: "gotime \<Rightarrow> float64 \<Rightarrow> gotime \<Rightarrow> float64 \<Rightarrow> float64" where
  "usageRate t1 v1 t2 v2 =
     (if flt v2 v1 \<or> fle (durSeconds (timeSub t2 t1)) (Fin 0) then Fin 0
      else fmax (Fin 0) (fdiv (fsub v2 v1) (durSeconds (timeSub t2 t1))))"

lemma cpu_two_scrapes:
  assumes "wfPods m" and "usageOf ContainerCPUUsageSecondsTotal pod ctr us1 \<noteq> []"
    and "usageOf ContainerCPUUsageSecondsTotal pod ctr us2 = [u2]"
  shows "\<exists>e. podEntry (fold (cpuProcess t2) us2 (cpuClear (fold (cpuProcess t1) us1 m))) pod ctr = Some e \<and> cpuIsValid e \<and>
    cpuSynthesize e = Some (allocationUpdate ContainerCPUAllocation (upd_Labels u2)
      (let rate = zeroNaN (usageRate t1 (upd_Value (last (usageOf ContainerCPUUsageSecondsTotal pod ctr us1))) t2 (upd_Value u2))
       in case lastOpt (requestsOf ''cpu'' ''core'' pod ctr us2) of
            None \<Rightarrow> rate
          | Some r \<Rightarrow> fmax (zeroNaN (upd_Value r)) rate))"
proof -
  let ?m1 = "cpuClear (fold (cpuProcess t1) us1 m)" and ?u1 = "last (usageOf ContainerCPUUsageSecondsTotal pod ctr us1)"
  let ?m2 = "fold (cpuProcess t2) us2 ?m1" and ?r = "lastOpt (requestsOf ''cpu'' ''core'' pod ctr us2)"
  note after = cpu_after_scrape [OF assms(1,2), of t1]
  have u: "cpuUsage ?m2 pod ctr = Some \<lparr>cu_current = Some (t2, u2), cu_prev = Some (t1, ?u1)\<rparr>"
    unfolding cpu_fold after assms(3) by (simp add: pushSample_def usagePush_def)
  have r: "cpuRequest ?m2 pod ctr = ?r" unfolding cpu_fold(1) after by (simp split: option.split)
  from u obtain e where e: "podEntry ?m2 pod ctr = Some e"
    "cm_usageMetric e = Some \<lparr>cu_current = Some (t2, u2), cu_prev = Some (t1, ?u1)\<rparr>"
    by (auto simp: cpuUsage_def bind_eq_Some_conv)
  moreover from r e have "cm_requestMetric e = ?r" by (simp add: cpuRequest_def)
  ultimately show ?thesis
    by (auto simp: cpuIsValid_def cpuSynthesize_def usageIsValid_def usageLabels_def usageValue_def usageRate_def Let_def
      split: option.split)
qed

end
