(* ===== verification/Scrape_Target.thy ===== *)
theory Scrape_Target
  imports Scrape_Text Metric_Synthetic
begin

text \<open>
  Scraping, \<^verbatim>\<open>modules/collector-source/pkg/scrape/targetscraper.go\<close>, \<^verbatim>\<open>scraper.go\<close> and
  \<^verbatim>\<open>ScrapeController.Scrape\<close>: from the texts of the targets to one set of updates. What a target
  loads is the text or \<open>None\<close> if loading fails; results are in the order in which they arrive.
\<close>

definition recordUpdate :: "metricRecord \<Rightarrow> update" where
  "recordUpdate r =
     \<lparr>upd_Name = mr_Name r, upd_Labels = mr_Labels r, upd_Value = mr_Value r, upd_AdditionalInfo = []\<rparr>"

definition scrapeTarget ::
  "(nat \<Rightarrow> bool) \<Rightarrow> (nat \<Rightarrow> bool) \<Rightarrow> string set \<Rightarrow> bool \<Rightarrow> string option \<Rightarrow> update list" where
  "scrapeTarget letters digits metricNames includeMetrics target =
     (case target of
        None \<Rightarrow> []
      | Some text \<Rightarrow>
          (case scrapeParse letters digits text of
             Inl _ \<Rightarrow> []
           | Inr results \<Rightarrow> map recordUpdate (filter (\<lambda>r. (mr_Name r \<in> metricNames) = includeMetrics) results)))"

definition concurrentScrape :: "update list list \<Rightarrow> update list" where
  "concurrentScrape arrived = concat arrived"

definition filteredScrape :: "string set \<Rightarrow> update list \<Rightarrow> update list" where
  "filteredScrape denied results = filter (\<lambda>u. upd_Name u \<notin> denied) results"

definition controllerScrape :: "gotime \<Rightarrow> update list list \<Rightarrow> updateSet" where
  "controllerScrape timestamp arrived = \<lparr>us_Timestamp = timestamp, us_Updates = concurrentScrape arrived\<rparr>"

section \<open>What the scanner leaves out\<close>

text \<open>Between tokens the scanner skips every character that starts none, an underscore for instance.\<close>

lemma runesOf_ascii: "(of_char c :: nat) < 0x80 \<Longrightarrow> runesOf (c # s) = of_char c # runesOf s"
  by (simp add: runesOf_def decodeRune_ascii)

lemma scrape_skips_underscore: "scrapeParse letters digits (CHR ''_'' # s) = scrapeParse letters digits s"
proof -
  have "lexNext letters digits (0x5F # rs) = lexNext letters digits rs" for rs
    by (simp add: isSpaceRune_def isLetterRune_def isDigitRune_def)
  then show ?thesis by (simp add: scrapeParse_def scpAdvance_def runesOf_ascii del: lexNext.simps)
qed

lemma runesOf_append_ascii: "list_all (\<lambda>c. (of_char c :: nat) < 0x80) s \<Longrightarrow> runesOf (s @ t) = ascii s @ runesOf t"
  by (induction s) (simp_all add: runesOf_ascii ascii_def)

lemma name_ascii: "wfName n \<Longrightarrow> list_all (\<lambda>c. (of_char c :: nat) < 0x80) n"
  by (auto simp: wfName_def list_all_iff dest!: alnum_ascii)

lemma scrape_rejects_colon:
  assumes "wfName a" and "wfName b"
  shows "scrapeParse letters digits (a @ '':'' @ b @ '' '' @ rest) = Inl (ExpectedValue (scToken ScLiteral b))"
proof -
  have runes: "runesOf (a @ '':'' @ b @ '' '' @ rest) = ascii a @ 0x3A # ascii b @ 0x20 # runesOf rest"
    using name_ascii [OF assms(1)] name_ascii [OF assms(2)]
    by (simp add: runesOf_append_ascii runesOf_ascii)
  have colon: "\<not> isAlphaNumericUnderscore letters digits 0x3A"
    by (simp add: isAlphaNumericUnderscore_def isAlphaNumeric_def isLetterRune_def isDigitRune_def)
  note first = lexNext_name [OF assms(1) colon, of "ascii b @ 0x20 # runesOf rest"]
  have skip: "lexNext letters digits (0x3A # rs) = lexNext letters digits rs" for rs
    by (simp add: isSpaceRune_def isLetterRune_def isDigitRune_def)
  have second: "lexNext letters digits (0x3A # ascii b @ 0x20 # runesOf rest) = (scToken ScLiteral b, 0x20 # runesOf rest)"
    unfolding skip by (rule lexNext_name [OF assms(2) not_alnum(1)])
  have cur: "scp_current (scpAt letters digits (0x3A # ascii b @ 0x20 # runesOf rest)) = scToken ScLiteral b"
    using second by (simp add: scpAt_def del: lexNext.simps)
  show ?thesis
    unfolding scrapeParse_def scpAdvance_at runes
    by (subst parseLoop.simps)
      (simp add: scpAt_token [OF first] parseMetric_def Let_def scpAdvance_at scpAt_token [OF second]
        parseValueAndTimestamp_def cur del: lexNext.simps)
qed

text \<open>What a target serves in the text format arrives as updates.\<close>

lemma scrapeTarget_exposition:
  assumes "list_all wfLine ls"
  shows "scrapeTarget letters digits names incl (Some (encodeRunes (exposition ls))) =
    map recordUpdate (filter (\<lambda>r. (mr_Name r \<in> names) = incl) (concat (map lineRecords ls)))"
  by (simp add: scrapeTarget_def scrapeParse_exposition [OF assms])

end
