(* ===== verification/Spec2Isabelle.thy ===== *)
theory Spec2Isabelle
  imports Filter_Roundtrip Filter_Fields Alloc_Aggregate Alloc_Range Config_Reach Window_Parse Scrape_Target
begin

text \<open>
  OpenCost computes the cost of Kubernetes workloads. This development models its core logic in
  Go: the filter language with its compilers, allocations of costs and their aggregation, time
  windows, the controller of cloud configurations, and the collector that scrapes and aggregates
  metrics.

  \<^bold>\<open>Parts and theories.\<close> Paths are relative to the repository.

  \<^item> Filters (\<^verbatim>\<open>core/pkg/filter\<close>). A query string is scanned and parsed to a tree of
    comparisons; passes rewrite the tree; compilers turn it into a matcher or back into text.
    \<^verbatim>\<open>Filter_Ast\<close> holds fields, operators and nodes (\<^verbatim>\<open>ast/fields.go\<close>, \<^verbatim>\<open>ops.go\<close>),
    \<^verbatim>\<open>Filter_Walker\<close> the traversals, printers and \<^verbatim>\<open>Clone\<close> (\<^verbatim>\<open>walker.go\<close>),
    \<^verbatim>\<open>Filter_Lexer\<close> the scanner and \<^verbatim>\<open>Filter_Parser\<close> the parser (\<^verbatim>\<open>lexer.go\<close>,
    \<^verbatim>\<open>parser.go\<close>), \<^verbatim>\<open>Filter_Transform\<close> the passes and the node builders
    (\<^verbatim>\<open>transform\<close>, \<^verbatim>\<open>ops/ops.go\<close>), \<^verbatim>\<open>Filter_Fields\<close> the field tables of every kind
    of data, \<^verbatim>\<open>Filter_Matcher\<close> and \<^verbatim>\<open>Filter_Text\<close> the two compilers (\<^verbatim>\<open>matcher\<close>,
    \<^verbatim>\<open>text\<close>).
    \<^verbatim>\<open>Filter_Parser_Correct\<close> shows that parsing returns and what shape its results have;
    \<^verbatim>\<open>Filter_Query\<close>, \<^verbatim>\<open>Filter_Query_Lex\<close> and \<^verbatim>\<open>Filter_Roundtrip\<close> that printed queries
    parse back.

  \<^item> Allocations (\<^verbatim>\<open>core/pkg/opencost\<close>). An allocation is the cost of a workload in a
    window; sets of allocations share a window, ranges are sequences of sets.
    \<^verbatim>\<open>Alloc_Props\<close> and \<^verbatim>\<open>Alloc_Keys\<close> hold properties, the label configuration, aggregation
    keys and intersections (\<^verbatim>\<open>allocationprops.go\<close>, \<^verbatim>\<open>config.go\<close>); \<^verbatim>\<open>Alloc_Matcher\<close> maps the
    fields of filters to properties and resolves aliases through the label configuration
    (\<^verbatim>\<open>allocationmatcher.go\<close>); \<^verbatim>\<open>Alloc_Cost\<close> the costs of one allocation and \<^verbatim>\<open>Add\<close>,
    \<^verbatim>\<open>Alloc_Set\<close> sets, \<^verbatim>\<open>Alloc_Range\<close> ranges and their accumulation by period, and
    \<^verbatim>\<open>Alloc_Aggregate\<close> \<^verbatim>\<open>AggregateBy\<close> with the coefficients of idle and shared costs
    (\<^verbatim>\<open>allocation.go\<close>). A set holds pointers and its operations write through them, so
    allocations live in a heap, a list of cells, that every operation on sets takes and returns.
    A locale states what it takes for a field to be summed by \<^verbatim>\<open>Add\<close>; the lemmas on insertion,
    cloning, accumulation and aggregation are proved in it once, for each of the 27 summed fields.
    \<^verbatim>\<open>Go_Unicode\<close> has the runes of strings that keys need.

  \<^item> Times and windows (\<^verbatim>\<open>core/pkg/util/timeutil\<close>, \<^verbatim>\<open>core/pkg/opencost/window.go\<close>):
    \<^verbatim>\<open>Go_Time\<close> and \<^verbatim>\<open>Go_Float\<close> model what is used of Go's \<^verbatim>\<open>time\<close> package and of
    \<^verbatim>\<open>float64\<close>, with the order of results in \<^verbatim>\<open>Go_Float_Order\<close>, \<^verbatim>\<open>Timeutil\<close> durations as strings, \<^verbatim>\<open>Window\<close> the operations on windows,
    \<^verbatim>\<open>Window_Calendar\<close> calendar windows, with a locale for a grid of boundaries that is
    interpreted for hours, days, weeks, months and quarters, \<^verbatim>\<open>Window_Parse\<close> window strings.

  \<^item> Cloud configurations (\<^verbatim>\<open>pkg/cloud/config\<close>): \<^verbatim>\<open>Config_Controller\<close> models the
    controller's operations on its stored statuses and its observers, \<^verbatim>\<open>Config_Reach\<close> the
    states that sequences of calls reach and their invariant.

  \<^item> Metrics (\<^verbatim>\<open>modules/collector-source/pkg\<close>). Targets are scraped as text, the samples pass
    the synthesizers and reach, through the repository, the store of their window, where
    collectors aggregate them per series. \<^verbatim>\<open>Scrape_Parser\<close> and \<^verbatim>\<open>Scrape_Text\<close> hold the
    parser and the format (\<^verbatim>\<open>scrape/parser\<close>), \<^verbatim>\<open>Scrape_Target\<close> the scrapers,
    \<^verbatim>\<open>Metric_Aggregator\<close> the aggregators, \<^verbatim>\<open>Metric_Store\<close> collectors and store,
    \<^verbatim>\<open>Metric_Repository\<close> intervals, resolutions and the repository (\<^verbatim>\<open>util\<close>,
    \<^verbatim>\<open>metric/repository.go\<close>), \<^verbatim>\<open>Metric_Synthetic\<close> the synthesizers
    (\<^verbatim>\<open>metric/synthetic\<close>). The interfaces \<^verbatim>\<open>MetricAggregator\<close> and \<^verbatim>\<open>MetricStore\<close> are
    locales, interpreted on the implementations.

  \<^bold>\<open>Conventions.\<close> Structs are records whose fields carry a prefix, strings are lists of bytes,
  Go maps whose order cannot be observed are association lists or partial functions. Errors are
  sums with the error on the left, or an optional error beside the new state. A result
  \<open>None\<close> of an operation is a panic or, for a loop by \<^verbatim>\<open>partial_function\<close>, that it does not
  end; that it is not \<open>None\<close> is proved where the code is meant to return. Integers wrap around
  at 64 bits where the code can reach that. Floating point operations round to nearest even, with
  infinities and NaN but one zero, and are not fused. The order of the entries of a map is the
  order in which a loop visits them, so what is proved for every list of entries holds for every
  order. Times are nanoseconds with a fixed zone offset. Locks are left
  out where a method holds its lock from start to end; the clock, the order of arrival and the
  order of watchers are arguments.

  \<^bold>\<open>Parameters.\<close> Code outside the repository is a parameter: Unicode tables above ASCII
  (\<open>uni\<close>, \<open>letters\<close>, \<open>digits\<close>), the case mappings of \<^verbatim>\<open>golang.org/x/text\<close>, the result of
  converting a float that does not fit an integer (\<open>other\<close>), the configured UTC offset, and the
  key, validity, equality and type of a configuration. The properties hold for all of them.

  \<^bold>\<open>Bounds.\<close> The parser takes fuel, three times the number of tokens and three, which is proved
  enough. Every other loop ends by a measure or, where it can run for ever, is partial.

  \<^bold>\<open>Properties.\<close> C1 to C3 and C14 to C18 are about filters: totality of the parser, the round
  trip through text, the meaning of compiled and of alias filters. C4 to C13 are about
  allocations: aggregation groups by key, accumulation sums per calendar period, the invariant of
  sets, accumulation that leaves its range alone, bounds of the coefficients that idle and shared
  costs are split by, removal of NaN, volumes, keys and equality of properties. C19 to C22 are the
  invariant of the controller, its observers and the effect of pulls and creations. C23 to C31
  are about durations and windows: round trips, named and duration windows, that calendar and
  equal windows tile their range, overlap, rounding and shares. C32 to C40 are about metrics: the
  text format, series per collector and store, increases, the windows a repository keeps, and
  what is synthesized of requests and usage. Further theorems beside them state the limits of the
  parser, of the compilers and of rounding.

  \<^bold>\<open>Not modelled.\<close> Assets, cloud costs and the cost model that joins query results into
  allocations; summary allocations and stores of totals; price lookups of the cloud providers;
  Prometheus queries; generated codecs; storage, export and HTTP, which are input and output;
  tickers and timers. JSON forms are left out: a saved state loads as it was saved. Log output of
  the modelled functions is left out as well.
\<close>

section \<open>The filter language\<close>

text \<open>A filter on allocations, for the witnesses below.\<close>

definition allocIdent :: "string \<Rightarrow> string \<Rightarrow> ident" where
  "allocIdent name key = \<lparr>id_Field = allocationFieldByName name, id_Key = key\<rparr>"

definition sampleQuery :: query where
  "sampleQuery =
     QGroup True
       [QCmp False FilterOpEquals (allocIdent FieldNamespace []) [''kubecost'', ''kube-system''],
        QGroup False
          [QCmp True FilterOpEquals (allocIdent FieldLabel ''app'') [''x''],
           QCmp False FilterOpContains (allocIdent FieldLabel []) [''team'']]]"

lemma sampleQuery_wf:
  "wfQuery (dfp_fields NewAllocationFilterParser) (dfp_mapFields NewAllocationFilterParser) sampleQuery"
  by code_simp

text \<open>
  C1. Parsing any byte string with any field tables returns: no index of the token slice is out
  of range, the recursion ends, and a result without error is the empty filter or a tree whose
  groups have at least two operands and whose comparisons are on known fields.
\<close>

theorem parse_total:
  "\<exists>r. Parse uni dfp raw = Some r \<and>
     (case r of
        Inl _ \<Rightarrow> True
      | Inr n \<Rightarrow> n = VoidOp \<or> parsed (dfp_fields dfp) (dfp_mapFields dfp) n)"
  using Parse_returns [of uni dfp raw] by (simp add: returns_def)

text \<open>
  C2. Compiling the tree of a well-formed query to text and parsing the text gives the tree
  back.
\<close>

theorem text_roundtrip:
  assumes "wfQuery (dfp_fields dfp) (dfp_mapFields dfp) q"
  shows "\<exists>s. textCompile [] (qNode q) = Some (Inr s) \<and> Parse uni dfp s = Some (Inr (qNode q))"
  using textCompile_query [OF assms] Parse_query [OF assms] by blast

theorem text_roundtrip_witness:
  "\<exists>s. textCompile [] (qNode sampleQuery) = Some (Inr s) \<and>
     Parse (\<lambda>_. False) NewAllocationFilterParser s = Some (Inr (qNode sampleQuery))"
  by (rule text_roundtrip [OF sampleQuery_wf])



text \<open>
  C14. A comparison of a plain allocation field decides on the property of that name, where the
  value for unallocated stands for the empty string.
\<close>

theorem allocation_comparison:
  assumes "(name, property) \<in> set stringProperties"
  shows "allocLeaf lc p op (allocIdent name []) v = stringMatches op (property p) (replaceUnallocated v)"
proof -
  from allocationFieldByName_plain [OF assms] obtain f where "allocationFieldByName name = Some f" "\<not> isAlias f"
    by (auto simp: plain_field_kinds)
  with plainHolds_string [OF assms] show ?thesis
    by (auto simp: allocLeaf_def allocIdent_def split: option.split)
qed

theorem allocation_comparison_witness:
  "\<forall>p. allocLeaf (Some NewLabelConfig) p FilterOpEquals (allocIdent FieldPod []) ''web-0'' = (pr_Pod p = ''web-0'')"
proof
  fix p
  have "allocLeaf (Some NewLabelConfig) p FilterOpEquals (allocIdent FieldPod []) ''web-0'' =
      stringMatches FilterOpEquals (pr_Pod p) (replaceUnallocated ''web-0'')"
    by (rule allocation_comparison) (simp add: stringProperties_def)
  moreover have "replaceUnallocated ''web-0'' = ''web-0''" by code_simp
  ultimately show "allocLeaf (Some NewLabelConfig) p FilterOpEquals (allocIdent FieldPod []) ''web-0'' = (pr_Pod p = ''web-0'')"
    by (simp add: stringMatches_def)
qed

text \<open>
  C15. The tree an alias filter is rewritten to holds of an allocation exactly when its label of
  the alias key matches, or, without that label, its annotation; without either, when the filter
  asks for unallocated.
\<close>

theorem alias_filter_meaning:
  assumes "op \<in> {FilterOpEquals, FilterOpContains, FilterOpContainsPrefix, FilterOpContainsSuffix}"
    and "key \<noteq> []" and "sanitizeKey key \<noteq> unallocatedSuffix"
  shows "\<exists>n. convertAliasFilter key v op = Inr n \<and> holds (plainHolds p) n = aliasHolds p (sanitizeKey key) op v"
  using convertAliasFilter_holds [OF assms] by blast

theorem alias_filter_meaning_witness:
  "\<forall>p. \<exists>n. convertAliasFilter ''my-team'' ''core'' FilterOpContainsPrefix = Inr n \<and>
     holds (plainHolds p) n = aliasHolds p ''my_team'' FilterOpContainsPrefix ''core''"
proof -
  have k: "sanitizeKey ''my-team'' = ''my_team''" "''my_team'' \<noteq> unallocatedSuffix" by code_simp+
  then show ?thesis using alias_filter_meaning [of FilterOpContainsPrefix "''my-team''" "''core''"] by simp
qed

text \<open>
  C16. The match compiler: if the passes of a compiler succeed with a complete tree, compiling
  returns a matcher, and the matcher computes the Boolean reading of that tree wherever the field
  mappers do not panic.
\<close>

theorem compile_meaning:
  assumes "ApplyAll n (mc_passes mc) = Some (Inr n')" and "n' = VoidOp \<or> solid n'"
  shows "\<exists>m. Compile mc n = Some (Inr m) \<and>
    (\<forall>that. (\<forall>l \<in> set (leaves n'). leafDefined mc that l) \<longrightarrow>
      Matches m that = Some (holds (leafBool mc that) n'))"
  by (rule Compile_meaning [OF assms])

theorem compile_meaning_witness:
  "\<exists>m. Compile (NewMatchCompiler (\<lambda>s _. Some (Inr s)) (\<lambda>_ _. None) (\<lambda>_ _. None) [])
        (NotOp (ContainsPrefixOp (allocIdent FieldPod []) ''web'')) = Some (Inr m) \<and> Matches m ''db-0'' = Some True"
proof -
  let ?mc = "NewMatchCompiler (\<lambda>s _. Some (Inr s)) (\<lambda>_ _. None) (\<lambda>_ _. None) [] :: string matchCompiler"
  let ?n = "NotOp (ContainsPrefixOp (allocIdent FieldPod []) ''web'')"
  have f: "allocationFieldByName FieldPod = Some (NewField FieldPod [])" by code_simp
  have p: "ApplyAll ?n (mc_passes ?mc) = Some (Inr ?n)" "solid ?n"
    by (simp_all add: ApplyAll_def NewMatchCompiler_def Clone_solid allocIdent_def f)
  have "\<not> hasPrefix ''db-0'' ''web''" by code_simp
  with compile_meaning [of ?n ?mc ?n] p show ?thesis
    by (auto simp: leafHolds_def allocIdent_def f plain_field_kinds NewMatchCompiler_def mapped_def leafBool_def
        stringMatches_def)
qed

text \<open>
  A filter on a node label, a namespace label or the account parses, but holds of no
  allocation, whatever its key and value: the field maps have no case for these fields.
\<close>

theorem unmapped_fields_never_match:
  assumes "name \<in> {FieldNodeLabel, FieldNamespaceLabel, FieldAccount}"
  shows "allocationFieldByName name \<noteq> None \<and> \<not> allocLeaf None p op (allocIdent name key) v"
proof -
  from assms have "allocationFieldByName name \<noteq> None"
    by (elim insertE emptyE; simp add: allocationFieldByName_def initFieldMap_def field_simps field_type_simps)
  with plainHolds_unmapped [OF assms] show ?thesis by (simp add: allocLeaf_def allocIdent_def)
qed

theorem unmapped_fields_never_match_witness:
  "\<forall>p. \<not> allocLeaf None p FilterOpEquals (allocIdent FieldNodeLabel ''zone'') ''a''"
  using unmapped_fields_never_match [of FieldNodeLabel] by simp

text \<open>
  At the outermost level, whatever follows a complete comparison without a group operator is
  ignored: the parser reports neither the missing operator nor the rest.
\<close>

theorem trailing_comparison_ignored:
  assumes "wfQuery (dfp_fields dfp) (dfp_mapFields dfp) (QCmp neg op i vs)"
    and "wfQuery (dfp_fields dfp) (dfp_mapFields dfp) (QCmp neg' op' i' vs')"
  shows "Parse uni dfp (queryText (QCmp neg op i vs) @ '' '' @ queryText (QCmp neg' op' i' vs')) =
    Some (Inr (qNode (QCmp neg op i vs)))"
  by (rule Parse_trailing [OF assms])

theorem trailing_comparison_ignored_witness:
  "Parse (\<lambda>_. False) NewAllocationFilterParser ''pod:\"a\" node:\"b\"'' =
    Some (Inr (EqualOp (allocIdent FieldPod []) ''a''))"
proof -
  let ?a = "QCmp False FilterOpEquals (allocIdent FieldPod []) [''a'']"
  let ?b = "QCmp False FilterOpEquals (allocIdent FieldNode []) [''b'']"
  have wf: "wfQuery (dfp_fields NewAllocationFilterParser) (dfp_mapFields NewAllocationFilterParser) ?a"
    "wfQuery (dfp_fields NewAllocationFilterParser) (dfp_mapFields NewAllocationFilterParser) ?b"
    by code_simp+
  have "queryText ?a @ '' '' @ queryText ?b = ''pod:\"a\" node:\"b\"''"
    "qNode ?a = EqualOp (allocIdent FieldPod []) ''a''" by code_simp+
  with trailing_comparison_ignored [OF wf, of "\<lambda>_. False"] show ?thesis by simp
qed



text \<open>
  C18. Every token list the lexer returns ends with the one end-of-input token, and a field token
  names an entry of the field table it was found in.
\<close>

theorem lexer_tokens:
  "\<exists>ts. fst (lex' uni raw fs ms) = ts @ [\<lparr>tk_kind = eof, tk_s = []\<rparr>] \<and> list_all (tokenOk fs ms) ts"
  by (rule lex_shape)



text \<open>
  A sanitized label key has only characters Prometheus allows in label names, and sanitizing
  it again does not change it.
\<close>

theorem sanitize_key:
  "(\<forall>i < length (sanitizeKey s). promKeyRune (of_char (sanitizeKey s ! i))) \<and>
   sanitizeKey (sanitizeKey s) = sanitizeKey s"
  using sanitizeKey_chars [of s] sanitizeKey_idem [of s] by simp

theorem sanitize_key_witness:
  "sanitizeKey ''app.kubernetes.io/name'' = ''app_kubernetes_io_name'' \<and>
   sanitizeKey (sanitizeKey ''app.kubernetes.io/name'') = ''app_kubernetes_io_name''"
proof -
  have "sanitizeKey ''app.kubernetes.io/name'' = ''app_kubernetes_io_name''" by code_simp
  with sanitize_key [of "''app.kubernetes.io/name''"] show ?thesis by simp
qed

text \<open>
  A field packed with a key unpacks to that field and that key, whatever characters the key
  has, as long as the names of field and type have no separator.
\<close>

theorem keyed_field_unpacks:
  assumes "CHR ''$'' \<notin> set fld" and "CHR ''$'' \<notin> set typ"
  shows "opsIdentifier reg (WithKey typ fld key) = \<lparr>id_Field = asField reg typ fld, id_Key = key\<rparr>"
  by (rule opsIdentifier_WithKey [OF assms])

theorem keyed_field_unpacks_witness:
  "opsIdentifier defaultFieldByType (WithKey AllocationFieldType FieldLabel ''a$b'') = allocIdent FieldLabel ''a$b''"
proof -
  have "CHR ''$'' \<notin> set FieldLabel" "CHR ''$'' \<notin> set AllocationFieldType" by code_simp+
  from keyed_field_unpacks [OF this] show ?thesis
    by (simp add: allocIdent_def asField_def registry_allocation)
qed

section \<open>Allocations\<close>

text \<open>Three allocations of two namespaces and a set that holds them, for the witnesses below.\<close>

definition sampleAlloc :: "string \<Rightarrow> string \<Rightarrow> rat \<Rightarrow> allocation" where
  "sampleAlloc ns pod cost =
     (withProps (emptyProps\<lparr>pr_Cluster := ''c'', pr_Namespace := ns, pr_Pod := pod\<rparr>))
       \<lparr>al_Name := ns @ ''/'' @ pod, al_CPUCost := Fin cost\<rparr>"

definition sampleHeap :: allocHeap where
  "sampleHeap = [sampleAlloc ''a'' ''p'' 1, sampleAlloc ''a'' ''q'' 2, sampleAlloc ''b'' ''r'' 5]"

definition sampleSet :: allocationSet where
  "sampleSet = (emptySet (NewWindow (Some (timeUnix 0)) (Some (timeUnix 3600))))
     \<lparr>as_Allocations := Some [(''a/p'', 0), (''a/q'', 1), (''b/r'', 2)]\<rparr>"

lemma sampleSet_ok: "setOk sampleHeap sampleSet" "refs sampleSet = {0, 1, 2}" "refsOf sampleSet \<noteq> []"
  by (auto simp: setOk_def sampleSet_def sampleHeap_def sampleAlloc_def refsOf_def setKeysOk_def emptySet_def
      ExternalSuffix_def IdleSuffix_def hasPrefix_def refs_def)

text \<open>
  C4. Aggregating a set without external, idle or shared allocations by a list of properties
  groups the allocations that pass the filter by their key: no panic and no error, and in the
  result every summed field has under each key the sum over the group, and there is no entry
  without a group.
\<close>

theorem AggregateBy_groups:
  assumes ne: "refsOf s \<noteq> []" and opts: "plainOptions (settleOptions options)"
    and m: "compileWith (ao_LabelConfig (settleOptions options)) (ao_Filter (settleOptions options)) = Some (Inr m)"
    and s: "plainSet h s (Some ps) (settleOptions options) m"
  shows "\<exists>h' s'. AggregateBy other now h (Some s) (Some ps) options =
      Some (None, h', Some s', map_option (\<lambda>_. settleOptions options) options) \<and>
    (\<forall>f \<in> set summedFields. \<forall>name. fieldOf f h' s' name = groupTotals h s (Some ps) (settleOptions options) m f name)"
    (is "\<exists>h' s'. ?call = Some (None, h', Some s', ?o) \<and> _")
proof -
  let ?opts = "settleOptions options"
  have call: "?call = map_option (\<lambda>(err, st). (err, ag_heap st, Some (ag_as st), ?o))
      (aggregateAll other now (Some ps) ?opts m None h s)"
    using ne opts m by (simp add: AggregateBy_def compileSharer_def plainOptions_def nothingToDo_def Let_def)
  have all: "\<exists>st. aggregateAll other now (Some ps) ?opts m None h s = ok st \<and>
      fieldOf f (ag_heap st) (ag_as st) name = groupTotals h s (Some ps) ?opts m f name"
    if "f \<in> set summedFields" for f name
    using grouped_field.aggregateAll_plain [OF grouped_fieldI [OF that] _ opts ne, of h m "Some ps" other now name] s
    by (simp add: plainSet_def groupTotals_def)
  have "al_CPUCost \<in> set summedFields" by (simp add: summedFields_def)
  from all [OF this] obtain st where st: "aggregateAll other now (Some ps) ?opts m None h s = ok st" by blast
  have "fieldOf f (ag_heap st) (ag_as st) name = groupTotals h s (Some ps) ?opts m f name"
    if "f \<in> set summedFields" for f name
    using all [OF that, of name] by (simp add: st)
  with st call show ?thesis by (auto simp: ok_def)
qed

theorem AggregateBy_groups_witness:
  "\<exists>h' s'. AggregateBy (\<lambda>_. 0) (\<lambda>_. timeUnix 0) sampleHeap (Some sampleSet) (Some [''namespace'']) None = Some (None, h', Some s', None) \<and>
     fieldOf al_CPUCost h' s' ''a'' = Some (Fin 3) \<and> fieldOf al_CPUCost h' s' ''b'' = Some (Fin 5)"
proof -
  let ?o = "settleOptions None"
  have m: "compileWith (ao_LabelConfig ?o) (ao_Filter ?o) = Some (Inr AllPass)"
    by (simp add: settleOptions_def zeroOptions_def compileWith_def Let_def)
  have o: "plainOptions ?o"
    by (simp add: plainOptions_def settleOptions_def zeroOptions_def Let_def ShareNone_def ShareWeighted_def)
  have s: "plainSet sampleHeap sampleSet (Some [''namespace'']) ?o AllPass"
  proof -
    have "\<forall>r \<in> {0, 1, 2}. plainCell (sampleHeap ! r) \<and> Matches AllPass (Some (marked ?o (sampleHeap ! r))) \<noteq> None \<and>
       \<not> containsStr (al_Name (nameByKey (Some [''namespace'']) ?o (marked ?o (sampleHeap ! r)))) IdleSuffix"
      by code_simp
    then show ?thesis by (simp only: plainSet_def sampleSet_ok simp_thms)
  qed
  have g: "groupTotals sampleHeap sampleSet (Some [''namespace'']) ?o AllPass al_CPUCost ''a'' = Some (Fin 3)"
     "groupTotals sampleHeap sampleSet (Some [''namespace'']) ?o AllPass al_CPUCost ''b'' = Some (Fin 5)"
    by code_simp+
  have "al_CPUCost \<in> set summedFields" by (simp add: summedFields_def)
  with AggregateBy_groups [OF sampleSet_ok(3) o m s] g show ?thesis by fastforce
qed

text \<open>
  C5. Accumulating a range of hours by day, or of days by week, month or quarter, returns one set
  for each run of sets that ends with one that closes a period or with the range, and each
  summed field has in it under each name the sum over the sets of the run.
\<close>

theorem accumulateBy_periods:
  assumes "accPeriod opt = Some (d, closes)" and "rangeOk other d h ss" and "asr_Allocations r = map Some ss"
  shows "\<exists>h' out. rangeAccumulateBy other opt h r = Some (h', Inr (NewAllocationSetRange out)) \<and>
    length out = length (periods closes ss) \<and>
    (\<forall>i f name. i < length out \<and> f \<in> set summedFields \<longrightarrow>
       holds_period f h h' None name (periods closes ss ! i) (out ! i))"
proof -
  have ok: "oneOrNone None" "okPtr h (prevSet None)" "refsPtr (prevSet None) \<inter> allRefs ss = {}"
    by (simp_all add: oneOrNone_def prevSet_def)
  let ?r = "rangeAccumulateBy other opt h r"
  have res: "\<exists>h' out. ?r = Some (h', Inr (NewAllocationSetRange out)) \<and>
      list_all2 (holds_period f h h' None name) (periods closes ss) out"
    if "f \<in> set summedFields" for f name
  proof -
    have prev: "fieldPtr f h (prevSet None) name = None" by (simp add: prevSet_def)
    note l = summed_field.loop_periods [OF summed_fieldI [OF that] assms(2) ok, of closes "[]" name, unfolded prev append_Nil]
    from l obtain h' out where r: "accumulateLoop other d closes h None [] (map Some ss) = Some (h', Inr (NewAllocationSetRange out))"
      and o': "case periods closes ss of [] \<Rightarrow> out = []
        | g # gs \<Rightarrow> (\<exists>o1 os. out = o1 # os \<and> holds_period f h h' None name g o1 \<and>
                    list_all2 (holds_period f h h' None name) gs os)"
      by (elim exE conjE)
    from o' have "list_all2 (holds_period f h h' None name) (periods closes ss) out"
      by (cases "periods closes ss") auto
    with r show ?thesis unfolding rangeAccumulateBy_loop [OF assms] by blast
  qed
  obtain f where f: "f \<in> set summedFields" by (auto simp: summedFields_def)
  from res [OF f, of name] obtain h' out where o': "?r = Some (h', Inr (NewAllocationSetRange out))"
    "length out = length (periods closes ss)" by (blast dest: list_all2_lengthD [symmetric])
  have "list_all2 (holds_period f h h' None name) (periods closes ss) out" if "f \<in> set summedFields" for f name
    using res [OF that, of name] o'(1) by (auto simp: NewAllocationSetRange_def)
  then show ?thesis using o' by (intro exI [of _ h'] exI [of _ out]) (auto simp: list_all2_conv_all_nth)
qed

definition sampleDay :: "int \<Rightarrow> ref gomap \<Rightarrow> allocationSet" where
  "sampleDay d allocs =
     (emptySet (NewWindow (Some (timeUnix (86400 * d))) (Some (timeUnix (86400 * (d + 1))))))\<lparr>as_Allocations := Some allocs\<rparr>"

text \<open>Saturday the third and Sunday the fourth of January 1970.\<close>

theorem accumulateBy_periods_witness:
  "\<exists>h' out. rangeAccumulateBy (\<lambda>_. 0) AccumulateOptionWeek sampleHeap
      (NewAllocationSetRange [Some (sampleDay 2 [(''a/p'', 0)]), Some (sampleDay 3 [(''a/q'', 1)])]) =
      Some (h', Inr (NewAllocationSetRange out)) \<and> length out = 2 \<and>
    fieldPtr al_CPUCost h' (out ! 0) ''a/p'' = Some (Fin 1)"
proof -
  let ?ss = "[sampleDay 2 [(''a/p'', 0)], sampleDay 3 [(''a/q'', 1)]]"
  have opt: "accPeriod AccumulateOptionWeek = Some (24 * Hour, closesWeek)" by (simp add: accPeriod_def)
  have ok: "setOk sampleHeap s" if "s \<in> set ?ss" for s
    using that by (auto simp: setOk_def sampleDay_def sampleHeap_def sampleAlloc_def refsOf_def setKeysOk_def emptySet_def
        ExternalSuffix_def IdleSuffix_def hasPrefix_def)
  have d: "\<forall>s \<in> set ?ss. windowDuration (\<lambda>_. 0) (as_Window s) = 24 * Hour \<and> wn_start (as_Window s) \<noteq> None" by code_simp
  have "disjointSets ?ss" by code_simp
  with ok d have r: "rangeOk (\<lambda>_. 0) (24 * Hour) sampleHeap ?ss" by (simp add: rangeOk_def)
  have p: "periods closesWeek ?ss = [[sampleDay 2 [(''a/p'', 0)]], [sampleDay 3 [(''a/q'', 1)]]]" by code_simp
  have f: "al_CPUCost \<in> set summedFields" by (simp add: summedFields_def)
  have v: "groupField al_CPUCost sampleHeap [sampleDay 2 [(''a/p'', 0)]] ''a/p'' None = Some (Fin 1)" by code_simp
  have "asr_Allocations (NewAllocationSetRange (map Some ?ss)) = map Some ?ss" by (simp add: NewAllocationSetRange_def)
  from accumulateBy_periods [OF opt r this] f p v show ?thesis by (fastforce simp: holds_period_def)
qed

text \<open>
  C6. In every state that calls reach from a new set, the entries of the set are under their
  names, no name twice, and the sets of external and of idle keys are exactly the names of its
  entries that contain the suffix.
\<close>

theorem set_invariant:
  assumes "setReach h as"
  shows "distinct (map fst (refsOf as)) \<and> (\<forall>(k, r) \<in> set (refsOf as). r < length h \<and> al_Name (h ! r) = k) \<and>
    fst ` set (entries (as_ExternalKeys as)) = {k \<in> fst ` set (refsOf as). containsStr k ExternalSuffix} \<and>
    fst ` set (entries (as_IdleKeys as)) = {k \<in> fst ` set (refsOf as). containsStr k IdleSuffix}"
proof -
  have ok: "setOk h as" using assms by (rule setReach_ok)
  have "fst ` set (entries m) = {k \<in> fst ` set (refsOf as). containsStr k suf}" if "setKeysOk suf as m" for suf m
    using that [unfolded setKeysOk_def] by (intro set_eqI) simp
  with ok show ?thesis by (simp add: setOk_def)
qed

theorem set_invariant_witness:
  "fst ` set (entries (as_IdleKeys (snd (setInsert [zeroAllocation\<lparr>al_Name := ''c/__idle__''\<rparr>] (emptySet (NewWindow None None)) 0)))) =
     {''c/__idle__''}"
proof -
  let ?a = "zeroAllocation\<lparr>al_Name := ''c/__idle__''\<rparr>" and ?s = "emptySet (NewWindow None None)"
  have "setReach ([] @ [?a]) ?s" by (rule setReach.allocate [OF setReach.new])
  then have r: "setReach (fst (setInsert [?a] ?s 0)) (snd (setInsert [?a] ?s 0))" by (intro setReach.insert) simp_all
  have k: "fst ` set (refsOf (snd (setInsert [?a] ?s 0))) = {''c/__idle__''}" by (simp add: setInsert_refs)
  have "containsStr ''c/__idle__'' IdleSuffix" by code_simp
  then have "{k \<in> fst ` set (refsOf (snd (setInsert [?a] ?s 0))). containsStr k IdleSuffix} = {''c/__idle__''}"
    unfolding k by blast
  with set_invariant [OF r, THEN conjunct2, THEN conjunct2, THEN conjunct2] show ?thesis by (rule trans)
qed

text \<open>
  C7. The accumulation of all sets of a range into one writes to no allocation of the range: the
  heap is only extended. The result has under each name, for every summed field, the sum over
  the sets in order.
\<close>

theorem accumulation_leaves_range:
  assumes "asr_Allocations r \<noteq> []" and "\<forall>s \<in> set (asr_Allocations r). okPtr h s"
  shows "\<exists>h' a. newAccumulation h (Some r) = (h', Inr a) \<and> take (length h) h' = h \<and> okPtr h' a \<and>
    (\<forall>f \<in> set summedFields. \<forall>name.
       fieldPtr f h' a name = fold (\<lambda>s z. plusOpt z (fieldPtr f h s name)) (asr_Allocations r) None)"
proof -
  let ?acc = "accumulateClones h None (asr_Allocations r)"
  have fr: "okPtr (fst ?acc) (snd ?acc) \<and> (\<forall>x < length h. fst ?acc ! x = h ! x) \<and> length h \<le> length (fst ?acc)"
    using accumulateClones_frame [of h None "asr_Allocations r" "length h"] assms(2) by simp
  then have "take (length h) (fst ?acc) = h" by (intro nth_equalityI) simp_all
  moreover have "fieldPtr f (fst ?acc) (snd ?acc) name =
      fold (\<lambda>s z. plusOpt z (fieldPtr f h s name)) (asr_Allocations r) None" if "f \<in> set summedFields" for f name
    using summed_field.accumulateClones_field [OF summed_fieldI [OF that], of h None "asr_Allocations r"] assms(2) by simp
  moreover have "newAccumulation h (Some r) = (fst ?acc, Inr (snd ?acc))"
    using assms(1) by (simp add: newAccumulation_def case_prod_unfold Let_def)
  ultimately show ?thesis using fr by blast
qed

theorem accumulation_leaves_range_witness:
  "\<exists>h' a. newAccumulation sampleHeap (Some (NewAllocationSetRange [Some sampleSet, None, Some sampleSet])) = (h', Inr a) \<and>
     take 3 h' = sampleHeap \<and> fieldPtr al_CPUCost h' a ''b/r'' = Some (Fin 10)"
proof -
  let ?r = "NewAllocationSetRange [Some sampleSet, None, Some sampleSet]"
  have n: "asr_Allocations ?r = [Some sampleSet, None, Some sampleSet]" "length sampleHeap = 3"
    by (simp_all add: NewAllocationSetRange_def sampleHeap_def)
  have "fold (\<lambda>s z. plusOpt z (fieldPtr al_CPUCost sampleHeap s ''b/r'')) [Some sampleSet, None, Some sampleSet] None = Some (Fin 10)"
    by code_simp
  moreover have "al_CPUCost \<in> set summedFields" by (simp add: summedFields_def)
  ultimately show ?thesis using accumulation_leaves_range [of ?r sampleHeap] sampleSet_ok(1) n by fastforce
qed

text \<open>
  C8. With costs that are not negative, the coefficient by which an allocation shares the idle
  costs of its cluster or node is between zero and one for each resource, in floating point; a
  CaN can only come from costs that overflow.
\<close>

theorem idle_coefficients_bounded:
  assumes "computeIdleCoeffs options h as share = Some (c, tot)"
    and "\<forall>r \<in> refs as \<union> refs share. nonnegCosts (h ! r)"
    and "res \<in> {''cpu'', ''gpu'', ''ram''}"
  shows "isShare (coeffOf c idleId name res)"
  by (rule computeIdleCoeffs_shares [OF assms])

theorem idle_coefficients_bounded_witness:
  "\<exists>c tot. computeIdleCoeffs zeroOptions sampleHeap sampleSet (windowSet (NewWindow None None)) = Some (c, tot) \<and>
     isShare (coeffOf c ''c'' ''b/r'' ''cpu'')"
proof -
  let ?w = "windowSet (NewWindow None None)"
  have p: "al_Properties (sampleHeap ! snd e) \<noteq> None" if "e \<in> set (refsOf sampleSet @ refsOf ?w)" for e
    using that by (auto simp: sampleSet_def refsOf_def sampleHeap_def sampleAlloc_def emptySet_def windowSet_def)
  then obtain c tot where c: "computeIdleCoeffs zeroOptions sampleHeap sampleSet ?w = Some (c, tot)"
    using computeIdleCoeffs_defined [of sampleSet ?w sampleHeap zeroOptions] by auto
  have "nonnegCosts (sampleHeap ! 0)" "nonnegCosts (sampleHeap ! 1)" "nonnegCosts (sampleHeap ! 2)"
    by (simp_all add: sampleHeap_def sampleAlloc_def nonnegCosts_def CPUTotalCost_def GPUTotalCost_def RAMTotalCost_def
        nonneg_fadd nonneg_fl nonneg_cases [of "Fin _"] withProps_def zeroAllocation_def)
  then have "\<forall>r \<in> refs sampleSet \<union> refs ?w. nonnegCosts (sampleHeap ! r)" by (simp add: sampleSet_ok(2))
  from idle_coefficients_bounded [OF c this, of "''cpu''" "''c''" "''b/r''"] c show ?thesis by auto
qed

text \<open>
  C9. The coefficient by which shared costs are given to a key is between zero and one: always
  when they are split evenly, and with weights if no weight is negative.
\<close>

theorem share_coefficients_bounded:
  assumes "computeShareCoeffs aggregateBy options h as = Some (Inr c)"
    and "ao_ShareSplit options = ShareEven \<or> (\<forall>r \<in> refs as. nonneg (shareWeight (h ! r)))"
    and "map_of c name = Some v"
  shows "isShare v"
  by (rule computeShareCoeffs_shares [OF assms])

theorem share_coefficients_bounded_witness:
  "\<exists>c v. computeShareCoeffs (Some [''namespace'']) zeroOptions sampleHeap sampleSet = Some (Inr c) \<and>
     map_of c ''b'' = Some v \<and> isShare v"
proof -
  have f: "fl (numeral n) = Fin (numeral n)" if "numeral n \<le> (2 ^ 53 :: int)" for n
    using fl_of_int [of "numeral n"] that by simp
  have w: "shareWeight (sampleHeap ! 0) = Fin 1" "shareWeight (sampleHeap ! 1) = Fin 2" "shareWeight (sampleHeap ! 2) = Fin 5"
    by (simp_all add: sampleHeap_def sampleAlloc_def shareWeight_def TotalCost_def CPUTotalCost_def GPUTotalCost_def
        RAMTotalCost_def PVTotalCost_def PVCost_def pvEntries_def sumOf_def NetworkTotalCost_def LBTotalCost_def
        LoadBalancerTotalCost_def SharedTotalCost_def fsub_def withProps_def zeroAllocation_def f)
  have k: "map (\<lambda>i. keyOf zeroOptions (Some [''namespace'']) (sampleHeap ! i)) [0, 1, 2] = [''a'', ''a'', ''b'']"
    "list_all (\<lambda>i. \<not> IsIdle (sampleHeap ! i) \<and> \<not> IsUnmounted (sampleHeap ! i)) [0, 1, 2]"
    "ao_ShareSplit zeroOptions \<noteq> ShareEven" "ao_Filter zeroOptions = None" "refsOf sampleSet = [(''a/p'', 0), (''a/q'', 1), (''b/r'', 2)]"
    by code_simp+
  from k have "\<exists>c. computeShareCoeffs (Some [''namespace'']) zeroOptions sampleHeap sampleSet = Some (Inr c) \<and> map_of c ''b'' \<noteq> None"
    by (simp add: computeShareCoeffs_def compileWith_def recordShare_def w w(2) [unfolded One_nat_def] addNum_def normalizeShares_def Let_def)
  then obtain c v where c: "computeShareCoeffs (Some [''namespace'']) zeroOptions sampleHeap sampleSet = Some (Inr c)"
    and v: "map_of c ''b'' = Some v" by auto
  have "\<forall>r \<in> refs sampleSet. nonneg (shareWeight (sampleHeap ! r))" using w by (simp add: sampleSet_ok(2) nonneg_cases)
  with share_coefficients_bounded [OF c _ v] c v show ?thesis by auto
qed

text \<open>
  C10. Removing NaN from a set leaves no NaN among the numbers of its allocations that are
  exported, in nested maps and pointers too; it changes neither an allocation without NaN nor
  one that is not in the set.
\<close>

theorem sanitized_set:
  assumes "setOk h s" and "r < length h"
  shows "(if r \<in> refs s then NaN \<notin> set (allocNumbers (setSanitizeNaN h s ! r)) else setSanitizeNaN h s ! r = h ! r) \<and>
    (NaN \<in> set (allocNumbers (h ! r)) \<or> setSanitizeNaN h s ! r = h ! r)"
  using allocSanitize_clean [of "h ! r"] allocSanitize_id [of "h ! r"]
  by (auto simp: setSanitizeNaN_def updateAll_nth [OF assms])

theorem sanitized_set_witness:
  "NaN \<notin> set (allocNumbers (setSanitizeNaN (sampleHeap[1 := (sampleHeap ! 1)\<lparr>al_RAMCost := NaN\<rparr>]) sampleSet ! 1))"
proof -
  let ?h = "sampleHeap[1 := (sampleHeap ! 1)\<lparr>al_RAMCost := NaN\<rparr>]"
  have n: "length sampleHeap = 3" by (simp add: sampleHeap_def)
  have "setOk ?h sampleSet"
  proof (rule setOk_cong [OF sampleSet_ok(1)])
    fix r assume "r < length sampleHeap"
    then show "al_Name (?h ! r) = al_Name (sampleHeap ! r)" by (cases "r = 1") simp_all
  qed simp
  from sanitized_set [OF this, of 1] n sampleSet_ok(2) show ?thesis by simp
qed

text \<open>
  C11. Adding volumes: a volume of the argument is merged with that of the receiver under the
  same key, whose adjustment is dropped, and the provider ID is kept only if both have it; so a
  volume the receiver does not have loses its provider ID.
\<close>

theorem volumes_added:
  assumes "distinct (map fst (case q of None \<Rightarrow> [] | Some m \<Rightarrow> m))"
  shows "pvMap (pvAdd p q) k =
    (case (pvMap p k, pvMap q k) of
       (None, None) \<Rightarrow> None
     | (Some v, None) \<Rightarrow> Some (v\<lparr>pv_Adjustment := Fin 0\<rparr>)
     | (None, Some t) \<Rightarrow> Some \<lparr>pv_ByteHours = fadd (Fin 0) (pv_ByteHours t), pv_Cost = fadd (Fin 0) (pv_Cost t),
                             pv_ProviderID = [], pv_Adjustment = Fin 0\<rparr>
     | (Some v, Some t) \<Rightarrow>
         Some \<lparr>pv_ByteHours = fadd (pv_ByteHours v) (pv_ByteHours t), pv_Cost = fadd (pv_Cost v) (pv_Cost t),
              pv_ProviderID = (if pv_ProviderID v = pv_ProviderID t then pv_ProviderID v else []),
              pv_Adjustment = Fin 0\<rparr>)"
  by (simp add: pvAdd_map [OF assms] map_of_pvClone pvMerge_def zeroPV_def Let_def split: option.split)

theorem volumes_added_witness:
  "map_option pv_ProviderID (pvMap (pvAdd None
      (Some [(\<lparr>pvk_Cluster = ''c'', pvk_Name = ''v''\<rparr>,
              \<lparr>pv_ByteHours = Fin 1, pv_Cost = Fin 2, pv_ProviderID = ''disk'', pv_Adjustment = Fin 0\<rparr>)]))
     \<lparr>pvk_Cluster = ''c'', pvk_Name = ''v''\<rparr>) = Some []"
proof -
  let ?q = "Some [(\<lparr>pvk_Cluster = ''c'', pvk_Name = ''v''\<rparr>,
              \<lparr>pv_ByteHours = Fin 1, pv_Cost = Fin 2, pv_ProviderID = ''disk'', pv_Adjustment = Fin 0\<rparr>)]"
  have "distinct (map fst (case ?q of None \<Rightarrow> [] | Some m \<Rightarrow> m))" by simp
  from volumes_added [OF this, of None "\<lparr>pvk_Cluster = ''c'', pvk_Name = ''v''\<rparr>"] show ?thesis by (simp add: pvMap_def)
qed

text \<open>
  C12. The properties two allocations have in common give the same aggregation key as each of
  them, for the aggregation properties the two agree on; so the properties of a sum keep the key
  it was grouped under.
\<close>

theorem intersection_keeps_key:
  assumes "\<forall>agg \<in> set aggregateBy. agreesOn p q agg"
  shows "GenerateKey (Intersection (Some p) (Some q)) aggregateBy lc = GenerateKey (Some p) aggregateBy lc \<and>
    GenerateKey (Intersection (Some p) (Some q)) aggregateBy lc = GenerateKey (Some q) aggregateBy lc"
proof -
  have "GenerateKey (Some p) aggregateBy lc = GenerateKey (Some q) aggregateBy lc"
  proof -
    have "keyNames c p agg = keyNames c q agg" if "agg \<in> set aggregateBy" for c agg
      using assms that by (intro keyNames_agree) simp
    then have "map (keyNames c p) aggregateBy = map (keyNames c q) aggregateBy" for c by simp
    then show ?thesis by (simp only: GenerateKey_def option.case Let_def)
  qed
  with GenerateKey_Intersection [OF assms, of lc] show ?thesis by simp
qed

theorem intersection_keeps_key_witness:
  "GenerateKey (Intersection (al_Properties (sampleAlloc ''a'' ''p'' 1)) (al_Properties (sampleAlloc ''a'' ''q'' 2)))
     [AllocationClusterProp, AllocationNamespaceProp] None = ''c/a''"
proof -
  let ?p = "emptyProps\<lparr>pr_Cluster := ''c'', pr_Namespace := ''a'', pr_Pod := ''p''\<rparr>"
  let ?q = "emptyProps\<lparr>pr_Cluster := ''c'', pr_Namespace := ''a'', pr_Pod := ''q''\<rparr>"
  have a: "\<forall>agg \<in> set [AllocationClusterProp, AllocationNamespaceProp]. agreesOn ?p ?q agg" by (simp add: agreesOn_def)
  have "GenerateKey (Some ?p) [AllocationClusterProp, AllocationNamespaceProp] None = ''c/a''" by code_simp
  with intersection_keeps_key [OF a, of None] show ?thesis by (simp add: sampleAlloc_def)
qed

text \<open>
  C13. Properties whose maps have each key once are equal by \<^verbatim>\<open>Equal\<close> exactly if they agree in
  every scalar, as maps in labels and annotations, and in the services up to their order.
\<close>

theorem properties_equal:
  assumes "propsOk p" and "propsOk q"
  shows "fst (propsEqual p q) \<longleftrightarrow>
    (pr_Cluster p = pr_Cluster q \<and> pr_Node p = pr_Node q \<and> pr_Container p = pr_Container q \<and>
     pr_Controller p = pr_Controller q \<and> pr_ControllerKind p = pr_ControllerKind q \<and>
     pr_Namespace p = pr_Namespace q \<and> pr_Pod p = pr_Pod q \<and> pr_ProviderID p = pr_ProviderID q \<and>
     map_of (entries (pr_Labels p)) = map_of (entries (pr_Labels q)) \<and>
     map_of (entries (pr_NamespaceLabels p)) = map_of (entries (pr_NamespaceLabels q)) \<and>
     map_of (entries (pr_Annotations p)) = map_of (entries (pr_Annotations q)) \<and>
     map_of (entries (pr_NamespaceAnnotations p)) = map_of (entries (pr_NamespaceAnnotations q)) \<and>
     mset (pr_Services p) = mset (pr_Services q))"
  by (rule propsEqual_iff [OF assms])

theorem properties_equal_witness:
  "fst (propsEqual (emptyProps\<lparr>pr_Services := [''b'', ''a''], pr_Labels := Some []\<rparr>)
     (emptyProps\<lparr>pr_Services := [''a'', ''b'']\<rparr>))"
proof -
  let ?p = "emptyProps\<lparr>pr_Services := [''b'', ''a''], pr_Labels := Some []\<rparr>" and ?q = "emptyProps\<lparr>pr_Services := [''a'', ''b'']\<rparr>"
  have "propsOk ?p" "propsOk ?q" by (simp_all add: propsOk_def emptyProps_def)
  from properties_equal [OF this] show ?thesis by (simp add: emptyProps_def)
qed

section \<open>The cloud configuration controller\<close>

text \<open>Configurations that are a key with a number, valid if the number is positive.\<close>

definition sampleOps :: "(string \<times> nat) configOps" where
  "sampleOps = \<lparr>kc_Key = fst, kc_Validate = (\<lambda>c. 0 < snd c), kc_Equals = (=), kc_Type = (\<lambda>_. Some ''s3'')\<rparr>"

definition sampleController :: "(string \<times> nat) controller" where
  "sampleController = callStep sampleOps RegisterCall
     (startController sampleOps
       [(HelmSource, [(''k'', 1)]), (MultiCloudSource, [(''m'', 2), (''bad'', 0)])] (MemoryStorage None))"

lemma sampleController_reachable: "reachable sampleOps sampleController"
  unfolding sampleController_def by (intro reachable.intros) (simp add: updateGuard_def)







text \<open>
  C22. A configuration created without error is an active one of the controller's source, and
  every observer has it.
\<close>

theorem create_activates:
  assumes "reachable ops c" and "fst (CreateConfig ops conf c) = None"
  shows "(\<exists>st \<in> set (GetStatus (snd (CreateConfig ops conf c))).
      st_Source st = ConfigControllerSource \<and> st_Key st = kc_Key ops conf \<and> st_Active st \<and> st_Config st = conf) \<and>
    (\<forall>obs \<in> set (ct_observers (snd (CreateConfig ops conf c))). obs (kc_Key ops conf) = Some conf)"
proof -
  have ok: "ctlOk ops c" by (rule reachable_ok [OF assms(1)])
  from CreateConfig_active [OF ok assms(2)] ctlOk_observer [OF CreateConfig_ok [OF ok]]
  show ?thesis by blast
qed

theorem create_activates_witness:
  "\<exists>st \<in> set (GetStatus (snd (CreateConfig sampleOps (''k'', 5) sampleController))).
     st_Source st = ConfigControllerSource \<and> st_Key st = ''k'' \<and> st_Active st \<and> st_Config st = (''k'', 5)"
proof -
  have "fst (CreateConfig sampleOps (''k'', 5) sampleController) = None" by code_simp
  from create_activates [OF sampleController_reachable this] show ?thesis by (simp add: sampleOps_def)
qed

section \<open>Durations and windows\<close>

text \<open>
  C23. A positive duration of whole seconds, printed as a Prometheus offset, is parsed back to
  the same duration.
\<close>

theorem duration_roundtrip:
  assumes "0 < k" and "k * Second \<le> maxInt64"
  shows "ParseDuration other (DurationToPromOffsetString (k * Second)) = Inr (k * Second)"
  using goParseDuration_DurationString [OF assms] DurationString_clean(2) [OF assms] by (simp add: ParseDuration_def)

theorem duration_roundtrip_witness:
  "\<forall>other. ParseDuration other (DurationToPromOffsetString (5400 * Second)) = Inr (5400 * Second)"
  using duration_roundtrip [of 5400] by (simp add: durations maxInt64_def)

text \<open>
  C24. In a zone whose offset is a whole number of minutes the named windows are periods of the
  local calendar: today and yesterday run from midnight to midnight, the weeks from Sunday, the
  months from their first day.
\<close>

theorem named_windows_local:
  assumes "tm_off now mod 60 = 0"
  shows "parseWindow ''today'' now =
      Inr (NewClosedWindow (midnight (tm_off now) (localDay now)) (midnight (tm_off now) (localDay now + 1))) \<and>
    parseWindow ''yesterday'' now =
      Inr (NewClosedWindow (midnight (tm_off now) (localDay now - 1)) (midnight (tm_off now) (localDay now))) \<and>
    parseWindow ''week'' now = Inr (NewClosedWindow (midnight (tm_off now) (localDay now - timeWeekday now)) now) \<and>
    parseWindow ''lastweek'' now =
      Inr (NewClosedWindow (midnight (tm_off now) (localDay now - timeWeekday now - 7))
            (midnight (tm_off now) (localDay now - timeWeekday now))) \<and>
    parseWindow ''month'' now =
      Inr (NewClosedWindow (midnight (tm_off now) (dayNumber (timeYear now) (timeMonth now) 1)) now) \<and>
    parseWindow ''lastmonth'' now =
      Inr (NewClosedWindow (midnight (tm_off now) (dayNumber (timeYear now) (timeMonth now - 1) 1))
            (midnight (tm_off now) (dayNumber (timeYear now) (timeMonth now) 1)))"
  using named_windows [OF assms] by simp

theorem named_windows_local_witness:
  "parseWindow ''today'' (timeIn (timeUnix 1700000000) (- 25200)) =
     Inr (NewClosedWindow (timeIn (timeUnix 1699945200) (- 25200)) (timeIn (timeUnix 1700031600) (- 25200)))"
proof -
  let ?now = "timeIn (timeUnix 1700000000) (- 25200)"
  have "tm_off ?now mod 60 = 0" by (simp add: timeIn_def)
  moreover have "midnight (tm_off ?now) (localDay ?now) = timeIn (timeUnix 1699945200) (- 25200)"
    "midnight (tm_off ?now) (localDay ?now + 1) = timeIn (timeUnix 1700031600) (- 25200)" by code_simp+
  ultimately show ?thesis using named_windows_local [of ?now] by simp
qed

text \<open>
  C25. A duration string gives a window of exactly that length, which ends at the next multiple
  of its unit, for weeks of a day, so that the current time lies in its last unit.
\<close>

theorem duration_windows:
  assumes "0 \<le> n" and "isUnit u" and "n * windowUnit u \<le> maxInt64"
  shows "\<exists>s e. parseWindow (showNat n @ [u]) now = Inr (NewClosedWindow s e) \<and>
    tm_ns e - tm_ns s = n * windowUnit u \<and> tm_ns now < tm_ns e \<and>
    tm_ns e \<le> tm_ns now + (if u = CHR ''w'' then Day else windowUnit u) \<and>
    tm_ns e mod (if u = CHR ''w'' then Day else windowUnit u) = 0"
  by (rule duration_window [OF assms])

theorem duration_windows_witness:
  "\<forall>now. \<exists>s e. parseWindow ''7d'' now = Inr (NewClosedWindow s e) \<and> tm_ns e - tm_ns s = 7 * Day \<and> tm_ns now < tm_ns e"
proof
  fix now
  have "digitChar 7 = CHR ''7''" by code_simp
  then have "showNat 7 = ''7''" by (simp add: showNat.simps)
  moreover have "isUnit (CHR ''d'')" "windowUnit (CHR ''d'') = Day" by (simp_all add: isUnit_def windowUnit_def Day_def)
  moreover have "7 * Day \<le> maxInt64" by (simp add: durations maxInt64_def)
  ultimately show "\<exists>s e. parseWindow ''7d'' now = Inr (NewClosedWindow s e) \<and> tm_ns e - tm_ns s = 7 * Day \<and> tm_ns now < tm_ns e"
    using duration_windows [of 7 "CHR ''d''" now] by auto
qed

text \<open>
  C26. Rounding a closed window to hours, days, weeks, months or quarters gives a window that
  contains it, and cutting it gives windows of positive length that cover the rounded window
  without gap or overlap. The ends must have no fraction of a second, and for weeks not lie in
  the first hour of a Sunday.
\<close>

theorem accumulate_windows_tile:
  assumes "tm_off s = tm_off e" and "tm_ns s \<le> tm_ns e" and "accumulable opt e"
  shows "\<exists>s' e' ws. GetAccumulateWindow opt (NewClosedWindow s e) = Inr (NewClosedWindow s' e') \<and>
    tm_ns s' \<le> tm_ns s \<and> tm_ns e \<le> tm_ns e' \<and>
    GetAccumulateWindows opt (NewClosedWindow s e) = Some (Inr ws) \<and> tiles (tm_ns s') (tm_ns e') ws"
  by (rule accumulate_tiles [OF assms])

theorem accumulate_windows_tile_witness:
  "\<exists>s' e' ws. GetAccumulateWindow AccumulateOptionMonth (NewClosedWindow (timeUnix 1700000000) (timeUnix 1709300000)) =
      Inr (NewClosedWindow s' e') \<and>
    GetAccumulateWindows AccumulateOptionMonth (NewClosedWindow (timeUnix 1700000000) (timeUnix 1709300000)) = Some (Inr ws) \<and>
    tiles (tm_ns s') (tm_ns e') ws"
proof -
  have "accumulable AccumulateOptionMonth (timeUnix 1709300000)" by code_simp
  moreover have "tm_ns (timeUnix 1700000000) \<le> tm_ns (timeUnix 1709300000)"
    "tm_off (timeUnix 1700000000) = tm_off (timeUnix 1709300000)" by code_simp+
  ultimately show ?thesis
    using accumulate_windows_tile [of "timeUnix 1700000000" "timeUnix 1709300000" AccumulateOptionMonth] by blast
qed

text \<open>
  C27. For windows of at least a minute, dividing a range returns, and if it succeeds its windows
  have the given size and follow each other from the start until less than one window is left.
\<close>

theorem equal_windows_tile:
  assumes "Minute \<le> windowSize" and "windowSize \<le> maxInt64"
  shows "\<exists>r. GetWindows other utcOffset start end' windowSize = Some r \<and>
    (case r of
       Inl _ \<Rightarrow> True
     | Inr ws \<Rightarrow> \<exists>b. tiles (tm_ns start) b ws \<and> tm_ns end' < b + windowSize \<and> (b \<le> tm_ns end' \<or> ws = []) \<and>
         (\<forall>w \<in> set ws. \<exists>s. w = NewWindow (Some s) (Some (timeAdd s windowSize))))"
  by (rule GetWindows_tiles [OF assms])

theorem equal_windows_tile_witness:
  "\<forall>other start end'. \<exists>r. GetWindows other 0 start end' Hour = Some r"
  using equal_windows_tile [of Hour] by (simp add: durations maxInt64_def) blast

text \<open>
  C28. The query windows of a range that is at least one query window long cover it exactly.
\<close>

theorem query_windows_tile:
  assumes "0 < queryWindow" and "tm_ns start + queryWindow \<le> tm_ns end'" and "tm_off start = tm_off end'"
    and "tm_off start = intOfF other (durSeconds utcOffset)"
  shows "\<exists>ws. GetWindowsForQueryWindow other utcOffset start end' queryWindow = Some (Inr ws) \<and>
    tiles (tm_ns start) (tm_ns end') ws"
  using queryWindowLoop_tiles [OF assms(1), of "tm_ns start" start "[]" end' "timeAdd start queryWindow"] assms
  by (auto simp: GetWindowsForQueryWindow_def)

lemma zero_offset: "intOfF other (durSeconds 0) = 0"
  using durSeconds_whole [of 0 other] by (simp add: maxInt64_def)

theorem query_windows_tile_witness:
  "\<exists>ws. GetWindowsForQueryWindow (\<lambda>_. 0) 0 (timeUnix 0) (timeUnix 100000) Day = Some (Inr ws) \<and>
     tiles (tm_ns (timeUnix 0)) (tm_ns (timeUnix 100000)) ws"
proof (rule query_windows_tile)
  show "0 < Day" by (simp add: durations)
  show "tm_ns (timeUnix 0) + Day \<le> tm_ns (timeUnix 100000)" by code_simp
  show "tm_off (timeUnix 0) = tm_off (timeUnix 100000)" by (simp add: timeUnix_def)
  show "tm_off (timeUnix 0) = intOfF (\<lambda>_. 0) (durSeconds 0)" by (simp add: timeUnix_def zero_offset)
qed

text \<open>
  Of a range shorter than the query window, the single window reaches past the end of the
  range: only the later windows are cut off at it.
\<close>

theorem query_window_overshoots:
  assumes "tm_ns start < tm_ns end'" and "tm_ns end' < tm_ns start + queryWindow" and "tm_off start = tm_off end'"
    and "tm_off start = intOfF other (durSeconds utcOffset)"
  shows "GetWindowsForQueryWindow other utcOffset start end' queryWindow =
    Some (Inr [NewClosedWindow start (timeAdd start queryWindow)])"
proof -
  have "queryWindowLoop end' queryWindow (timeAdd start queryWindow) e ws = Some ws" for e ws
    using assms(2) by (subst queryWindowLoop.simps) (simp add: time_order timeAdd_def)
  moreover have "queryWindowLoop end' queryWindow start e [] =
      queryWindowLoop end' queryWindow (timeAdd start queryWindow)
        (if timeAfter (timeAdd e queryWindow) end' then end' else timeAdd e queryWindow) [NewWindow (Some start) (Some e)]" for e
    using assms(1) by (subst queryWindowLoop.simps) (simp add: time_order Let_def)
  ultimately show ?thesis
    using assms(3,4) by (simp add: GetWindowsForQueryWindow_def NewWindow_def NewClosedWindow_def)
qed

theorem query_window_overshoots_witness:
  "GetWindowsForQueryWindow (\<lambda>_. 0) 0 (timeUnix 0) (timeUnix 3600) Day =
     Some (Inr [NewClosedWindow (timeUnix 0) (timeUnix 86400)])"
proof -
  have "tm_ns (timeUnix 0) < tm_ns (timeUnix 3600)" "tm_ns (timeUnix 3600) < tm_ns (timeUnix 0) + Day"
    "tm_off (timeUnix 0) = tm_off (timeUnix 3600)" "timeAdd (timeUnix 0) Day = timeUnix 86400" by code_simp+
  moreover have "tm_off (timeUnix 0) = intOfF (\<lambda>_. 0) (durSeconds 0)" by (simp add: timeUnix_def zero_offset)
  ultimately show ?thesis using query_window_overshoots [of "timeUnix 0" "timeUnix 3600" Day "\<lambda>_. 0" 0] by simp
qed

text \<open>
  C29. Two closed windows of positive length overlap exactly if some instant lies in both, their
  ends excluded.
\<close>

theorem overlaps_iff_common_instant:
  assumes "tm_ns s < tm_ns e" and "tm_ns s' < tm_ns e'"
  shows "Overlaps (NewClosedWindow s e) (NewClosedWindow s' e') \<longleftrightarrow>
    (\<exists>n. inHalfOpen (NewClosedWindow s e) n \<and> inHalfOpen (NewClosedWindow s' e') n)"
  by (rule Overlaps_closed [OF assms])

theorem overlaps_iff_common_instant_witness:
  "\<not> (\<exists>n. inHalfOpen (NewClosedWindow (timeUnix 0) (timeUnix 60)) n \<and> inHalfOpen (NewClosedWindow (timeUnix 60) (timeUnix 90)) n)"
proof -
  have "tm_ns (timeUnix 0) < tm_ns (timeUnix 60)" "tm_ns (timeUnix 60) < tm_ns (timeUnix 90)" by code_simp+
  moreover have "\<not> Overlaps (NewClosedWindow (timeUnix 0) (timeUnix 60)) (NewClosedWindow (timeUnix 60) (timeUnix 90))"
    by code_simp
  ultimately show ?thesis using overlaps_iff_common_instant by blast
qed




text \<open>
  C31. The share of a window that lies in a closed window is a finite number between 0 and 1, as
  the rounded floating-point operations compute it.
\<close>

theorem percent_in_window_bounds:
  assumes "wn_start w = Some ws" and "wn_end w = Some we"
  shows "\<exists>p. GetPercentInWindow other w x = Some (Fin p) \<and> 0 \<le> p \<and> p \<le> 1"
  by (rule GetPercentInWindow_bounds [OF assms])

theorem percent_in_window_bounds_witness:
  "\<forall>other x. \<exists>p. GetPercentInWindow other (NewClosedWindow (timeUnix 0) (timeUnix 600)) x = Some (Fin p) \<and> 0 \<le> p \<and> p \<le> 1"
  using percent_in_window_bounds [of "NewClosedWindow (timeUnix 0) (timeUnix 600)"] by (simp add: NewClosedWindow_def)

section \<open>Scraping and metrics\<close>

text \<open>
  C32. Samples written in the text format, with comments, escaped label values of arbitrary runes
  and timestamps, are parsed back to their records.
\<close>

theorem scrape_roundtrip:
  assumes "list_all wfLine ls"
  shows "scrapeParse letters digits (encodeRunes (exposition ls)) = Inr (concat (map lineRecords ls))"
  by (rule scrapeParse_exposition [OF assms])

definition sampleLines :: "expoLine list" where
  "sampleLines =
     [CommentLine (ascii '' HELP up''), SampleLine ''up'' [(''pod'', [233, 0x22, 10]), (''node'', ascii ''n1'')] ''+Inf'' (Some (- 5)),
      SampleLine ''x_1'' [] ''NaN'' None]"

theorem scrape_roundtrip_witness:
  "\<forall>letters digits. \<exists>a b. scrapeParse letters digits (encodeRunes (exposition sampleLines)) = Inr [a, b] \<and>
     mr_Name a = ''up'' \<and> mr_Value a = PosInf \<and> mr_Timestamp a = Some (- 5000000) \<and> mr_Name b = ''x_1'' \<and> mr_Value b = NaN"
proof (intro allI)
  fix letters digits
  have "wfName ''up''" "wfName ''pod''" "wfName ''node''" "wfName ''x_1''" by code_simp+
  moreover have "specialFloat ''+Inf'' = Some PosInf" "specialFloat ''NaN'' = Some NaN" by code_simp+
  then have "ParseFloat ''+Inf'' = Some PosInf" "ParseFloat ''NaN'' = Some NaN" by (simp_all add: ParseFloat_def)
  moreover have "list_all floatChar ''+Inf''" "isSign (CHR ''+'')" by (simp_all add: floatChar_def isSign_def)
  moreover have "list_all validRune (ascii '' HELP up'')" "10 \<notin> set (ascii '' HELP up'')" "list_all validRune (ascii ''n1'')"
    by (simp_all add: ascii_def validRune_def)
  ultimately have "list_all wfLine sampleLines"
    by (simp add: sampleLines_def wfValue_def validRune_def minInt64_def maxInt64_def)
  from scrape_roundtrip [OF this, of letters digits] have
    "scrapeParse letters digits (encodeRunes (exposition sampleLines)) = Inr (concat (map lineRecords sampleLines))" .
  moreover have "map mr_Name (concat (map lineRecords sampleLines)) = [''up'', ''x_1'']"
    "map mr_Value (concat (map lineRecords sampleLines)) = [PosInf, NaN]"
    "map mr_Timestamp (concat (map lineRecords sampleLines)) = [Some (- 5000000), None]"
    using \<open>ParseFloat ''+Inf'' = Some PosInf\<close> \<open>ParseFloat ''NaN'' = Some NaN\<close> by (simp_all add: sampleLines_def wrap64_def)
  ultimately show "\<exists>a b. scrapeParse letters digits (encodeRunes (exposition sampleLines)) = Inr [a, b] \<and>
     mr_Name a = ''up'' \<and> mr_Value a = PosInf \<and> mr_Timestamp a = Some (- 5000000) \<and> mr_Name b = ''x_1'' \<and> mr_Value b = NaN"
    by (auto simp: map_eq_Cons_conv)
qed

text \<open>
  The scanner does not take the characters underscore and colon that a metric name may have
  at every place: an underscore at the start is dropped, and a colon makes the parse fail.
\<close>

theorem scrape_name_characters:
  assumes "wfName a" and "wfName b"
  shows "scrapeParse letters digits (''_'' @ a @ rest) = scrapeParse letters digits (a @ rest) \<and>
    scrapeParse letters digits (a @ '':'' @ b @ '' '' @ rest) = Inl (ExpectedValue (scToken ScLiteral b))"
  using scrape_skips_underscore scrape_rejects_colon [OF assms] by simp

theorem scrape_name_characters_witness:
  "\<forall>letters digits. scrapeParse letters digits ''job:rate 1'' = Inl (ExpectedValue (scToken ScLiteral ''rate''))"
proof (intro allI)
  fix letters digits
  have "wfName ''job''" "wfName ''rate''" by code_simp+
  from scrape_name_characters [OF this, of letters digits "''1''"]
  show "scrapeParse letters digits ''job:rate 1'' = Inl (ExpectedValue (scToken ScLiteral ''rate''))" by simp
qed

text \<open>
  C33. After any updates, a registered collector holds for label values that occur in them exactly
  the aggregator fed with the samples of its metric that its filter accepts and that have these
  label values, provided the hash separates the label values that occur.
\<close>

theorem store_series:
  assumes "storeOk s" and "map_of (ms_byCollectorID s) cid = Some c" and "col_metrics c = []"
    and "inj_on Hash (insert ls (fst ` set (accepted c (forMetric (col_metricName c) us))))"
  shows "\<exists>c'. Query cid (storeRun us s) = Inr (collectorGet c') \<and>
    map_of (col_metrics c') (Hash ls) =
      series (col_aggregator c) (filter (\<lambda>(ls', _). ls' = ls) (accepted c (forMetric (col_metricName c) us)))"
proof -
  let ?c = "fold (\<lambda>(labels, smp). collectorUpdate labels smp) (forMetric (col_metricName c) us) c"
  have "Query cid (storeRun us s) = Inr (collectorGet ?c)"
    using storeRun_lookup [OF assms(1,2), of us] by (simp add: Query_def)
  with collector_series [OF assms(3,4)] show ?thesis by blast
qed

definition sampleStore :: metricStore where
  "sampleStore = snd (Register (NewMetricCollector ''PodMax'' ''m'' [''pod''] MaxOverTimeKind None) NewInMemoryMetricStore)"

definition sampleUpdates :: "metricUpdate list" where
  "sampleUpdates =
     [(''m'', [(''pod'', ''a'')], Fin 1, zeroTime, []), (''n'', [(''pod'', ''a'')], Fin 9, zeroTime, []),
      (''m'', [(''pod'', ''b'')], Fin 5, zeroTime, []), (''m'', [(''pod'', ''a'')], Fin 3, zeroTime, [])]"

theorem store_series_witness:
  "\<exists>c'. Query ''PodMax'' (storeRun sampleUpdates sampleStore) = Inr (collectorGet c') \<and>
     map_of (col_metrics c') (Hash [''a'']) = Some (MaxOverTime \<lparr>mx_labelValues = [''a''], mx_max = Fin 3\<rparr>)"
proof -
  let ?c = "NewMetricCollector ''PodMax'' ''m'' [''pod''] MaxOverTimeKind None"
  have ok: "storeOk sampleStore" unfolding sampleStore_def by (rule Register_ok [OF NewInMemoryMetricStore_ok])
  have c: "map_of (ms_byCollectorID sampleStore) ''PodMax'' = Some ?c"
    by (simp add: sampleStore_def Register_def NewInMemoryMetricStore_def NewMetricCollector_def)
  have acc: "accepted ?c (forMetric (col_metricName ?c) sampleUpdates) =
      [([''a''], Fin 1, zeroTime, []), ([''b''], Fin 5, zeroTime, []), ([''a''], Fin 3, zeroTime, [])]"
    by (simp add: accepted_def forMetric_def sampleUpdates_def NewMetricCollector_def mapStr_def)
  have "Hash [''a''] \<noteq> Hash [''b'']" by code_simp
  then have "inj_on Hash (insert [''a''] (fst ` set (accepted ?c (forMetric (col_metricName ?c) sampleUpdates))))"
    unfolding acc by (auto simp: inj_on_def)
  from store_series [OF ok c _ this] have "\<exists>c'. Query ''PodMax'' (storeRun sampleUpdates sampleStore) = Inr (collectorGet c') \<and>
    map_of (col_metrics c') (Hash [''a'']) = series (col_aggregator ?c)
      (filter (\<lambda>(ls', _). ls' = [''a'']) (accepted ?c (forMetric (col_metricName ?c) sampleUpdates)))"
    by (simp add: NewMetricCollector_def)
  then show ?thesis
    unfolding acc by (simp add: series_def NewMetricCollector_def maxUpdate_def)
qed

text \<open>
  The hash is of the concatenated label values, so two different series whose values have the
  same concatenation are merged into one, under the labels of the first.
\<close>

theorem hash_merges_series:
  assumes "l1 \<noteq> l2"
  shows "length (collectorGet (collectorUpdate [(l1, a), (l2, b @ c)] s2
      (collectorUpdate [(l1, a @ b), (l2, c)] s1 (NewMetricCollector cid name [l1, l2] kind None)))) = 1"
  using assms Hash_concat [of "[a @ b, c]"] Hash_concat [of "[a, b @ c]"]
  by (simp add: collectorUpdate_def NewMetricCollector_def mapStr_def Let_def collectorGet_def)

theorem hash_merges_series_witness:
  "\<forall>s1 s2. length (collectorGet (collectorUpdate [(''namespace'', ''kube''), (''pod'', ''-dns-1'')] s2
     (collectorUpdate [(''namespace'', ''kube-dns''), (''pod'', ''-1'')] s1
       (NewMetricCollector ''PodMax'' ''m'' [''namespace'', ''pod''] MaxOverTimeKind None)))) = 1"
  using hash_merges_series [of "''namespace''" "''pod''" "''kube''" "''-dns''" "''-1''"] by simp

text \<open>
  C34. Of a counter with whole values, sampled at increasing times, the increase is exactly the sum
  of the rises from one sample to the next; drops and the first sample count nothing.
\<close>

theorem increase_exact:
  assumes "ss \<noteq> []" and "increasingFrom 0 ss" and "countersOk (map snd ss)"
  shows "aggValue (fold aggUpdate (intSamples ss) (newAggregator IncreaseKind ls)) =
    plainValue (Fin (of_int (rises (map snd ss))))"
  using increase_fold [OF assms, of ls] by (auto simp: increaseValue_def)

theorem increase_exact_witness:
  "\<forall>ls. aggValue (fold aggUpdate (intSamples [(timeUnix 1, 10), (timeUnix 2, 15), (timeUnix 3, 2), (timeUnix 4, 4)])
     (newAggregator IncreaseKind ls)) = plainValue (Fin 7)"
proof
  fix ls
  let ?ss = "[(timeUnix 1, 10), (timeUnix 2, 15), (timeUnix 3, 2), (timeUnix 4, 4 :: int)]"
  have "increasingFrom 0 ?ss" by code_simp
  moreover have "countersOk (map snd ?ss)" by (simp add: countersOk_def)
  ultimately show "aggValue (fold aggUpdate (intSamples ?ss) (newAggregator IncreaseKind ls)) = plainValue (Fin 7)"
    using increase_exact [of ?ss ls] by simp
qed

text \<open>
  The start of the interval of a time is at or before it and less than one interval earlier,
  and is its own start; intervals of weeks start on Sundays at midnight UTC.
\<close>

theorem interval_windows:
  assumes "validInterval i"
  shows "tm_ns (intervalTruncate i t) \<le> tm_ns t \<and> tm_ns t < tm_ns (intervalAdd i (intervalTruncate i t) 1) \<and>
    intervalTruncate i (intervalTruncate i t) = intervalTruncate i t \<and>
    (\<forall>c. i = WeekInterval c \<longrightarrow> timeWeekday (intervalTruncate i t) = 0 \<and> tm_ns (intervalTruncate i t) mod Day = 0)"
  using interval_window [OF assms, of t] week_starts_sunday assms by blast

theorem interval_windows_witness:
  "\<forall>t. timeWeekday (intervalTruncate (WeekInterval 2) t) = 0 \<and> tm_ns (intervalTruncate (WeekInterval 2) t) \<le> tm_ns t"
proof
  fix t
  have "validInterval (WeekInterval 2)" by (simp add: validInterval_def durations maxInt64_def)
  from interval_windows [OF this, of t]
  show "timeWeekday (intervalTruncate (WeekInterval 2) t) = 0 \<and> tm_ns (intervalTruncate (WeekInterval 2) t) \<le> tm_ns t" by blast
qed

text \<open>
  C35. After a set of updates that is not too old, the store of its window has all of them applied,
  to a new store if there was none; a set exactly at the start of a window is also applied to the
  store of the window before, if that exists; every other window is as before.
\<close>

theorem repository_update:
  assumes "retains (rs_resolution r)"
    and "\<not> timeBefore (us_Timestamp us) (resLimit now (rs_resolution r))" and "\<not> timeBefore t (resLimit now (rs_resolution r))"
  shows "resGetCollector now t (resUpdate upd now us r) =
    (let i = rsl_interval (rs_resolution r); w = windowNumber i (us_Timestamp us); n = windowNumber i t
     in case (if n = w then Some (applyAll upd us (case storeAt r n of None \<Rightarrow> rs_factory r | Some s \<Rightarrow> s))
              else if n = w - 1 \<and> onBoundary i (us_Timestamp us) then map_option (applyAll upd us) (storeAt r n)
              else storeAt r n) of
          None \<Rightarrow> Inl (NoWindow t)
        | Some s \<Rightarrow> Inr s)"
proof -
  have v: "validInterval (rsl_interval (rs_resolution r))" "1000000 \<le> gridLen (rsl_interval (rs_resolution r))"
    using assms(1) by (simp_all add: retains_def)
  let ?n = "windowNumber (rsl_interval (rs_resolution r)) t"
  have "resGetCollector now t (resUpdate upd now us r) =
      (case storeAt (resUpdate upd now us r) ?n of None \<Rightarrow> Inl (NoWindow t) | Some s \<Rightarrow> Inr s)"
    using assms(3) key_of_window [OF v(1), of t] by (simp add: resGetCollector_def resGet_def storeAt_def)
  also note resUpdate_storeAt [OF v assms(2)]
  finally show ?thesis by (simp add: Let_def)
qed

definition sampleResolution :: resolution where
  "sampleResolution = \<lparr>rsl_interval = DurationInterval Hour, rsl_intervalDef = ''1h'', rsl_retention = 3\<rparr>"

lemma sampleResolution_retains: "retains sampleResolution"
  by (simp add: retains_def sampleResolution_def validInterval_def durations maxInt64_def)

theorem repository_update_witness:
  "\<forall>upd s. resGetCollector (timeUnix 7300) (timeUnix 7201)
     (resUpdate upd (timeUnix 7300) \<lparr>us_Timestamp = timeUnix 7200, us_Updates = []\<rparr> (newResolutionStores sampleResolution s)) = Inr s"
proof (intro allI)
  fix upd :: "string \<Rightarrow> string gomap \<Rightarrow> sample \<Rightarrow> 'b \<Rightarrow> 'b" and s :: 'b
  let ?r = "newResolutionStores sampleResolution s" and ?us = "\<lparr>us_Timestamp = timeUnix 7200, us_Updates = []\<rparr>"
  have f: "rs_resolution ?r = sampleResolution" "storeAt ?r n = None" "rs_factory ?r = s" for n
    by (simp_all add: newResolutionStores_def storeAt_def)
  have "\<not> timeBefore (timeUnix 7200) (resLimit (timeUnix 7300) sampleResolution)"
    "\<not> timeBefore (timeUnix 7201) (resLimit (timeUnix 7300) sampleResolution)"
    "windowNumber (rsl_interval sampleResolution) (timeUnix 7200) = windowNumber (rsl_interval sampleResolution) (timeUnix 7201)"
    by code_simp+
  with repository_update [of ?r ?us "timeUnix 7300" "timeUnix 7201" upd] sampleResolution_retains
  show "resGetCollector (timeUnix 7300) (timeUnix 7201) (resUpdate upd (timeUnix 7300) ?us ?r) = Inr s"
    by (simp add: f applyAll_def)
qed

text \<open>
  C36. Whatever updates, not from the future, arrive while time goes on, after a clean a
  resolution holds at most as many windows as its retention, and every store is consistent.
\<close>

theorem repository_bounded:
  assumes "repoRuns storeUpdate now0 (newResolutionStores res factory) now r" and "retains res" and "storeOk factory"
  shows "int (length (rs_collectors (resClean now r))) \<le> rsl_retention res \<and>
    (\<forall>s \<in> ran (map_of (rs_collectors r)). storeOk s)"
proof -
  have "validInterval (rsl_interval res)" using assms(2) by (simp add: retains_def)
  from repo_invariant [OF assms(1) this] clean_bound [of r now] assms(2) mstores.stores_ok [OF assms(1,3)]
  show ?thesis by auto
qed

lemma run_refl: "repoRuns upd now r now r"
  by (simp add: repoRuns_def)

theorem repository_bounded_witness:
  "int (length (rs_collectors (resClean (timeUnix 7300) (newResolutionStores sampleResolution sampleStore)))) \<le> 3"
proof -
  have "storeOk sampleStore" unfolding sampleStore_def by (rule Register_ok [OF NewInMemoryMetricStore_ok])
  with repository_bounded [OF run_refl sampleResolution_retains] show ?thesis by (simp add: sampleResolution_def)
qed

text \<open>
  C37. A window that holds a store still holds one later, whatever happens in between, until it is
  older than the retention.
\<close>

theorem repository_retention:
  assumes "repoRuns upd now r now' r'" and "retains (rs_resolution r)" and "storeAt r n \<noteq> None"
    and "windowNumber (rsl_interval (rs_resolution r)) now' - (rsl_retention (rs_resolution r) - 1) \<le> n"
  shows "storeAt r' n \<noteq> None"
  by (rule repo_retention [OF assms])

theorem repository_retention_witness:
  "\<forall>s. let n = windowNumber (DurationInterval Hour) (timeUnix 0);
         r = \<lparr>rs_resolution = sampleResolution, rs_collectors = [(windowKey (DurationInterval Hour) n, s)], rs_factory = s\<rparr>
     in storeAt (resClean (timeUnix 7300) r) n \<noteq> None"
proof (intro allI)
  fix s :: 's
  let ?n = "windowNumber (DurationInterval Hour) (timeUnix 0)"
  let ?r = "\<lparr>rs_resolution = sampleResolution, rs_collectors = [(windowKey (DurationInterval Hour) ?n, s)], rs_factory = s\<rparr>"
  have "repoStep (\<lambda>_ _ _ s. s) (timeUnix 7300, ?r) (timeUnix 7300, resClean (timeUnix 7300) ?r)" by (rule repoStep.clean)
  then have run: "repoRuns (\<lambda>_ _ _ s. s) (timeUnix 7300) ?r (timeUnix 7300) (resClean (timeUnix 7300) ?r)"
    by (simp add: repoRuns_def)
  have ret: "retains (rs_resolution ?r)" by (simp add: sampleResolution_retains)
  have at: "storeAt ?r ?n \<noteq> None" by (simp add: storeAt_def sampleResolution_def)
  have "windowNumber (rsl_interval sampleResolution) (timeUnix 7300) - (rsl_retention sampleResolution - 1) \<le> ?n" by code_simp
  then have "storeAt (resClean (timeUnix 7300) ?r) ?n \<noteq> None" by (intro repository_retention [OF run ret at]) simp
  then show "let n = ?n;
         r = \<lparr>rs_resolution = sampleResolution, rs_collectors = [(windowKey (DurationInterval Hour) n, s)], rs_factory = s\<rparr>
     in storeAt (resClean (timeUnix 7300) r) n \<noteq> None" by (simp add: Let_def)
qed

text \<open>
  C38. The synthesizers never read through a nil pointer, whatever updates arrive: a set passes
  with the derived updates appended, which have the allocation names and a number as value, and
  the synthesizers are ready for the next set.
\<close>

theorem synthesis_safe:
  assumes "list_all synthOk ss"
  shows "\<exists>new ss'. synthesizersUpdate us ss = Some (us\<lparr>us_Updates := us_Updates us @ new\<rparr>, ss') \<and>
    list_all derived new \<and> list_all synthOk ss'"
  by (rule synthesizersUpdate_ok [OF assms])

theorem synthesis_safe_witness:
  "\<forall>us. \<exists>r. synthesizersUpdate us [MemorySynthesizer [], CpuSynthesizer []] = Some r"
proof
  fix us
  have "list_all synthOk [MemorySynthesizer [], CpuSynthesizer []]" by (simp add: allEntries_def)
  from synthesis_safe [OF this, of us] show "\<exists>r. synthesizersUpdate us [MemorySynthesizer [], CpuSynthesizer []] = Some r" by blast
qed


text \<open>
  C40. If a container reports processor time in a scrape and once in the next one, the processor
  allocation derived from the second is the rate between the two, or its request if that is
  larger.
\<close>

theorem cpu_allocation:
  assumes "wfPods m" and "usageOf ContainerCPUUsageSecondsTotal pod ctr us1 \<noteq> []"
    and "usageOf ContainerCPUUsageSecondsTotal pod ctr us2 = [u2]"
  shows "\<exists>e. podEntry (fold (cpuProcess t2) us2 (cpuClear (fold (cpuProcess t1) us1 m))) pod ctr = Some e \<and> cpuIsValid e \<and>
    cpuSynthesize e = Some (allocationUpdate ContainerCPUAllocation (upd_Labels u2)
      (let rate = zeroNaN (usageRate t1 (upd_Value (last (usageOf ContainerCPUUsageSecondsTotal pod ctr us1))) t2 (upd_Value u2))
       in case lastOpt (requestsOf ''cpu'' ''core'' pod ctr us2) of
            None \<Rightarrow> rate
          | Some r \<Rightarrow> fmax (zeroNaN (upd_Value r)) rate))"
  by (rule cpu_two_scrapes [OF assms])

definition sampleUsage :: "rat \<Rightarrow> update" where
  "sampleUsage v = \<lparr>upd_Name = ContainerCPUUsageSecondsTotal, upd_Labels = [(''uid'', ''p''), (''container'', ''c'')],
     upd_Value = Fin v, upd_AdditionalInfo = []\<rparr>"

theorem cpu_allocation_witness:
  "\<exists>e. podEntry (fold (cpuProcess (timeUnix 60)) [sampleUsage 9] (cpuClear (fold (cpuProcess (timeUnix 0)) [sampleUsage 3] []))) ''p'' ''c'' = Some e \<and>
     cpuIsValid e"
proof -
  have u: "usageOf ContainerCPUUsageSecondsTotal ''p'' ''c'' [sampleUsage v] = [sampleUsage v]" for v
    by (simp add: usageOf_def sampleUsage_def isValidUsage_def ofContainer_def mapStr_def UIDLabel_def ContainerLabel_def)
  have "wfPods []" by (simp add: wfPods_def)
  from cpu_allocation [OF this, of "''p''" "''c''" "[sampleUsage 3]" "[sampleUsage 9]" "sampleUsage 9" "timeUnix 60" "timeUnix 0"] u
  show ?thesis by auto
qed

end
